(* ===== verification/Prelude.thy ===== *)
theory Prelude
  imports Complex_Main "HOL-Library.Word" "HOL-Library.AList" "HOL-Library.Code_Target_Nat"
begin

text \<open>
  Shared vocabulary of the development.

  \<^item> Exceptions of the Python sources are values of \<open>exn\<close>; a function that may raise returns
    \<open>exn + 'a\<close> with \<open>Inl\<close> for the raised exception. An exception carries the fixed text of its
    message; a value the source interpolates into the text is written \<open>{}\<close>.
  \<^item> \<open>bindE\<close> runs one fallible step after another, \<open>mapE\<close> a fallible list comprehension and
    \<open>foldE\<close> a fallible \<open>for\<close> loop with an accumulator. A raise statement is written
    \<open>if bad then Inl e else \<dots>\<close>, so the models keep the order of the checks in the source.
  \<^item> The collection \<open>res_simps\<close> inverts a successful run into the facts its checks established.
  \<^item> The locale \<open>stream_loop\<close> is the contract of the \<open>while offset < len(data)\<close> loops of the
    parsers; the parsers interpret it.
\<close>

unbundle bit_operations_syntax

named_theorems res_simps "inversion of successful runs"
named_theorems raises_intros "introduction rules for raises_only"

section \<open>Exceptions and the result monad\<close>

datatype exn =
    PacketCaptureError string
  | RawArtifactError string
  | ArchiveError string string
  | ObservationError string string
  | SessionError string string
  | TransactionError string string
  | OutcomeUnknownError string string
  | TypeError string
  | ValueError string
  | KeyError
  | IndexError
  | StructError
  | UnicodeDecodeError
  | UnicodeEncodeError
  | JSONDecodeError
  | OSError string
  | PreSendError
  | RemoteOutcomeUnknown
  | ClientError
  | CommandError
  | HTTPException
  | ArchiveContractError string
  | HeaderError
  | NotaryArchiveError string
  | BadZipFile
  | RuntimeError
  | ZlibError
  | ProcessKilled

type_synonym 'a res = "exn + 'a"

definition bindE :: "'e + 'a \<Rightarrow> ('a \<Rightarrow> 'e + 'b) \<Rightarrow> 'e + 'b" where
  "bindE m f = (case m of Inl e \<Rightarrow> Inl e | Inr x \<Rightarrow> f x)"

lemma bindE_Inl [simp]: "bindE (Inl e) f = Inl e"
  by (simp add: bindE_def)

lemma bindE_Inr [simp]: "bindE (Inr x) f = f x"
  by (simp add: bindE_def)

lemma bindE_eq_Inr [res_simps]: "bindE m f = Inr y \<longleftrightarrow> (\<exists>x. m = Inr x \<and> f x = Inr y)"
  by (cases m) auto

lemma bindE_eq_Inl: "bindE m f = Inl e \<longleftrightarrow> m = Inl e \<or> (\<exists>x. m = Inr x \<and> f x = Inl e)"
  by (cases m) auto

lemma bindE_assoc: "bindE (bindE m f) g = bindE m (\<lambda>x. bindE (f x) g)"
  by (cases m) auto

lemma bindE_cong [fundef_cong]:
  "m = m' \<Longrightarrow> (\<And>x. m' = Inr x \<Longrightarrow> f x = f' x) \<Longrightarrow> bindE m f = bindE m' f'"
  by (cases m') auto

lemma guard_eq_Inr [res_simps]: "(if b then Inl e else m) = Inr y \<longleftrightarrow> \<not> b \<and> m = Inr y"
  by simp

lemma neg_guard_eq_Inr [res_simps]: "(if b then m else Inl e) = Inr y \<longleftrightarrow> b \<and> m = Inr y"
  by simp

lemma case_list_cons_eq_Inr [res_simps]:
  "(case xs of [] \<Rightarrow> Inl e | y # ys \<Rightarrow> f y ys) = Inr z \<longleftrightarrow> (\<exists>y ys. xs = y # ys \<and> f y ys = Inr z)"
  by (cases xs) auto

lemma case_list_nil_eq_Inr [res_simps]:
  "(case xs of [] \<Rightarrow> m | y # ys \<Rightarrow> Inl e) = Inr z \<longleftrightarrow> xs = [] \<and> m = Inr z"
  by (cases xs) auto

lemma case_option_eq_Inr [res_simps]:
  "(case x of None \<Rightarrow> Inl e | Some y \<Rightarrow> f y) = Inr z \<longleftrightarrow> (\<exists>y. x = Some y \<and> f y = Inr z)"
  by (cases x) auto

lemma case_prod_eq_Inr [res_simps]:
  "(case p of (a, b) \<Rightarrow> f a b) = Inr z \<longleftrightarrow> (\<exists>a b. p = (a, b) \<and> f a b = Inr z)"
  by (cases p) auto

primrec mapE :: "('a \<Rightarrow> 'e + 'b) \<Rightarrow> 'a list \<Rightarrow> 'e + 'b list" where
  "mapE f [] = Inr []"
| "mapE f (x # xs) = bindE (f x) (\<lambda>y. bindE (mapE f xs) (\<lambda>ys. Inr (y # ys)))"

primrec foldE :: "('s \<Rightarrow> 'a \<Rightarrow> 'e + 's) \<Rightarrow> 's \<Rightarrow> 'a list \<Rightarrow> 'e + 's" where
  "foldE f s [] = Inr s"
| "foldE f s (x # xs) = bindE (f s x) (\<lambda>s'. foldE f s' xs)"

lemma mapE_cong [fundef_cong]: "xs = ys \<Longrightarrow> (\<And>x. x \<in> set ys \<Longrightarrow> f x = g x) \<Longrightarrow> mapE f xs = mapE g ys"
  by (induction ys arbitrary: xs) auto

lemma foldE_cong [fundef_cong]:
  "s = t \<Longrightarrow> xs = ys \<Longrightarrow> (\<And>s x. x \<in> set ys \<Longrightarrow> f s x = g s x) \<Longrightarrow> foldE f s xs = foldE g t ys"
proof (induction ys arbitrary: xs s t)
  case (Cons y ys)
  then have "f t y = g t y" by simp
  with Cons show ?case by (cases "g t y") auto
qed auto

lemma mapE_eq_Inr_iff: "mapE f xs = Inr ys \<longleftrightarrow> list_all2 (\<lambda>x y. f x = Inr y) xs ys"
  by (induction xs arbitrary: ys) (auto simp: bindE_eq_Inr list_all2_Cons1)

lemma mapE_length: "mapE f xs = Inr ys \<Longrightarrow> length ys = length xs"
  by (auto simp: mapE_eq_Inr_iff dest: list_all2_lengthD)

lemma mapE_in_set:
  assumes "mapE f xs = Inr ys" and "y \<in> set ys"
  shows "\<exists>x \<in> set xs. f x = Inr y"
  using assms by (force simp: mapE_eq_Inr_iff list_all2_conv_all_nth in_set_conv_nth)

lemma mapE_Inr_in_set:
  assumes "mapE f xs = Inr ys" and "x \<in> set xs"
  shows "\<exists>y \<in> set ys. f x = Inr y"
  using assms by (force simp: mapE_eq_Inr_iff list_all2_conv_all_nth in_set_conv_nth)

lemma mapE_Inr_map: "(\<And>x. x \<in> set xs \<Longrightarrow> f x = Inr (g x)) \<Longrightarrow> mapE f xs = Inr (map g xs)"
  by (induction xs) auto

lemma foldE_append: "foldE f s (xs @ ys) = bindE (foldE f s xs) (\<lambda>s'. foldE f s' ys)"
  by (induction xs arbitrary: s) (auto simp: bindE_assoc)

lemma foldE_total: "(\<And>s x. x \<in> set xs \<Longrightarrow> \<exists>s'. f s x = Inr s') \<Longrightarrow> \<exists>s'. foldE f s xs = Inr s'"
proof (induction xs arbitrary: s)
  case (Cons x xs)
  obtain s' where "f s x = Inr s'" using Cons.prems [of x s] by auto
  then show ?case using Cons.IH [of s'] Cons.prems by simp
qed simp

lemma foldE_invariant:
  assumes "foldE f s xs = Inr s'" and "I s"
    and "\<And>s x s'. x \<in> set xs \<Longrightarrow> I s \<Longrightarrow> f s x = Inr s' \<Longrightarrow> I s'"
  shows "I s'"
  using assms by (induction xs arbitrary: s) (auto simp: bindE_eq_Inr)

lemma foldE_prefix_invariant:
  assumes "foldE f s xs = Inr s'" and "I [] s"
    and "\<And>prev x s s'. x \<in> set xs \<Longrightarrow> I prev s \<Longrightarrow> f s x = Inr s' \<Longrightarrow> I (prev @ [x]) s'"
  shows "I xs s'"
  using assms
proof (induction xs arbitrary: s' rule: rev_induct)
  case (snoc x xs)
  then obtain s1 where "foldE f s xs = Inr s1" "f s1 x = Inr s'"
    by (auto simp: foldE_append bindE_eq_Inr)
  moreover from this snoc.prems have "I xs s1" by (intro snoc.IH) auto
  ultimately show ?case using snoc.prems(3) [of x xs s1 s'] by simp
qed simp

section \<open>Which exceptions a run can raise\<close>

definition raises_only :: "(exn \<Rightarrow> bool) \<Rightarrow> 'a res \<Rightarrow> bool" where
  "raises_only P m = (case m of Inl e \<Rightarrow> P e | Inr _ \<Rightarrow> True)"

lemma raises_only_Inr [simp, raises_intros]: "raises_only P (Inr x)"
  by (simp add: raises_only_def)

lemma raises_only_Inl [simp]: "raises_only P (Inl e) = P e"
  by (simp add: raises_only_def)

lemma raises_only_bindE [raises_intros]:
  "raises_only P m \<Longrightarrow> (\<And>x. m = Inr x \<Longrightarrow> raises_only P (f x)) \<Longrightarrow> raises_only P (bindE m f)"
  by (cases m) auto

lemma raises_only_if [raises_intros]:
  "(b \<Longrightarrow> raises_only P m) \<Longrightarrow> (\<not> b \<Longrightarrow> raises_only P n) \<Longrightarrow> raises_only P (if b then m else n)"
  by simp

lemma raises_only_case_sum [raises_intros]:
  "(\<And>e. m = Inl e \<Longrightarrow> raises_only P (f e)) \<Longrightarrow> (\<And>x. m = Inr x \<Longrightarrow> raises_only P (g x)) \<Longrightarrow>
   raises_only P (case m of Inl e \<Rightarrow> f e | Inr x \<Rightarrow> g x)"
  by (cases m) auto

lemma raises_only_case_option [raises_intros]:
  "(m = None \<Longrightarrow> raises_only P a) \<Longrightarrow> (\<And>x. m = Some x \<Longrightarrow> raises_only P (g x)) \<Longrightarrow>
   raises_only P (case m of None \<Rightarrow> a | Some x \<Rightarrow> g x)"
  by (cases m) auto

lemma raises_only_case_list [raises_intros]:
  "(xs = [] \<Longrightarrow> raises_only P a) \<Longrightarrow> (\<And>y ys. xs = y # ys \<Longrightarrow> raises_only P (f y ys)) \<Longrightarrow>
   raises_only P (case xs of [] \<Rightarrow> a | y # ys \<Rightarrow> f y ys)"
  by (cases xs) auto

lemma raises_only_case_prod [raises_intros]:
  "(\<And>x y. p = (x, y) \<Longrightarrow> raises_only P (f x y)) \<Longrightarrow> raises_only P (case p of (x, y) \<Rightarrow> f x y)"
  by (cases p) auto

lemma raises_only_mapE [raises_intros]:
  "(\<And>x. x \<in> set xs \<Longrightarrow> raises_only P (f x)) \<Longrightarrow> raises_only P (mapE f xs)"
  by (induction xs) (auto intro!: raises_only_bindE)

lemma raises_only_foldE:
  assumes "I s"
    and "\<And>s x. x \<in> set xs \<Longrightarrow> I s \<Longrightarrow> raises_only P (f s x)"
    and "\<And>s x s'. x \<in> set xs \<Longrightarrow> I s \<Longrightarrow> f s x = Inr s' \<Longrightarrow> I s'"
  shows "raises_only P (foldE f s xs)"
  using assms
proof (induction xs arbitrary: s)
  case (Cons x xs)
  have "raises_only P (foldE f s' xs)" if "f s x = Inr s'" for s'
    using that Cons.prems by (intro Cons.IH) (auto intro: Cons.prems(2,3))
  with Cons.prems show ?case by (auto intro!: raises_only_bindE)
qed simp

lemma raises_only_foldE_always:
  "(\<And>s x. x \<in> set xs \<Longrightarrow> raises_only P (f s x)) \<Longrightarrow> raises_only P (foldE f s xs)"
  by (rule raises_only_foldE [where I = "\<lambda>_. True"]) auto

lemma raises_only_not_Inl: "raises_only P m \<Longrightarrow> m = Inl e \<Longrightarrow> P e"
  by simp

fun is_capture_error :: "exn \<Rightarrow> bool" where
  "is_capture_error (PacketCaptureError _) = True"
| "is_capture_error _ = False"

section \<open>Slices\<close>

text \<open>\<open>py_slice xs a b\<close> is Python's \<open>xs[a:b]\<close> for non-negative bounds.\<close>

definition py_slice :: "'a list \<Rightarrow> nat \<Rightarrow> nat \<Rightarrow> 'a list" where
  "py_slice xs a b = take (b - a) (drop a xs)"

lemma length_py_slice [simp]: "length (py_slice xs a b) = min (b - a) (length xs - a)"
  by (simp add: py_slice_def)

lemma py_slice_append_left [simp]: "py_slice (xs @ ys) (length xs) (length xs + n) = take n ys"
  by (simp add: py_slice_def)

lemma py_slice_nth: "i < b - a \<Longrightarrow> a + i < length xs \<Longrightarrow> py_slice xs a b ! i = xs ! (a + i)"
  by (simp add: py_slice_def)

lemma set_py_slice_subset: "set (py_slice xs a b) \<subseteq> set xs"
  unfolding py_slice_def by (meson dual_order.trans set_drop_subset set_take_subset)

lemma py_slice_cover: "a \<le> b \<Longrightarrow> take a xs @ py_slice xs a b = take b xs"
  unfolding py_slice_def by (metis le_add_diff_inverse take_add)

lemma py_slice_join: "a \<le> b \<Longrightarrow> b \<le> c \<Longrightarrow> py_slice xs a b @ py_slice xs b c = py_slice xs a c"
  using take_add [of "b - a" "c - b" "drop a xs"] by (simp add: py_slice_def)

lemma py_slice_join_append:
  "a \<le> b \<Longrightarrow> b \<le> c \<Longrightarrow> py_slice xs a b @ py_slice xs b c @ ys = py_slice xs a c @ ys"
  by (simp add: py_slice_join flip: append_assoc)

lemma py_slice_all: "py_slice xs 0 (length xs) = xs"
  by (simp add: py_slice_def)

lemma py_slice_drop: "a \<le> b \<Longrightarrow> py_slice xs a b @ drop b xs = drop a xs"
  unfolding py_slice_def by (metis append_take_drop_id drop_drop le_add_diff_inverse2)

section \<open>Loops over a byte stream\<close>

text \<open>
  The parsers run \<open>while offset < len(data): \<dots>\<close> where the body is one fallible step that
  advances the offset. A provider gives the step, the loop that iterates it and the offset of a
  state, and promises that the loop unfolds and that a step makes progress inside the data. The
  client lemmas are the rules every such loop satisfies.
\<close>

locale stream_loop =
  fixes step :: "'d list \<Rightarrow> 's \<Rightarrow> 's res"
    and loop :: "'d list \<Rightarrow> 's \<Rightarrow> 's res"
    and offset :: "'s \<Rightarrow> nat"
  assumes loop_unfold:
      "loop d s = (if offset s < length d then bindE (step d s) (loop d) else Inr s)"
    and step_progress:
      "offset s < length d \<Longrightarrow> step d s = Inr s' \<Longrightarrow> offset s < offset s' \<and> offset s' \<le> length d"
begin

lemma loop_invariant:
  assumes "loop d s = Inr t" and "I s"
    and "\<And>s s'. I s \<Longrightarrow> offset s < length d \<Longrightarrow> step d s = Inr s' \<Longrightarrow> I s'"
  shows "I t"
  using assms(1,2)
proof (induction "length d - offset s" arbitrary: s rule: less_induct)
  case less
  show ?case
  proof (cases "offset s < length d")
    case True
    with less.prems(1) obtain s' where s': "step d s = Inr s'" "loop d s' = Inr t"
      by (auto simp: loop_unfold [of d s] bindE_eq_Inr)
    with True step_progress have "length d - offset s' < length d - offset s" by fastforce
    with s' assms(3) [OF less.prems(2) True s'(1)] show ?thesis using less.hyps by blast
  next
    case False
    with less.prems show ?thesis by (simp add: loop_unfold [of d s])
  qed
qed

lemma loop_at_end:
  assumes "loop d s = Inr t" and "offset s \<le> length d"
  shows "offset t = length d"
  using assms
proof (induction "length d - offset s" arbitrary: s rule: less_induct)
  case less
  show ?case
  proof (cases "offset s < length d")
    case True
    with less.prems(1) obtain s' where s': "step d s = Inr s'" "loop d s' = Inr t"
      by (auto simp: loop_unfold [of d s] bindE_eq_Inr)
    with True step_progress have "length d - offset s' < length d - offset s" "offset s' \<le> length d"
      by fastforce+
    with s' show ?thesis using less.hyps by blast
  next
    case False
    with less.prems show ?thesis by (simp add: loop_unfold [of d s])
  qed
qed

lemma loop_raises_only:
  assumes "I s"
    and "\<And>s s'. I s \<Longrightarrow> offset s < length d \<Longrightarrow> step d s = Inr s' \<Longrightarrow> I s'"
    and "\<And>s. I s \<Longrightarrow> offset s < length d \<Longrightarrow> raises_only P (step d s)"
  shows "raises_only P (loop d s)"
  using assms(1)
proof (induction "length d - offset s" arbitrary: s rule: less_induct)
  case less
  show ?case
  proof (cases "offset s < length d")
    case True
    have "raises_only P (bindE (step d s) (loop d))"
    proof (rule raises_only_bindE)
      show "raises_only P (step d s)" using assms(3) less.prems True by blast
      fix s' assume s': "step d s = Inr s'"
      with True step_progress have "length d - offset s' < length d - offset s" by fastforce
      with less.hyps assms(2) less.prems True s' show "raises_only P (loop d s')" by blast
    qed
    with True show ?thesis by (simp add: loop_unfold [of d s])
  next
    case False
    then show ?thesis by (simp add: loop_unfold [of d s])
  qed
qed

end

end
