(* ===== verification/Py_Data.thy ===== *)
theory Py_Data
  imports Prelude
begin

text \<open>
  The parts of Python's built-in types and standard library that the sources use: byte strings
  (\<open>bytes\<close>, \<open>int.from_bytes\<close>, \<open>struct.unpack_from\<close>, \<open>bytes.find\<close>), ASCII text
  (\<open>bytes.decode("ascii")\<close>, \<open>str.lower\<close>, \<open>str.split\<close>, \<open>str.join\<close>, \<open>str.strip\<close>) and sequence
  indexing with Python's negative indices and \<open>IndexError\<close>. A byte is an \<open>8 word\<close>; a Python
  integer that cannot be negative is a \<open>nat\<close>, one that can is an \<open>int\<close>. Text is a \<open>string\<close>.
\<close>

type_synonym byte = "8 word"
type_synonym bytes = "byte list"

section \<open>Integers in byte strings\<close>

datatype endian = Little | Big

definition be_nat :: "bytes \<Rightarrow> nat" where
  "be_nat bs = foldl (\<lambda>acc b. acc * 256 + unat b) 0 bs"

definition int_from_bytes :: "endian \<Rightarrow> bytes \<Rightarrow> nat" where
  "int_from_bytes e bs = be_nat (case e of Big \<Rightarrow> bs | Little \<Rightarrow> rev bs)"

definition to_signed :: "nat \<Rightarrow> nat \<Rightarrow> int" where
  "to_signed w n = (if n < 2 ^ (w - 1) then int n else int n - 2 ^ w)"

text \<open>
  \<open>struct.unpack_from(fmt, data, offset)\<close> raises \<open>struct.error\<close> unless the format's size fits;
  the fields are then read out of the returned slice with \<open>ufield\<close> (unsigned) and \<open>sfield\<close>
  (two's complement).
\<close>

definition unpack_from :: "nat \<Rightarrow> bytes \<Rightarrow> nat \<Rightarrow> bytes res" where
  "unpack_from n data off =
     (if off + n \<le> length data then Inr (py_slice data off (off + n)) else Inl StructError)"

definition ufield :: "endian \<Rightarrow> bytes \<Rightarrow> nat \<Rightarrow> nat \<Rightarrow> nat" where
  "ufield e fields i w = int_from_bytes e (py_slice fields i (i + w))"

definition sfield :: "endian \<Rightarrow> bytes \<Rightarrow> nat \<Rightarrow> nat \<Rightarrow> int" where
  "sfield e fields i w = to_signed (8 * w) (ufield e fields i w)"

text \<open>\<open>data[i]\<close> on a byte string, and the general \<open>xs[i]\<close> with negative indices.\<close>

definition byte_at :: "bytes \<Rightarrow> nat \<Rightarrow> nat res" where
  "byte_at data i = (if i < length data then Inr (unat (data ! i)) else Inl IndexError)"

definition py_index :: "'a list \<Rightarrow> int \<Rightarrow> 'a res" where
  "py_index xs i =
     (if 0 \<le> i \<and> i < int (length xs) then Inr (xs ! nat i)
      else if - int (length xs) \<le> i \<and> i < 0 then Inr (xs ! nat (int (length xs) + i))
      else Inl IndexError)"

text \<open>\<open>int.to_bytes(width, "big")\<close> for values that fit.\<close>

primrec to_bytes_be :: "nat \<Rightarrow> nat \<Rightarrow> bytes" where
  "to_bytes_be 0 n = []"
| "to_bytes_be (Suc w) n = to_bytes_be w (n div 256) @ [word_of_nat (n mod 256)]"

definition to_bytes :: "endian \<Rightarrow> nat \<Rightarrow> nat \<Rightarrow> bytes" where
  "to_bytes e w n = (case e of Big \<Rightarrow> to_bytes_be w n | Little \<Rightarrow> rev (to_bytes_be w n))"

lemma be_nat_Nil [simp]: "be_nat [] = 0"
  by (simp add: be_nat_def)

lemma be_nat_snoc [simp]: "be_nat (bs @ [b]) = be_nat bs * 256 + unat b"
  by (simp add: be_nat_def)

lemma unat_byte_less [simp]: "unat (b :: byte) < 256"
  using unsigned_less [of b, where ?'a = nat] by simp

lemma be_nat_less: "be_nat bs < 256 ^ length bs"
proof (induction bs rule: rev_induct)
  case (snoc b bs)
  have "be_nat bs * 256 + unat b < (be_nat bs + 1) * 256"
    using unat_byte_less [of b] by simp
  also have "\<dots> \<le> 256 ^ length bs * 256" using snoc by (intro mult_right_mono) auto
  finally show ?case by simp
qed simp

lemma int_from_bytes_less:
  assumes "length bs \<le> w"
  shows "int_from_bytes e bs < 256 ^ w"
proof -
  have "int_from_bytes e bs < 256 ^ length bs"
    using be_nat_less [of bs] be_nat_less [of "rev bs"]
    by (simp add: int_from_bytes_def split: endian.splits)
  also have "(256::nat) ^ length bs \<le> 256 ^ w" using assms by (intro power_increasing) auto
  finally show ?thesis .
qed

lemma ufield_less: "ufield e fields i w < 256 ^ w"
  unfolding ufield_def by (rule int_from_bytes_less) simp

lemma ufield2_less: "ufield e fields i 2 < 65536"
  using ufield_less [of e fields i 2] by simp

lemma ufield4_less: "ufield e fields i 4 < 4294967296"
  using ufield_less [of e fields i 4] by simp

lemma length_to_bytes_be [simp]: "length (to_bytes_be w n) = w"
  by (induction w arbitrary: n) auto

lemma length_to_bytes [simp]: "length (to_bytes e w n) = w"
  by (simp add: to_bytes_def split: endian.split)

lemma be_nat_to_bytes_be: "n < 256 ^ w \<Longrightarrow> be_nat (to_bytes_be w n) = n"
proof (induction w arbitrary: n)
  case (Suc w)
  from Suc.prems have "n div 256 < 256 ^ w" by (simp add: less_mult_imp_div_less mult.commute)
  then have "be_nat (to_bytes_be w (n div 256)) = n div 256" by (rule Suc.IH)
  moreover have "unat (word_of_nat (n mod 256) :: byte) = n mod 256"
    by (simp add: unat_of_nat)
  ultimately show ?case by simp
qed simp

lemma int_from_to_bytes [simp]: "n < 256 ^ w \<Longrightarrow> int_from_bytes e (to_bytes e w n) = n"
  by (simp add: int_from_bytes_def to_bytes_def be_nat_to_bytes_be split: endian.split)

lemma be_nat_append: "be_nat (xs @ ys) = be_nat xs * 256 ^ length ys + be_nat ys"
  by (induction ys rule: rev_induct) (auto simp: algebra_simps simp flip: append_assoc)

lemma to_bytes_be_nat: "to_bytes_be (length bs) (be_nat bs) = bs"
proof (induction bs rule: rev_induct)
  case (snoc b bs)
  have "(be_nat bs * 256 + unat b) div 256 = be_nat bs"
    using unat_byte_less [of b] by simp
  moreover have "(be_nat bs * 256 + unat b) mod 256 = unat b"
    using unat_byte_less [of b] by simp
  ultimately show ?case using snoc by simp
qed simp

lemma to_bytes_int_from_bytes: "length bs = w \<Longrightarrow> to_bytes e w (int_from_bytes e bs) = bs"
  using to_bytes_be_nat [of bs] to_bytes_be_nat [of "rev bs"]
  by (auto simp: to_bytes_def int_from_bytes_def split: endian.split)

lemma int_from_bytes_inj:
  "length xs = length ys \<Longrightarrow> int_from_bytes e xs = int_from_bytes e ys \<longleftrightarrow> xs = ys"
  by (metis to_bytes_int_from_bytes)

lemma ufield_append:
  "i + w \<le> length xs \<Longrightarrow> ufield e (xs @ ys) i w = ufield e xs i w"
  "length xs \<le> i \<Longrightarrow> ufield e (xs @ ys) i w = ufield e ys (i - length xs) w"
  by (auto simp: ufield_def py_slice_def)

lemma ufield_to_bytes: "n < 256 ^ w \<Longrightarrow> ufield e (to_bytes e w n) 0 w = n"
  by (simp add: ufield_def py_slice_def)

lemma ufield_take: "i + w \<le> n \<Longrightarrow> ufield e (take n xs) i w = ufield e xs i w"
  by (simp add: ufield_def py_slice_def drop_take min_def)

lemma to_bytes_ufield: "i + w \<le> length f \<Longrightarrow> to_bytes e w (ufield e f i w) = py_slice f i (i + w)"
  by (simp add: ufield_def to_bytes_int_from_bytes)

lemma unpack_from_eq_Inr [res_simps]:
  "unpack_from n data off = Inr f \<longleftrightarrow> off + n \<le> length data \<and> f = py_slice data off (off + n)"
  by (auto simp: unpack_from_def)

lemma unpack_from_raises_only [raises_intros]:
  "off + n \<le> length data \<Longrightarrow> raises_only P (unpack_from n data off)"
  by (simp add: unpack_from_def)

lemma byte_at_eq_Inr [res_simps]:
  "byte_at data i = Inr b \<longleftrightarrow> i < length data \<and> b = unat (data ! i)"
  by (auto simp: byte_at_def)

lemma byte_at_raises_only [raises_intros]:
  "i < length data \<Longrightarrow> raises_only P (byte_at data i)"
  by (simp add: byte_at_def)

lemma py_index_nonneg: "0 \<le> i \<Longrightarrow> py_index xs i = (if nat i < length xs then Inr (xs ! nat i) else Inl IndexError)"
  by (auto simp: py_index_def Let_def nat_less_iff)

lemma py_index_int: "py_index xs (int i) = (if i < length xs then Inr (xs ! i) else Inl IndexError)"
  by (simp add: py_index_nonneg)

text \<open>\<open>(n + 3) & ~3\<close>, the 32-bit padding of the pcapng format.\<close>

definition pad4 :: "nat \<Rightarrow> nat" where
  "pad4 n = nat ((int n + 3) AND NOT 3)"

lemma and_not_3_eq: "(k :: int) AND NOT 3 = k div 4 * 4"
proof -
  have "k AND NOT (mask m) = push_bit m (drop_bit m k)" for m
    by (rule bit_eqI) (auto simp: bit_simps)
  from this [of 2] show ?thesis by (simp add: mask_eq_exp_minus_1 push_bit_eq_mult drop_bit_eq_div)
qed

lemma pad4_eq: "pad4 n = (n + 3) div 4 * 4"
  unfolding pad4_def and_not_3_eq by (simp add: nat_mult_distrib nat_div_distrib nat_add_distrib)

lemma pad4_ge: "n \<le> pad4 n"
  unfolding pad4_eq by presburger

end
