(* ===== verification/Py_Text.thy ===== *)
theory Py_Text
  imports Py_Data "HOL-Library.Sublist"
begin

text \<open>
  Text and substring operations of the Python standard library used by the sources:
  \<open>bytes.decode("ascii")\<close>, \<open>str.lower\<close>, \<open>str.isprintable\<close> and \<open>str.strip\<close> on ASCII text,
  \<open>str.split(c)\<close>, \<open>c.join\<close>, \<open>bytes.find\<close>, the \<open>in\<close> operator on byte strings, and the
  decimal and hexadecimal renderings of numbers.
\<close>

section \<open>ASCII text\<close>

definition char_code :: "char \<Rightarrow> nat" where
  "char_code c = of_char c"

definition decode_ascii :: "bytes \<Rightarrow> string res" where
  "decode_ascii bs =
     (if list_all (\<lambda>b. unat b < 128) bs then Inr (map (\<lambda>b. char_of (unat b)) bs)
      else Inl UnicodeDecodeError)"

definition encode_ascii :: "string \<Rightarrow> bytes" where
  "encode_ascii s = map (\<lambda>c. word_of_nat (of_char c)) s"

definition lower_char :: "char \<Rightarrow> char" where
  "lower_char c = (if 65 \<le> char_code c \<and> char_code c \<le> 90 then char_of (char_code c + 32) else c)"

definition ascii_lower :: "string \<Rightarrow> string" where
  "ascii_lower s = map lower_char s"

definition ascii_isprintable :: "string \<Rightarrow> bool" where
  "ascii_isprintable s = list_all (\<lambda>c. 32 \<le> char_code c \<and> char_code c \<le> 126) s"

definition is_space :: "char \<Rightarrow> bool" where
  "is_space c = ((9 \<le> char_code c \<and> char_code c \<le> 13) \<or> (28 \<le> char_code c \<and> char_code c \<le> 32))"

definition py_strip :: "string \<Rightarrow> string" where
  "py_strip s = rev (dropWhile is_space (rev (dropWhile is_space s)))"

lemma char_code_less [simp]: "char_code c < 256"
  by (simp add: char_code_def)

lemma decode_encode_ascii:
  "list_all (\<lambda>c. char_code c < 128) s \<Longrightarrow> decode_ascii (encode_ascii s) = Inr s"
proof -
  have un: "unat (word_of_nat (of_char c :: nat) :: byte) = of_char c" for c :: char
    using char_code_less [of c] by (simp add: unat_of_nat char_code_def)
  assume "list_all (\<lambda>c. char_code c < 128) s"
  then show ?thesis
    by (auto simp: decode_ascii_def encode_ascii_def list_all_iff un comp_def char_code_def)
qed

lemma length_ascii_lower [simp]: "length (ascii_lower s) = length s"
  by (simp add: ascii_lower_def)

lemma lower_char_idem [simp]: "lower_char (lower_char c) = lower_char c"
proof (cases "65 \<le> char_code c \<and> char_code c \<le> 90")
  case True
  then have "char_code (lower_char c) = char_code c + 32"
    by (simp add: lower_char_def char_code_def)
  with True show ?thesis by (simp add: lower_char_def)
next
  case False
  then show ?thesis by (auto simp: lower_char_def)
qed

lemma ascii_lower_idem [simp]: "ascii_lower (ascii_lower s) = ascii_lower s"
  by (simp add: ascii_lower_def)

section \<open>Splitting and joining\<close>

fun split_on :: "'a \<Rightarrow> 'a list \<Rightarrow> 'a list list" where
  "split_on sep [] = [[]]"
| "split_on sep (c # cs) =
     (if c = sep then [] # split_on sep cs
      else (case split_on sep cs of [] \<Rightarrow> [[c]] | w # ws \<Rightarrow> (c # w) # ws))"

fun join_with :: "'a list \<Rightarrow> 'a list list \<Rightarrow> 'a list" where
  "join_with sep [] = []"
| "join_with sep [w] = w"
| "join_with sep (w # v # ws) = w @ sep @ join_with sep (v # ws)"

lemma split_on_not_Nil [simp]: "split_on sep cs \<noteq> []"
  by (induction cs) (auto split: list.splits)

lemma join_split: "join_with [sep] (split_on sep cs) = cs"
proof (induction cs)
  case (Cons c cs)
  obtain w ws where sp: "split_on sep cs = w # ws" by (cases "split_on sep cs") auto
  with Cons show ?case by (cases ws) auto
qed simp

lemma split_on_no_sep: "sep \<notin> set cs \<Longrightarrow> split_on sep cs = [cs]"
  by (induction cs) auto

lemma split_on_append: "sep \<notin> set w \<Longrightarrow> split_on sep (w @ sep # cs) = w # split_on sep cs"
  by (induction w) auto

lemma split_join:
  "ws \<noteq> [] \<Longrightarrow> \<forall>w \<in> set ws. sep \<notin> set w \<Longrightarrow> split_on sep (join_with [sep] ws) = ws"
  by (induction "[sep]" ws rule: join_with.induct) (auto simp: split_on_no_sep split_on_append)

lemma split_on_parts_no_sep: "w \<in> set (split_on sep cs) \<Longrightarrow> sep \<notin> set w"
  by (induction cs arbitrary: w) (auto split: if_splits list.splits)

lemma split_on_sub: "w \<in> set (split_on sep cs) \<Longrightarrow> set w \<subseteq> set cs"
  by (induction cs arbitrary: w) (fastforce split: if_splits list.splits)+

section \<open>Searching\<close>

fun find_sub :: "'a list \<Rightarrow> 'a list \<Rightarrow> nat option" where
  "find_sub xs tok =
     (if take (length tok) xs = tok then Some 0
      else (case xs of [] \<Rightarrow> None | _ # ys \<Rightarrow> map_option Suc (find_sub ys tok)))"

declare find_sub.simps [simp del]

text \<open>\<open>data.find(token, start)\<close>; \<open>None\<close> stands for the result \<open>-1\<close>.\<close>

definition py_find :: "'a list \<Rightarrow> 'a list \<Rightarrow> nat \<Rightarrow> nat option" where
  "py_find data tok start =
     (if start \<le> length data then map_option (\<lambda>i. start + i) (find_sub (drop start data) tok)
      else None)"

definition occurs_at :: "'a list \<Rightarrow> 'a list \<Rightarrow> nat \<Rightarrow> bool" where
  "occurs_at data tok i = (i \<le> length data \<and> take (length tok) (drop i data) = tok)"

definition contains :: "'a list \<Rightarrow> 'a list \<Rightarrow> bool" where
  "contains data tok = (find_sub data tok \<noteq> None)"

lemma all_le_Suc: "(\<forall>i \<le> Suc n. P i) \<longleftrightarrow> P 0 \<and> (\<forall>i \<le> n. P (Suc i))"
  by (metis Suc_le_mono le0 not0_implies_Suc)

lemma find_sub_None_iff: "find_sub xs tok = None \<longleftrightarrow> (\<forall>i \<le> length xs. \<not> occurs_at xs tok i)"
proof (induction xs tok rule: find_sub.induct)
  case (1 xs tok)
  show ?case
  proof (cases xs)
    case Nil
    then show ?thesis by (subst find_sub.simps) (auto simp: occurs_at_def)
  next
    case (Cons y ys)
    have shift: "occurs_at xs tok (Suc i) = occurs_at ys tok i" for i
      using Cons by (simp add: occurs_at_def)
    show ?thesis
    proof (cases "take (length tok) xs = tok")
      case True
      then have "occurs_at xs tok 0" by (simp add: occurs_at_def)
      with True show ?thesis by (subst find_sub.simps) auto
    next
      case False
      then have "find_sub xs tok = None \<longleftrightarrow> find_sub ys tok = None"
        using Cons by (subst find_sub.simps) auto
      also have "\<dots> \<longleftrightarrow> (\<forall>i \<le> length ys. \<not> occurs_at xs tok (Suc i))"
        using 1 False Cons shift by simp
      also have "\<dots> \<longleftrightarrow> \<not> occurs_at xs tok 0 \<and> (\<forall>i \<le> length ys. \<not> occurs_at xs tok (Suc i))"
        using False by (simp add: occurs_at_def)
      also have "\<dots> \<longleftrightarrow> (\<forall>i \<le> length xs. \<not> occurs_at xs tok i)"
        using Cons by (simp add: all_le_Suc)
      finally show ?thesis .
    qed
  qed
qed

lemma find_sub_Some:
  "find_sub xs tok = Some i \<Longrightarrow> occurs_at xs tok i \<and> (\<forall>j < i. \<not> occurs_at xs tok j)"
proof (induction xs tok arbitrary: i rule: find_sub.induct)
  case (1 xs tok)
  show ?case
  proof (cases "take (length tok) xs = tok")
    case True
    with "1.prems" have "i = 0" by (subst (asm) find_sub.simps) simp
    with True show ?thesis by (simp add: occurs_at_def)
  next
    case False
    with "1.prems" obtain y ys k where xs: "xs = y # ys" and k: "find_sub ys tok = Some k" "i = Suc k"
      by (subst (asm) find_sub.simps) (auto split: list.splits)
    with "1.IH" False have "occurs_at ys tok k" "\<forall>j < k. \<not> occurs_at ys tok j" by auto
    with False xs k show ?thesis by (auto simp: occurs_at_def less_Suc_eq_0_disj)
  qed
qed

lemma contains_iff_sublist: "contains xs tok \<longleftrightarrow> sublist tok xs"
proof
  assume "contains xs tok"
  then obtain i where "occurs_at xs tok i" unfolding contains_def using find_sub_Some by fastforce
  then have "xs = take i xs @ tok @ drop (length tok) (drop i xs)"
    unfolding occurs_at_def by (metis append_take_drop_id)
  then show "sublist tok xs" unfolding sublist_def by blast
next
  assume "sublist tok xs"
  then obtain ps ss where xs: "xs = ps @ tok @ ss" unfolding sublist_def by blast
  then have "occurs_at xs tok (length ps)" by (simp add: occurs_at_def)
  moreover have "length ps \<le> length xs" using xs by simp
  ultimately show "contains xs tok" unfolding contains_def using find_sub_None_iff by blast
qed

section \<open>Numbers as text\<close>

definition digit_char :: "nat \<Rightarrow> char" where
  "digit_char d = (if d < 10 then char_of (48 + d) else char_of (87 + d))"

fun digits_base :: "nat \<Rightarrow> nat \<Rightarrow> string" where
  "digits_base base n =
     (if base < 2 \<or> n < base then [digit_char n]
      else digits_base base (n div base) @ [digit_char (n mod base)])"

declare digits_base.simps [simp del]

definition dec_str :: "nat \<Rightarrow> string" where
  "dec_str n = digits_base 10 n"

definition hex_str :: "nat \<Rightarrow> string" where
  "hex_str n = digits_base 16 n"

definition digit_val :: "char \<Rightarrow> nat option" where
  "digit_val c =
     (let k = char_code c in
      if 48 \<le> k \<and> k \<le> 57 then Some (k - 48)
      else if 97 \<le> k \<and> k \<le> 102 then Some (k - 87)
      else if 65 \<le> k \<and> k \<le> 70 then Some (k - 55)
      else None)"

definition is_digit :: "char \<Rightarrow> bool" where
  "is_digit c = (48 \<le> char_code c \<and> char_code c \<le> 57)"

definition is_hex_digit :: "char \<Rightarrow> bool" where
  "is_hex_digit c = (digit_val c \<noteq> None)"

definition digits_val :: "nat \<Rightarrow> string \<Rightarrow> nat" where
  "digits_val base s = foldl (\<lambda>acc c. acc * base + (case digit_val c of None \<Rightarrow> 0 | Some d \<Rightarrow> d)) 0 s"

lemma digit_val_digit_char: "d < 16 \<Longrightarrow> digit_val (digit_char d) = Some d"
  by (auto simp: digit_val_def digit_char_def char_code_def Let_def)

lemma is_digit_digit_char: "d < 10 \<Longrightarrow> is_digit (digit_char d)"
  by (simp add: is_digit_def digit_char_def char_code_def)

lemma digits_val_snoc: "digits_val base (s @ [c]) =
    digits_val base s * base + (case digit_val c of None \<Rightarrow> 0 | Some d \<Rightarrow> d)"
  by (simp add: digits_val_def)

lemma digits_val_base:
  "2 \<le> base \<Longrightarrow> base \<le> 16 \<Longrightarrow> digits_val base (digits_base base n) = n"
proof (induction base n rule: digits_base.induct)
  case (1 base n)
  show ?case
  proof (cases "n < base")
    case True
    with 1 show ?thesis
      by (subst digits_base.simps) (simp add: digits_val_def digit_val_digit_char)
  next
    case False
    with 1 have "digits_val base (digits_base base (n div base)) = n div base" by simp
    moreover have "n mod base < 16" using 1 by (meson less_le_trans mod_less_divisor pos2)
    ultimately show ?thesis using 1 False
      by (subst digits_base.simps) (simp add: digits_val_snoc digit_val_digit_char)
  qed
qed

lemma digits_base_not_Nil [simp]: "digits_base base n \<noteq> []"
  by (subst digits_base.simps) simp

lemma digits_base_hex:
  "2 \<le> base \<Longrightarrow> base \<le> 16 \<Longrightarrow> list_all is_hex_digit (digits_base base n)"
proof (induction base n rule: digits_base.induct)
  case (1 base n)
  have "is_hex_digit (digit_char d)" if "d < base" for d
    using that 1 by (simp add: is_hex_digit_def digit_val_digit_char)
  with 1 show ?case by (subst digits_base.simps) auto
qed

lemma dec_str_digits: "list_all is_digit (dec_str n)"
  unfolding dec_str_def
proof (induction n rule: less_induct)
  case (less n)
  then show ?case by (subst digits_base.simps) (auto simp: is_digit_digit_char)
qed

lemma length_digits_base:
  assumes "2 \<le> base" and "n < base ^ Suc k"
  shows "length (digits_base base n) \<le> Suc k"
  using assms(2)
proof (induction k arbitrary: n)
  case 0
  then show ?case by (subst digits_base.simps) simp
next
  case (Suc k)
  show ?case
  proof (cases "n < base")
    case True
    then show ?thesis by (subst digits_base.simps) simp
  next
    case False
    from Suc.prems assms(1) have "n div base < base ^ Suc k"
      by (simp add: less_mult_imp_div_less mult.commute)
    then have "length (digits_base base (n div base)) \<le> Suc k" by (rule Suc.IH)
    with False assms(1) show ?thesis by (subst digits_base.simps) simp
  qed
qed

end
