(* ===== verification/Packet_Capture.thy ===== *)
theory Packet_Capture
  imports Py_Text
begin

text \<open>
  The capture file parsers of \<open>scripts/harness/packet_capture.py\<close>: pcapng option lists
  (\<open>_parse_options\<close>), classic pcap files (\<open>_capture_pcap\<close>), pcapng files (\<open>_capture_pcapng\<close>)
  and the dispatch on the capture kind (\<open>parse_packet_capture\<close>). Each \<open>while\<close> loop of the source
  is a step function for its body and a recursive loop over it; the loop state is a record of
  the loop's local variables. Fractions are rationals.
\<close>

section \<open>Constants and data\<close>

definition MAX_CAPTURE_PACKETS :: nat where "MAX_CAPTURE_PACKETS = 100000"
definition MAX_CAPTURE_BLOCKS :: nat where "MAX_CAPTURE_BLOCKS = 200000"
definition MAX_SNAPLEN :: nat where "MAX_SNAPLEN = 262144"
definition MAX_PACKET_BYTES :: nat where "MAX_PACKET_BYTES = 262144"

definition DLT_NULL :: nat where "DLT_NULL = 0"
definition DLT_EN10MB :: nat where "DLT_EN10MB = 1"
definition DLT_RAW :: nat where "DLT_RAW = 101"
definition DLT_LOOP :: nat where "DLT_LOOP = 108"
definition DLT_LINUX_SLL :: nat where "DLT_LINUX_SLL = 113"
definition DLT_LINUX_SLL2 :: nat where "DLT_LINUX_SLL2 = 276"

definition ALLOWED_LINK_TYPES :: "nat list" where
  "ALLOWED_LINK_TYPES = [DLT_NULL, DLT_EN10MB, DLT_RAW, DLT_LOOP, DLT_LINUX_SLL, DLT_LINUX_SLL2]"

lemmas capture_bounds = MAX_CAPTURE_PACKETS_def MAX_CAPTURE_BLOCKS_def MAX_SNAPLEN_def MAX_PACKET_BYTES_def

lemmas link_type_defs = ALLOWED_LINK_TYPES_def DLT_NULL_def DLT_EN10MB_def DLT_RAW_def DLT_LOOP_def
  DLT_LINUX_SLL_def DLT_LINUX_SLL2_def

record capture_interface =
  ci_interface_id :: nat
  ci_link_type :: nat
  ci_snaplen :: nat
  ci_timestamp_resolution :: rat
  ci_name :: "string option"

record packet_record =
  pr_timestamp :: rat
  pr_payload :: bytes
  pr_link_type :: nat
  pr_interface_id :: nat

record parsed_capture =
  pc_records :: "packet_record list"
  pc_interfaces :: "capture_interface list"

definition any_nonzero :: "bytes \<Rightarrow> bool" where
  "any_nonzero bs = list_ex (\<lambda>b. b \<noteq> 0) bs"

section \<open>pcapng options\<close>

record options_state =
  op_offset :: nat
  op_count :: nat
  op_resolution :: rat
  op_name :: "string option"
  op_seen_resolution :: bool
  op_ended :: bool

definition parse_options_step :: "endian \<Rightarrow> bool \<Rightarrow> bool \<Rightarrow> bytes \<Rightarrow> options_state \<Rightarrow> options_state res" where
  "parse_options_step endian allow_tsresol allow_name data st =
     (if length data - op_offset st < 4 then
        Inl (PacketCaptureError ''pcapng option header is truncated'')
      else bindE (unpack_from 4 data (op_offset st)) (\<lambda>f.
        let code = ufield endian f 0 2; len = ufield endian f 2 2; offset = op_offset st + 4 in
        if code = 0 then
          (if len \<noteq> 0 \<or> any_nonzero (drop offset data) then
             Inl (PacketCaptureError ''pcapng end-of-options record is malformed'')
           else Inr (st\<lparr>op_ended := True, op_offset := length data\<rparr>))
        else
        let option_count = op_count st + 1 in
        if option_count > 256 then
          Inl (PacketCaptureError ''pcapng option count exceeds the bound'')
        else
        let padded = pad4 len in
        if offset + padded > length data then
          Inl (PacketCaptureError ''pcapng option payload is truncated'')
        else
        let payload = py_slice data offset (offset + len);
            st' = st\<lparr>op_offset := offset + padded, op_count := option_count\<rparr> in
        if any_nonzero (py_slice data (offset + len) (offset + padded)) then
          Inl (PacketCaptureError ''pcapng option padding is nonzero'')
        else if code = 2 then
          (if \<not> allow_name \<or> op_name st \<noteq> None \<or> payload = [] \<or> length payload > 64 then
             Inl (PacketCaptureError ''pcapng interface-name option is invalid'')
           else case decode_ascii payload of
             Inl _ \<Rightarrow> Inl (PacketCaptureError ''pcapng interface name is not ASCII'')
           | Inr name \<Rightarrow>
               if \<not> ascii_isprintable name \<or> py_strip name \<noteq> name then
                 Inl (PacketCaptureError ''pcapng interface name is not canonical'')
               else Inr (st'\<lparr>op_name := Some name\<rparr>))
        else if code = 9 then
          (if \<not> allow_tsresol \<or> op_seen_resolution st \<or> len \<noteq> 1 then
             Inl (PacketCaptureError ''pcapng timestamp-resolution option is invalid'')
           else bindE (byte_at payload 0) (\<lambda>raw.
             let exponent = raw AND 127 in
             if exponent > 30 then
               Inl (PacketCaptureError ''pcapng timestamp resolution is too fine'')
             else Inr (st'\<lparr>
               op_resolution := (if raw AND 128 \<noteq> 0 then 1 / 2 ^ exponent else 1 / 10 ^ exponent),
               op_seen_resolution := True\<rparr>)))
        else Inr st'))"

lemma parse_options_step_progress:
  assumes "op_offset st < length data"
    and "parse_options_step e ats an data st = Inr st'"
  shows "op_offset st < op_offset st' \<and> op_offset st' \<le> length data"
  using assms
  by (auto simp: parse_options_step_def Let_def bindE_eq_Inr split: if_splits sum.splits)

function parse_options_loop :: "endian \<Rightarrow> bool \<Rightarrow> bool \<Rightarrow> bytes \<Rightarrow> options_state \<Rightarrow> options_state res" where
  "parse_options_loop endian allow_tsresol allow_name data st =
     (if op_offset st < length data
      then bindE (parse_options_step endian allow_tsresol allow_name data st)
             (\<lambda>st'. parse_options_loop endian allow_tsresol allow_name data st')
      else Inr st)"
  by pat_completeness auto
termination
  by (relation "measure (\<lambda>(_, _, _, data, st). length data - op_offset st)")
    (auto dest: parse_options_step_progress)

declare parse_options_loop.simps [simp del]

interpretation options: stream_loop "parse_options_step e ats an" "parse_options_loop e ats an" op_offset
  for e ats an
  by unfold_locales (use parse_options_loop.simps parse_options_step_progress in \<open>auto simp: eta_contract_eq\<close>)

definition parse_options :: "bytes \<Rightarrow> endian \<Rightarrow> bool \<Rightarrow> bool \<Rightarrow> (rat \<times> string option) res" where
  "parse_options data endian allow_tsresol allow_name =
     bindE (parse_options_loop endian allow_tsresol allow_name data
              \<lparr>op_offset = 0, op_count = 0, op_resolution = 1 / 1000000, op_name = None,
               op_seen_resolution = False, op_ended = False\<rparr>) (\<lambda>st.
       if data \<noteq> [] \<and> \<not> op_ended st then
         Inl (PacketCaptureError ''pcapng options do not contain an end marker'')
       else Inr (op_resolution st, op_name st))"

section \<open>Classic pcap files\<close>

record pcap_state =
  pcap_offset :: nat
  pcap_records :: "packet_record list"

definition pcap_step :: "endian \<Rightarrow> nat \<Rightarrow> nat \<Rightarrow> nat \<Rightarrow> bytes \<Rightarrow> pcap_state \<Rightarrow> pcap_state res" where
  "pcap_step endian subsecond_scale snaplen network data st =
     (if length (pcap_records st) \<ge> MAX_CAPTURE_PACKETS then
        Inl (PacketCaptureError ''pcap packet count exceeds the bound'')
      else if length data - pcap_offset st < 16 then
        Inl (PacketCaptureError ''pcap packet header is truncated'')
      else bindE (unpack_from 16 data (pcap_offset st)) (\<lambda>f.
        let seconds = ufield endian f 0 4; subseconds = ufield endian f 4 4;
            included = ufield endian f 8 4; original = ufield endian f 12 4;
            offset = pcap_offset st + 16 in
        if subseconds \<ge> subsecond_scale then
          Inl (PacketCaptureError ''pcap packet timestamp fraction is malformed'')
        else if included < 1 \<or> included > snaplen \<or> included > MAX_PACKET_BYTES then
          Inl (PacketCaptureError ''pcap captured packet length is outside the bound'')
        else if original < included then
          Inl (PacketCaptureError ''pcap original packet length is below captured length'')
        else let ends = offset + included in
        if ends > length data then
          Inl (PacketCaptureError ''pcap packet payload is truncated'')
        else Inr \<lparr>
          pcap_offset = ends,
          pcap_records = pcap_records st @
            [\<lparr>pr_timestamp = of_nat seconds + of_nat subseconds / of_nat subsecond_scale,
              pr_payload = py_slice data offset ends,
              pr_link_type = network,
              pr_interface_id = 0\<rparr>]\<rparr>))"

lemma pcap_step_progress:
  assumes "pcap_offset st < length data"
    and "pcap_step e sc sn nw data st = Inr st'"
  shows "pcap_offset st < pcap_offset st' \<and> pcap_offset st' \<le> length data"
  using assms by (auto simp: pcap_step_def Let_def bindE_eq_Inr split: if_splits)

function pcap_loop :: "endian \<Rightarrow> nat \<Rightarrow> nat \<Rightarrow> nat \<Rightarrow> bytes \<Rightarrow> pcap_state \<Rightarrow> pcap_state res" where
  "pcap_loop endian subsecond_scale snaplen network data st =
     (if pcap_offset st < length data
      then bindE (pcap_step endian subsecond_scale snaplen network data st)
             (\<lambda>st'. pcap_loop endian subsecond_scale snaplen network data st')
      else Inr st)"
  by pat_completeness auto
termination
  by (relation "measure (\<lambda>(_, _, _, _, data, st). length data - pcap_offset st)")
    (auto dest: pcap_step_progress)

declare pcap_loop.simps [simp del]

interpretation pcap_stream: stream_loop "pcap_step e sc sn nw" "pcap_loop e sc sn nw" pcap_offset
  for e sc sn nw
  by unfold_locales (use pcap_loop.simps pcap_step_progress in \<open>auto simp: eta_contract_eq\<close>)

definition pcap_format :: "bytes \<Rightarrow> (endian \<times> nat) option" where
  "pcap_format magic =
     (if magic = [0xd4, 0xc3, 0xb2, 0xa1] then Some (Little, 1000000)
      else if magic = [0xa1, 0xb2, 0xc3, 0xd4] then Some (Big, 1000000)
      else if magic = [0x4d, 0x3c, 0xb2, 0xa1] then Some (Little, 1000000000)
      else if magic = [0xa1, 0xb2, 0x3c, 0x4d] then Some (Big, 1000000000)
      else None)"

definition capture_pcap :: "bytes \<Rightarrow> parsed_capture res" where
  "capture_pcap data =
     (if length data < 24 then Inl (PacketCaptureError ''pcap global header is truncated'')
      else case pcap_format (py_slice data 0 4) of
        None \<Rightarrow> Inl (PacketCaptureError ''pcap magic is unsupported'')
      | Some (endian, subsecond_scale) \<Rightarrow>
        bindE (unpack_from 20 data 4) (\<lambda>f.
        let version_major = ufield endian f 0 2; version_minor = ufield endian f 2 2;
            timezone = sfield endian f 4 4; sigfigs = ufield endian f 8 4;
            snaplen = ufield endian f 12 4; network = ufield endian f 16 4 in
        if (version_major, version_minor) \<noteq> (2, 4) then
          Inl (PacketCaptureError ''pcap version is not 2.4'')
        else if timezone \<noteq> 0 \<or> sigfigs \<noteq> 0 then
          Inl (PacketCaptureError ''pcap timezone/sigfigs fields must be zero'')
        else if snaplen < 1 \<or> snaplen > MAX_SNAPLEN then
          Inl (PacketCaptureError ''pcap snaplen is outside the accepted range'')
        else if network \<notin> set ALLOWED_LINK_TYPES then
          Inl (PacketCaptureError ''pcap link type is not accepted'')
        else
        let interface = \<lparr>ci_interface_id = 0, ci_link_type = network, ci_snaplen = snaplen,
              ci_timestamp_resolution = 1 / of_nat subsecond_scale, ci_name = None\<rparr> in
        bindE (pcap_loop endian subsecond_scale snaplen network data
                 \<lparr>pcap_offset = 24, pcap_records = []\<rparr>) (\<lambda>st.
        if pcap_offset st \<noteq> length data \<or> pcap_records st = [] then
          Inl (PacketCaptureError ''pcap contains no complete packet records'')
        else Inr \<lparr>pc_records = pcap_records st, pc_interfaces = [interface]\<rparr>)))"

section \<open>pcapng files\<close>

record pcapng_state =
  ng_offset :: nat
  ng_endian :: "endian option"
  ng_block_count :: nat
  ng_seen_section :: bool
  ng_records :: "packet_record list"
  ng_interfaces :: "capture_interface list"

text \<open>The section header of a block: its byte order, or the exception it raises.\<close>

definition pcapng_section_endian :: "bytes \<Rightarrow> pcapng_state \<Rightarrow> (endian option \<times> bool) res" where
  "pcapng_section_endian data st =
     (let offset = ng_offset st in
      if py_slice data offset (offset + 4) = [0x0a, 0x0d, 0x0d, 0x0a] then
        (if ng_seen_section st then
           Inl (PacketCaptureError ''pcapng multiple sections are not accepted'')
         else if length data - offset < 28 then
           Inl (PacketCaptureError ''pcapng section header is truncated'')
         else let byte_order_magic = py_slice data (offset + 8) (offset + 12) in
         if byte_order_magic = [0x4d, 0x3c, 0x2b, 0x1a] then Inr (Some Little, True)
         else if byte_order_magic = [0x1a, 0x2b, 0x3c, 0x4d] then Inr (Some Big, True)
         else Inl (PacketCaptureError ''pcapng section byte-order magic is invalid''))
      else Inr (ng_endian st, ng_seen_section st))"

definition pcapng_section_block :: "endian \<Rightarrow> nat \<Rightarrow> bytes \<Rightarrow> pcapng_state \<Rightarrow> pcapng_state res" where
  "pcapng_section_block endian block_length body st =
     (if block_length < 28 then
        Inl (PacketCaptureError ''pcapng section header length is invalid'')
      else bindE (unpack_from 4 body 4) (\<lambda>v.
        bindE (unpack_from 8 body 8) (\<lambda>q.
        let major = ufield endian v 0 2; minor = ufield endian v 2 2;
            section_length = sfield endian q 0 8 in
        if (major, minor) \<noteq> (1, 0) \<or> section_length \<noteq> - 1 then
          Inl (PacketCaptureError ''pcapng section version/length contract is unsupported'')
        else let st' = st\<lparr>ng_interfaces := []\<rparr> in
        if length body > 16 then
          bindE (parse_options (drop 16 body) endian False False) (\<lambda>_. Inr st')
        else Inr st')))"

definition pcapng_interface_block :: "endian \<Rightarrow> bytes \<Rightarrow> pcapng_state \<Rightarrow> pcapng_state res" where
  "pcapng_interface_block endian body st =
     (if length body < 8 then
        Inl (PacketCaptureError ''pcapng interface description is truncated'')
      else bindE (unpack_from 8 body 0) (\<lambda>f.
        let link_type = ufield endian f 0 2; reserved = ufield endian f 2 2;
            snaplen = ufield endian f 4 4 in
        if reserved \<noteq> 0 \<or> link_type \<notin> set ALLOWED_LINK_TYPES then
          Inl (PacketCaptureError ''pcapng interface link metadata is invalid'')
        else if snaplen < 1 \<or> snaplen > MAX_SNAPLEN then
          Inl (PacketCaptureError ''pcapng interface snaplen is outside the bound'')
        else bindE (parse_options (drop 8 body) endian True True) (\<lambda>(resolution, name).
          Inr (st\<lparr>ng_interfaces := ng_interfaces st @
            [\<lparr>ci_interface_id = length (ng_interfaces st), ci_link_type = link_type,
              ci_snaplen = snaplen, ci_timestamp_resolution = resolution, ci_name = name\<rparr>]\<rparr>))))"

definition pcapng_packet_block :: "endian \<Rightarrow> bytes \<Rightarrow> pcapng_state \<Rightarrow> pcapng_state res" where
  "pcapng_packet_block endian body st =
     (if length (ng_records st) \<ge> MAX_CAPTURE_PACKETS then
        Inl (PacketCaptureError ''pcapng packet count exceeds the bound'')
      else if length body < 20 then
        Inl (PacketCaptureError ''pcapng enhanced packet block is truncated'')
      else bindE (unpack_from 20 body 0) (\<lambda>f.
        let interface_id = ufield endian f 0 4; timestamp_high = ufield endian f 4 4;
            timestamp_low = ufield endian f 8 4; captured = ufield endian f 12 4;
            original = ufield endian f 16 4 in
        if interface_id \<ge> length (ng_interfaces st) then
          Inl (PacketCaptureError ''pcapng packet references an unknown interface'')
        else let interface = ng_interfaces st ! interface_id in
        if captured < 1 \<or> captured > ci_snaplen interface \<or> captured > MAX_PACKET_BYTES then
          Inl (PacketCaptureError ''pcapng captured packet length is outside the bound'')
        else if original < captured then
          Inl (PacketCaptureError ''pcapng original packet length is below captured length'')
        else let padded = pad4 captured in
        if 20 + padded > length body then
          Inl (PacketCaptureError ''pcapng enhanced packet payload is truncated'')
        else let payload = py_slice body 20 (20 + captured) in
        if any_nonzero (py_slice body (20 + captured) (20 + padded)) then
          Inl (PacketCaptureError ''pcapng packet padding is nonzero'')
        else bindE (if length body > 20 + padded
                    then parse_options (drop (20 + padded) body) endian False False
                    else Inr (0, None)) (\<lambda>_.
          let timestamp = push_bit 32 timestamp_high OR timestamp_low in
          Inr (st\<lparr>ng_records := ng_records st @
            [\<lparr>pr_timestamp = of_nat timestamp * ci_timestamp_resolution interface,
              pr_payload = payload,
              pr_link_type = ci_link_type interface,
              pr_interface_id = interface_id\<rparr>]\<rparr>))))"

definition pcapng_block :: "endian \<Rightarrow> nat \<Rightarrow> nat \<Rightarrow> bytes \<Rightarrow> pcapng_state \<Rightarrow> pcapng_state res" where
  "pcapng_block endian block_type block_length body st =
     (if block_type = 0x0a0d0d0a then pcapng_section_block endian block_length body st
      else if block_type = 1 then pcapng_interface_block endian body st
      else if block_type = 6 then pcapng_packet_block endian body st
      else if block_type = 2 \<or> block_type = 3 then
        Inl (PacketCaptureError ''pcapng packet block lacks an accepted timestamp contract'')
      else Inr st)"

definition pcapng_step :: "bytes \<Rightarrow> pcapng_state \<Rightarrow> pcapng_state res" where
  "pcapng_step data st =
     (let block_count = ng_block_count st + 1; offset = ng_offset st in
      if block_count > MAX_CAPTURE_BLOCKS then
        Inl (PacketCaptureError ''pcapng block count exceeds the bound'')
      else if length data - offset < 12 then
        Inl (PacketCaptureError ''pcapng block header is truncated'')
      else bindE (pcapng_section_endian data st) (\<lambda>(endian_opt, seen_section).
      case endian_opt of
        None \<Rightarrow> Inl (PacketCaptureError ''pcapng block appears outside a section'')
      | Some endian \<Rightarrow>
        bindE (unpack_from 8 data offset) (\<lambda>f.
        let block_type = ufield endian f 0 4; block_length = ufield endian f 4 4 in
        if block_length < 12 \<or> block_length mod 4 \<noteq> 0 then
          Inl (PacketCaptureError ''pcapng block length is invalid'')
        else let ends = offset + block_length in
        if ends > length data then Inl (PacketCaptureError ''pcapng block is truncated'')
        else bindE (unpack_from 4 data (ends - 4)) (\<lambda>t.
        if ufield endian t 0 4 \<noteq> block_length then
          Inl (PacketCaptureError ''pcapng block length trailer differs'')
        else let body = py_slice data (offset + 8) (ends - 4);
            st' = st\<lparr>ng_endian := endian_opt, ng_block_count := block_count,
                     ng_seen_section := seen_section\<rparr> in
        bindE (pcapng_block endian block_type block_length body st') (\<lambda>st''. Inr (st''\<lparr>ng_offset := ends\<rparr>))))))"

lemma pcapng_step_progress:
  assumes "ng_offset st < length data" and "pcapng_step data st = Inr st'"
  shows "ng_offset st < ng_offset st' \<and> ng_offset st' \<le> length data"
  using assms by (auto simp: pcapng_step_def Let_def bindE_eq_Inr split: if_splits option.splits)

function pcapng_loop :: "bytes \<Rightarrow> pcapng_state \<Rightarrow> pcapng_state res" where
  "pcapng_loop data st =
     (if ng_offset st < length data then bindE (pcapng_step data st) (\<lambda>st'. pcapng_loop data st')
      else Inr st)"
  by pat_completeness auto
termination
  by (relation "measure (\<lambda>(data, st). length data - ng_offset st)") (auto dest: pcapng_step_progress)

declare pcapng_loop.simps [simp del]

interpretation pcapng_stream: stream_loop pcapng_step pcapng_loop ng_offset
  by unfold_locales (use pcapng_loop.simps pcapng_step_progress in \<open>auto simp: eta_contract_eq\<close>)

definition capture_pcapng :: "bytes \<Rightarrow> parsed_capture res" where
  "capture_pcapng data =
     (if length data < 28 \<or> py_slice data 0 4 \<noteq> [0x0a, 0x0d, 0x0d, 0x0a] then
        Inl (PacketCaptureError ''pcapng must start with a section header block'')
      else bindE (pcapng_loop data
                    \<lparr>ng_offset = 0, ng_endian = None, ng_block_count = 0, ng_seen_section = False,
                     ng_records = [], ng_interfaces = []\<rparr>) (\<lambda>st.
        if ng_offset st \<noteq> length data \<or> ng_records st = [] then
          Inl (PacketCaptureError ''pcapng contains no enhanced packet records'')
        else Inr \<lparr>pc_records = ng_records st, pc_interfaces = ng_interfaces st\<rparr>))"

section \<open>The parser entry\<close>

definition parse_packet_capture :: "bytes \<Rightarrow> string \<Rightarrow> parsed_capture res" where
  "parse_packet_capture data kind =
     (if kind = ''packet-pcap'' then capture_pcap data
      else if kind = ''packet-pcapng'' then capture_pcapng data
      else Inl (PacketCaptureError ''unsupported capture kind: {}''))"

definition parse_packet_records :: "bytes \<Rightarrow> string \<Rightarrow> packet_record list res" where
  "parse_packet_records data kind =
     bindE (parse_packet_capture data kind) (\<lambda>capture. Inr (pc_records capture))"

section \<open>Only capture errors are raised\<close>

lemma parse_options_step_raises_only:
  "raises_only is_capture_error (parse_options_step e ats an data st)"
  unfolding parse_options_step_def Let_def
  by (intro raises_intros) (auto simp: pad4_eq)

lemma parse_options_raises_only [raises_intros]:
  "raises_only is_capture_error (parse_options data e ats an)"
  unfolding parse_options_def
  by (intro raises_intros options.loop_raises_only [where I = "\<lambda>_. True"])
    (auto intro: parse_options_step_raises_only)

lemma pcap_step_raises_only: "raises_only is_capture_error (pcap_step e sc sn nw data st)"
  unfolding pcap_step_def Let_def by (auto intro!: raises_intros)

lemma capture_pcap_raises_only: "raises_only is_capture_error (capture_pcap data)"
  unfolding capture_pcap_def Let_def
  by (auto intro!: raises_intros pcap_stream.loop_raises_only [where I = "\<lambda>_. True"]
      pcap_step_raises_only)

lemma pcapng_section_endian_raises_only [raises_intros]:
  "raises_only is_capture_error (pcapng_section_endian data st)"
  unfolding pcapng_section_endian_def Let_def by (auto intro!: raises_intros)

lemma pcapng_section_block_raises_only:
  "28 \<le> n \<longrightarrow> 16 \<le> length body \<Longrightarrow> raises_only is_capture_error (pcapng_section_block e n body st)"
  unfolding pcapng_section_block_def Let_def by (auto intro!: raises_intros)

lemma pcapng_interface_block_raises_only [raises_intros]:
  "raises_only is_capture_error (pcapng_interface_block e body st)"
  unfolding pcapng_interface_block_def Let_def by (auto intro!: raises_intros)

lemma pcapng_packet_block_raises_only [raises_intros]:
  "raises_only is_capture_error (pcapng_packet_block e body st)"
  unfolding pcapng_packet_block_def Let_def by (auto intro!: raises_intros)

lemma pcapng_block_raises_only:
  "28 \<le> n \<longrightarrow> 16 \<le> length body \<Longrightarrow> raises_only is_capture_error (pcapng_block e ty n body st)"
  unfolding pcapng_block_def by (auto intro!: raises_intros pcapng_section_block_raises_only)

lemma pcapng_step_raises_only: "raises_only is_capture_error (pcapng_step data st)"
  unfolding pcapng_step_def Let_def
  by (auto intro!: raises_intros pcapng_block_raises_only)

lemma capture_pcapng_raises_only: "raises_only is_capture_error (capture_pcapng data)"
  unfolding capture_pcapng_def Let_def
  by (auto intro!: raises_intros pcapng_stream.loop_raises_only [where I = "\<lambda>_. True"]
      pcapng_step_raises_only)

lemma parse_packet_capture_raises_only:
  "raises_only is_capture_error (parse_packet_capture data kind)"
  unfolding parse_packet_capture_def
  by (auto intro!: raises_intros capture_pcap_raises_only capture_pcapng_raises_only)

section \<open>Shape of a parsed capture\<close>

definition wf_interface :: "capture_interface \<Rightarrow> bool" where
  "wf_interface i =
     (ci_link_type i \<in> set ALLOWED_LINK_TYPES \<and> 1 \<le> ci_snaplen i \<and> ci_snaplen i \<le> MAX_SNAPLEN \<and>
      0 < ci_timestamp_resolution i \<and> ci_timestamp_resolution i \<le> 1)"

definition wf_record :: "capture_interface list \<Rightarrow> packet_record \<Rightarrow> bool" where
  "wf_record ifs r =
     (pr_interface_id r < length ifs \<and>
      pr_link_type r = ci_link_type (ifs ! pr_interface_id r) \<and>
      1 \<le> length (pr_payload r) \<and> length (pr_payload r) \<le> ci_snaplen (ifs ! pr_interface_id r) \<and>
      0 \<le> pr_timestamp r)"

definition wf_capture_parts :: "packet_record list \<Rightarrow> capture_interface list \<Rightarrow> bool" where
  "wf_capture_parts rs ifs =
     (length rs \<le> MAX_CAPTURE_PACKETS \<and> map ci_interface_id ifs = [0..<length ifs] \<and>
      list_all wf_interface ifs \<and> list_all (wf_record ifs) rs)"

definition wf_capture :: "parsed_capture \<Rightarrow> bool" where
  "wf_capture c = (pc_records c \<noteq> [] \<and> wf_capture_parts (pc_records c) (pc_interfaces c))"

lemma parse_options_step_resolution:
  assumes "parse_options_step e ats an data st = Inr st'"
    and "0 < op_resolution st \<and> op_resolution st \<le> 1"
  shows "0 < op_resolution st' \<and> op_resolution st' \<le> 1"
  using assms
  by (auto simp: parse_options_step_def Let_def bindE_eq_Inr divide_le_eq split: if_splits sum.splits)

lemma parse_options_resolution:
  assumes "parse_options data e ats an = Inr (r, n)"
  shows "0 < r \<and> r \<le> 1"
proof -
  from assms obtain st where st:
    "parse_options_loop e ats an data
       \<lparr>op_offset = 0, op_count = 0, op_resolution = 1 / 1000000, op_name = None,
        op_seen_resolution = False, op_ended = False\<rparr> = Inr st" and r: "r = op_resolution st"
    by (auto simp: parse_options_def res_simps)
  from st have "0 < op_resolution st \<and> op_resolution st \<le> 1"
    by (rule options.loop_invariant) (auto dest: parse_options_step_resolution)
  with r show ?thesis by simp
qed

lemma wf_record_append: "wf_record ifs r \<Longrightarrow> wf_record (ifs @ xs) r"
  by (auto simp: wf_record_def nth_append)

definition pcapng_inv :: "pcapng_state \<Rightarrow> bool" where
  "pcapng_inv st =
     ((\<not> ng_seen_section st \<longrightarrow> ng_records st = [] \<and> ng_interfaces st = [] \<and> ng_endian st = None) \<and>
      wf_capture_parts (ng_records st) (ng_interfaces st))"


lemma pcapng_section_endian_cases:
  assumes "pcapng_section_endian data st = Inr (en, seen)"
  shows "(py_slice data (ng_offset st) (ng_offset st + 4) = [0x0a, 0x0d, 0x0d, 0x0a] \<and>
           \<not> ng_seen_section st \<and> seen \<and> en \<noteq> None) \<or>
         (py_slice data (ng_offset st) (ng_offset st + 4) \<noteq> [0x0a, 0x0d, 0x0d, 0x0a] \<and>
           seen = ng_seen_section st \<and> en = ng_endian st)"
  using assms by (auto simp: pcapng_section_endian_def Let_def split: if_splits)

lemma pcapng_interface_block_wf:
  assumes "pcapng_interface_block e body st = Inr st'"
    and "wf_capture_parts (ng_records st) (ng_interfaces st)"
  shows "wf_capture_parts (ng_records st') (ng_interfaces st')"
  using assms
  by (auto simp: pcapng_interface_block_def Let_def res_simps wf_capture_parts_def wf_interface_def
      list_all_iff wf_record_append dest!: parse_options_resolution)

lemma pcapng_packet_block_wf:
  assumes "pcapng_packet_block e body st = Inr st'"
    and "wf_capture_parts (ng_records st) (ng_interfaces st)"
  shows "wf_capture_parts (ng_records st') (ng_interfaces st')"
  using assms pad4_ge [of "ufield e (py_slice body 0 20) 12 4"]
  by (auto simp: pcapng_packet_block_def Let_def res_simps wf_capture_parts_def wf_record_def
      wf_interface_def list_all_iff less_imp_le intro!: mult_nonneg_nonneg)


lemma ufield_section_type:
  assumes "off + 8 \<le> length data"
  shows "ufield e (py_slice data off (off + 8)) 0 4 = 0x0a0d0d0a \<longleftrightarrow>
         py_slice data off (off + 4) = [0x0a, 0x0d, 0x0d, 0x0a]"
proof -
  have sl: "py_slice (py_slice data off (off + 8)) 0 4 = py_slice data off (off + 4)"
    by (simp add: py_slice_def)
  have len: "length (py_slice data off (off + 4)) = 4" using assms by simp
  have "to_bytes_be 4 0x0a0d0d0a = [0x0a, 0x0d, 0x0d, 0x0a]" by code_simp
  then have enc: "to_bytes e 4 0x0a0d0d0a = [0x0a, 0x0d, 0x0d, 0x0a]"
    by (simp add: to_bytes_def split: endian.split)
  then have val: "int_from_bytes e [0x0a, 0x0d, 0x0d, 0x0a] = 0x0a0d0d0a"
    using int_from_to_bytes [of "0x0a0d0d0a" 4 e] by simp
  show ?thesis
    using int_from_bytes_inj [of "py_slice data off (off + 4)" "to_bytes e 4 0x0a0d0d0a" e]
    by (simp add: ufield_def sl len val enc del: length_py_slice)
qed

lemma pcapng_section_block_wf:
  assumes "pcapng_section_block e n body st = Inr st'" and "ng_records st = []"
  shows "wf_capture_parts (ng_records st') (ng_interfaces st')"
  using assms by (auto simp: pcapng_section_block_def Let_def res_simps wf_capture_parts_def split: if_splits)

lemma pcapng_block_frame:
  "pcapng_section_block e n body st = Inr st' \<Longrightarrow> ng_seen_section st' = ng_seen_section st \<and> ng_endian st' = ng_endian st"
  "pcapng_interface_block e body st = Inr st' \<Longrightarrow> ng_seen_section st' = ng_seen_section st \<and> ng_endian st' = ng_endian st"
  "pcapng_packet_block e body st = Inr st' \<Longrightarrow> ng_seen_section st' = ng_seen_section st \<and> ng_endian st' = ng_endian st"
  by (auto simp: pcapng_section_block_def pcapng_interface_block_def pcapng_packet_block_def Let_def
      res_simps split: if_splits)

lemma pcapng_stepD:
  assumes "pcapng_step data st = Inr st'"
  shows "\<exists>e seen st2. let off = ng_offset st; f = py_slice data off (off + 8); n = ufield e f 4 4 in
    pcapng_section_endian data st = Inr (Some e, seen) \<and> off + 8 \<le> length data \<and>
    pcapng_block e (ufield e f 0 4) n (py_slice data (off + 8) (off + n - 4))
      (st\<lparr>ng_endian := Some e, ng_block_count := ng_block_count st + 1, ng_seen_section := seen\<rparr>) = Inr st2 \<and>
    st' = st2\<lparr>ng_offset := off + n\<rparr>"
  using assms unfolding pcapng_step_def Let_def
  by (auto simp: bindE_eq_Inr unpack_from_eq_Inr split: if_splits option.splits)

lemma pcapng_step_inv:
  assumes step: "pcapng_step data st = Inr st'" and inv: "pcapng_inv st"
  shows "pcapng_inv st'"
proof -
  let ?off = "ng_offset st"
  from pcapng_stepD [OF step] obtain e seen n body st1 st2 where
      sec: "pcapng_section_endian data st = Inr (Some e, seen)"
    and len: "?off + 8 \<le> length data"
    and st1: "st1 = st\<lparr>ng_endian := Some e, ng_block_count := ng_block_count st + 1, ng_seen_section := seen\<rparr>"
    and disp: "pcapng_block e (ufield e (py_slice data ?off (?off + 8)) 0 4) n body st1 = Inr st2"
    and st': "st' = st2\<lparr>ng_offset := ?off + n\<rparr>"
    by (auto simp: Let_def)
  show ?thesis
  proof (cases "py_slice data ?off (?off + 4) = [0x0a, 0x0d, 0x0d, 0x0a]")
    case True
    with ufield_section_type [OF len] disp have "pcapng_section_block e n body st1 = Inr st2"
      by (simp add: pcapng_block_def)
    moreover from True pcapng_section_endian_cases [OF sec] inv have "ng_records st1 = []" "seen"
      by (auto simp: st1 pcapng_inv_def)
    ultimately show ?thesis
      using pcapng_section_block_wf [of e n body st1 st2] pcapng_block_frame(1) [of e n body st1 st2]
      by (simp add: pcapng_inv_def st1 st')
  next
    case False
    with ufield_section_type [OF len] disp
    have st2: "pcapng_interface_block e body st1 = Inr st2 \<or> pcapng_packet_block e body st1 = Inr st2 \<or> st2 = st1"
      by (auto simp: pcapng_block_def split: if_splits)
    from False pcapng_section_endian_cases [OF sec] have "seen = ng_seen_section st" "ng_endian st = Some e"
      by auto
    with inv have seen: "seen" and wf: "wf_capture_parts (ng_records st1) (ng_interfaces st1)"
      by (auto simp: st1 pcapng_inv_def)
    from st2 wf have "wf_capture_parts (ng_records st2) (ng_interfaces st2)"
      using pcapng_interface_block_wf pcapng_packet_block_wf by blast
    moreover from st2 seen have "ng_seen_section st2"
      using pcapng_block_frame(2,3) [of e body st1 st2] by (auto simp: st1)
    ultimately show ?thesis by (simp add: pcapng_inv_def st')
  qed
qed

lemma capture_pcapng_wf:
  assumes "capture_pcapng data = Inr cap"
  shows "wf_capture cap"
proof -
  from assms obtain st where
      loop: "pcapng_loop data \<lparr>ng_offset = 0, ng_endian = None, ng_block_count = 0,
        ng_seen_section = False, ng_records = [], ng_interfaces = []\<rparr> = Inr st"
    and cap: "ng_records st \<noteq> []" "cap = \<lparr>pc_records = ng_records st, pc_interfaces = ng_interfaces st\<rparr>"
    by (auto simp: capture_pcapng_def res_simps)
  from loop have "pcapng_inv st"
    by (rule pcapng_stream.loop_invariant) (auto simp: pcapng_inv_def wf_capture_parts_def dest: pcapng_step_inv)
  with cap show ?thesis by (simp add: wf_capture_def pcapng_inv_def)
qed

section \<open>Classic pcap: the accepted language\<close>

text \<open>
  A reference encoder: one packet is its seconds, subseconds, original length and payload; a
  file is the 24-byte header and its packets. \<open>wf_pcap_file\<close> are the bounds the format sets.
\<close>

record pcap_packet =
  pk_seconds :: nat
  pk_subseconds :: nat
  pk_original :: nat
  pk_payload :: bytes

definition pcap_magic :: "endian \<Rightarrow> nat \<Rightarrow> bytes" where
  "pcap_magic e sc = to_bytes e 4 (if sc = 1000000 then 0xa1b2c3d4 else 0xa1b23c4d)"

definition pcap_header_tail :: "endian \<Rightarrow> nat \<Rightarrow> nat \<Rightarrow> bytes" where
  "pcap_header_tail e sn nw =
     to_bytes e 2 2 @ to_bytes e 2 4 @ to_bytes e 4 0 @ to_bytes e 4 0 @ to_bytes e 4 sn @ to_bytes e 4 nw"

definition pcap_packet_bytes :: "endian \<Rightarrow> pcap_packet \<Rightarrow> bytes" where
  "pcap_packet_bytes e p =
     to_bytes e 4 (pk_seconds p) @ to_bytes e 4 (pk_subseconds p) @
     to_bytes e 4 (length (pk_payload p)) @ to_bytes e 4 (pk_original p) @ pk_payload p"

definition wf_pcap_packet :: "nat \<Rightarrow> nat \<Rightarrow> pcap_packet \<Rightarrow> bool" where
  "wf_pcap_packet sc sn p =
     (pk_seconds p < 2 ^ 32 \<and> pk_subseconds p < sc \<and> pk_original p < 2 ^ 32 \<and>
      pk_payload p \<noteq> [] \<and> length (pk_payload p) \<le> sn \<and> length (pk_payload p) \<le> pk_original p)"

definition wf_pcap_file :: "nat \<Rightarrow> nat \<Rightarrow> nat \<Rightarrow> pcap_packet list \<Rightarrow> bool" where
  "wf_pcap_file sc sn nw ps =
     (sc \<in> {1000000, 1000000000} \<and> 1 \<le> sn \<and> sn \<le> MAX_SNAPLEN \<and> nw \<in> set ALLOWED_LINK_TYPES \<and>
      ps \<noteq> [] \<and> length ps \<le> MAX_CAPTURE_PACKETS \<and> list_all (wf_pcap_packet sc sn) ps)"

definition pcap_file_bytes :: "endian \<Rightarrow> nat \<Rightarrow> nat \<Rightarrow> nat \<Rightarrow> pcap_packet list \<Rightarrow> bytes" where
  "pcap_file_bytes e sc sn nw ps =
     pcap_magic e sc @ pcap_header_tail e sn nw @ concat (map (pcap_packet_bytes e) ps)"

definition pcap_packet_record :: "nat \<Rightarrow> nat \<Rightarrow> pcap_packet \<Rightarrow> packet_record" where
  "pcap_packet_record sc nw p =
     \<lparr>pr_timestamp = of_nat (pk_seconds p) + of_nat (pk_subseconds p) / of_nat sc,
      pr_payload = pk_payload p, pr_link_type = nw, pr_interface_id = 0\<rparr>"

definition pcap_file_capture :: "nat \<Rightarrow> nat \<Rightarrow> nat \<Rightarrow> pcap_packet list \<Rightarrow> parsed_capture" where
  "pcap_file_capture sc sn nw ps =
     \<lparr>pc_records = map (pcap_packet_record sc nw) ps,
      pc_interfaces = [\<lparr>ci_interface_id = 0, ci_link_type = nw, ci_snaplen = sn,
        ci_timestamp_resolution = 1 / of_nat sc, ci_name = None\<rparr>]\<rparr>"

lemma pcap_packet_fields:
  assumes "wf_pcap_packet sc sn p" and "sc \<le> 1000000000" and "sn \<le> MAX_SNAPLEN"
  shows "ufield e (pcap_packet_bytes e p) 0 4 = pk_seconds p"
    "ufield e (pcap_packet_bytes e p) 4 4 = pk_subseconds p"
    "ufield e (pcap_packet_bytes e p) 8 4 = length (pk_payload p)"
    "ufield e (pcap_packet_bytes e p) 12 4 = pk_original p"
  using assms
  by (simp_all add: pcap_packet_bytes_def wf_pcap_packet_def ufield_append ufield_to_bytes capture_bounds)

lemma length_pcap_packet_bytes [simp]: "length (pcap_packet_bytes e p) = 16 + length (pk_payload p)"
  by (simp add: pcap_packet_bytes_def)

lemma drop16_pcap_packet_bytes: "drop 16 (pcap_packet_bytes e p) = pk_payload p"
  by (simp add: pcap_packet_bytes_def)

lemma pcap_step_encoded:
  assumes wf: "wf_pcap_packet sc sn p" and sc: "sc \<le> 1000000000" and sn: "sn \<le> MAX_SNAPLEN"
    and cnt: "length rs < MAX_CAPTURE_PACKETS"
  shows "pcap_step e sc sn nw (pre @ pcap_packet_bytes e p @ rest)
           \<lparr>pcap_offset = length pre, pcap_records = rs\<rparr> =
         Inr \<lparr>pcap_offset = length pre + length (pcap_packet_bytes e p),
              pcap_records = rs @ [pcap_packet_record sc nw p]\<rparr>"
proof -
  let ?b = "pcap_packet_bytes e p"
  have f: "py_slice (pre @ ?b @ rest) (length pre) (length pre + 16) = take 16 ?b"
    by simp
  have pay: "py_slice (pre @ ?b @ rest) (length pre + 16) (length pre + 16 + length (pk_payload p)) = pk_payload p"
    by (simp add: py_slice_def drop16_pcap_packet_bytes)
  have "length (pk_payload p) \<le> MAX_PACKET_BYTES"
    using wf sn by (simp add: wf_pcap_packet_def capture_bounds)
  with wf cnt f pay show ?thesis
    by (simp add: pcap_step_def unpack_from_def Let_def ufield_take pcap_packet_fields [OF wf sc sn]
        wf_pcap_packet_def pcap_packet_record_def)
qed

lemma pcap_loop_encoded:
  assumes "list_all (wf_pcap_packet sc sn) ps" and "sc \<le> 1000000000" and "sn \<le> MAX_SNAPLEN"
    and "length rs + length ps \<le> MAX_CAPTURE_PACKETS"
  shows "pcap_loop e sc sn nw (pre @ concat (map (pcap_packet_bytes e) ps))
           \<lparr>pcap_offset = length pre, pcap_records = rs\<rparr> =
         Inr \<lparr>pcap_offset = length pre + length (concat (map (pcap_packet_bytes e) ps)),
              pcap_records = rs @ map (pcap_packet_record sc nw) ps\<rparr>"
  using assms(1,4)
proof (induction ps arbitrary: pre rs)
  case Nil
  then show ?case by (subst pcap_loop.simps) simp
next
  case (Cons p ps)
  let ?d = "pre @ concat (map (pcap_packet_bytes e) (p # ps))"
  have "pcap_step e sc sn nw ?d \<lparr>pcap_offset = length pre, pcap_records = rs\<rparr> =
      Inr \<lparr>pcap_offset = length (pre @ pcap_packet_bytes e p),
           pcap_records = rs @ [pcap_packet_record sc nw p]\<rparr>"
    using pcap_step_encoded [of sc sn p rs e nw pre] Cons.prems assms(2,3) by simp
  moreover have "pcap_loop e sc sn nw ((pre @ pcap_packet_bytes e p) @ concat (map (pcap_packet_bytes e) ps))
      \<lparr>pcap_offset = length (pre @ pcap_packet_bytes e p), pcap_records = rs @ [pcap_packet_record sc nw p]\<rparr> =
      Inr \<lparr>pcap_offset = length (pre @ pcap_packet_bytes e p) + length (concat (map (pcap_packet_bytes e) ps)),
           pcap_records = (rs @ [pcap_packet_record sc nw p]) @ map (pcap_packet_record sc nw) ps\<rparr>"
    using Cons.prems by (intro Cons.IH) auto
  ultimately show ?case by (subst pcap_loop.simps) (simp add: add.assoc)
qed

lemma pcap_magic_bytes:
  "to_bytes_be 4 0xa1b2c3d4 = [0xa1, 0xb2, 0xc3, 0xd4]" "to_bytes_be 4 0xa1b23c4d = [0xa1, 0xb2, 0x3c, 0x4d]"
  by code_simp+

lemma pcap_magic_format:
  "sc \<in> {1000000, 1000000000} \<Longrightarrow> pcap_format (pcap_magic e sc) = Some (e, sc)"
  by (cases e) (auto simp: pcap_magic_def pcap_format_def to_bytes_def pcap_magic_bytes)

lemma pcap_format_magic: "pcap_format m = Some (e, sc) \<Longrightarrow> sc \<in> {1000000, 1000000000} \<and> m = pcap_magic e sc"
  by (auto simp: pcap_magic_def pcap_format_def to_bytes_def pcap_magic_bytes split: if_splits)

lemma pcap_header_fields:
  assumes "sn < 2 ^ 32" and "nw < 2 ^ 32"
  shows "ufield e (pcap_header_tail e sn nw) 0 2 = 2" "ufield e (pcap_header_tail e sn nw) 2 2 = 4"
    "ufield e (pcap_header_tail e sn nw) 4 4 = 0" "ufield e (pcap_header_tail e sn nw) 8 4 = 0"
    "ufield e (pcap_header_tail e sn nw) 12 4 = sn" "ufield e (pcap_header_tail e sn nw) 16 4 = nw"
  using assms
  by (simp_all add: pcap_header_tail_def ufield_append ufield_to_bytes)

lemma length_pcap_header [simp]: "length (pcap_magic e sc) = 4" "length (pcap_header_tail e sn nw) = 20"
  by (simp_all add: pcap_magic_def pcap_header_tail_def)

lemma allowed_link_types_less: "nw \<in> set ALLOWED_LINK_TYPES \<Longrightarrow> nw < 2 ^ 32"
  by (auto simp: link_type_defs)

lemma capture_pcap_encoded:
  assumes "wf_pcap_file sc sn nw ps"
  shows "capture_pcap (pcap_file_bytes e sc sn nw ps) = Inr (pcap_file_capture sc sn nw ps)"
proof -
  let ?d = "pcap_file_bytes e sc sn nw ps"
  let ?b = "concat (map (pcap_packet_bytes e) ps)"
  from assms have sc: "sc \<in> {1000000, 1000000000}" and sn: "1 \<le> sn" "sn \<le> MAX_SNAPLEN"
    and nw: "nw \<in> set ALLOWED_LINK_TYPES" and ps: "ps \<noteq> []" "length ps \<le> MAX_CAPTURE_PACKETS"
      "list_all (wf_pcap_packet sc sn) ps"
    by (auto simp: wf_pcap_file_def)
  have magic: "py_slice ?d 0 4 = pcap_magic e sc"
    by (simp add: py_slice_def pcap_file_bytes_def)
  have hdr: "py_slice ?d 4 24 = pcap_header_tail e sn nw"
    by (simp add: py_slice_def pcap_file_bytes_def)
  have fields: "sn < 2 ^ 32" "nw < 2 ^ 32"
    using sn nw allowed_link_types_less by (auto simp: capture_bounds)
  have loop: "pcap_loop e sc sn nw ?d \<lparr>pcap_offset = 24, pcap_records = []\<rparr> =
      Inr \<lparr>pcap_offset = length ?d, pcap_records = map (pcap_packet_record sc nw) ps\<rparr>"
    using pcap_loop_encoded [OF ps(3), of "[]" e nw "pcap_magic e sc @ pcap_header_tail e sn nw"] sc sn ps
    by (auto simp: pcap_file_bytes_def)
  have "length ?d \<ge> 24" by (simp add: pcap_file_bytes_def)
  then show ?thesis
    using sn nw ps
    by (simp add: capture_pcap_def magic pcap_magic_format [OF sc] unpack_from_def hdr sfield_def to_signed_def
        Let_def pcap_header_fields [OF fields] loop pcap_file_capture_def)
qed

lemma pcap_stepD:
  assumes step: "pcap_step e sc sn nw data st = Inr st'" and sc: "sc \<le> 1000000000"
  shows "\<exists>p. wf_pcap_packet sc sn p \<and> length (pcap_records st) < MAX_CAPTURE_PACKETS \<and>
    drop (pcap_offset st) data = pcap_packet_bytes e p @ drop (pcap_offset st') data \<and>
    pcap_records st' = pcap_records st @ [pcap_packet_record sc nw p]"
proof -
  define off where "off = pcap_offset st"
  define f where "f = py_slice data off (off + 16)"
  define n where "n = ufield e f 8 4"
  define p where "p = \<lparr>pk_seconds = ufield e f 0 4, pk_subseconds = ufield e f 4 4,
    pk_original = ufield e f 12 4, pk_payload = py_slice data (off + 16) (off + 16 + n)\<rparr>"
  from step have chk: "length (pcap_records st) < MAX_CAPTURE_PACKETS" "off + 16 \<le> length data"
      "ufield e f 4 4 < sc" "1 \<le> n" "n \<le> sn" "n \<le> ufield e f 12 4" "off + 16 + n \<le> length data"
    and st': "st' = \<lparr>pcap_offset = off + 16 + n, pcap_records = pcap_records st @ [pcap_packet_record sc nw p]\<rparr>"
    by (auto simp: pcap_step_def Let_def bindE_eq_Inr unpack_from_eq_Inr f_def n_def off_def p_def
        pcap_packet_record_def split: if_splits)
  have len: "length f = 16" "length (pk_payload p) = n" using chk by (auto simp: f_def p_def)
  have "pcap_packet_bytes e p = f @ pk_payload p"
  proof -
    have "py_slice f 0 4 @ py_slice f 4 8 @ py_slice f 8 12 @ py_slice f 12 16 = f"
      using len(1) py_slice_all [of f] by (simp add: py_slice_join py_slice_join_append)
    moreover have "to_bytes e 4 (ufield e f i 4) = py_slice f i (i + 4)" if "i + 4 \<le> 16" for i
      using that len(1) by (simp add: to_bytes_ufield)
    from this [of 0] this [of 4] this [of 8] this [of 12]
    have "to_bytes e 4 (pk_seconds p) = py_slice f 0 4" "to_bytes e 4 (pk_subseconds p) = py_slice f 4 8"
      "to_bytes e 4 n = py_slice f 8 12" "to_bytes e 4 (pk_original p) = py_slice f 12 16"
      by (simp_all add: p_def n_def)
    ultimately show ?thesis by (simp add: pcap_packet_bytes_def len(2) flip: append_assoc)
  qed
  also have "\<dots> @ drop (off + 16 + n) data = drop off data"
    by (simp add: f_def p_def py_slice_drop)
  finally have "drop off data = pcap_packet_bytes e p @ drop (off + 16 + n) data" by simp
  moreover have "wf_pcap_packet sc sn p"
    using chk len(2) ufield4_less [of e f] sc
    by (auto simp: wf_pcap_packet_def p_def simp flip: length_greater_0_conv)
  ultimately show ?thesis using chk(1) st' by (auto simp: off_def)
qed

lemma pcap_loopD:
  assumes loop: "pcap_loop e sc sn nw data \<lparr>pcap_offset = off, pcap_records = []\<rparr> = Inr st"
    and sc: "sc \<le> 1000000000" and off: "off \<le> length data"
  shows "\<exists>ps. list_all (wf_pcap_packet sc sn) ps \<and> length ps \<le> MAX_CAPTURE_PACKETS \<and>
    drop off data = concat (map (pcap_packet_bytes e) ps) \<and>
    pcap_records st = map (pcap_packet_record sc nw) ps"
proof -
  let ?I = "\<lambda>s. \<exists>ps. list_all (wf_pcap_packet sc sn) ps \<and> length ps \<le> MAX_CAPTURE_PACKETS \<and>
    drop off data = concat (map (pcap_packet_bytes e) ps) @ drop (pcap_offset s) data \<and>
    pcap_records s = map (pcap_packet_record sc nw) ps"
  from loop have "?I st"
  proof (rule pcap_stream.loop_invariant)
    show "?I \<lparr>pcap_offset = off, pcap_records = []\<rparr>" by auto
    fix s s' assume "?I s" and st: "pcap_step e sc sn nw data s = Inr s'"
    then obtain ps where ps: "list_all (wf_pcap_packet sc sn) ps"
        "drop off data = concat (map (pcap_packet_bytes e) ps) @ drop (pcap_offset s) data"
        "pcap_records s = map (pcap_packet_record sc nw) ps" by blast
    from pcap_stepD [OF st sc] obtain p where "wf_pcap_packet sc sn p"
        "length (pcap_records s) < MAX_CAPTURE_PACKETS"
        "drop (pcap_offset s) data = pcap_packet_bytes e p @ drop (pcap_offset s') data"
        "pcap_records s' = pcap_records s @ [pcap_packet_record sc nw p]" by blast
    with ps show "?I s'" by (intro exI [of _ "ps @ [p]"]) auto
  qed
  moreover have "pcap_offset st = length data"
    using pcap_stream.loop_at_end [OF loop] off by simp
  ultimately show ?thesis by auto
qed

lemma capture_pcapD:
  assumes "capture_pcap data = Inr cap"
  shows "\<exists>e sc sn nw ps. wf_pcap_file sc sn nw ps \<and> data = pcap_file_bytes e sc sn nw ps \<and>
    cap = pcap_file_capture sc sn nw ps"
proof -
  from assms obtain e sc where len: "24 \<le> length data" and fmt: "pcap_format (py_slice data 0 4) = Some (e, sc)"
    by (auto simp: capture_pcap_def split: if_splits option.splits)
  define f where "f = py_slice data 4 24"
  define sn where "sn = ufield e f 12 4"
  define nw where "nw = ufield e f 16 4"
  have lf: "length f = 20" using len by (simp add: f_def)
  from assms len fmt obtain st where
      hdr: "ufield e f 0 2 = 2" "ufield e f 2 2 = 4" "sfield e f 4 4 = 0" "ufield e f 8 4 = 0"
        "1 \<le> sn" "sn \<le> MAX_SNAPLEN" "nw \<in> set ALLOWED_LINK_TYPES"
    and loop: "pcap_loop e sc sn nw data \<lparr>pcap_offset = 24, pcap_records = []\<rparr> = Inr st"
    and cap: "pcap_records st \<noteq> []" "cap = \<lparr>pc_records = pcap_records st,
        pc_interfaces = [\<lparr>ci_interface_id = 0, ci_link_type = nw, ci_snaplen = sn,
          ci_timestamp_resolution = 1 / of_nat sc, ci_name = None\<rparr>]\<rparr>"
    by (auto simp: capture_pcap_def Let_def bindE_eq_Inr unpack_from_eq_Inr f_def sn_def nw_def split: if_splits)
  from pcap_format_magic [OF fmt] have sc: "sc \<in> {1000000, 1000000000}" and magic: "py_slice data 0 4 = pcap_magic e sc"
    by auto
  from pcap_loopD [OF loop] sc len obtain ps where ps: "list_all (wf_pcap_packet sc sn) ps"
      "length ps \<le> MAX_CAPTURE_PACKETS" "drop 24 data = concat (map (pcap_packet_bytes e) ps)"
      "pcap_records st = map (pcap_packet_record sc nw) ps"
    by auto
  have tz: "ufield e f 4 4 = 0"
    using hdr(3) ufield4_less [of e f 4] by (simp add: sfield_def to_signed_def split: if_splits)
  have tail: "f = pcap_header_tail e sn nw"
  proof -
    have "py_slice f 0 2 @ py_slice f 2 4 @ py_slice f 4 8 @ py_slice f 8 12 @ py_slice f 12 16 @ py_slice f 16 20 = f"
      using lf py_slice_all [of f] by (simp add: py_slice_join py_slice_join_append)
    moreover have "to_bytes e w (ufield e f i w) = py_slice f i j" if "i + w = j" "j \<le> 20" for i w j
      using that lf by (auto simp: to_bytes_ufield)
    from this [of 0 2 2] this [of 2 2 4] this [of 4 4 8] this [of 8 4 12] this [of 12 4 16] this [of 16 4 20]
    have "to_bytes e 2 2 = py_slice f 0 2" "to_bytes e 2 4 = py_slice f 2 4" "to_bytes e 4 0 = py_slice f 4 8"
      "to_bytes e 4 0 = py_slice f 8 12" "to_bytes e 4 sn = py_slice f 12 16" "to_bytes e 4 nw = py_slice f 16 20"
      by (simp_all add: hdr tz sn_def nw_def)
    ultimately show ?thesis by (simp add: pcap_header_tail_def)
  qed
  have "data = py_slice data 0 4 @ f @ drop 24 data"
    unfolding f_def using py_slice_drop [of 4 24 data] py_slice_drop [of 0 4 data] by simp
  then have "data = pcap_file_bytes e sc sn nw ps"
    by (simp add: pcap_file_bytes_def magic tail ps(3))
  moreover have "wf_pcap_file sc sn nw ps"
    using sc hdr ps cap(1) by (auto simp: wf_pcap_file_def)
  ultimately show ?thesis using cap(2) ps(4) by (auto simp: pcap_file_capture_def)
qed

text \<open>
  C5: _capture_pcap accepts exactly the classic pcap files: a byte string is accepted if and
  only if it is the encoding, in one of the four magic formats, of a header with accepted fields
  and a non-empty bounded list of well-formed packets, and then it returns exactly those packets
  and that interface.
\<close>

theorem capture_pcap_iff:
  "capture_pcap data = Inr cap \<longleftrightarrow>
     (\<exists>e sc sn nw ps. wf_pcap_file sc sn nw ps \<and> data = pcap_file_bytes e sc sn nw ps \<and>
        cap = pcap_file_capture sc sn nw ps)"
  using capture_pcapD capture_pcap_encoded by blast

lemma capture_pcap_wf: "capture_pcap data = Inr cap \<Longrightarrow> wf_capture cap"
  by (auto dest!: capture_pcapD simp: wf_capture_def wf_capture_parts_def wf_pcap_file_def pcap_file_capture_def
      wf_interface_def wf_record_def list_all_iff pcap_packet_record_def wf_pcap_packet_def Suc_le_eq)

lemma parse_packet_capture_wf: "parse_packet_capture data kind = Inr cap \<Longrightarrow> wf_capture cap"
  by (auto simp: parse_packet_capture_def dest: capture_pcap_wf capture_pcapng_wf split: if_splits)

text \<open>
  C4: parse_packet_capture on any bytes and any kind either raises PacketCaptureError (never an
  IndexError, struct.error or UnicodeDecodeError) or returns a well-formed capture: bounded
  packet count, known link types, snap lengths in range, every record within its interface's
  snap length and on an interface of the capture.
\<close>

theorem parse_packet_capture_total:
  "case parse_packet_capture data kind of
     Inl e \<Rightarrow> is_capture_error e
   | Inr cap \<Rightarrow> wf_capture cap"
  using parse_packet_capture_raises_only [of data kind] parse_packet_capture_wf [of data kind]
  by (auto simp: raises_only_def split: sum.splits)

end
