(* ===== verification/Ip_Address.thy ===== *)
theory Ip_Address
  imports Py_Text
begin

text \<open>
  The \<open>ipaddress\<close> module of the standard library, as far as the sources use it: construction of
  an address from its packed bytes or from text (\<open>ipaddress.ip_address\<close>), its \<open>version\<close> and its
  canonical text (\<open>str\<close>). The model follows CPython 3.14: IPv4 octets are strict decimals, IPv6
  text may carry one \<open>::\<close>, an IPv4 suffix and a scope identifier, and an IPv4-mapped IPv6
  address prints its last 32 bits in dotted form.
\<close>

text \<open>An address: IPv4 as its four octets, IPv6 as its eight hextets and scope identifier.\<close>

datatype ip = IPv4 "nat list" | IPv6 "nat list" "string option"

fun ip_version :: "ip \<Rightarrow> nat" where
  "ip_version (IPv4 _) = 4"
| "ip_version (IPv6 _ _) = 6"

section \<open>Text of an address\<close>

definition ipv4_text :: "nat list \<Rightarrow> string" where
  "ipv4_text os = join_with ''.'' (map dec_str os)"

text \<open>
  \<open>_compress_hextets\<close>: the first longest run of zero hextets, found by the scan below
  (best start, best length, current start, current length), is elided when longer than one.
\<close>

fun zero_run :: "nat list \<Rightarrow> nat \<Rightarrow> nat \<times> nat \<Rightarrow> nat \<times> nat \<Rightarrow> nat \<times> nat" where
  "zero_run [] i best cur = best"
| "zero_run (h # hs) i (bs, bl) (cs, cl) =
     (if h = 0 then
        let cs' = (if cl = 0 then i else cs); cl' = cl + 1
        in zero_run hs (i + 1) (if cl' > bl then (cs', cl') else (bs, bl)) (cs', cl')
      else zero_run hs (i + 1) (bs, bl) (0, 0))"

definition compress_hextets :: "nat list \<Rightarrow> string list" where
  "compress_hextets hs =
     (let (bs, bl) = zero_run hs 0 (0, 0) (0, 0); ws = map hex_str hs
      in if bl > 1 then
           (if bs = 0 then [''''] else []) @ take bs ws @ [''''] @ drop (bs + bl) ws
             @ (if bs + bl = length hs then [''''] else [])
         else ws)"

definition ipv6_hex_text :: "nat list \<Rightarrow> string" where
  "ipv6_hex_text hs = join_with '':'' (compress_hextets hs)"

definition is_ipv4_mapped :: "nat list \<Rightarrow> bool" where
  "is_ipv4_mapped hs = (take 6 hs = [0, 0, 0, 0, 0, 65535])"

definition ipv6_text :: "nat list \<Rightarrow> string" where
  "ipv6_text hs =
     (if is_ipv4_mapped hs then
        ipv6_hex_text ([0, 0] @ take 6 hs) @ '':'' @
        ipv4_text [hs ! 6 div 256, hs ! 6 mod 256, hs ! 7 div 256, hs ! 7 mod 256]
      else ipv6_hex_text hs)"

fun ip_text :: "ip \<Rightarrow> string" where
  "ip_text (IPv4 os) = ipv4_text os"
| "ip_text (IPv6 hs scope) =
     ipv6_text hs @ (case scope of None \<Rightarrow> [] | Some s \<Rightarrow> if s = [] then [] else ''%'' @ s)"

section \<open>Addresses from packed bytes\<close>

fun hextets_of_bytes :: "bytes \<Rightarrow> nat list" where
  "hextets_of_bytes (a # b # bs) = (unat a * 256 + unat b) # hextets_of_bytes bs"
| "hextets_of_bytes _ = []"

definition ip_of_packed :: "bytes \<Rightarrow> ip res" where
  "ip_of_packed bs =
     (if length bs = 4 then Inr (IPv4 (map unat bs))
      else if length bs = 16 then Inr (IPv6 (hextets_of_bytes bs) None)
      else Inl (ValueError ''{} does not appear to be an IPv4 or IPv6 address''))"

section \<open>Addresses from text\<close>

definition parse_octet :: "string \<Rightarrow> nat option" where
  "parse_octet s =
     (if s = [] then None
      else if \<not> list_all is_digit s then None
      else if length s > 3 then None
      else if s \<noteq> ''0'' \<and> hd s = CHR ''0'' then None
      else if digits_val 10 s > 255 then None
      else Some (digits_val 10 s))"

definition parse_ipv4 :: "string \<Rightarrow> nat list option" where
  "parse_ipv4 s =
     (if s = [] then None
      else let octets = split_on CHR ''.'' s
           in if length octets \<noteq> 4 then None else those (map parse_octet octets))"

definition parse_hextet :: "string \<Rightarrow> nat option" where
  "parse_hextet s =
     (if \<not> list_all is_hex_digit s then None
      else if length s > 4 then None
      else if s = [] then None
      else Some (digits_val 16 s))"

text \<open>Indices of the empty parts strictly inside the list (where \<open>::\<close> stands).\<close>

definition inner_empty :: "string list \<Rightarrow> nat list" where
  "inner_empty parts = filter (\<lambda>i. parts ! i = []) [1..<length parts - 1]"

definition parse_ipv6_parts :: "string list \<Rightarrow> nat list option" where
  "parse_ipv6_parts parts =
     (if length parts > 9 then None
      else case inner_empty parts of
        [] \<Rightarrow>
          if length parts \<noteq> 8 \<or> hd parts = [] \<or> last parts = [] then None
          else those (map parse_hextet parts)
      | [skip] \<Rightarrow>
          let parts_hi = (if hd parts = [] then skip - 1 else skip);
              parts_lo = (if last parts = [] then length parts - skip - 2 else length parts - skip - 1)
          in if (hd parts = [] \<and> parts_hi \<noteq> 0) \<or> (last parts = [] \<and> parts_lo \<noteq> 0) then None
             else if parts_hi + parts_lo \<ge> 8 then None
             else (case those (map parse_hextet (take parts_hi parts)) of
                     None \<Rightarrow> None
                   | Some hi \<Rightarrow>
                       (case those (map parse_hextet (drop (length parts - parts_lo) parts)) of
                          None \<Rightarrow> None
                        | Some lo \<Rightarrow> Some (hi @ replicate (8 - (parts_hi + parts_lo)) 0 @ lo)))
      | _ \<Rightarrow> None)"

definition parse_ipv6 :: "string \<Rightarrow> nat list option" where
  "parse_ipv6 s =
     (if s = [] then None
      else let parts = split_on CHR '':'' s
           in if length parts < 3 then None
              else if CHR ''.'' \<in> set (last parts) then
                (case parse_ipv4 (last parts) of
                   None \<Rightarrow> None
                 | Some os \<Rightarrow>
                     parse_ipv6_parts
                       (butlast parts @ [hex_str (os ! 0 * 256 + os ! 1), hex_str (os ! 2 * 256 + os ! 3)]))
              else parse_ipv6_parts parts)"

definition split_scope_id :: "string \<Rightarrow> (string \<times> string option) option" where
  "split_scope_id s =
     (if CHR ''%'' \<notin> set s then Some (s, None)
      else let scope = tl (dropWhile (\<lambda>c. c \<noteq> CHR ''%'') s)
           in if scope = [] \<or> CHR ''%'' \<in> set scope then None
              else Some (takeWhile (\<lambda>c. c \<noteq> CHR ''%'') s, Some scope))"

definition ip_address :: "string \<Rightarrow> ip res" where
  "ip_address s =
     (let bad = Inl (ValueError ''{} does not appear to be an IPv4 or IPv6 address'') in
      if CHR ''/'' \<in> set s then bad
      else case parse_ipv4 s of
        Some os \<Rightarrow> Inr (IPv4 os)
      | None \<Rightarrow>
          (case split_scope_id s of
             None \<Rightarrow> bad
           | Some (addr, scope) \<Rightarrow>
               (case parse_ipv6 addr of None \<Rightarrow> bad | Some hs \<Rightarrow> Inr (IPv6 hs scope))))"

section \<open>Well-formed addresses and the IPv4 round trip\<close>

fun wf_ip :: "ip \<Rightarrow> bool" where
  "wf_ip (IPv4 os) = (length os = 4 \<and> list_all (\<lambda>n. n < 256) os)"
| "wf_ip (IPv6 hs scope) = (length hs = 8 \<and> list_all (\<lambda>n. n < 65536) hs)"

lemma length_hextets_of_bytes: "length (hextets_of_bytes bs) = length bs div 2"
  by (induction bs rule: hextets_of_bytes.induct) auto

lemma hextets_of_bytes_less: "list_all (\<lambda>n. n < 65536) (hextets_of_bytes bs)"
proof (induction bs rule: hextets_of_bytes.induct)
  case (1 a b bs)
  have "unat a * 256 + unat b < 65536"
    using unat_byte_less [of a] unat_byte_less [of b] by linarith
  with 1 show ?case by simp
qed auto

lemma wf_ip_of_packed: "ip_of_packed bs = Inr a \<Longrightarrow> wf_ip a"
  using hextets_of_bytes_less [of bs]
  by (auto simp: ip_of_packed_def length_hextets_of_bytes list_all_iff split: if_splits)

lemma ip_of_packed_raises_only [raises_intros]:
  "length bs = 4 \<or> length bs = 16 \<Longrightarrow> raises_only P (ip_of_packed bs)"
  by (auto simp: ip_of_packed_def)

lemma is_digit_not_sep: "is_digit c \<Longrightarrow> c \<noteq> CHR ''.'' \<and> c \<noteq> CHR ''/'' \<and> c \<noteq> CHR '':'' \<and> c \<noteq> CHR ''%''"
  by (auto simp: is_digit_def char_code_def)

lemma dec_str_no_leading_zero: "0 < n \<Longrightarrow> hd (dec_str n) \<noteq> CHR ''0''"
  unfolding dec_str_def
proof (induction n rule: less_induct)
  case (less n)
  show ?case
  proof (cases "n < 10")
    case True
    then have "char_code (digit_char n) = 48 + n" by (simp add: digit_char_def char_code_def)
    with less.prems have "digit_char n \<noteq> CHR ''0''" by (auto simp: char_code_def)
    with True show ?thesis by (subst digits_base.simps) simp
  next
    case False
    then have "hd (digits_base 10 (n div 10)) \<noteq> CHR ''0''" by (intro less.IH) auto
    with False show ?thesis by (subst digits_base.simps) (simp add: hd_append)
  qed
qed

lemma parse_octet_dec_str:
  assumes "n < 256"
  shows "parse_octet (dec_str n) = Some n"
proof -
  have "length (dec_str n) \<le> Suc 2"
    unfolding dec_str_def using assms by (intro length_digits_base) auto
  moreover have "dec_str n \<noteq> ''0'' \<longrightarrow> hd (dec_str n) \<noteq> CHR ''0''"
    using dec_str_no_leading_zero [of n]
    by (cases "n = 0") (auto simp: dec_str_def digits_base.simps digit_char_def)
  ultimately show ?thesis
    using assms dec_str_digits [of n]
    by (auto simp: parse_octet_def dec_str_def digits_val_base)
qed

lemma those_map_Some: "those (map (\<lambda>x. Some (f x)) xs) = Some (map f xs)"
  by (induction xs) auto

lemma parse_ipv4_text:
  assumes "length os = 4" and "list_all (\<lambda>n. n < 256) os"
  shows "parse_ipv4 (ipv4_text os) = Some os"
proof -
  have nosep: "\<forall>w \<in> set (map dec_str os). CHR ''.'' \<notin> set w"
    using dec_str_digits is_digit_not_sep by (auto simp: list_all_iff)
  have "os \<noteq> []" using assms(1) by auto
  then have sp: "split_on CHR ''.'' (ipv4_text os) = map dec_str os"
    unfolding ipv4_text_def using nosep by (intro split_join) auto
  have "ipv4_text os \<noteq> []"
    using sp assms(1) by (metis length_map list.size(3) list.size(4) numeral_eq_iff one_eq_numeral_iff
        semiring_norm(83) split_on.simps(1) One_nat_def add_0)
  moreover have "those (map parse_octet (map dec_str os)) = Some os"
    using assms(2) those_map_Some [of "\<lambda>x. x" os]
    by (simp add: list_all_iff parse_octet_dec_str comp_def cong: map_cong)
  ultimately show ?thesis using sp assms(1) by (simp add: parse_ipv4_def)
qed

end
