(* ===== verification/Packet_Decode.thy ===== *)
theory Packet_Decode
  imports Packet_Capture Ip_Address
begin

text \<open>
  The protocol decoders of \<open>scripts/harness/packet_capture.py\<close>: the link layer
  (\<open>_network_payload\<close>), IPv4 and IPv6 with its extension headers (\<open>_decode_network\<close>), TCP and UDP
  (\<open>_decode_transport\<close>), flow matching (\<open>_matches_flow\<close>), DNS names and messages (\<open>_dns_name\<close>,
  \<open>_dns_message\<close>) and QUIC long headers (\<open>_quic_connection_ids\<close>). Reads out of range are
  \<open>IndexError\<close> or \<open>StructError\<close> values, as in Python; the lemmas show they never happen.
\<close>

section \<open>Constants and data\<close>

definition MAX_IPV6_EXTENSION_HEADERS :: nat where "MAX_IPV6_EXTENSION_HEADERS = 8"
definition MAX_VLAN_TAGS :: nat where "MAX_VLAN_TAGS = 2"
definition ETHERTYPE_IPV4 :: nat where "ETHERTYPE_IPV4 = 0x0800"
definition ETHERTYPE_IPV6 :: nat where "ETHERTYPE_IPV6 = 0x86DD"
definition VLAN_ETHERTYPES :: "nat list" where "VLAN_ETHERTYPES = [0x8100, 0x88A8, 0x9100]"
definition DARWIN_AF_INET :: nat where "DARWIN_AF_INET = 2"
definition DARWIN_AF_INET6 :: nat where "DARWIN_AF_INET6 = 30"
definition DNS_TTL :: nat where "DNS_TTL = 0"
definition DNS_A_ADDRESS :: string where "DNS_A_ADDRESS = ''192.0.2.1''"
definition DNS_AAAA_ADDRESS :: string where "DNS_AAAA_ADDRESS = ''2001:db8::1''"
definition DNS_FLAG_RECURSION_DESIRED :: nat where "DNS_FLAG_RECURSION_DESIRED = 0x0100"
definition DNS_QUERY_FLAGS :: nat where "DNS_QUERY_FLAGS = 0"
definition DNS_AUTHORITATIVE_RESPONSE_FLAGS :: nat where "DNS_AUTHORITATIVE_RESPONSE_FLAGS = 0x8400"

record network_packet =
  np_timestamp :: rat
  np_family :: string
  np_source :: string
  np_destination :: string
  np_protocol :: nat
  np_payload :: bytes
  np_link_type :: nat
  np_interface_id :: nat

record transport_packet =
  tp_timestamp :: rat
  tp_family :: string
  tp_source :: string
  tp_destination :: string
  tp_source_port :: nat
  tp_destination_port :: nat
  tp_protocol :: string
  tp_payload :: bytes
  tp_sequence :: "nat option"
  tp_link_type :: nat
  tp_interface_id :: nat

record dns_message =
  dm_identifier :: nat
  dm_is_response :: bool
  dm_question_name :: string
  dm_question_type :: nat
  dm_answer_address :: "string option"
  dm_recursion_desired :: bool

section \<open>Link layer\<close>

text \<open>The VLAN tag loop of an Ethernet frame: the inner type and the offset of the payload.\<close>

function vlan_stack :: "bytes \<Rightarrow> nat \<Rightarrow> nat \<Rightarrow> nat \<Rightarrow> (nat \<times> nat) res" where
  "vlan_stack frame ether_type offset tags =
     (if ether_type \<in> set VLAN_ETHERTYPES then
        (if tags + 1 > MAX_VLAN_TAGS \<or> length frame < offset + 4 then
           Inl (PacketCaptureError ''Ethernet VLAN stack is invalid or excessive'')
         else vlan_stack frame (int_from_bytes Big (py_slice frame (offset + 2) (offset + 4)))
                (offset + 4) (tags + 1))
      else Inr (ether_type, offset))"
  by pat_completeness auto
termination
  by (relation "measure (\<lambda>(_, _, _, tags). MAX_VLAN_TAGS - tags)") auto

declare vlan_stack.simps [simp del]

definition network_payload :: "packet_record \<Rightarrow> (string \<times> bytes) res" where
  "network_payload record =
     (let frame = pr_payload record; link = pr_link_type record in
      bindE (if link = DLT_EN10MB then
               (if length frame < 14 then Inl (PacketCaptureError ''Ethernet frame is truncated'')
                else bindE (vlan_stack frame (int_from_bytes Big (py_slice frame 12 14)) 14 0)
                       (\<lambda>(ether_type, offset). Inr (ether_type, drop offset frame)))
             else if link = DLT_RAW then
               (if frame = [] then Inl (PacketCaptureError ''raw IP frame is empty'')
                else bindE (byte_at frame 0) (\<lambda>b0.
                  let version = drop_bit 4 b0 in
                  Inr (if version = 4 then ETHERTYPE_IPV4 else if version = 6 then ETHERTYPE_IPV6 else 0,
                       frame)))
             else if link = DLT_NULL \<or> link = DLT_LOOP then
               (if length frame < 4 then Inl (PacketCaptureError ''loopback frame is truncated'')
                else let family = int_from_bytes (if link = DLT_NULL then Little else Big) (py_slice frame 0 4)
                  in Inr (if family = DARWIN_AF_INET then ETHERTYPE_IPV4
                          else if family = DARWIN_AF_INET6 then ETHERTYPE_IPV6 else 0,
                          drop 4 frame))
             else if link = DLT_LINUX_SLL then
               (if length frame < 16 then
                  Inl (PacketCaptureError ''Linux cooked-v1 frame is truncated'')
                else Inr (int_from_bytes Big (py_slice frame 14 16), drop 16 frame))
             else if link = DLT_LINUX_SLL2 then
               (if length frame < 20 then
                  Inl (PacketCaptureError ''Linux cooked-v2 frame is truncated'')
                else Inr (int_from_bytes Big (py_slice frame 0 2), drop 20 frame))
             else Inl (PacketCaptureError ''packet uses an unsupported link type''))
        (\<lambda>(ether_type, payload).
          if ether_type = ETHERTYPE_IPV4 then Inr (''ipv4'', payload)
          else if ether_type = ETHERTYPE_IPV6 then Inr (''ipv6'', payload)
          else Inl (PacketCaptureError ''captured frame does not contain IPv4 or IPv6'')))"

section \<open>Network layer\<close>

definition packed_text :: "bytes \<Rightarrow> string res" where
  "packed_text bs = bindE (ip_of_packed bs) (\<lambda>a. Inr (ip_text a))"

text \<open>The IPv6 extension header chain: the transport protocol and the offset of its payload.\<close>

function ipv6_extensions :: "bytes \<Rightarrow> nat \<Rightarrow> nat \<Rightarrow> nat \<Rightarrow> nat \<Rightarrow> (nat \<times> nat) res" where
  "ipv6_extensions packet total_length protocol offset extensions =
     (if protocol \<in> {0, 43, 51, 60} then
        (if extensions + 1 > MAX_IPV6_EXTENSION_HEADERS \<or> offset + 2 > total_length then
           Inl (PacketCaptureError ''IPv6 extension-header chain is invalid or excessive'')
         else bindE (byte_at packet offset) (\<lambda>next_protocol.
           bindE (byte_at packet (offset + 1)) (\<lambda>n.
           let extension_length = (if protocol = 51 then (n + 2) * 4 else (n + 1) * 8) in
           if extension_length < 8 \<or> offset + extension_length > total_length then
             Inl (PacketCaptureError ''IPv6 extension-header length is invalid'')
           else ipv6_extensions packet total_length next_protocol (offset + extension_length)
                  (extensions + 1))))
      else Inr (protocol, offset))"
  by pat_completeness auto
termination
  by (relation "measure (\<lambda>(_, _, _, _, extensions). MAX_IPV6_EXTENSION_HEADERS - extensions)") auto

declare ipv6_extensions.simps [simp del]

definition decode_ipv4 :: "bytes \<Rightarrow> (string \<times> string \<times> nat \<times> bytes) res" where
  "decode_ipv4 packet =
     (let malformed = Inl (PacketCaptureError ''IPv4 header is truncated or malformed'') in
      if length packet < 20 then malformed
      else bindE (byte_at packet 0) (\<lambda>b0.
        if drop_bit 4 b0 \<noteq> 4 then malformed
        else let header_length = (b0 AND 15) * 4;
                 total_length = int_from_bytes Big (py_slice packet 2 4);
                 fragment = int_from_bytes Big (py_slice packet 6 8) in
        if header_length < 20 \<or> total_length < header_length \<or> total_length > length packet then
          Inl (PacketCaptureError ''IPv4 length contract is invalid'')
        else if fragment AND 0xBFFF \<noteq> 0 then
          Inl (PacketCaptureError ''fragmented IPv4 evidence is not accepted'')
        else bindE (packed_text (py_slice packet 12 16)) (\<lambda>source.
          bindE (packed_text (py_slice packet 16 20)) (\<lambda>destination.
          bindE (byte_at packet 9) (\<lambda>protocol.
          Inr (source, destination, protocol, py_slice packet header_length total_length))))))"

definition decode_ipv6 :: "bytes \<Rightarrow> (string \<times> string \<times> nat \<times> bytes) res" where
  "decode_ipv6 packet =
     (let malformed = Inl (PacketCaptureError ''IPv6 header is truncated or malformed'') in
      if length packet < 40 then malformed
      else bindE (byte_at packet 0) (\<lambda>b0.
        if drop_bit 4 b0 \<noteq> 6 then malformed
        else let payload_length = int_from_bytes Big (py_slice packet 4 6);
                 total_length = 40 + payload_length in
        if payload_length = 0 \<or> total_length > length packet then
          Inl (PacketCaptureError ''IPv6 payload length is invalid'')
        else bindE (packed_text (py_slice packet 8 24)) (\<lambda>source.
          bindE (packed_text (py_slice packet 24 40)) (\<lambda>destination.
          bindE (byte_at packet 6) (\<lambda>first.
          bindE (ipv6_extensions packet total_length first 40 0) (\<lambda>(protocol, offset).
          if protocol = 44 then
            Inl (PacketCaptureError ''fragmented IPv6 evidence is not accepted'')
          else if protocol = 50 \<or> protocol = 59 then
            Inl (PacketCaptureError ''encrypted/no-next-header IPv6 evidence cannot prove transport'')
          else Inr (source, destination, protocol, py_slice packet offset total_length)))))))"

definition decode_network :: "packet_record \<Rightarrow> network_packet res" where
  "decode_network record =
     bindE (network_payload record) (\<lambda>(family, packet).
     bindE (if family = ''ipv4'' then decode_ipv4 packet else decode_ipv6 packet)
       (\<lambda>(source, destination, protocol, payload).
     Inr \<lparr>np_timestamp = pr_timestamp record, np_family = family, np_source = source,
          np_destination = destination, np_protocol = protocol, np_payload = payload,
          np_link_type = pr_link_type record, np_interface_id = pr_interface_id record\<rparr>))"

section \<open>Transport layer\<close>

definition decode_transport :: "network_packet \<Rightarrow> transport_packet res" where
  "decode_transport packet =
     (let payload = np_payload packet in
      if np_protocol packet = 6 then
        (if length payload < 20 then Inl (PacketCaptureError ''TCP header is truncated'')
         else bindE (unpack_from 8 payload 0) (\<lambda>f.
           let source_port = ufield Big f 0 2; destination_port = ufield Big f 2 2;
               sequence = ufield Big f 4 4 in
           bindE (byte_at payload 12) (\<lambda>b12.
           let header_length = drop_bit 4 b12 * 4 in
           if header_length < 20 \<or> header_length > length payload then
             Inl (PacketCaptureError ''TCP data offset is invalid'')
           else Inr \<lparr>tp_timestamp = np_timestamp packet, tp_family = np_family packet,
             tp_source = np_source packet, tp_destination = np_destination packet,
             tp_source_port = source_port, tp_destination_port = destination_port,
             tp_protocol = ''tcp'', tp_payload = drop header_length payload,
             tp_sequence = Some sequence, tp_link_type = np_link_type packet,
             tp_interface_id = np_interface_id packet\<rparr>)))
      else if np_protocol packet = 17 then
        (if length payload < 8 then Inl (PacketCaptureError ''UDP header is truncated'')
         else bindE (unpack_from 6 payload 0) (\<lambda>f.
           let source_port = ufield Big f 0 2; destination_port = ufield Big f 2 2;
               len = ufield Big f 4 2 in
           if len < 8 \<or> len > length payload then
             Inl (PacketCaptureError ''UDP length is invalid'')
           else Inr \<lparr>tp_timestamp = np_timestamp packet, tp_family = np_family packet,
             tp_source = np_source packet, tp_destination = np_destination packet,
             tp_source_port = source_port, tp_destination_port = destination_port,
             tp_protocol = ''udp'', tp_payload = py_slice payload 8 len,
             tp_sequence = None, tp_link_type = np_link_type packet,
             tp_interface_id = np_interface_id packet\<rparr>))
      else Inl (PacketCaptureError ''capture contains a non-TCP/UDP network packet''))"

text \<open>The declared ports are the caller's integers, of any size and sign.\<close>

definition matches_flow :: "transport_packet \<Rightarrow> string \<Rightarrow> int \<Rightarrow> string \<Rightarrow> int \<Rightarrow> bool" where
  "matches_flow packet local_address local_port remote_address remote_port =
     ((tp_source packet = local_address \<and> int (tp_source_port packet) = local_port \<and>
       tp_destination packet = remote_address \<and> int (tp_destination_port packet) = remote_port) \<or>
      (tp_source packet = remote_address \<and> int (tp_source_port packet) = remote_port \<and>
       tp_destination packet = local_address \<and> int (tp_destination_port packet) = local_port))"

section \<open>DNS\<close>

text \<open>\<open>((length & 0x3F) << 8) | data[offset + 1]\<close>, the target of a compression pointer.\<close>

definition dns_pointer :: "nat \<Rightarrow> nat \<Rightarrow> nat" where
  "dns_pointer len low = push_bit 8 (len AND 0x3F) OR low"

text \<open>
  One frame of \<open>_dns_name\<close>: \<open>seen\<close> and \<open>labels\<close> are the frame's local variables. A compression
  pointer starts a new frame at \<open>depth + 1\<close>, whose bound is the check at the head of the source
  function. The source's \<open>next_offset\<close> is never assigned, so the returned offset is the frame's.
\<close>

function dns_name_loop :: "bytes \<Rightarrow> nat \<Rightarrow> nat \<Rightarrow> nat list \<Rightarrow> string list \<Rightarrow> (string \<times> nat) res" where
  "dns_name_loop data depth offset seen labels =
     (if offset \<ge> length data \<or> offset \<in> set seen then
        Inl (PacketCaptureError ''DNS name is truncated or cyclic'')
      else bindE (byte_at data offset) (\<lambda>len.
        if len = 0 then Inr (join_with ''.'' labels, offset + 1)
        else if len AND 0xC0 = 0xC0 then
          (if offset + 2 > length data then
             Inl (PacketCaptureError ''DNS compression pointer is truncated'')
           else bindE (byte_at data (offset + 1)) (\<lambda>low.
             let pointer = dns_pointer len low in
             bindE (if depth + 1 > 8 then
                      Inl (PacketCaptureError ''DNS compression depth exceeds the bound'')
                    else dns_name_loop data (depth + 1) pointer [] []) (\<lambda>(suffix, _).
             Inr (join_with ''.'' (labels @ (if suffix \<noteq> [] then split_on CHR ''.'' suffix else [])),
                  offset + 2))))
        else if len > 63 \<or> offset + 1 + len > length data then
          Inl (PacketCaptureError ''DNS label is malformed'')
        else case decode_ascii (py_slice data (offset + 1) (offset + 1 + len)) of
          Inl _ \<Rightarrow> Inl (PacketCaptureError ''DNS label is not ASCII'')
        | Inr label \<Rightarrow>
            if label = [] \<or> length labels \<ge> 32 then
              Inl (PacketCaptureError ''DNS name exceeds the accepted bounds'')
            else dns_name_loop data depth (offset + 1 + len) (offset # seen)
                   (labels @ [ascii_lower label])))"
  by pat_completeness auto
termination
  by (relation "measures [\<lambda>(_, depth, _, _, _). 8 - depth, \<lambda>(data, _, offset, _, _). length data - offset]")
    auto

declare dns_name_loop.simps [simp del]

definition dns_name :: "bytes \<Rightarrow> nat \<Rightarrow> nat \<Rightarrow> (string \<times> nat) res" where
  "dns_name data offset depth =
     (if depth > 8 then Inl (PacketCaptureError ''DNS compression depth exceeds the bound'')
      else dns_name_loop data depth offset [] [])"

definition dns_message_of :: "bytes \<Rightarrow> string \<Rightarrow> dns_message res" where
  "dns_message_of data family =
     (if length data < 12 then Inl (PacketCaptureError ''DNS header is truncated'')
      else bindE (unpack_from 12 data 0) (\<lambda>h.
        let identifier = ufield Big h 0 2; flags = ufield Big h 2 2;
            counts = (ufield Big h 4 2, ufield Big h 6 2, ufield Big h 8 2, ufield Big h 10 2);
            expected_type = (if family = ''ipv4'' then 1 else 28) in
        bindE (dns_name data 12 0) (\<lambda>(question_name, offset).
        if offset + 4 > length data then Inl (PacketCaptureError ''DNS question is truncated'')
        else bindE (unpack_from 4 data offset) (\<lambda>q.
        let question_type = ufield Big q 0 2; question_class = ufield Big q 2 2;
            offset = offset + 4 in
        if question_type \<noteq> expected_type \<or> question_class \<noteq> 1 then
          Inl (PacketCaptureError ''DNS message does not contain the required A/AAAA question'')
        else
        let recursion_desired = (flags AND DNS_FLAG_RECURSION_DESIRED \<noteq> 0);
            fixed_flags = nat (int flags AND NOT (int DNS_FLAG_RECURSION_DESIRED)) in
        if fixed_flags = DNS_QUERY_FLAGS \<and> counts = (1, 0, 0, 0) then
          (if offset \<noteq> length data then
             Inl (PacketCaptureError ''DNS query has trailing records or bytes'')
           else Inr \<lparr>dm_identifier = identifier, dm_is_response = False,
             dm_question_name = question_name, dm_question_type = question_type,
             dm_answer_address = None, dm_recursion_desired = recursion_desired\<rparr>)
        else if fixed_flags \<noteq> DNS_AUTHORITATIVE_RESPONSE_FLAGS \<or> counts \<noteq> (1, 1, 0, 0) then
          Inl (PacketCaptureError ''DNS response is not exact authoritative non-recursive data'')
        else bindE (dns_name data offset 0) (\<lambda>(answer_name, offset).
        if offset + 10 > length data then
          Inl (PacketCaptureError ''DNS answer header is truncated'')
        else bindE (unpack_from 10 data offset) (\<lambda>a.
        let record_type = ufield Big a 0 2; record_class = ufield Big a 2 2;
            ttl = ufield Big a 4 4; len = ufield Big a 8 2; offset = offset + 10;
            expected_length = (if family = ''ipv4'' then 4 else 16) in
        if answer_name \<noteq> question_name \<or> record_type \<noteq> expected_type \<or> record_class \<noteq> 1 \<or>
           ttl \<noteq> DNS_TTL \<or> len \<noteq> expected_length \<or> offset + len \<noteq> length data then
          Inl (PacketCaptureError ''DNS answer owner/type/class/TTL/length differs'')
        else case ip_of_packed (py_slice data offset (offset + len)) of
          Inl _ \<Rightarrow> Inl (PacketCaptureError ''DNS answer address is invalid'')
        | Inr address \<Rightarrow>
            let answer_address = ip_text address;
                expected_answer = (if family = ''ipv4'' then DNS_A_ADDRESS else DNS_AAAA_ADDRESS) in
            if answer_address \<noteq> expected_answer then
              Inl (PacketCaptureError ''DNS answer address differs from the fixed contract'')
            else Inr \<lparr>dm_identifier = identifier, dm_is_response = True,
              dm_question_name = question_name, dm_question_type = question_type,
              dm_answer_address = Some answer_address, dm_recursion_desired = recursion_desired\<rparr>))))))"

section \<open>QUIC\<close>

definition quic_connection_ids :: "bytes \<Rightarrow> (nat \<times> bytes \<times> bytes) res" where
  "quic_connection_ids data =
     (let bad = Inl (PacketCaptureError ''QUIC packet lacks a long-header fixed-bit contract'') in
      if length data < 7 then bad
      else bindE (byte_at data 0) (\<lambda>b0.
        if b0 AND 0x40 = 0 \<or> b0 AND 0x80 = 0 then bad
        else let version = int_from_bytes Big (py_slice data 1 5) in
        if version = 0 then
          Inl (PacketCaptureError ''QUIC version-negotiation packets are not proof'')
        else bindE (byte_at data 5) (\<lambda>dcid_length.
        if \<not> (1 \<le> dcid_length \<and> dcid_length \<le> 20) \<or> 6 + dcid_length \<ge> length data then
          Inl (PacketCaptureError ''QUIC destination connection ID length is invalid'')
        else let dcid = py_slice data 6 (6 + dcid_length); scid_length_offset = 6 + dcid_length in
        bindE (byte_at data scid_length_offset) (\<lambda>scid_length.
        let scid_start = scid_length_offset + 1 in
        if \<not> (1 \<le> scid_length \<and> scid_length \<le> 20) \<or> scid_start + scid_length > length data then
          Inl (PacketCaptureError ''QUIC source connection ID length is invalid'')
        else Inr (version, dcid, py_slice data scid_start (scid_start + scid_length))))))"

section \<open>Only capture errors are raised\<close>

lemma vlan_stack_raises_only [raises_intros]: "raises_only is_capture_error (vlan_stack frame ty off tags)"
proof (induction frame ty off tags rule: vlan_stack.induct)
  case (1 frame ty off tags)
  then show ?case by (subst vlan_stack.simps) (auto intro!: raises_intros)
qed

lemma network_payload_raises_only [raises_intros]: "raises_only is_capture_error (network_payload r)"
  unfolding network_payload_def Let_def by (intro raises_intros) auto

lemma packed_text_raises_only [raises_intros]:
  "length bs = 4 \<or> length bs = 16 \<Longrightarrow> raises_only P (packed_text bs)"
  unfolding packed_text_def by (auto intro!: raises_intros)

lemma ipv6_extensions_raises_only:
  "n \<le> length packet \<Longrightarrow> raises_only is_capture_error (ipv6_extensions packet n proto off k)"
proof (induction packet n proto off k rule: ipv6_extensions.induct)
  case (1 packet n proto off k)
  from "1.prems" show ?case
    by (subst ipv6_extensions.simps) (auto simp: Let_def intro!: raises_intros "1.IH" simp del: insert_iff)
qed

lemma decode_ipv4_raises_only [raises_intros]: "raises_only is_capture_error (decode_ipv4 packet)"
  unfolding decode_ipv4_def Let_def by (intro raises_intros) auto

lemma decode_ipv6_raises_only [raises_intros]: "raises_only is_capture_error (decode_ipv6 packet)"
  unfolding decode_ipv6_def Let_def by (intro raises_intros ipv6_extensions_raises_only) auto

lemma decode_network_raises_only [raises_intros]: "raises_only is_capture_error (decode_network r)"
  unfolding decode_network_def by (intro raises_intros)

lemma decode_transport_raises_only [raises_intros]: "raises_only is_capture_error (decode_transport p)"
  unfolding decode_transport_def Let_def by (intro raises_intros) auto

lemma dns_name_loop_raises_only:
  "raises_only is_capture_error (dns_name_loop data depth off seen labels)"
proof (induction data depth off seen labels rule: dns_name_loop.induct)
  case (1 data depth off seen labels)
  show ?case
    by (subst dns_name_loop.simps, unfold Let_def) (intro raises_intros "1.IH"; auto)
qed

lemma dns_name_raises_only [raises_intros]: "raises_only is_capture_error (dns_name data off depth)"
  unfolding dns_name_def by (auto intro!: raises_intros dns_name_loop_raises_only)

lemma dns_message_of_raises_only [raises_intros]: "raises_only is_capture_error (dns_message_of data family)"
  unfolding dns_message_of_def Let_def by (intro raises_intros) auto

lemma quic_connection_ids_raises_only [raises_intros]: "raises_only is_capture_error (quic_connection_ids data)"
  unfolding quic_connection_ids_def Let_def by (intro raises_intros) auto

section \<open>A reference frame encoder\<close>

text \<open>
  An Ethernet frame with an unfragmented IPv4 packet without options, followed by link padding, and
  UDP and TCP bodies: what the decoders have to read back. The padding must not leak into the payload.
\<close>

definition ipv4_frame :: "bytes \<Rightarrow> bytes \<Rightarrow> nat \<Rightarrow> bytes \<Rightarrow> bytes \<Rightarrow> bytes \<Rightarrow> bytes" where
  "ipv4_frame src dst proto body macs pad =
     macs @ [0x08, 0x00] @
     [0x45, 0] @ to_bytes Big 2 (20 + length body) @ [0, 0, 0x40, 0, 64, word_of_nat proto, 0, 0] @
     src @ dst @ body @ pad"

definition udp_bytes :: "nat \<Rightarrow> nat \<Rightarrow> bytes \<Rightarrow> bytes" where
  "udp_bytes sport dport payload =
     to_bytes Big 2 sport @ to_bytes Big 2 dport @ to_bytes Big 2 (8 + length payload) @ [0, 0] @ payload"

definition tcp_bytes :: "nat \<Rightarrow> nat \<Rightarrow> nat \<Rightarrow> bytes \<Rightarrow> bytes" where
  "tcp_bytes sport dport sequence payload =
     to_bytes Big 2 sport @ to_bytes Big 2 dport @ to_bytes Big 4 sequence @ to_bytes Big 4 0 @
     [0x50, 0x18, 0xFF, 0xFF, 0, 0, 0, 0] @ payload"

lemma decode_ipv4_frame:
  assumes "length src = 4" "length dst = 4" "20 + length body < 65536" "proto < 256"
  shows "decode_ipv4 ([0x45, 0] @ to_bytes Big 2 (20 + length body) @
      [0, 0, 0x40, 0, 64, word_of_nat proto, 0, 0] @ src @ dst @ body @ pad) =
    bindE (packed_text src) (\<lambda>s. bindE (packed_text dst) (\<lambda>d. Inr (s, d, proto, body)))"
proof -
  let ?d = "[0x45, 0] @ to_bytes Big 2 (20 + length body) @
      [0, 0, 0x40, 0, 64, word_of_nat proto, 0, 0] @ src @ dst @ body @ pad"
  have len: "length ?d = 20 + length body + length pad" using assms by simp
  have tot: "int_from_bytes Big (py_slice ?d 2 4) = 20 + length body"
    using assms by (simp add: py_slice_def)
  have frag: "int_from_bytes Big (py_slice ?d 6 8) = 0x4000"
    by (simp add: py_slice_def int_from_bytes_def be_nat_def)
  have s: "py_slice ?d 12 16 = src" "py_slice ?d 16 20 = dst" "py_slice ?d 20 (20 + length body) = body"
    using assms by (simp_all add: py_slice_def)
  have b: "byte_at ?d 0 = Inr 0x45" "byte_at ?d 9 = Inr proto"
    using assms by (simp_all add: byte_at_def unat_of_nat nth_append)
  show ?thesis
    using assms(3) s [simplified] unfolding decode_ipv4_def Let_def len tot frag b by simp
qed

lemma network_payload_ipv4_frame:
  assumes "pr_link_type r = DLT_EN10MB" "length macs = 12"
    and "pr_payload r = ipv4_frame src dst proto body macs pad"
  shows "network_payload r = Inr (''ipv4'', drop 14 (ipv4_frame src dst proto body macs pad))"
proof -
  let ?f = "ipv4_frame src dst proto body macs pad"
  have "int_from_bytes Big (py_slice ?f 12 14) = 0x0800"
    using assms by (simp add: ipv4_frame_def py_slice_def int_from_bytes_def be_nat_def)
  moreover have "vlan_stack ?f 0x0800 14 0 = Inr (0x0800, 14)"
    by (simp add: vlan_stack.simps VLAN_ETHERTYPES_def)
  moreover have "\<not> length ?f < 14" using assms by (simp add: ipv4_frame_def)
  ultimately show ?thesis
    by (simp add: network_payload_def assms ETHERTYPE_IPV4_def)
qed

lemma decode_network_ipv4_frame:
  assumes "pr_link_type r = DLT_EN10MB" "length macs = 12"
    and "pr_payload r = ipv4_frame src dst proto body macs pad"
    and "length src = 4" "length dst = 4" "20 + length body < 65536" "proto < 256"
  shows "decode_network r = Inr \<lparr>np_timestamp = pr_timestamp r, np_family = ''ipv4'',
    np_source = ipv4_text (map unat src), np_destination = ipv4_text (map unat dst),
    np_protocol = proto, np_payload = body, np_link_type = DLT_EN10MB,
    np_interface_id = pr_interface_id r\<rparr>"
proof -
  have "decode_ipv4 (drop 14 (ipv4_frame src dst proto body macs pad)) =
    bindE (packed_text src) (\<lambda>s. bindE (packed_text dst) (\<lambda>d. Inr (s, d, proto, body)))"
    using decode_ipv4_frame [OF assms(4-7), of pad] assms(2) by (simp add: ipv4_frame_def)
  then show ?thesis
    using assms network_payload_ipv4_frame [OF assms(1-3)]
    by (simp add: decode_network_def packed_text_def ip_of_packed_def)
qed

lemma decode_transport_udp:
  assumes "np_protocol p = 17" "np_payload p = udp_bytes sport dport payload @ trailer"
    and "sport < 65536" "dport < 65536" "8 + length payload < 65536"
  shows "decode_transport p = Inr \<lparr>tp_timestamp = np_timestamp p, tp_family = np_family p,
    tp_source = np_source p, tp_destination = np_destination p, tp_source_port = sport,
    tp_destination_port = dport, tp_protocol = ''udp'', tp_payload = payload, tp_sequence = None,
    tp_link_type = np_link_type p, tp_interface_id = np_interface_id p\<rparr>"
proof -
  let ?f = "to_bytes Big 2 sport @ to_bytes Big 2 dport @ to_bytes Big 2 (8 + length payload)"
  have "unpack_from 6 (np_payload p) 0 = Inr ?f"
    by (simp add: assms udp_bytes_def unpack_from_def py_slice_def)
  moreover have "ufield Big ?f 0 2 = sport" "ufield Big ?f 2 2 = dport" "ufield Big ?f 4 2 = 8 + length payload"
    using assms by (simp_all add: ufield_append ufield_to_bytes)
  moreover have "py_slice (np_payload p) 8 (8 + length payload) = payload"
    "length (np_payload p) = 8 + length payload + length trailer"
    by (simp_all add: assms udp_bytes_def py_slice_def)
  ultimately show ?thesis
    by (simp add: decode_transport_def assms(1))
qed

lemma decode_transport_tcp:
  assumes "np_protocol p = 6" "np_payload p = tcp_bytes sport dport sequence payload"
    and "sport < 65536" "dport < 65536" "sequence < 2 ^ 32"
  shows "decode_transport p = Inr \<lparr>tp_timestamp = np_timestamp p, tp_family = np_family p,
    tp_source = np_source p, tp_destination = np_destination p, tp_source_port = sport,
    tp_destination_port = dport, tp_protocol = ''tcp'', tp_payload = payload, tp_sequence = Some sequence,
    tp_link_type = np_link_type p, tp_interface_id = np_interface_id p\<rparr>"
proof -
  let ?f = "to_bytes Big 2 sport @ to_bytes Big 2 dport @ to_bytes Big 4 sequence"
  have "unpack_from 8 (np_payload p) 0 = Inr ?f"
    by (simp add: assms tcp_bytes_def unpack_from_def py_slice_def)
  moreover have "ufield Big ?f 0 2 = sport" "ufield Big ?f 2 2 = dport" "ufield Big ?f 4 4 = sequence"
    using assms by (simp_all add: ufield_append ufield_to_bytes)
  moreover have "byte_at (np_payload p) 12 = Inr 0x50" "drop 20 (np_payload p) = payload"
    "length (np_payload p) = 20 + length payload"
    by (simp_all add: assms tcp_bytes_def byte_at_def nth_append)
  ultimately show ?thesis
    by (simp add: decode_transport_def assms(1))
qed


section \<open>DNS names\<close>

definition is_lower :: "string \<Rightarrow> bool" where
  "is_lower s = (ascii_lower s = s)"

lemma is_lower_iff: "is_lower s \<longleftrightarrow> (\<forall>c \<in> set s. lower_char c = c)"
  by (simp add: is_lower_def ascii_lower_def map_idI map_eq_conv [where g = id, simplified])

lemma set_join_with: "set (join_with sep ws) \<subseteq> set sep \<union> \<Union> (set ` set ws)"
  by (induction sep ws rule: join_with.induct) auto

lemma is_lower_join: "\<forall>w \<in> set ws. is_lower w \<Longrightarrow> is_lower (join_with ''.'' ws)"
  using set_join_with [of "''.''" ws] by (fastforce simp: is_lower_iff lower_char_def char_code_def)

lemma is_lower_split: "is_lower s \<Longrightarrow> w \<in> set (split_on c s) \<Longrightarrow> is_lower w"
  using split_on_sub [of w c s] by (auto simp: is_lower_iff)

lemma dns_name_loop_induct [case_names loop]:
  fixes depth off :: nat
  assumes "\<And>(data :: bytes) (depth :: nat) (off :: nat) (seen :: nat list) (labels :: string list).
    (\<And>off'. depth < 8 \<Longrightarrow> P data (depth + 1) off' [] []) \<Longrightarrow>
    (\<And>off' seen' labels'. off < off' \<Longrightarrow> off < length data \<Longrightarrow> P data depth off' seen' labels') \<Longrightarrow>
    P data depth off seen labels"
  shows "P data depth off seen labels"
proof (induction "8 - depth" arbitrary: depth off seen labels rule: less_induct)
  case (less depth off seen labels)
  note deeper = this
  show ?case
  proof (induction "length data - off" arbitrary: off seen labels rule: less_induct)
    case (less off seen labels)
    show ?case
    proof (rule assms)
      show "P data (depth + 1) off' [] []" if "depth < 8" for off'
        using that by (intro deeper) simp
      show "P data depth off' seen' labels'" if "off < off'" "off < length data" for off' seen' labels'
        using that by (intro less.hyps) simp
    qed
  qed
qed

lemma dns_name_loopE [consumes 1, case_names zero pointer label]:
  assumes run: "dns_name_loop data depth off seen labels = Inr (name, off')"
    and zero: "off < length data \<Longrightarrow> off \<notin> set seen \<Longrightarrow> unat (data ! off) = 0 \<Longrightarrow>
      name = join_with ''.'' labels \<Longrightarrow> off' = off + 1 \<Longrightarrow> thesis"
    and pointer: "\<And>suffix o2. off + 2 \<le> length data \<Longrightarrow> off \<notin> set seen \<Longrightarrow> depth < 8 \<Longrightarrow>
      dns_name_loop data (depth + 1) (dns_pointer (unat (data ! off)) (unat (data ! (off + 1)))) [] [] = Inr (suffix, o2) \<Longrightarrow>
      name = join_with ''.'' (labels @ (if suffix \<noteq> [] then split_on CHR ''.'' suffix else [])) \<Longrightarrow>
      off' = off + 2 \<Longrightarrow> thesis"
    and label: "\<And>l n. off + 1 + n \<le> length data \<Longrightarrow> off \<notin> set seen \<Longrightarrow> n = unat (data ! off) \<Longrightarrow> 0 < n \<Longrightarrow> n \<le> 63 \<Longrightarrow>
      length labels < 32 \<Longrightarrow> decode_ascii (py_slice data (off + 1) (off + 1 + n)) = Inr l \<Longrightarrow> l \<noteq> [] \<Longrightarrow>
      dns_name_loop data depth (off + 1 + n) (off # seen) (labels @ [ascii_lower l]) = Inr (name, off') \<Longrightarrow> thesis"
  shows thesis
  using run
  unfolding dns_name_loop.simps [of data depth off seen labels] Let_def
  by (auto simp: bindE_eq_Inr byte_at_eq_Inr split: if_splits sum.splits intro: zero pointer)
    (rule label [of "unat (data ! off)"]; simp)

lemma dns_name_loop_bounds:
  assumes "dns_name_loop data depth off seen labels = Inr (name, off')"
    and "\<forall>l \<in> set labels. is_lower l"
  shows "off < off' \<and> off' \<le> length data \<and> is_lower name"
  using assms
proof (induction data depth off seen labels arbitrary: name off' rule: dns_name_loop_induct)
  case (loop data depth off seen labels)
  from loop.prems(1) show ?case
  proof (cases rule: dns_name_loopE)
    case zero
    with loop.prems(2) show ?thesis by (auto intro: is_lower_join)
  next
    case (pointer suffix o2)
    have "is_lower suffix" using loop.IH(1) [OF pointer(3,4)] by simp
    with pointer loop.prems(2) show ?thesis by (auto intro!: is_lower_join dest: is_lower_split)
  next
    case (label l n)
    then have "off + 1 + n < off' \<and> off' \<le> length data \<and> is_lower name"
      using loop.prems(2) by (intro loop.IH(2) [OF _ _ label(9)]) (auto simp: is_lower_def)
    then show ?thesis by simp
  qed
qed

section \<open>DNS round trips\<close>

text \<open>The wire form of a name: each label behind its length byte, closed by a zero byte.\<close>

definition encode_labels :: "string list \<Rightarrow> bytes" where
  "encode_labels ls = concat (map (\<lambda>l. word_of_nat (length l) # encode_ascii l) ls) @ [0]"

definition wf_label :: "string \<Rightarrow> bool" where
  "wf_label l = (0 < length l \<and> length l \<le> 63 \<and> list_all (\<lambda>c. char_code c < 128) l)"

lemma and_0xC0: "n \<le> 63 \<Longrightarrow> n AND (0xC0 :: nat) = 0"
proof -
  assume "n \<le> 63"
  then have "n = take_bit 6 n" by (simp add: take_bit_nat_eq_self)
  moreover have "take_bit 6 n AND b = n AND take_bit 6 b" for b :: nat
    by (rule bit_eqI) (auto simp: bit_simps)
  ultimately have "n AND 0xC0 = n AND take_bit 6 (0xC0 :: nat)" by metis
  also have "take_bit 6 (0xC0 :: nat) = 0" by code_simp
  finally show ?thesis by simp
qed

lemma length_encode_ascii [simp]: "length (encode_ascii s) = length s"
  by (simp add: encode_ascii_def)

lemma unat_length_byte: "n \<le> 63 \<Longrightarrow> unat (word_of_nat n :: byte) = n"
  by (simp add: unat_of_nat)

lemma dns_name_loop_encoded:
  assumes "\<forall>l \<in> set ls. wf_label l" "length labels + length ls \<le> 32" "\<forall>i \<in> set seen. i < length pre"
  shows "dns_name_loop (pre @ encode_labels ls @ post) depth (length pre) seen labels =
    Inr (join_with ''.'' (labels @ map ascii_lower ls), length pre + length (encode_labels ls))"
  using assms
proof (induction ls arbitrary: pre seen labels)
  case Nil
  then show ?case
    by (subst dns_name_loop.simps) (auto simp: encode_labels_def byte_at_def nth_append)
next
  case (Cons l ls)
  let ?pre = "pre @ word_of_nat (length l) # encode_ascii l"
  let ?data = "pre @ encode_labels (l # ls) @ post"
  have data: "?data = ?pre @ encode_labels ls @ post" by (simp add: encode_labels_def)
  have l: "0 < length l" "length l \<le> 63" "list_all (\<lambda>c. char_code c < 128) l"
    using Cons.prems by (auto simp: wf_label_def)
  have len: "byte_at ?data (length pre) = Inr (length l)"
    using l by (simp add: byte_at_def encode_labels_def unat_length_byte)
  have "py_slice ?data (length pre + 1) (length pre + 1 + length l) = encode_ascii l"
    by (simp add: py_slice_def encode_labels_def)
  then have dec: "decode_ascii (py_slice ?data (length pre + 1) (length pre + 1 + length l)) = Inr l"
    using l by (simp add: decode_encode_ascii)
  have "dns_name_loop (?pre @ encode_labels ls @ post) depth (length ?pre) (length pre # seen) (labels @ [ascii_lower l]) =
      Inr (join_with ''.'' ((labels @ [ascii_lower l]) @ map ascii_lower ls), length ?pre + length (encode_labels ls))"
    using Cons.prems by (intro Cons.IH) auto
  then have "dns_name_loop ?data depth (length pre + 1 + length l) (length pre # seen) (labels @ [ascii_lower l]) =
      Inr (join_with ''.'' (labels @ map ascii_lower (l # ls)), length pre + length (encode_labels (l # ls)))"
    unfolding data by (simp add: encode_labels_def)
  moreover have "length pre < length ?data" "length pre + 1 + length l \<le> length ?data"
    by (simp_all add: encode_labels_def)
  moreover have "length pre \<notin> set seen" "length labels < 32" using Cons.prems by auto
  ultimately show ?case
    using l by (subst dns_name_loop.simps) (simp add: len dec [simplified] and_0xC0 Let_def)
qed

text \<open>A complete query and the answer of the authoritative fixture, the answer's owner being a
  compression pointer to the question at offset 12.\<close>

definition dns_header :: "nat \<Rightarrow> nat \<Rightarrow> nat \<Rightarrow> bytes" where
  "dns_header identifier flags answers =
     to_bytes Big 2 identifier @ to_bytes Big 2 flags @ to_bytes Big 2 1 @ to_bytes Big 2 answers @
     to_bytes Big 2 0 @ to_bytes Big 2 0"

definition dns_question :: "string \<Rightarrow> string list \<Rightarrow> bytes" where
  "dns_question family ls =
     encode_labels ls @ to_bytes Big 2 (if family = ''ipv4'' then 1 else 28) @ to_bytes Big 2 1"

definition dns_query_bytes :: "nat \<Rightarrow> bool \<Rightarrow> string \<Rightarrow> string list \<Rightarrow> bytes" where
  "dns_query_bytes identifier rd family ls =
     dns_header identifier (DNS_QUERY_FLAGS + (if rd then DNS_FLAG_RECURSION_DESIRED else 0)) 0 @
     dns_question family ls"

definition dns_answer_bytes :: "nat \<Rightarrow> bool \<Rightarrow> string \<Rightarrow> string list \<Rightarrow> bytes \<Rightarrow> bytes" where
  "dns_answer_bytes identifier rd family ls packed =
     dns_header identifier (DNS_AUTHORITATIVE_RESPONSE_FLAGS + (if rd then DNS_FLAG_RECURSION_DESIRED else 0)) 1 @
     dns_question family ls @ [0xC0, 12] @ to_bytes Big 2 (if family = ''ipv4'' then 1 else 28) @
     to_bytes Big 2 1 @ to_bytes Big 4 DNS_TTL @ to_bytes Big 2 (length packed) @ packed"

lemma dns_name_question:
  assumes "\<forall>l \<in> set ls. wf_label l" "length ls \<le> 32" "depth \<le> 8" "length pre = 12"
  shows "dns_name (pre @ encode_labels ls @ post) 12 depth =
    Inr (join_with ''.'' (map ascii_lower ls), 12 + length (encode_labels ls))"
  using dns_name_loop_encoded [of ls "[]" "[]" pre post depth] assms by (simp add: dns_name_def)

lemma length_dns_header [simp]: "length (dns_header i f n) = 12"
  by (simp add: dns_header_def)

lemma ufield_first: "n < 256 ^ w \<Longrightarrow> ufield e (to_bytes e w n @ bs) 0 w = n"
  by (simp add: ufield_append ufield_to_bytes)

lemma ufield_skip: "w \<le> i \<Longrightarrow> ufield e (to_bytes e w n @ bs) i v = ufield e bs (i - w) v"
  by (simp add: ufield_append)

lemma ufield_last: "n < 256 ^ w \<Longrightarrow> ufield e (to_bytes e w n) 0 w = n"
  by (simp add: ufield_to_bytes)

lemma dns_header_fields:
  assumes "i < 65536" "f < 65536" "n < 65536"
  shows "ufield Big (dns_header i f n) 0 2 = i" "ufield Big (dns_header i f n) 2 2 = f"
    "ufield Big (dns_header i f n) 4 2 = 1" "ufield Big (dns_header i f n) 6 2 = n"
    "ufield Big (dns_header i f n) 8 2 = 0" "ufield Big (dns_header i f n) 10 2 = 0"
  using assms by (simp_all add: dns_header_def ufield_first ufield_skip ufield_last)

lemma rd_flags:
  fixes rd :: bool and base :: nat
  assumes "base = DNS_QUERY_FLAGS \<or> base = DNS_AUTHORITATIVE_RESPONSE_FLAGS"
    and "flags = base + (if rd then DNS_FLAG_RECURSION_DESIRED else 0)"
  shows "flags < 65536" "(0 < flags AND DNS_FLAG_RECURSION_DESIRED) = rd"
    "nat (int flags AND NOT (int DNS_FLAG_RECURSION_DESIRED)) = base"
  using assms
  by (cases rd; auto simp: DNS_QUERY_FLAGS_def DNS_AUTHORITATIVE_RESPONSE_FLAGS_def DNS_FLAG_RECURSION_DESIRED_def)+

lemma dns_query_parses:
  assumes "identifier < 65536" "\<forall>l \<in> set ls. wf_label l" "length ls \<le> 32"
  shows "dns_message_of (dns_query_bytes identifier rd family ls) family =
    Inr \<lparr>dm_identifier = identifier, dm_is_response = False,
         dm_question_name = join_with ''.'' (map ascii_lower ls),
         dm_question_type = (if family = ''ipv4'' then 1 else 28),
         dm_answer_address = None, dm_recursion_desired = rd\<rparr>"
proof -
  define flags where "flags = DNS_QUERY_FLAGS + (if rd then DNS_FLAG_RECURSION_DESIRED else 0)"
  note flags = rd_flags [OF disjI1 [OF refl] flags_def]
  let ?h = "dns_header identifier flags 0"
  let ?t = "to_bytes Big 2 (if family = ''ipv4'' then 1 else 28) @ to_bytes Big 2 1"
  let ?d = "dns_query_bytes identifier rd family ls"
  have d: "?d = ?h @ encode_labels ls @ ?t"
    by (simp add: dns_query_bytes_def dns_question_def flags_def)
  have h: "unpack_from 12 ?d 0 = Inr ?h" by (simp add: d unpack_from_def py_slice_def)
  have n: "dns_name ?d 12 0 = Inr (join_with ''.'' (map ascii_lower ls), 12 + length (encode_labels ls))"
    unfolding d using assms by (intro dns_name_question) auto
  have t: "unpack_from 4 ?d (12 + length (encode_labels ls)) = Inr ?t"
    by (simp add: d unpack_from_def py_slice_def)
  have l: "length ?d = 12 + length (encode_labels ls) + 4" by (simp add: d)
  show ?thesis
    unfolding dns_message_of_def Let_def
    by (simp add: h n t l ufield_first ufield_skip ufield_last dns_header_fields assms flags)
qed

text \<open>The pointer case of the name reader, and the whole authoritative answer.\<close>

lemma lower_char_dot: "lower_char c = CHR ''.'' \<longleftrightarrow> c = CHR ''.''"
proof -
  have "char_code (char_of (char_code c + 32)) \<noteq> char_code CHR ''.''"
    if "65 \<le> char_code c" "char_code c \<le> 90"
    using that by (simp add: char_code_def)
  moreover have "char_code CHR ''.'' = 46" by code_simp
  ultimately show ?thesis by (auto simp: lower_char_def)
qed

lemma dns_name_pointer:
  assumes "\<forall>l \<in> set ls. wf_label l" "length ls \<le> 32" "length pre = 12" "ls \<noteq> []"
    and nodot: "\<forall>l \<in> set ls. CHR ''.'' \<notin> set l"
    and mid: "off = 12 + length (encode_labels ls) + length mid"
    and d: "d = pre @ encode_labels ls @ mid @ [0xC0, 12] @ post"
  shows "dns_name d off 0 = Inr (join_with ''.'' (map ascii_lower ls), off + 2)"
proof -
  have "dns_name d 12 1 = Inr (join_with ''.'' (map ascii_lower ls), 12 + length (encode_labels ls))"
    unfolding d using assms by (intro dns_name_question) auto
  then have sub: "dns_name_loop d 1 12 [] [] =
      Inr (join_with ''.'' (map ascii_lower ls), 12 + length (encode_labels ls))"
    by (simp add: dns_name_def)
  have ne: "join_with ''.'' (map ascii_lower ls) \<noteq> []"
    using assms by (cases ls; cases "tl ls") (auto simp: wf_label_def ascii_lower_def)
  have "split_on CHR ''.'' (join_with ''.'' (map ascii_lower ls)) = map ascii_lower ls"
    using assms(4) nodot by (intro split_join) (auto simp: ascii_lower_def lower_char_dot dest!: sym [of "CHR ''.''"])
  then show ?thesis
    using ne sub assms
    by (simp add: dns_name_def, subst dns_name_loop.simps)
      (simp add: byte_at_def nth_append dns_pointer_def Let_def)
qed

lemma dns_answer_parses:
  assumes "identifier < 65536" "\<forall>l \<in> set ls. wf_label l \<and> CHR ''.'' \<notin> set l" "ls \<noteq> []" "length ls \<le> 32"
    and packed: "packed = (if family = ''ipv4'' then [192, 0, 2, 1]
      else [0x20, 0x01, 0x0d, 0xb8, 0, 0, 0, 0, 0, 0, 0, 0, 0, 0, 0, 1])"
  shows "dns_message_of (dns_answer_bytes identifier rd family ls packed) family =
    Inr \<lparr>dm_identifier = identifier, dm_is_response = True,
         dm_question_name = join_with ''.'' (map ascii_lower ls),
         dm_question_type = (if family = ''ipv4'' then 1 else 28),
         dm_answer_address = Some (if family = ''ipv4'' then DNS_A_ADDRESS else DNS_AAAA_ADDRESS),
         dm_recursion_desired = rd\<rparr>"
proof -
  define flags where "flags = DNS_AUTHORITATIVE_RESPONSE_FLAGS + (if rd then DNS_FLAG_RECURSION_DESIRED else 0)"
  note flags = rd_flags [OF disjI2 [OF refl] flags_def]
  let ?h = "dns_header identifier flags 1"
  let ?t = "to_bytes Big 2 (if family = ''ipv4'' then 1 else 28) @ to_bytes Big 2 1"
  let ?a = "?t @ to_bytes Big 4 DNS_TTL @ to_bytes Big 2 (length packed)"
  let ?n = "12 + length (encode_labels ls)"
  define d where "d = dns_answer_bytes identifier rd family ls packed"
  have d: "d = ?h @ encode_labels ls @ ?t @ [0xC0, 12] @ ?a @ packed"
    by (simp add: d_def dns_answer_bytes_def dns_question_def flags_def)
  have h: "unpack_from 12 d 0 = Inr ?h" by (simp add: d unpack_from_def py_slice_def)
  have n: "dns_name d 12 0 = Inr (join_with ''.'' (map ascii_lower ls), ?n)"
    unfolding d using assms by (intro dns_name_question) auto
  have t: "unpack_from 4 d ?n = Inr ?t"
    by (simp add: d unpack_from_def py_slice_def)
  have n2: "dns_name d (?n + 4) 0 = Inr (join_with ''.'' (map ascii_lower ls), ?n + 4 + 2)"
    using assms d by (intro dns_name_pointer [where mid = ?t]) auto
  have a: "unpack_from 10 d (?n + 4 + 2) = Inr ?a"
    by (simp add: d unpack_from_def py_slice_def)
  have p: "py_slice d (?n + 4 + 2 + 10) (?n + 4 + 2 + 10 + length packed) = packed"
    by (simp add: d py_slice_def)
  have l: "length d = ?n + 4 + 2 + 10 + length packed" by (simp add: d)
  have "case ip_of_packed packed of Inl _ \<Rightarrow> False
    | Inr ip \<Rightarrow> ip_text ip = (if family = ''ipv4'' then DNS_A_ADDRESS else DNS_AAAA_ADDRESS)"
    unfolding packed by (cases "family = ''ipv4''"; simp only: if_True if_False refl; code_simp)
  then obtain ip where ip: "ip_of_packed packed = Inr ip"
      "ip_text ip = (if family = ''ipv4'' then DNS_A_ADDRESS else DNS_AAAA_ADDRESS)"
    by (auto split: sum.splits)
  have lp: "length packed = (if family = ''ipv4'' then 4 else 16)" by (simp add: packed)
  show ?thesis
    using ip n2 [simplified] a [simplified] p
    unfolding dns_message_of_def Let_def d_def [symmetric]
    by (auto simp: h n t l lp ufield_first ufield_skip ufield_last dns_header_fields assms(1) flags DNS_TTL_def)
qed

text \<open>
  C35: _dns_message reads back the DNS queries and the compressed authoritative answers the
  evidence endpoint sends: identifier, lower-cased name, question type, fixed answer address and
  the echoed RD bit.
\<close>

theorem dns_roundtrip:
  assumes "identifier < 65536" "\<forall>l \<in> set ls. wf_label l \<and> CHR ''.'' \<notin> set l" "ls \<noteq> []" "length ls \<le> 32"
    and "packed = (if family = ''ipv4'' then [192, 0, 2, 1]
      else [0x20, 0x01, 0x0d, 0xb8, 0, 0, 0, 0, 0, 0, 0, 0, 0, 0, 0, 1])"
  shows "dns_message_of (dns_query_bytes identifier rd family ls) family =
      Inr \<lparr>dm_identifier = identifier, dm_is_response = False,
           dm_question_name = join_with ''.'' (map ascii_lower ls),
           dm_question_type = (if family = ''ipv4'' then 1 else 28),
           dm_answer_address = None, dm_recursion_desired = rd\<rparr> \<and>
    dns_message_of (dns_answer_bytes identifier rd family ls packed) family =
      Inr \<lparr>dm_identifier = identifier, dm_is_response = True,
           dm_question_name = join_with ''.'' (map ascii_lower ls),
           dm_question_type = (if family = ''ipv4'' then 1 else 28),
           dm_answer_address = Some (if family = ''ipv4'' then DNS_A_ADDRESS else DNS_AAAA_ADDRESS),
           dm_recursion_desired = rd\<rparr>"
  using assms by (intro conjI dns_query_parses dns_answer_parses) auto

end
