(* ===== verification/Packet_Evidence.thy ===== *)
theory Packet_Evidence
  imports Packet_Decode "HOL-Library.Product_Lexorder" "HOL-Library.Multiset"
begin

text \<open>
  The evidence layer of \<open>scripts/harness/packet_capture.py\<close>: TCP stream reassembly and token search
  (\<open>_token_offsets\<close>, \<open>_tcp_token_windows\<close>), DNS transactions (\<open>_dns_response_for_token\<close>,
  \<open>_dns_leg_messages\<close>, \<open>_dns_exchange\<close>, \<open>_dns_exchanges\<close>), TCP stage segments, record spans, and the
  events of a token under each protocol (\<open>_events_for_token\<close>, \<open>_event_windows_for_token\<close>).
\<close>

section \<open>Token search\<close>

definition MAX_REASSEMBLED_FLOW_BYTES :: nat where
  "MAX_REASSEMBLED_FLOW_BYTES = 1 * 1024 * 1024"

lemma py_find_Some:
  "py_find data tok start = Some i \<Longrightarrow>
    start \<le> i \<and> occurs_at data tok i \<and> (\<forall>j. start \<le> j \<and> j < i \<longrightarrow> \<not> occurs_at data tok j)"
proof -
  assume "py_find data tok start = Some i"
  then obtain k where k: "find_sub (drop start data) tok = Some k" "i = start + k" "start \<le> length data"
    by (auto simp: py_find_def split: if_splits)
  have shift: "occurs_at (drop start data) tok j = occurs_at data tok (start + j)" for j
    using k(3) by (auto simp: occurs_at_def add.commute)
  have "\<not> occurs_at data tok j" if "start \<le> j" "j < i" for j
    using find_sub_Some [OF k(1)] k(2) that shift [of "j - start"] by auto
  with find_sub_Some [OF k(1)] k(2) shift show ?thesis by auto
qed

lemma py_find_None:
  "py_find data tok start = None \<Longrightarrow> start \<le> i \<Longrightarrow> \<not> occurs_at data tok i"
proof -
  assume none: "py_find data tok start = None" and i: "start \<le> i"
  show "\<not> occurs_at data tok i"
  proof
    assume occ: "occurs_at data tok i"
    then have "i \<le> length data" by (simp add: occurs_at_def)
    with i none have "find_sub (drop start data) tok = None" by (auto simp: py_find_def split: if_splits)
    then have "\<not> occurs_at (drop start data) tok (i - start)"
      using \<open>i \<le> length data\<close> by (auto simp: find_sub_None_iff)
    with occ i show False by (auto simp: occurs_at_def)
  qed
qed

function token_offsets_from :: "bytes \<Rightarrow> bytes \<Rightarrow> nat \<Rightarrow> nat list" where
  "token_offsets_from data token start =
     (case py_find data token start of
        None \<Rightarrow> []
      | Some found \<Rightarrow> found # token_offsets_from data token (found + 1))"
  by pat_completeness auto
termination
proof (relation "measure (\<lambda>(data, _, start). Suc (length data) - start)")
  fix data token :: bytes and start found
  assume "py_find data token start = Some found"
  then have "start \<le> found" "found \<le> length data"
    using py_find_Some [of data token start found] by (auto simp: occurs_at_def)
  then show "((data, token, found + 1), data, token, start)
    \<in> measure (\<lambda>(data, _, start). Suc (length data) - start)" by simp
qed simp

declare token_offsets_from.simps [simp del]

definition token_offsets :: "bytes \<Rightarrow> bytes \<Rightarrow> nat list" where
  "token_offsets data token = token_offsets_from data token 0"

section \<open>TCP reassembly\<close>

type_synonym flow_key = "string \<times> string \<times> nat \<times> nat"

definition flow_key_of :: "transport_packet \<Rightarrow> flow_key" where
  "flow_key_of packet =
     (tp_source packet, tp_destination packet, tp_source_port packet, tp_destination_port packet)"

text \<open>\<open>flows.setdefault(key, []).append(packet)\<close>: a dict in insertion order.\<close>

definition add_to_flow ::
  "(flow_key \<times> transport_packet list) list \<Rightarrow> transport_packet \<Rightarrow> (flow_key \<times> transport_packet list) list" where
  "add_to_flow flows packet =
     (let key = flow_key_of packet in
      AList.update key ((case map_of flows key of None \<Rightarrow> [] | Some ps \<Rightarrow> ps) @ [packet]) flows)"

definition tcp_flows :: "transport_packet list \<Rightarrow> (flow_key \<times> transport_packet list) list" where
  "tcp_flows packets = foldl add_to_flow [] packets"

definition segment_order :: "transport_packet \<Rightarrow> nat \<times> rat" where
  "segment_order item = (case tp_sequence item of None \<Rightarrow> 0 | Some s \<Rightarrow> s, tp_timestamp item)"

record reassembly =
  re_stream :: bytes
  re_timestamps :: "rat list"
  re_cursor :: nat

text \<open>
  One segment of the reassembly loop. The segments come in sequence order and \<open>base\<close> is the first
  sequence number, so \<open>sequence - base\<close> is never negative.
\<close>

definition reassemble_step :: "nat \<Rightarrow> reassembly \<Rightarrow> transport_packet \<Rightarrow> reassembly res" where
  "reassemble_step base st segment =
     (case tp_sequence segment of
        None \<Rightarrow> Inl (PacketCaptureError ''TCP sequence is absent'')
      | Some sequence \<Rightarrow>
          if sequence > re_cursor st then
            Inl (PacketCaptureError ''TCP evidence has a reassembly gap'')
          else
          let payload = tp_payload segment;
              overlap = re_cursor st - sequence;
              existing_start = sequence - base;
              existing_end = existing_start + min overlap (length payload) in
          if overlap \<noteq> 0 \<and> py_slice (re_stream st) existing_start existing_end \<noteq>
               take (existing_end - existing_start) payload then
            Inl (PacketCaptureError ''TCP evidence has conflicting overlap bytes'')
          else
          let suffix = drop overlap payload in
          if length (re_stream st) + length suffix > MAX_REASSEMBLED_FLOW_BYTES then
            Inl (PacketCaptureError ''TCP reassembled flow exceeds the bound'')
          else Inr \<lparr>re_stream = re_stream st @ suffix,
                    re_timestamps = re_timestamps st @ replicate (length suffix) (tp_timestamp segment),
                    re_cursor = max (re_cursor st) (sequence + length payload)\<rparr>)"

definition reassemble :: "transport_packet list \<Rightarrow> reassembly res" where
  "reassemble ordered =
     (case tp_sequence (hd ordered) of
        None \<Rightarrow> Inl (PacketCaptureError ''TCP sequence is absent'')
      | Some base \<Rightarrow>
          foldE (reassemble_step base) \<lparr>re_stream = [], re_timestamps = [], re_cursor = base\<rparr> ordered)"

text \<open>The windows of one flow: the time of the first and of the last byte of each occurrence.\<close>

definition flow_token_windows :: "bytes \<Rightarrow> transport_packet list \<Rightarrow> (rat \<times> rat) list res" where
  "flow_token_windows token segments =
     (let nonempty = filter (\<lambda>segment. tp_payload segment \<noteq> []) segments in
      if nonempty = [] then Inr []
      else bindE (reassemble (sort_key segment_order nonempty)) (\<lambda>st.
        mapE (\<lambda>offset.
          bindE (py_index (re_timestamps st) (int offset)) (\<lambda>first.
          bindE (py_index (re_timestamps st) (int offset + int (length token) - 1)) (\<lambda>last.
          Inr (first, last)))) (token_offsets (re_stream st) token)))"

definition tcp_token_windows :: "transport_packet list \<Rightarrow> bytes \<Rightarrow> (rat \<times> rat) list res" where
  "tcp_token_windows packets token =
     bindE (mapE (flow_token_windows token) (map snd (tcp_flows packets))) (\<lambda>wss. Inr (concat wss))"

definition tcp_token_times :: "transport_packet list \<Rightarrow> bytes \<Rightarrow> rat list res" where
  "tcp_token_times packets token = bindE (tcp_token_windows packets token) (\<lambda>ws. Inr (map fst ws))"

section \<open>DNS transactions\<close>

record dns_resolver_leg =
  lg_client_address :: string
  lg_resolver_address :: string

record exchange_pair =
  dx_query :: transport_packet
  dx_answer :: transport_packet
  dx_records :: "transport_packet list"

definition exchange_window :: "exchange_pair \<Rightarrow> rat \<times> rat" where
  "exchange_window x = (tp_timestamp (dx_query x), tp_timestamp (dx_answer x))"

text \<open>\<open>f"{token.decode('ascii').lower()}.evidence.test"\<close>\<close>

definition evidence_name :: "bytes \<Rightarrow> string res" where
  "evidence_name token = bindE (decode_ascii token) (\<lambda>t. Inr (ascii_lower t @ ''.evidence.test''))"

type_synonym dns_pair = "transport_packet \<times> dns_message"

text \<open>One packet of the scan in \<open>_dns_response_for_token\<close>, on the queries and responses so far.\<close>

definition dns_scan_step ::
  "string \<Rightarrow> string \<Rightarrow> string \<Rightarrow> dns_pair list \<times> dns_pair list \<Rightarrow> transport_packet \<Rightarrow>
   (dns_pair list \<times> dns_pair list) res" where
  "dns_scan_step family question_family expected_name acc packet =
     (let (queries, responses) = acc in
      if tp_family packet \<noteq> family \<or> tp_protocol packet \<noteq> ''udp'' then Inr acc
      else bindE (dns_message_of (tp_payload packet) question_family) (\<lambda>message.
        if dm_question_name message \<noteq> expected_name then Inr acc
        else if dm_is_response message then
          (if tp_source_port packet \<noteq> 53 then
             Inl (PacketCaptureError ''DNS response direction/port is invalid'')
           else Inr (queries, responses @ [(packet, message)]))
        else
          (if tp_destination_port packet \<noteq> 53 then
             Inl (PacketCaptureError ''DNS query direction/port is invalid'')
           else Inr (queries @ [(packet, message)], responses))))"

definition dns_response_for_token ::
  "transport_packet list \<Rightarrow> string \<Rightarrow> bytes \<Rightarrow> string \<Rightarrow> (rat \<times> rat \<times> bytes) res" where
  "dns_response_for_token packets family token question_family =
     bindE (evidence_name token) (\<lambda>expected_name.
     bindE (foldE (dns_scan_step family question_family expected_name) ([], []) packets)
       (\<lambda>(queries, responses).
     case (queries, responses) of
       ([(query_packet, query)], [(response_packet, response)]) \<Rightarrow>
         if dm_identifier query \<noteq> dm_identifier response \<or>
            dm_question_type query \<noteq> dm_question_type response \<or>
            dm_recursion_desired query \<noteq> dm_recursion_desired response \<or>
            dm_answer_address response = None \<or>
            tp_timestamp response_packet \<le> tp_timestamp query_packet then
           Inl (PacketCaptureError ''DNS query/response transaction is not causal and exact'')
         else Inr (tp_timestamp query_packet, tp_timestamp response_packet, tp_payload response_packet)
     | _ \<Rightarrow> Inl (PacketCaptureError ''DNS token must have exactly one query and one authoritative response'')))"

datatype retransmission_policy = EXACT | IDENTICAL_RETRANSMISSIONS

text \<open>
  The policy argument is one of the two members, so the source's test of its Python type always
  passes. \<open>has_legs\<close> says whether \<open>dns_resolver_legs\<close> is given.
\<close>

definition identical_retransmissions :: "retransmission_policy \<Rightarrow> string \<Rightarrow> bool \<Rightarrow> bool res" where
  "identical_retransmissions retransmissions protocol has_legs =
     (if retransmissions = EXACT then Inr False
      else if protocol = ''tcp'' \<or> (protocol = ''dns'' \<and> has_legs) then Inr True
      else Inl (TypeError ''identical retransmissions are defined only for DNS over resolver legs and TCP''))"

type_synonym leg_index = "(string \<times> dns_resolver_leg) list"

definition dns_leg_message :: "leg_index \<Rightarrow> string \<Rightarrow> transport_packet \<Rightarrow> dns_pair res" where
  "dns_leg_message legs question_family packet =
     (let outside = Inl (PacketCaptureError ''DNS capture record is outside the resolver legs'') in
      if tp_protocol packet \<noteq> ''udp'' then outside
      else case map_of legs (tp_family packet) of
        None \<Rightarrow> outside
      | Some leg \<Rightarrow>
          let query = ((tp_source packet, tp_destination packet, tp_destination_port packet) =
                       (lg_client_address leg, lg_resolver_address leg, 53));
              answer = ((tp_source packet, tp_source_port packet, tp_destination packet) =
                        (lg_resolver_address leg, 53, lg_client_address leg)) in
          if \<not> query \<and> \<not> answer then outside
          else bindE (dns_message_of (tp_payload packet) question_family) (\<lambda>message.
            if dm_is_response message \<noteq> answer then
              Inl (PacketCaptureError ''DNS message direction differs from its resolver leg'')
            else Inr (packet, message)))"

definition dns_leg_messages :: "transport_packet list \<Rightarrow> leg_index \<Rightarrow> string \<Rightarrow> dns_pair list res" where
  "dns_leg_messages transports legs question_family = mapE (dns_leg_message legs question_family) transports"

text \<open>Pairs one answer with the first earlier query of its token on the same leg, port and ID.\<close>

definition pair_answer ::
  "dns_pair list \<Rightarrow> dns_message \<Rightarrow> dns_pair \<Rightarrow> (transport_packet \<times> transport_packet) res" where
  "pair_answer queries first_message named =
     (let (answer, message) = named;
          asked = filter (\<lambda>(query, query_message).
            dm_identifier query_message = dm_identifier message \<and>
            (tp_source query, tp_source_port query, tp_destination query) =
            (tp_destination answer, tp_destination_port answer, tp_source answer) \<and>
            tp_timestamp query < tp_timestamp answer) queries in
      if asked = [] then
        Inl (PacketCaptureError ''DNS answer does not answer an earlier query of its token'')
      else if dm_recursion_desired message \<noteq> dm_recursion_desired first_message then
        Inl (PacketCaptureError ''DNS query/response transaction is not causal and exact'')
      else Inr (fst (hd asked), answer))"

text \<open>\<open>min(xs, key=f)\<close> of a non-empty list: the first element with the least key.\<close>

primrec min_by :: "('a \<Rightarrow> 'b :: linorder) \<Rightarrow> 'a \<Rightarrow> 'a list \<Rightarrow> 'a" where
  "min_by f best [] = best"
| "min_by f best (x # xs) = min_by f (if f x < f best then x else best) xs"

definition dns_exchange :: "dns_pair list \<Rightarrow> bytes \<Rightarrow> exchange_pair res" where
  "dns_exchange messages token =
     bindE (evidence_name token) (\<lambda>name.
     let named = filter (\<lambda>(_, message). dm_question_name message = name) messages;
         queries = filter (\<lambda>(_, message). \<not> dm_is_response message) named;
         answers = filter (\<lambda>(_, message). dm_is_response message) named in
     case queries of
       [] \<Rightarrow> Inl (PacketCaptureError ''DNS token has no exact query'')
     | (first_query, first_message) # _ \<Rightarrow>
         if list_ex (\<lambda>(packet, _). drop 2 (tp_payload packet) \<noteq> drop 2 (tp_payload first_query)) queries then
           Inl (PacketCaptureError ''DNS token queries differ beyond their ID'')
         else if list_ex (\<lambda>(packet, _). drop 2 (tp_payload packet) \<noteq>
                   drop 2 (tp_payload (fst (hd answers)))) answers then
           Inl (PacketCaptureError ''DNS token answers differ beyond their ID'')
         else bindE (mapE (pair_answer queries first_message) answers) (\<lambda>pairs.
           case pairs of
             [] \<Rightarrow> Inl (PacketCaptureError ''DNS token has no answered query'')
           | pair # rest \<Rightarrow>
               let (query, answer) = min_by (\<lambda>pair. tp_timestamp (snd pair)) pair rest in
               Inr \<lparr>dx_query = query, dx_answer = answer, dx_records = map fst named\<rparr>))"

type_synonym tokens = "bytes \<times> bytes \<times> bytes"

definition dns_exchanges ::
  "transport_packet list \<Rightarrow> leg_index \<Rightarrow> string \<Rightarrow> tokens \<Rightarrow>
   (exchange_pair \<times> exchange_pair \<times> exchange_pair) res" where
  "dns_exchanges transports legs question_family tokens =
     (case tokens of (t1, t2, t3) \<Rightarrow>
      bindE (dns_leg_messages transports legs question_family) (\<lambda>messages.
      bindE (mapE evidence_name [t1, t2, t3]) (\<lambda>names.
      if list_ex (\<lambda>(_, message). dm_question_name message \<notin> set names) messages then
        Inl (PacketCaptureError ''DNS capture record names no evidence token'')
      else bindE (dns_exchange messages t1) (\<lambda>start.
           bindE (dns_exchange messages t2) (\<lambda>target.
           bindE (dns_exchange messages t3) (\<lambda>end.
           Inr (start, target, end)))))))"

section \<open>TCP stages and record spans\<close>

record staged_capture_endpoint =
  se_stage :: string
  se_local_address :: string
  se_local_port :: int
  se_remote_address :: string
  se_remote_port :: int

definition endpoint_flow :: "staged_capture_endpoint \<Rightarrow> string \<times> int \<times> string \<times> int" where
  "endpoint_flow e = (se_local_address e, se_local_port e, se_remote_address e, se_remote_port e)"

definition packet_flow :: "transport_packet \<Rightarrow> string \<times> int \<times> string \<times> int" where
  "packet_flow p = (tp_source p, int (tp_source_port p), tp_destination p, int (tp_destination_port p))"

text \<open>One packet of \<open>_tcp_stage_segments\<close>; \<open>zip(..., strict=True)\<close> wants one flow per token.\<close>

definition tcp_stage_step ::
  "(string \<times> int \<times> string \<times> int) list \<Rightarrow> bytes list \<Rightarrow> transport_packet list list \<Rightarrow>
   transport_packet \<Rightarrow> transport_packet list list res" where
  "tcp_stage_step flows tokens segments packet =
     (if length flows \<noteq> length tokens then Inl (ValueError ''zip() arguments differ in length'')
      else let owners = map fst (filter (\<lambda>(_, stage_flow, token).
               tp_protocol packet = ''tcp'' \<and> packet_flow packet = stage_flow \<and> tp_payload packet = token)
             (List.enumerate 0 (zip flows tokens))) in
      case owners of
        [] \<Rightarrow> Inl (PacketCaptureError ''TCP capture record is not a stage's data segment or its repeat'')
      | i # _ \<Rightarrow>
          let stage = segments ! i in
          if stage \<noteq> [] \<and> tp_sequence packet \<noteq> tp_sequence (hd stage) then
            Inl (PacketCaptureError ''TCP stage repeats its data at another sequence number'')
          else Inr (segments[i := stage @ [packet]]))"

type_synonym stage_records = "transport_packet list \<times> transport_packet list \<times> transport_packet list"

definition tcp_stage_segments ::
  "transport_packet list \<Rightarrow> staged_capture_endpoint list \<Rightarrow> tokens \<Rightarrow> stage_records res" where
  "tcp_stage_segments transports endpoints tokens =
     (case tokens of (t1, t2, t3) \<Rightarrow>
      bindE (foldE (tcp_stage_step (map endpoint_flow endpoints) [t1, t2, t3]) [[], [], []] transports)
        (\<lambda>segments.
      if list_ex (\<lambda>stage. stage = []) segments then
        Inl (PacketCaptureError ''TCP stage has no data segment'')
      else Inr (segments ! 0, segments ! 1, segments ! 2)))"

record stage_record_span =
  sp_first_at :: rat
  sp_last_at :: rat

definition stage_span :: "transport_packet list \<Rightarrow> stage_record_span res" where
  "stage_span records =
     (if records = [] then Inl (ValueError ''min() iterable argument is empty'')
      else Inr \<lparr>sp_first_at = Min (set (map tp_timestamp records)),
                sp_last_at = Max (set (map tp_timestamp records))\<rparr>)"

type_synonym stage_spans = "stage_record_span \<times> stage_record_span \<times> stage_record_span"

definition record_spans :: "stage_records \<Rightarrow> stage_spans res" where
  "record_spans stages =
     (case stages of (s1, s2, s3) \<Rightarrow>
      bindE (stage_span s1) (\<lambda>start. bindE (stage_span s2) (\<lambda>target. bindE (stage_span s3) (\<lambda>end.
      Inr (start, target, end)))))"

section \<open>Events of a token\<close>

text \<open>The times at which QUIC packets of the list carry the token in a connection ID.\<close>

definition quic_token_times :: "transport_packet list \<Rightarrow> bytes \<Rightarrow> rat list res" where
  "quic_token_times packets token =
     bindE (mapE (\<lambda>packet. bindE (quic_connection_ids (tp_payload packet)) (\<lambda>(_, dcid, scid).
         Inr (if contains dcid token \<or> contains scid token then [tp_timestamp packet] else [])))
       (filter (\<lambda>packet. tp_protocol packet = ''udp'') packets)) (\<lambda>ts. Inr (concat ts))"

definition udp_token_times :: "transport_packet list \<Rightarrow> bytes \<Rightarrow> rat list" where
  "udp_token_times packets token =
     map tp_timestamp (filter (\<lambda>packet. tp_protocol packet = ''udp'' \<and> contains (tp_payload packet) token) packets)"

definition events_for_token ::
  "transport_packet list \<Rightarrow> string \<Rightarrow> string \<Rightarrow> bytes \<Rightarrow> string \<Rightarrow> rat list res" where
  "events_for_token packets protocol family token question_family =
     (let matching = filter (\<lambda>packet. tp_family packet = family) packets in
      if protocol = ''tcp'' then
        tcp_token_times (filter (\<lambda>packet. tp_protocol packet = ''tcp'') matching) token
      else if protocol = ''udp'' then Inr (udp_token_times matching token)
      else if protocol = ''dns'' then
        bindE (dns_response_for_token matching family token question_family)
          (\<lambda>(_, response_at, _). Inr [response_at])
      else if protocol = ''quic'' then quic_token_times matching token
      else Inl (PacketCaptureError ''unsupported evidence protocol: {}''))"

definition event_windows_for_token ::
  "transport_packet list \<Rightarrow> string \<Rightarrow> string \<Rightarrow> bytes \<Rightarrow> string \<Rightarrow> (rat \<times> rat) list res" where
  "event_windows_for_token packets protocol family token question_family =
     (let matching = filter (\<lambda>packet. tp_family packet = family) packets in
      if protocol = ''tcp'' then
        tcp_token_windows (filter (\<lambda>packet. tp_protocol packet = ''tcp'') matching) token
      else if protocol = ''udp'' then Inr (map (\<lambda>t. (t, t)) (udp_token_times matching token))
      else if protocol = ''dns'' then
        bindE (dns_response_for_token matching family token question_family)
          (\<lambda>(query_at, response_at, _). Inr [(query_at, response_at)])
      else if protocol = ''quic'' then
        bindE (quic_token_times matching token) (\<lambda>ts. Inr (map (\<lambda>t. (t, t)) ts))
      else Inl (PacketCaptureError ''unsupported evidence protocol: {}''))"

section \<open>Token search finds every occurrence\<close>

lemma token_offsets_from_eq:
  "start \<le> Suc (length data) \<Longrightarrow>
   token_offsets_from data token start = filter (occurs_at data token) [start..<Suc (length data)]"
proof (induction data token start rule: token_offsets_from.induct)
  case (1 data token start)
  show ?case
  proof (cases "py_find data token start")
    case None
    then show ?thesis
      by (subst token_offsets_from.simps) (auto simp: filter_empty_conv dest: py_find_None)
  next
    case (Some found)
    note f = py_find_Some [OF Some]
    have le: "found \<le> length data" using f by (auto simp: occurs_at_def)
    have "[start..<Suc (length data)] = [start..<found] @ found # [Suc found..<Suc (length data)]"
      using f le upt_add_eq_append [of start found "Suc (length data) - found"]
      by (simp add: upt_conv_Cons del: upt_Suc)
    moreover have "filter (occurs_at data token) [start..<found] = []"
      using f by (auto simp: filter_empty_conv)
    ultimately show ?thesis
      using f le Some "1.IH" [OF Some] by (subst token_offsets_from.simps) auto
  qed
qed

lemma token_offsets_eq:
  "token_offsets data token = filter (occurs_at data token) [0..<Suc (length data)]"
  unfolding token_offsets_def by (rule token_offsets_from_eq) simp

lemma set_token_offsets: "set (token_offsets data token) = {i. occurs_at data token i}"
  by (auto simp: token_offsets_eq occurs_at_def simp del: upt_Suc)

section \<open>Reassembly is sound\<close>

definition placed :: "nat \<Rightarrow> bytes \<Rightarrow> transport_packet \<Rightarrow> bool" where
  "placed base stream segment =
     (case tp_sequence segment of
        None \<Rightarrow> False
      | Some s \<Rightarrow> base \<le> s \<and> s - base + length (tp_payload segment) \<le> length stream \<and>
          py_slice stream (s - base) (s - base + length (tp_payload segment)) = tp_payload segment)"

definition covers :: "nat \<Rightarrow> transport_packet \<Rightarrow> nat \<Rightarrow> bool" where
  "covers base segment i =
     (case tp_sequence segment of
        None \<Rightarrow> False
      | Some s \<Rightarrow> base \<le> s \<and> s - base \<le> i \<and> i < s - base + length (tp_payload segment))"

definition reassembled :: "nat \<Rightarrow> transport_packet list \<Rightarrow> reassembly \<Rightarrow> bool" where
  "reassembled base segments st =
     (length (re_timestamps st) = length (re_stream st) \<and>
      re_cursor st = base + length (re_stream st) \<and>
      length (re_stream st) \<le> MAX_REASSEMBLED_FLOW_BYTES \<and>
      list_all (placed base (re_stream st)) segments \<and>
      (\<forall>i < length (re_stream st). \<exists>segment \<in> set segments.
         covers base segment i \<and> re_timestamps st ! i = tp_timestamp segment))"

lemma placed_append: "placed base stream seg \<Longrightarrow> placed base (stream @ xs) seg"
  by (auto simp: placed_def py_slice_def split: option.splits)

lemma reassemble_step_sound:
  assumes inv: "reassembled base prev st"
    and seq: "tp_sequence seg = Some s" "base \<le> s"
    and step: "reassemble_step base st seg = Inr st'"
  shows "reassembled base (prev @ [seg]) st'"
proof -
  let ?p = "tp_payload seg" and ?n = "length (re_stream st)"
  have cur: "re_cursor st = base + ?n" and lt: "length (re_timestamps st) = ?n"
    using inv by (auto simp: reassembled_def)
  define ov where "ov = re_cursor st - s"
  have le: "s \<le> re_cursor st"
    and agree: "py_slice (re_stream st) (s - base) (s - base + min ov (length ?p)) = take (min ov (length ?p)) ?p"
    and bound: "?n + length (drop ov ?p) \<le> MAX_REASSEMBLED_FLOW_BYTES"
    and st': "st' = \<lparr>re_stream = re_stream st @ drop ov ?p,
      re_timestamps = re_timestamps st @ replicate (length (drop ov ?p)) (tp_timestamp seg),
      re_cursor = max (re_cursor st) (s + length ?p)\<rparr>"
    using step seq by (auto simp: reassemble_step_def Let_def ov_def py_slice_def split: if_splits)
  have off: "s - base + ov = ?n" using cur le seq by (simp add: ov_def)
  have "py_slice (re_stream st @ drop ov ?p) (s - base) (s - base + length ?p) = ?p"
  proof (cases "ov \<le> length ?p")
    case True
    then have "drop (s - base) (re_stream st) = take ov ?p"
      using agree off by (simp add: py_slice_def min_def)
    with True off show ?thesis by (simp add: py_slice_def)
  next
    case False
    then show ?thesis using agree off by (simp add: py_slice_def min_def)
  qed
  then have "placed base (re_stream st') seg"
    using seq off by (auto simp: placed_def st')
  moreover have "\<exists>segment \<in> set (prev @ [seg]). covers base segment i \<and> re_timestamps st' ! i = tp_timestamp segment"
    if "i < length (re_stream st')" for i
  proof (cases "i < ?n")
    case True
    then show ?thesis using inv lt by (auto simp: reassembled_def st' nth_append)
  next
    case False
    with that off seq have "covers base seg i" by (auto simp: covers_def st')
    with False that lt show ?thesis by (auto simp: st' nth_append)
  qed
  ultimately show ?thesis
    using inv off cur bound lt seq le
    by (auto simp: reassembled_def st' list_all_iff placed_append)
qed

lemma reassemble_sound:
  assumes "sorted (map segment_order ordered)" "ordered \<noteq> []" "reassemble ordered = Inr st"
  shows "\<exists>base. tp_sequence (hd ordered) = Some base \<and> reassembled base ordered st"
proof -
  from assms obtain base where base: "tp_sequence (hd ordered) = Some base"
    and run: "foldE (reassemble_step base) \<lparr>re_stream = [], re_timestamps = [], re_cursor = base\<rparr> ordered = Inr st"
    by (auto simp: reassemble_def split: option.splits)
  have first: "base \<le> s" if "seg \<in> set ordered" "tp_sequence seg = Some s" for seg s
  proof -
    have "segment_order (hd ordered) \<le> segment_order seg"
      using assms(1,2) that(1) by (cases ordered) auto
    with that(2) base show ?thesis by (auto simp: segment_order_def)
  qed
  have "reassembled base ordered st"
    using run
  proof (rule foldE_prefix_invariant)
    show "reassembled base [] \<lparr>re_stream = [], re_timestamps = [], re_cursor = base\<rparr>"
      by (simp add: reassembled_def)
  next
    fix prev seg st1 st2
    assume "seg \<in> set ordered" "reassembled base prev st1" and step: "reassemble_step base st1 seg = Inr st2"
    moreover from step obtain s where "tp_sequence seg = Some s"
      by (auto simp: reassemble_step_def split: option.splits)
    ultimately show "reassembled base (prev @ [seg]) st2"
      using first by (intro reassemble_step_sound) auto
  qed
  with base show ?thesis by blast
qed


section \<open>Flows\<close>

lemma map_of_update_alist: "map_of (AList.update k v xs) = (map_of xs)(k \<mapsto> v)"
  by (rule ext) (simp add: update_conv')

lemma tcp_flows_lookup:
  "map_of (tcp_flows packets) key =
     (if \<exists>p \<in> set packets. flow_key_of p = key
      then Some (filter (\<lambda>p. flow_key_of p = key) packets) else None)"
proof (induction packets rule: rev_induct)
  case Nil
  then show ?case by (simp add: tcp_flows_def)
next
  case (snoc p packets)
  have "tcp_flows (packets @ [p]) = add_to_flow (tcp_flows packets) p"
    by (simp add: tcp_flows_def)
  with snoc show ?case
    by (auto simp: add_to_flow_def Let_def map_of_update_alist filter_empty_conv)
qed

lemma distinct_tcp_flows: "distinct (map fst (tcp_flows packets))"
  by (induction packets rule: rev_induct) (auto simp: tcp_flows_def add_to_flow_def Let_def distinct_update)

lemma tcp_flows_member:
  assumes "segments \<in> set (map snd (tcp_flows packets))"
  shows "\<exists>p \<in> set packets. segments = filter (\<lambda>q. flow_key_of q = flow_key_of p) packets"
proof -
  from assms obtain key where "(key, segments) \<in> set (tcp_flows packets)" by auto
  then have "map_of (tcp_flows packets) key = Some segments"
    using distinct_tcp_flows by simp
  then show ?thesis by (auto simp: tcp_flows_lookup split: if_splits)
qed

section \<open>Windows of a token\<close>

lemma occurs_at_end: "occurs_at data token i \<Longrightarrow> i + length token \<le> length data"
  unfolding occurs_at_def by (auto dest!: arg_cong [where f = length])

lemma sort_key_eq_Nil [simp]: "sort_key f xs = [] \<longleftrightarrow> xs = []"
  by (metis length_0_conv length_sort)

lemma flow_token_windows_nonempty:
  assumes "token \<noteq> []" "ordered = sort_key segment_order (filter (\<lambda>s. tp_payload s \<noteq> []) segments)"
    and "ordered \<noteq> []" "reassemble ordered = Inr st"
  shows "flow_token_windows token segments =
    Inr (map (\<lambda>i. (re_timestamps st ! i, re_timestamps st ! (i + length token - 1)))
      (token_offsets (re_stream st) token))"
proof -
  have "sorted (map segment_order ordered)" using assms(2) by simp
  then obtain base where "reassembled base ordered st"
    using reassemble_sound assms(3,4) by blast
  then have len: "length (re_timestamps st) = length (re_stream st)" by (simp add: reassembled_def)
  have idx: "bindE (py_index (re_timestamps st) (int i)) (\<lambda>first.
      bindE (py_index (re_timestamps st) (int i + int (length token) - 1)) (\<lambda>last. Inr (first, last))) =
      Inr (re_timestamps st ! i, re_timestamps st ! (i + length token - 1))"
    if "i \<in> set (token_offsets (re_stream st) token)" for i
  proof -
    have e: "int i + int (length token) - 1 = int (i + length token - 1)" using assms(1) by (cases token) auto
    have "i + length token \<le> length (re_stream st)"
      using that by (auto simp: set_token_offsets dest: occurs_at_end)
    moreover have "0 < length token" using assms(1) by simp
    ultimately have "i + length token - 1 < length (re_stream st)" "i < length (re_stream st)"
      by linarith+
    then show ?thesis unfolding e py_index_int by (simp add: len)
  qed
  have ne: "filter (\<lambda>s. tp_payload s \<noteq> []) segments \<noteq> []" using assms(2,3) by auto
  show ?thesis
    using ne mapE_Inr_map [OF idx, of "token_offsets (re_stream st) token"] assms(2,4)
    by (simp add: flow_token_windows_def Let_def)
qed


text \<open>
  C3: Every token window that _tcp_token_windows reports is real: there is one flow whose data
  segments all agree with one stream, the token occurs in that stream, and the two times are
  those of segments that cover the first and the last byte of the occurrence.
\<close>

theorem tcp_token_windows_sound:
  assumes "tcp_token_windows packets token = Inr ws" "(t1, t2) \<in> set ws" "token \<noteq> []"
  shows "\<exists>p \<in> set packets. \<exists>base stream stamps i.
    (let segments = filter (\<lambda>q. flow_key_of q = flow_key_of p \<and> tp_payload q \<noteq> []) packets in
     list_all (placed base stream) segments \<and>
     occurs_at stream token i \<and> t1 = stamps ! i \<and> t2 = stamps ! (i + length token - 1) \<and>
     (\<forall>j < length stream. \<exists>q \<in> set segments. covers base q j \<and> stamps ! j = tp_timestamp q))"
proof -
  from assms obtain segments fws where seg: "segments \<in> set (map snd (tcp_flows packets))"
    and run: "flow_token_windows token segments = Inr fws" and w: "(t1, t2) \<in> set fws"
    by (force simp: tcp_token_windows_def bindE_eq_Inr dest: mapE_in_set)
  from tcp_flows_member [OF seg] obtain p where p: "p \<in> set packets"
    "segments = filter (\<lambda>q. flow_key_of q = flow_key_of p) packets" by blast
  define ordered where "ordered = sort_key segment_order (filter (\<lambda>s. tp_payload s \<noteq> []) segments)"
  have set_ord: "set ordered = set (filter (\<lambda>q. flow_key_of q = flow_key_of p \<and> tp_payload q \<noteq> []) packets)"
    by (auto simp: ordered_def p)
  from run w obtain st where ne: "ordered \<noteq> []" and st: "reassemble ordered = Inr st"
    by (auto simp: flow_token_windows_def Let_def bindE_eq_Inr ordered_def split: if_splits)
  have "sorted (map segment_order ordered)" by (simp add: ordered_def)
  then obtain base where re: "reassembled base ordered st"
    using reassemble_sound ne st by blast
  from w flow_token_windows_nonempty [OF assms(3) ordered_def ne st] run
  obtain i where "occurs_at (re_stream st) token i" "t1 = re_timestamps st ! i"
    "t2 = re_timestamps st ! (i + length token - 1)" by (auto simp: set_token_offsets)
  with re p(1) show ?thesis
    unfolding Let_def reassembled_def list_all_iff set_ord by blast
qed

section \<open>Reassembly is complete\<close>

text \<open>Consecutive segments of one stream, none of them empty, from sequence number \<open>base\<close> on.\<close>

primrec chunking :: "nat \<Rightarrow> transport_packet list \<Rightarrow> bool" where
  "chunking base [] = True"
| "chunking base (seg # segs) =
     (tp_sequence seg = Some base \<and> tp_payload seg \<noteq> [] \<and> chunking (base + length (tp_payload seg)) segs)"

lemma chunking_sequence:
  "chunking base segs \<Longrightarrow> seg \<in> set segs \<Longrightarrow> \<exists>s \<ge> base. tp_sequence seg = Some s"
  by (induction segs arbitrary: base) (auto, metis add_leE)

lemma chunking_sorted:
  "chunking base segs \<Longrightarrow> sorted_wrt (<) (map segment_order segs)"
proof (induction segs arbitrary: base)
  case (Cons seg segs)
  have "segment_order seg < segment_order q" if q: "q \<in> set segs" for q
  proof -
    obtain s where "base + length (tp_payload seg) \<le> s" "tp_sequence q = Some s"
      using chunking_sequence [OF _ q] Cons.prems by auto
    moreover have "0 < length (tp_payload seg)" using Cons.prems by simp
    ultimately have "base < s" by linarith
    with \<open>tp_sequence q = Some s\<close> Cons.prems show ?thesis by (simp add: segment_order_def)
  qed
  with Cons show ?case by auto
qed simp

lemma foldE_chunking:
  assumes "chunking (re_cursor st) segs"
    and "length (re_stream st @ concat (map tp_payload segs)) \<le> MAX_REASSEMBLED_FLOW_BYTES"
  shows "foldE (reassemble_step base) st segs =
    Inr \<lparr>re_stream = re_stream st @ concat (map tp_payload segs),
         re_timestamps = re_timestamps st @ concat (map (\<lambda>s. replicate (length (tp_payload s)) (tp_timestamp s)) segs),
         re_cursor = re_cursor st + length (concat (map tp_payload segs))\<rparr>"
  using assms
proof (induction segs arbitrary: st)
  case (Cons seg segs)
  let ?st = "\<lparr>re_stream = re_stream st @ tp_payload seg,
    re_timestamps = re_timestamps st @ replicate (length (tp_payload seg)) (tp_timestamp seg),
    re_cursor = re_cursor st + length (tp_payload seg)\<rparr>"
  have "reassemble_step base st seg = Inr ?st"
    using Cons.prems by (simp add: reassemble_step_def Let_def)
  with Cons.prems Cons.IH [of ?st] show ?case by simp
qed simp

text \<open>
  C2: TCP reassembly is complete: for every stream cut into consecutive non-empty segments
  within the size bound, whatever order the capture holds them in, sorting and reassembling
  gives the whole stream, every byte with the timestamp of its segment.
\<close>

theorem tcp_reassembly_complete:
  assumes "chunking base segs" "segs \<noteq> []" "mset packets = mset segs"
    and "length (concat (map tp_payload segs)) \<le> MAX_REASSEMBLED_FLOW_BYTES"
  shows "\<exists>st. reassemble (sort_key segment_order packets) = Inr st \<and>
    re_stream st = concat (map tp_payload segs) \<and>
    re_timestamps st = concat (map (\<lambda>s. replicate (length (tp_payload s)) (tp_timestamp s)) segs)"
proof -
  have so: "sorted_wrt (<) (map segment_order segs)" by (rule chunking_sorted [OF assms(1)])
  then have "inj_on segment_order (set packets)"
    using mset_eq_setD [OF assms(3)]
    by (simp add: strict_sorted_iff distinct_map)
  then have "sort_key segment_order packets = segs"
    using so assms(3) by (intro sort_key_inj_key_eq) (simp_all add: strict_sorted_iff)
  with assms show ?thesis
    using foldE_chunking [of "\<lparr>re_stream = [], re_timestamps = [], re_cursor = base\<rparr>" segs base]
    by (cases segs) (auto simp: reassemble_def)
qed

section \<open>DNS transactions are exact\<close>

text \<open>The packet is a DNS message of the family's UDP traffic that asks for \<open>name\<close>.\<close>

definition names_token :: "string \<Rightarrow> string \<Rightarrow> string \<Rightarrow> bool \<Rightarrow> transport_packet \<Rightarrow> bool" where
  "names_token family question_family name is_response p =
     (tp_family p = family \<and> tp_protocol p = ''udp'' \<and>
      (case dns_message_of (tp_payload p) question_family of
         Inl _ \<Rightarrow> False
       | Inr m \<Rightarrow> dm_question_name m = name \<and> dm_is_response m = is_response))"

lemma dns_scan:
  assumes "foldE (dns_scan_step family qf name) ([], []) packets = Inr acc"
  shows "map fst (fst acc) = filter (names_token family qf name False) packets \<and>
    map fst (snd acc) = filter (names_token family qf name True) packets \<and>
    (\<forall>(p, m) \<in> set (fst acc). dns_message_of (tp_payload p) qf = Inr m \<and> tp_destination_port p = 53) \<and>
    (\<forall>(p, m) \<in> set (snd acc). dns_message_of (tp_payload p) qf = Inr m \<and> tp_source_port p = 53)"
proof -
  define I where "I prev acc \<longleftrightarrow>
    map fst (fst acc) = filter (names_token family qf name False) prev \<and>
    map fst (snd acc) = filter (names_token family qf name True) prev \<and>
    (\<forall>(p, m) \<in> set (fst acc). dns_message_of (tp_payload p) qf = Inr m \<and> tp_destination_port p = 53) \<and>
    (\<forall>(p, m) \<in> set (snd acc). dns_message_of (tp_payload p) qf = Inr m \<and> tp_source_port p = 53)"
    for prev :: "transport_packet list" and acc :: "dns_pair list \<times> dns_pair list"
  have step: "I (prev @ [p]) acc'"
    if inv: "I prev acc" and step: "dns_scan_step family qf name acc p = Inr acc'" for prev p acc acc'
  proof (cases "tp_family p = family \<and> tp_protocol p = ''udp''")
    case False
    then have "acc' = acc" using step by (auto simp: dns_scan_step_def split: prod.splits)
    with False inv show ?thesis by (auto simp: I_def names_token_def)
  next
    case True
    then obtain m where m: "dns_message_of (tp_payload p) qf = Inr m"
      using step by (auto simp: dns_scan_step_def bindE_eq_Inr split: prod.splits)
    with True step inv show ?thesis
      by (cases acc) (auto simp: I_def dns_scan_step_def names_token_def split: if_splits)
  qed
  have "I [] ([], [])" by (simp add: I_def)
  then have "I packets acc" by (rule foldE_prefix_invariant [OF assms]) (rule step)
  then show ?thesis by (simp add: I_def)
qed

lemma dns_response_for_token_sound:
  assumes "dns_response_for_token packets family token qf = Inr (query_at, response_at, response)"
  shows "\<exists>name q qm r rm. evidence_name token = Inr name \<and>
    filter (names_token family qf name False) packets = [q] \<and>
    filter (names_token family qf name True) packets = [r] \<and>
    dns_message_of (tp_payload q) qf = Inr qm \<and> dns_message_of (tp_payload r) qf = Inr rm \<and>
    tp_destination_port q = 53 \<and> tp_source_port r = 53 \<and>
    dm_identifier qm = dm_identifier rm \<and> dm_recursion_desired qm = dm_recursion_desired rm \<and>
    dm_answer_address rm \<noteq> None \<and>
    query_at = tp_timestamp q \<and> response_at = tp_timestamp r \<and> query_at < response_at \<and>
    response = tp_payload r"
proof -
  from assms obtain name q qm r rm where n: "evidence_name token = Inr name"
    and run: "foldE (dns_scan_step family qf name) ([], []) packets = Inr ([(q, qm)], [(r, rm)])"
    and c: "dm_identifier qm = dm_identifier rm" "dm_recursion_desired qm = dm_recursion_desired rm"
      "dm_answer_address rm \<noteq> None" "\<not> tp_timestamp r \<le> tp_timestamp q"
      "query_at = tp_timestamp q" "response_at = tp_timestamp r" "response = tp_payload r"
    by (auto simp: dns_response_for_token_def res_simps)
  show ?thesis
    using dns_scan [OF run] n c by (intro exI [of _ name] exI [of _ q] exI [of _ qm] exI [of _ r] exI [of _ rm]) auto
qed

lemma min_by_least:
  "min_by f b xs \<in> set (b # xs) \<and> (\<forall>y \<in> set (b # xs). f (min_by f b xs) \<le> f y)"
proof (induction xs arbitrary: b)
  case (Cons x xs)
  show ?case using Cons.IH [of b] Cons.IH [of x] by (cases "f x < f b") auto
qed simp

lemma pair_answer_sound:
  assumes "pair_answer queries fm (a, m) = Inr (q, a')"
  shows "a' = a \<and> (\<exists>qm. (q, qm) \<in> set queries \<and> dm_identifier qm = dm_identifier m \<and>
    tp_source q = tp_destination a \<and> tp_source_port q = tp_destination_port a \<and>
    tp_destination q = tp_source a \<and> tp_timestamp q < tp_timestamp a) \<and>
    dm_recursion_desired m = dm_recursion_desired fm"
proof -
  let ?P = "\<lambda>(query, query_message).
            dm_identifier query_message = dm_identifier m \<and>
            (tp_source query, tp_source_port query, tp_destination query) =
            (tp_destination a, tp_destination_port a, tp_source a) \<and>
            tp_timestamp query < tp_timestamp a"
  from assms have ne: "filter ?P queries \<noteq> []"
    and r: "q = fst (hd (filter ?P queries))" "a' = a" "dm_recursion_desired m = dm_recursion_desired fm"
    by (auto simp: pair_answer_def Let_def split: if_splits)
  obtain q0 qm where h: "hd (filter ?P queries) = (q0, qm)" by fastforce
  from ne have "hd (filter ?P queries) \<in> set (filter ?P queries)" by (rule hd_in_set)
  with h have "(q0, qm) \<in> set queries \<and> ?P (q0, qm)" by simp
  then have "(q0, qm) \<in> set queries" "dm_identifier qm = dm_identifier m" "tp_source q0 = tp_destination a"
    "tp_source_port q0 = tp_destination_port a" "tp_destination q0 = tp_source a"
    "tp_timestamp q0 < tp_timestamp a" by simp_all
  moreover have "q = q0" using r(1) unfolding h by simp
  ultimately show ?thesis using r(2,3) by blast
qed

definition about :: "string \<Rightarrow> dns_pair \<Rightarrow> bool" where
  "about name pm = (dm_question_name (snd pm) = name)"

lemma about_eq: "(\<lambda>(_, m). dm_question_name m = name) = about name"
  by (auto simp: about_def fun_eq_iff)

lemma dns_exchange_records:
  "dns_exchange messages token = Inr x \<Longrightarrow>
   \<exists>name. evidence_name token = Inr name \<and> dx_records x = map fst (filter (about name) messages)"
  by (auto simp: dns_exchange_def Let_def res_simps about_eq)

theorem dns_exchange_sound:
  assumes "dns_exchange messages token = Inr x"
  shows "\<exists>name qm am. evidence_name token = Inr name \<and>
    (dx_query x, qm) \<in> set messages \<and> (dx_answer x, am) \<in> set messages \<and>
    about name (dx_query x, qm) \<and> about name (dx_answer x, am) \<and>
    \<not> dm_is_response qm \<and> dm_is_response am \<and> dm_identifier qm = dm_identifier am \<and>
    tp_source (dx_query x) = tp_destination (dx_answer x) \<and>
    tp_source_port (dx_query x) = tp_destination_port (dx_answer x) \<and>
    tp_destination (dx_query x) = tp_source (dx_answer x) \<and>
    tp_timestamp (dx_query x) < tp_timestamp (dx_answer x) \<and>
    dx_records x = map fst (filter (about name) messages) \<and>
    (\<forall>(p, m) \<in> set messages. about name (p, m) \<longrightarrow>
       (dm_is_response m \<longrightarrow> tp_timestamp (dx_answer x) \<le> tp_timestamp p \<and>
          drop 2 (tp_payload p) = drop 2 (tp_payload (dx_answer x))) \<and>
       (\<not> dm_is_response m \<longrightarrow> drop 2 (tp_payload p) = drop 2 (tp_payload (dx_query x))))"
proof -
  obtain name where name: "evidence_name token = Inr name"
    using assms by (auto simp: dns_exchange_def bindE_eq_Inr)
  define named where "named = filter (about name) messages"
  define queries where "queries = filter (\<lambda>(_, m). \<not> dm_is_response m) named"
  define answers where "answers = filter (\<lambda>(_, m). dm_is_response m) named"
  have named_eq: "filter (\<lambda>(_, m). dm_question_name m = name) messages = named"
    by (simp add: named_def about_eq)
  from assms obtain fq fm qs pairs p0 rest where
    qs: "queries = (fq, fm) # qs"
    and q2: "\<not> list_ex (\<lambda>(p, _). drop 2 (tp_payload p) \<noteq> drop 2 (tp_payload fq)) queries"
    and a2: "\<not> list_ex (\<lambda>(p, _). drop 2 (tp_payload p) \<noteq> drop 2 (tp_payload (fst (hd answers)))) answers"
    and pairs: "mapE (pair_answer queries fm) answers = Inr (p0 # rest)"
    and x: "(dx_query x, dx_answer x) = min_by (\<lambda>pair. tp_timestamp (snd pair)) p0 rest"
      "dx_records x = map fst named"
    unfolding dns_exchange_def name bindE_Inr Let_def named_eq queries_def [symmetric] answers_def [symmetric]
    by (auto simp: res_simps)
  have sound: "\<exists>m. (a, m) \<in> set answers \<and> pair_answer queries fm (a, m) = Inr (q, a)"
    if "(q, a) \<in> set (p0 # rest)" for q a
    using mapE_in_set [OF pairs that] pair_answer_sound by (metis surj_pair)
  note least = min_by_least [of "\<lambda>pair. tp_timestamp (snd pair)" p0 rest, folded x(1)]
  obtain am where am: "(dx_answer x, am) \<in> set answers" "pair_answer queries fm (dx_answer x, am) = Inr (dx_query x, dx_answer x)"
    using sound least by blast
  obtain qm where qm: "(dx_query x, qm) \<in> set queries" "dm_identifier qm = dm_identifier am"
    "tp_source (dx_query x) = tp_destination (dx_answer x)" "tp_source_port (dx_query x) = tp_destination_port (dx_answer x)"
    "tp_destination (dx_query x) = tp_source (dx_answer x)" "tp_timestamp (dx_query x) < tp_timestamp (dx_answer x)"
    using pair_answer_sound [OF am(2)] by blast
  have early: "tp_timestamp (dx_answer x) \<le> tp_timestamp p" if "(p, m) \<in> set answers" for p m
    using mapE_Inr_in_set [OF pairs that] least pair_answer_sound [of queries fm p m] by fastforce
  have same: "drop 2 (tp_payload p) = drop 2 (tp_payload (dx_answer x))" if "(p, m) \<in> set answers" for p m
    using a2 that am(1) unfolding list_ex_iff by (metis (mono_tags, lifting) case_prod_conv)
  have sameq: "drop 2 (tp_payload p) = drop 2 (tp_payload (dx_query x))" if "(p, m) \<in> set queries" for p m
    using q2 that qm(1) unfolding list_ex_iff by (metis (mono_tags, lifting) case_prod_conv)
  have q: "(dx_query x, qm) \<in> set messages" "about name (dx_query x, qm)" "\<not> dm_is_response qm"
    using qm(1) by (auto simp: queries_def named_def)
  have a: "(dx_answer x, am) \<in> set messages" "about name (dx_answer x, am)" "dm_is_response am"
    using am(1) by (auto simp: answers_def named_def)
  have all: "(dm_is_response m \<longrightarrow> tp_timestamp (dx_answer x) \<le> tp_timestamp p \<and>
          drop 2 (tp_payload p) = drop 2 (tp_payload (dx_answer x))) \<and>
       (\<not> dm_is_response m \<longrightarrow> drop 2 (tp_payload p) = drop 2 (tp_payload (dx_query x)))"
    if "(p, m) \<in> set messages" "about name (p, m)" for p m
  proof (cases "dm_is_response m")
    case True
    with that have "(p, m) \<in> set answers" by (simp add: answers_def named_def)
    with True early same show ?thesis by blast
  next
    case False
    with that have "(p, m) \<in> set queries" by (simp add: queries_def named_def)
    with False sameq show ?thesis by blast
  qed
  then have all: "\<forall>(p, m) \<in> set messages. about name (p, m) \<longrightarrow>
       (dm_is_response m \<longrightarrow> tp_timestamp (dx_answer x) \<le> tp_timestamp p \<and>
          drop 2 (tp_payload p) = drop 2 (tp_payload (dx_answer x))) \<and>
       (\<not> dm_is_response m \<longrightarrow> drop 2 (tp_payload p) = drop 2 (tp_payload (dx_query x)))" by blast
  show ?thesis
    by (rule exI [of _ name], rule exI [of _ qm], rule exI [of _ am])
      (intro conjI name q a qm(2-) x(2) [unfolded named_def] all)
qed


section \<open>Every record is accounted for\<close>

lemma dns_leg_message_fst: "dns_leg_message legs qf p = Inr (p', m) \<Longrightarrow> p' = p"
  by (auto simp: dns_leg_message_def Let_def res_simps)

lemma dns_leg_messages_fst: "dns_leg_messages transports legs qf = Inr ms \<Longrightarrow> map fst ms = transports"
  unfolding dns_leg_messages_def
  by (induction transports arbitrary: ms) (auto simp: bindE_eq_Inr dest: dns_leg_message_fst)

text \<open>
  C38: When _dns_exchanges succeeds, the records of the three exchanges together are exactly the
  packets of the capture: no record is left unaccounted for.
\<close>

theorem dns_exchanges_account:
  assumes "dns_exchanges transports legs qf (t1, t2, t3) = Inr (x1, x2, x3)"
  shows "set (dx_records x1) \<union> set (dx_records x2) \<union> set (dx_records x3) = set transports"
proof -
  from assms obtain ms n1 n2 n3 where ms: "dns_leg_messages transports legs qf = Inr ms"
    and n: "evidence_name t1 = Inr n1" "evidence_name t2 = Inr n2" "evidence_name t3 = Inr n3"
    and all: "\<not> list_ex (\<lambda>(_, m). dm_question_name m \<notin> {n1, n2, n3}) ms"
    and x: "dns_exchange ms t1 = Inr x1" "dns_exchange ms t2 = Inr x2" "dns_exchange ms t3 = Inr x3"
    by (auto simp: dns_exchanges_def res_simps)
  have r: "dx_records x1 = map fst (filter (about n1) ms)" "dx_records x2 = map fst (filter (about n2) ms)"
    "dx_records x3 = map fst (filter (about n3) ms)"
    using x [THEN dns_exchange_records] n by auto
  have "set ms = set (filter (about n1) ms) \<union> set (filter (about n2) ms) \<union> set (filter (about n3) ms)"
    using all by (auto simp: list_ex_iff about_def)
  moreover have "set transports = fst ` set ms" using dns_leg_messages_fst [OF ms] by force
  ultimately show ?thesis by (simp only: r set_map image_Un)
qed

definition owns :: "(string \<times> int \<times> string \<times> int) \<Rightarrow> bytes \<Rightarrow> transport_packet \<Rightarrow> bool" where
  "owns flow token p = (tp_protocol p = ''tcp'' \<and> packet_flow p = flow \<and> tp_payload p = token)"

definition stage_ok :: "(string \<times> int \<times> string \<times> int) \<Rightarrow> bytes \<Rightarrow> transport_packet list \<Rightarrow> bool" where
  "stage_ok flow token ps =
     ((\<forall>p \<in> set ps. owns flow token p) \<and> (\<exists>s. \<forall>p \<in> set ps. tp_sequence p = s))"

lemma tcp_stage_step_ok:
  assumes step: "tcp_stage_step flows tokens segments p = Inr segments'"
    and len: "length segments = length tokens"
    and ok: "\<forall>i < length tokens. stage_ok (flows ! i) (tokens ! i) (segments ! i)"
  shows "length segments' = length tokens \<and>
    (\<forall>i < length tokens. stage_ok (flows ! i) (tokens ! i) (segments' ! i)) \<and>
    \<Union> (set ` set segments') = insert p (\<Union> (set ` set segments))"
proof -
  let ?c = "filter (\<lambda>(_, stage_flow, token). tp_protocol p = ''tcp'' \<and> packet_flow p = stage_flow \<and> tp_payload p = token)
             (List.enumerate 0 (zip flows tokens))"
  from step obtain i rest where fl: "length flows = length tokens" and i: "map fst ?c = i # rest"
    and sq: "segments ! i = [] \<or> tp_sequence p = tp_sequence (hd (segments ! i))"
    and s': "segments' = segments[i := segments ! i @ [p]]"
    by (auto simp: tcp_stage_step_def Let_def res_simps)
  have "i \<in> set (map fst ?c)" unfolding i by simp
  then have i_lt: "i < length tokens" and own: "owns (flows ! i) (tokens ! i) p"
    using fl by (auto simp: in_set_enumerate_eq owns_def)
  have "stage_ok (flows ! i) (tokens ! i) (segments ! i @ [p])"
    using ok i_lt own sq by (cases "segments ! i") (fastforce simp: stage_ok_def)+
  then have a: "\<forall>j < length tokens. stage_ok (flows ! j) (tokens ! j) (segments' ! j)"
    using ok len i_lt by (simp add: s' nth_list_update)
  have b: "\<Union> (set ` set segments') = insert p (\<Union> (set ` set segments))"
  proof -
    have "concat segments = concat (take i segments) @ segments ! i @ concat (drop (Suc i) segments)"
      using i_lt len by (metis concat.simps(2) concat_append id_take_nth_drop)
    moreover have "concat segments' = concat (take i segments) @ (segments ! i @ [p]) @ concat (drop (Suc i) segments)"
      using i_lt len by (simp add: s' upd_conv_take_nth_drop)
    ultimately show ?thesis unfolding set_concat [symmetric] by auto
  qed
  show ?thesis using a b len by (simp add: s')
qed


lemma tcp_stage_segments_account:
  assumes "tcp_stage_segments transports [e1, e2, e3] (t1, t2, t3) = Inr (s1, s2, s3)"
  shows "set s1 \<union> set s2 \<union> set s3 = set transports \<and> s1 \<noteq> [] \<and> s2 \<noteq> [] \<and> s3 \<noteq> [] \<and>
    stage_ok (endpoint_flow e1) t1 s1 \<and> stage_ok (endpoint_flow e2) t2 s2 \<and> stage_ok (endpoint_flow e3) t3 s3"
proof -
  let ?fl = "map endpoint_flow [e1, e2, e3]" and ?ts = "[t1, t2, t3]"
  define I where "I prev segments \<longleftrightarrow> length segments = 3 \<and>
    (\<forall>i < length ?ts. stage_ok (?fl ! i) (?ts ! i) (segments ! i)) \<and> \<Union> (set ` set segments) = set prev"
    for prev :: "transport_packet list" and segments :: "transport_packet list list"
  from assms obtain segments where
    run: "foldE (tcp_stage_step ?fl ?ts) [[], [], []] transports = Inr segments"
    and ne: "\<not> list_ex (\<lambda>stage. stage = []) segments"
    and s: "s1 = segments ! 0" "s2 = segments ! 1" "s3 = segments ! 2"
    by (auto simp: tcp_stage_segments_def res_simps)
  have "I [] [[], [], []]" by (auto simp: I_def stage_ok_def less_Suc_eq numeral_3_eq_3)
  with run have "I transports segments"
  proof (rule foldE_prefix_invariant)
    fix prev p segs segs'
    assume "I prev segs" "tcp_stage_step ?fl ?ts segs p = Inr segs'"
    then show "I (prev @ [p]) segs'"
      using tcp_stage_step_ok [of ?fl ?ts segs p segs'] unfolding I_def by simp
  qed
  then have len: "length segments = 3" and ok: "\<forall>i < 3. stage_ok (?fl ! i) (?ts ! i) (segments ! i)"
    and un: "\<Union> (set ` set segments) = set transports" by (simp_all add: I_def)
  have segs: "segments = [s1, s2, s3]"
    using len s by (auto simp: length_Suc_conv numeral_3_eq_3 numeral_2_eq_2)
  have "stage_ok (endpoint_flow e1) t1 s1" "stage_ok (endpoint_flow e2) t2 s2" "stage_ok (endpoint_flow e3) t3 s3"
    using ok [rule_format, of 0] ok [rule_format, of 1] ok [rule_format, of 2] by (simp_all add: segs)
  with un ne show ?thesis by (simp add: segs Un_assoc)
qed

section \<open>Record spans\<close>

lemma record_spans_bounds:
  assumes "record_spans (s1, s2, s3) = Inr (p1, p2, p3)" "p \<in> set s1"
  shows "sp_first_at p1 \<le> tp_timestamp p \<and> tp_timestamp p \<le> sp_last_at p1"
  using assms by (auto simp: record_spans_def stage_span_def res_simps)

section \<open>Events are the ends of windows\<close>

text \<open>The instant of a window that the protocol counts as the event.\<close>

definition window_event :: "string \<Rightarrow> rat \<times> rat \<Rightarrow> rat" where
  "window_event protocol w = (if protocol = ''dns'' then snd w else fst w)"

lemma events_for_token_eq:
  "events_for_token packets protocol family token qf =
     bindE (event_windows_for_token packets protocol family token qf)
       (\<lambda>ws. Inr (map (window_event protocol) ws))"
  unfolding events_for_token_def event_windows_for_token_def Let_def
  by (simp add: window_event_def tcp_token_times_def bindE_assoc comp_def bindE_def cong: if_cong split: sum.split prod.split)

section \<open>Only capture errors are raised\<close>

text \<open>A search token: not empty, and ASCII, so that it can be part of a DNS name.\<close>

definition ascii_token :: "bytes \<Rightarrow> bool" where
  "ascii_token token = (token \<noteq> [] \<and> list_all (\<lambda>b. unat b < 128) token)"

lemma evidence_name_raises_only [raises_intros]: "ascii_token t \<Longrightarrow> raises_only P (evidence_name t)"
  by (simp add: evidence_name_def decode_ascii_def ascii_token_def)

lemma reassemble_raises_only [raises_intros]: "raises_only is_capture_error (reassemble ordered)"
proof -
  have "raises_only is_capture_error (reassemble_step base st seg)" for base st seg
    unfolding reassemble_step_def Let_def by (intro raises_intros) auto
  then show ?thesis
    unfolding reassemble_def by (intro raises_intros raises_only_foldE_always) auto
qed

lemma flow_token_windows_raises_only [raises_intros]:
  assumes "token \<noteq> []"
  shows "raises_only is_capture_error (flow_token_windows token segments)"
proof (cases "reassemble (sort_key segment_order (filter (\<lambda>s. tp_payload s \<noteq> []) segments))")
  case (Inl e)
  then show ?thesis
    using reassemble_raises_only [of "sort_key segment_order (filter (\<lambda>s. tp_payload s \<noteq> []) segments)"]
    by (simp add: flow_token_windows_def Let_def)
next
  case (Inr st)
  then show ?thesis
    using flow_token_windows_nonempty [OF assms refl _ Inr] by (cases "filter (\<lambda>s. tp_payload s \<noteq> []) segments = []")
      (auto simp: flow_token_windows_def)
qed

lemma tcp_token_windows_raises_only [raises_intros]:
  "token \<noteq> [] \<Longrightarrow> raises_only is_capture_error (tcp_token_windows packets token)"
  unfolding tcp_token_windows_def by (intro raises_intros)

lemma dns_response_for_token_raises_only [raises_intros]:
  "ascii_token token \<Longrightarrow> raises_only is_capture_error (dns_response_for_token packets family token qf)"
proof -
  assume "ascii_token token"
  moreover have "raises_only is_capture_error (dns_scan_step family qf name acc p)" for name acc p
    unfolding dns_scan_step_def Let_def by (intro raises_intros) auto
  ultimately show ?thesis
    unfolding dns_response_for_token_def by (intro raises_intros raises_only_foldE_always) auto
qed

lemma quic_token_times_raises_only [raises_intros]:
  "raises_only is_capture_error (quic_token_times packets token)"
  unfolding quic_token_times_def by (intro raises_intros)

lemma event_windows_for_token_raises_only [raises_intros]:
  "ascii_token token \<Longrightarrow>
   raises_only is_capture_error (event_windows_for_token packets protocol family token qf)"
  unfolding event_windows_for_token_def Let_def
  by (intro raises_intros) (auto simp: ascii_token_def)

lemma dns_leg_messages_raises_only [raises_intros]:
  "raises_only is_capture_error (dns_leg_messages transports legs qf)"
  unfolding dns_leg_messages_def dns_leg_message_def Let_def by (intro raises_intros) auto

lemma dns_exchange_raises_only [raises_intros]:
  "ascii_token token \<Longrightarrow> raises_only is_capture_error (dns_exchange messages token)"
  unfolding dns_exchange_def pair_answer_def Let_def by (intro raises_intros) auto

lemma dns_exchanges_raises_only [raises_intros]:
  "ascii_token t1 \<Longrightarrow> ascii_token t2 \<Longrightarrow> ascii_token t3 \<Longrightarrow>
   raises_only is_capture_error (dns_exchanges transports legs qf (t1, t2, t3))"
  unfolding dns_exchanges_def by (simp only: prod.case) (intro raises_intros; auto)

lemma tcp_stage_segments_raises_only [raises_intros]:
  "length endpoints = 3 \<Longrightarrow> raises_only is_capture_error (tcp_stage_segments transports endpoints (t1, t2, t3))"
proof -
  assume "length endpoints = 3"
  then have "raises_only is_capture_error (tcp_stage_step (map endpoint_flow endpoints) [t1, t2, t3] segs p)" for segs p
    unfolding tcp_stage_step_def Let_def by (intro raises_intros) auto
  then show ?thesis
    unfolding tcp_stage_segments_def by (simp only: prod.case) (intro raises_intros raises_only_foldE_always; auto)
qed

lemma record_spans_raises_only [raises_intros]:
  "s1 \<noteq> [] \<Longrightarrow> s2 \<noteq> [] \<Longrightarrow> s3 \<noteq> [] \<Longrightarrow> raises_only P (record_spans (s1, s2, s3))"
  by (simp add: record_spans_def stage_span_def)

end
