(* ===== verification/Packet_Validate.thy ===== *)
theory Packet_Validate
  imports Packet_Evidence Sha256
begin

text \<open>
  The validators of \<open>scripts/harness/packet_capture.py\<close>: \<open>validate_capture_tokens\<close> for a capture
  with one flow, \<open>validate_staged_capture_tokens\<close> for one flow per stage, and the functions that
  derive stage endpoints and marker windows (\<open>dns_stage_endpoints\<close>,
  \<open>dns_resolver_leg_stage_endpoints\<close>, \<open>staged_marker_window\<close>). The keyword arguments of a validator
  are a record; declared numbers are the caller's integers.
\<close>

definition DNS_RESPONSE_DIGEST_DOMAIN :: bytes where
  "DNS_RESPONSE_DIGEST_DOMAIN = encode_ascii ''cfw-packet-dns-responses-v1'' @ [0]"
definition QUIC_VERSION_1 :: int where "QUIC_VERSION_1 = 0x00000001"
definition QUIC_VERSION_2 :: int where "QUIC_VERSION_2 = 0x6B3343CF"
definition SUPPORTED_QUIC_VERSIONS :: "int list" where
  "SUPPORTED_QUIC_VERSIONS = [QUIC_VERSION_1, QUIC_VERSION_2]"

record capture_proof =
  cp_observation_ms :: int
  cp_started_at :: rat
  cp_ended_at :: rat
  cp_start_event_started_at :: rat
  cp_start_event_ended_at :: rat
  cp_target_started_at :: "rat option"
  cp_target_ended_at :: "rat option"
  cp_end_event_started_at :: rat
  cp_end_event_ended_at :: rat
  cp_total_record_count :: nat
  cp_packet_count :: nat
  cp_token_occurrences :: nat
  cp_link_type :: nat
  cp_interface_name :: "string option"
  cp_quic_version :: "int option"
  cp_dns_response_count :: "nat option"
  cp_dns_answer_type :: "string option"
  cp_dns_answer_address :: "string option"
  cp_dns_ttl :: "nat option"
  cp_dns_responses_sha256 :: "string option"
  cp_stage_record_spans :: "stage_spans option"

section \<open>Checks the validators share\<close>

definition check_interfaces :: "parsed_capture \<Rightarrow> int \<Rightarrow> string \<Rightarrow> unit res" where
  "check_interfaces capture expected_link_type expected_interface_name =
     (let interfaces = pc_interfaces capture;
          named = List.map_filter ci_name interfaces in
      if interfaces = [] \<or> list_ex (\<lambda>interface. int (ci_link_type interface) \<noteq> expected_link_type) interfaces then
        Inl (PacketCaptureError ''capture link type differs from signed provenance'')
      else if named \<noteq> [] \<and> set named \<noteq> {expected_interface_name} then
        Inl (PacketCaptureError ''pcapng interface name differs from signed provenance'')
      else Inr ())"

definition decode_records :: "packet_record list \<Rightarrow> transport_packet list res" where
  "decode_records records = bindE (mapE decode_network records) (mapE decode_transport)"

text \<open>The set of QUIC versions of the UDP packets, against the one declared version.\<close>

definition quic_versions_differ :: "transport_packet list \<Rightarrow> int option \<Rightarrow> bool res" where
  "quic_versions_differ packets expected =
     bindE (mapE (\<lambda>packet. bindE (quic_connection_ids (tp_payload packet)) (\<lambda>(version, _, _). Inr (int version)))
       (filter (\<lambda>packet. tp_protocol packet = ''udp'') packets)) (\<lambda>versions.
     Inr (set versions \<noteq> set_option expected))"

definition supported_quic :: "int option \<Rightarrow> bool" where
  "supported_quic v = (case v of None \<Rightarrow> False | Some n \<Rightarrow> n \<in> set SUPPORTED_QUIC_VERSIONS)"

record marker_bounds =
  mb_start :: "rat \<times> rat"
  mb_end :: "rat \<times> rat"
  mb_observation_ms :: int

text \<open>
  The marker window: one occurrence of each marker, in order, and an observation of 1 s to 30 s that
  is the declared one. \<open>numerator // denominator\<close> is the floor.
\<close>

definition marker_window :: "(rat \<times> rat) list \<Rightarrow> (rat \<times> rat) list \<Rightarrow> int \<Rightarrow> marker_bounds res" where
  "marker_window start_windows end_windows declared_observation_ms =
     (case (start_windows, end_windows) of
        ([start_event], [end_event]) \<Rightarrow>
          let started_at = snd start_event; ended_at = snd end_event in
          if ended_at \<le> started_at then
            Inl (PacketCaptureError ''capture window end marker does not follow its start marker'')
          else
          let observation_ms = \<lfloor>(ended_at - started_at) * 1000\<rfloor> in
          if observation_ms < 1000 \<or> observation_ms > 30000 then
            Inl (PacketCaptureError ''capture observation window is outside 1s..30s'')
          else if declared_observation_ms \<noteq> observation_ms then
            Inl (PacketCaptureError ''declared observation_ms differs from capture timestamps'')
          else Inr \<lparr>mb_start = start_event, mb_end = end_event, mb_observation_ms = observation_ms\<rparr>
      | _ \<Rightarrow> Inl (PacketCaptureError ''capture window markers must each occur exactly once''))"

definition in_window :: "marker_bounds \<Rightarrow> transport_packet \<Rightarrow> bool" where
  "in_window mb packet = (snd (mb_start mb) \<le> tp_timestamp packet \<and> tp_timestamp packet \<le> snd (mb_end mb))"

definition target_start :: "(rat \<times> rat) list \<Rightarrow> rat option" where
  "target_start ws = (if ws \<noteq> [] then Some (Min (set (map fst ws))) else None)"

definition target_end :: "(rat \<times> rat) list \<Rightarrow> rat option" where
  "target_end ws = (if ws \<noteq> [] then Some (Max (set (map snd ws))) else None)"

definition dns_responses_digest :: "bytes list \<Rightarrow> string" where
  "dns_responses_digest responses =
     sha256_hex (DNS_RESPONSE_DIGEST_DOMAIN @ concat (map (\<lambda>r. to_bytes Big 4 (length r) @ r) responses))"

text \<open>The one interface the packets of the window were captured on.\<close>

definition used_interface :: "parsed_capture \<Rightarrow> transport_packet list \<Rightarrow> capture_interface res" where
  "used_interface capture window =
     (case remdups (map tp_interface_id window) of
        [i] \<Rightarrow> py_index (pc_interfaces capture) (int i)
      | _ \<Rightarrow> Inl (PacketCaptureError ''evidence window spans multiple capture interfaces''))"

definition finish_proof ::
  "parsed_capture \<Rightarrow> marker_bounds \<Rightarrow> transport_packet list \<Rightarrow> (rat \<times> rat) list \<Rightarrow> capture_interface \<Rightarrow>
   int option \<Rightarrow> string \<Rightarrow> bytes list option \<Rightarrow> stage_spans option \<Rightarrow> capture_proof" where
  "finish_proof capture mb window target_windows interface quic_version family responses spans =
     \<lparr>cp_observation_ms = mb_observation_ms mb,
      cp_started_at = snd (mb_start mb),
      cp_ended_at = snd (mb_end mb),
      cp_start_event_started_at = fst (mb_start mb),
      cp_start_event_ended_at = snd (mb_start mb),
      cp_target_started_at = target_start target_windows,
      cp_target_ended_at = target_end target_windows,
      cp_end_event_started_at = fst (mb_end mb),
      cp_end_event_ended_at = snd (mb_end mb),
      cp_total_record_count = length (pc_records capture),
      cp_packet_count = length window,
      cp_token_occurrences = length target_windows,
      cp_link_type = ci_link_type interface,
      cp_interface_name = ci_name interface,
      cp_quic_version = quic_version,
      cp_dns_response_count = map_option length responses,
      cp_dns_answer_type = map_option (\<lambda>_. if family = ''ipv4'' then ''A'' else ''AAAA'') responses,
      cp_dns_answer_address =
        map_option (\<lambda>_. if family = ''ipv4'' then DNS_A_ADDRESS else DNS_AAAA_ADDRESS) responses,
      cp_dns_ttl = map_option (\<lambda>_. DNS_TTL) responses,
      cp_dns_responses_sha256 = map_option dns_responses_digest responses,
      cp_stage_record_spans = spans\<rparr>"

section \<open>One flow\<close>

record token_claim =
  tc_protocol :: string
  tc_family :: string
  tc_local_address :: string
  tc_local_port :: int
  tc_remote_address :: string
  tc_remote_port :: int
  tc_expected_link_type :: int
  tc_expected_interface_name :: string
  tc_expected_quic_version :: "int option"
  tc_token :: bytes
  tc_start_marker :: bytes
  tc_end_marker :: bytes
  tc_expect_token :: bool
  tc_declared_observation_ms :: int

definition claim_flow :: "token_claim \<Rightarrow> transport_packet \<Rightarrow> bool" where
  "claim_flow c packet =
     (tp_family packet = tc_family c \<and>
      matches_flow packet (tc_local_address c) (tc_local_port c) (tc_remote_address c) (tc_remote_port c))"

text \<open>The endpoint checks, which come before any packet is decoded.\<close>

definition check_endpoints :: "token_claim \<Rightarrow> unit res" where
  "check_endpoints c =
     (case bindE (ip_address (tc_local_address c)) (\<lambda>l.
           bindE (ip_address (tc_remote_address c)) (\<lambda>r. Inr (l, r))) of
        Inl _ \<Rightarrow> Inl (PacketCaptureError ''capture signed endpoint address is invalid'')
      | Inr (l, r) \<Rightarrow>
          let expected_version = (if tc_family c = ''ipv4'' then 4 else 6) in
          if ip_version l \<noteq> expected_version \<or> ip_version r \<noteq> expected_version then
            Inl (PacketCaptureError ''capture signed endpoint family differs from the case'')
          else Inr ())"

definition check_quic :: "token_claim \<Rightarrow> transport_packet list \<Rightarrow> unit res" where
  "check_quic c selected =
     (if tc_protocol c = ''quic'' then
        (if \<not> supported_quic (tc_expected_quic_version c) then
           Inl (PacketCaptureError ''signed QUIC version is not an accepted v1/v2 version'')
         else bindE (quic_versions_differ selected (tc_expected_quic_version c)) (\<lambda>differ.
           if differ then
             Inl (PacketCaptureError ''captured QUIC version differs from signed v1/v2 provenance'')
           else Inr ()))
      else if tc_expected_quic_version c \<noteq> None then
        Inl (PacketCaptureError ''non-QUIC evidence declares a QUIC version'')
      else Inr ())"

text \<open>The response bytes of the three tokens, for DNS evidence only.\<close>

definition claim_responses :: "token_claim \<Rightarrow> transport_packet list \<Rightarrow> bytes list option res" where
  "claim_responses c selected =
     (if tc_protocol c = ''dns'' then
        (if \<not> tc_expect_token c then
           Inl (PacketCaptureError ''DNS evidence requires successful resolution proof'')
         else bindE (mapE (\<lambda>token. bindE (dns_response_for_token selected (tc_family c) token (tc_family c))
                  (\<lambda>(_, _, response). Inr response))
                [tc_start_marker c, tc_token c, tc_end_marker c]) (\<lambda>responses. Inr (Some responses)))
      else Inr None)"

definition validate_capture_tokens :: "bytes \<Rightarrow> string \<Rightarrow> token_claim \<Rightarrow> capture_proof res" where
  "validate_capture_tokens data kind c =
     bindE (parse_packet_capture data kind) (\<lambda>capture.
     bindE (check_interfaces capture (tc_expected_link_type c) (tc_expected_interface_name c)) (\<lambda>_.
     bindE (check_endpoints c) (\<lambda>_.
     bindE (decode_records (pc_records capture)) (\<lambda>transports.
     let selected = filter (claim_flow c) transports in
     if selected = [] then
       Inl (PacketCaptureError ''capture contains no packets for the signed endpoint tuple'')
     else bindE (check_quic c selected) (\<lambda>_.
     bindE (event_windows_for_token selected (tc_protocol c) (tc_family c) (tc_start_marker c) (tc_family c)) (\<lambda>start_windows.
     bindE (event_windows_for_token selected (tc_protocol c) (tc_family c) (tc_end_marker c) (tc_family c)) (\<lambda>end_windows.
     bindE (marker_window start_windows end_windows (tc_declared_observation_ms c)) (\<lambda>mb.
     let window = filter (in_window mb) selected in
     bindE (event_windows_for_token window (tc_protocol c) (tc_family c) (tc_token c) (tc_family c)) (\<lambda>target_windows.
     let occurrences = length target_windows in
     if tc_expect_token c \<and> occurrences < 1 then
       Inl (PacketCaptureError ''required unique token is absent from decoded application data'')
     else if \<not> tc_expect_token c \<and> occurrences \<noteq> 0 then
       Inl (PacketCaptureError ''forbidden unique token is present in decoded application data'')
     else bindE (claim_responses c selected) (\<lambda>responses.
     if tc_protocol c = ''quic'' \<and>
        list_ex (\<lambda>packet. tp_protocol packet = ''tcp'' \<and> claim_flow c packet \<and> in_window mb packet) transports then
       Inl (PacketCaptureError ''QUIC evidence contains TCP fallback for the same endpoint/window'')
     else bindE (used_interface capture window) (\<lambda>interface.
     Inr (finish_proof capture mb window target_windows interface
            (tc_expected_quic_version c) (tc_family c) responses None))))))))))))"

section \<open>Resolver legs and stage families\<close>

definition add_leg :: "leg_index \<Rightarrow> dns_resolver_leg \<Rightarrow> leg_index res" where
  "add_leg indexed leg =
     (case bindE (ip_address (lg_client_address leg)) (\<lambda>client.
           bindE (ip_address (lg_resolver_address leg)) (\<lambda>resolver. Inr (client, resolver))) of
        Inl _ \<Rightarrow> Inl (PacketCaptureError ''DNS resolver leg address is invalid'')
      | Inr (client, resolver) \<Rightarrow>
          let leg_family = (if ip_version client = 4 then ''ipv4'' else ''ipv6'') in
          if ip_version client \<noteq> ip_version resolver \<or> ip_text client \<noteq> lg_client_address leg \<or>
             ip_text resolver \<noteq> lg_resolver_address leg \<or> leg_family \<in> fst ` set indexed then
            Inl (PacketCaptureError ''DNS resolver legs are not one canonical address pair per family'')
          else Inr (indexed @ [(leg_family, leg)]))"

definition resolver_legs_by_family :: "dns_resolver_leg list \<Rightarrow> leg_index res" where
  "resolver_legs_by_family legs =
     (if legs = [] then Inl (PacketCaptureError ''DNS resolver legs are empty'')
      else foldE add_leg [] legs)"

definition leg_matches :: "staged_capture_endpoint \<Rightarrow> dns_resolver_leg \<Rightarrow> bool" where
  "leg_matches endpoint leg =
     (se_local_address endpoint = lg_client_address leg \<and>
      se_remote_address endpoint = lg_resolver_address leg \<and>
      se_remote_port endpoint = 53 \<and> 1 \<le> se_local_port endpoint \<and> se_local_port endpoint \<le> 65535)"

definition stage_transport_families ::
  "staged_capture_endpoint list \<Rightarrow> string \<Rightarrow> string \<Rightarrow> dns_resolver_leg list option \<Rightarrow> string list res" where
  "stage_transport_families endpoints protocol family dns_resolver_legs =
     (case dns_resolver_legs of
        None \<Rightarrow> Inr (map (\<lambda>_. family) endpoints)
      | Some resolver_legs \<Rightarrow>
          if protocol \<noteq> ''dns'' then
            Inl (PacketCaptureError ''only DNS evidence may use per-stage resolver legs'')
          else bindE (resolver_legs_by_family resolver_legs) (\<lambda>legs.
            mapE (\<lambda>endpoint. case filter (\<lambda>(_, leg). leg_matches endpoint leg) legs of
                [(leg_family, _)] \<Rightarrow> Inr leg_family
              | _ \<Rightarrow> Inl (PacketCaptureError ''staged DNS endpoint is not one admitted resolver leg''))
              endpoints))"

section \<open>Stage endpoints\<close>

definition query_endpoint :: "string \<Rightarrow> transport_packet \<Rightarrow> staged_capture_endpoint" where
  "query_endpoint stage query =
     \<lparr>se_stage = stage, se_local_address = tp_source query, se_local_port = int (tp_source_port query),
      se_remote_address = tp_destination query, se_remote_port = int (tp_destination_port query)\<rparr>"

type_synonym stage_queries = "transport_packet \<times> transport_packet \<times> transport_packet"

definition query_stage_endpoints :: "stage_queries \<Rightarrow> staged_capture_endpoint list" where
  "query_stage_endpoints queries =
     (case queries of (start, target, end) \<Rightarrow>
      [query_endpoint ''start'' start, query_endpoint ''target'' target, query_endpoint ''end'' end])"

text \<open>The packet is the token's query to its family's resolver; a packet that is no DNS message is skipped.\<close>

definition is_stage_query ::
  "string \<Rightarrow> (string \<times> string) list \<Rightarrow> string \<Rightarrow> transport_packet \<Rightarrow> bool res" where
  "is_stage_query family resolvers expected_name packet =
     (if tp_protocol packet \<noteq> ''udp'' \<or> map_of resolvers (tp_family packet) \<noteq> Some (tp_destination packet) \<or>
         tp_destination_port packet \<noteq> 53 then Inr False
      else case dns_message_of (tp_payload packet) family of
        Inl e \<Rightarrow> if is_capture_error e then Inr False else Inl e
      | Inr message \<Rightarrow> Inr (\<not> dm_is_response message \<and> dm_question_name message = expected_name))"

definition dns_stage_query ::
  "string \<Rightarrow> (string \<times> string) list \<Rightarrow> transport_packet list \<Rightarrow> bytes \<Rightarrow> transport_packet res" where
  "dns_stage_query family resolvers transports token =
     bindE (decode_ascii token) (\<lambda>t.
     bindE (mapE (is_stage_query family resolvers (t @ ''.evidence.test'')) transports) (\<lambda>hits.
     case map fst (filter snd (zip transports hits)) of
       [query] \<Rightarrow> Inr query
     | _ \<Rightarrow> Inl (PacketCaptureError ''remote DNS pcap does not contain one exact {} query'')))"

definition dns_stage_queries ::
  "bytes \<Rightarrow> string \<Rightarrow> string \<Rightarrow> (string \<times> string) list \<Rightarrow> tokens \<Rightarrow> stage_queries res" where
  "dns_stage_queries data kind family resolvers tokens =
     (case tokens of (t1, t2, t3) \<Rightarrow>
      bindE (parse_packet_capture data kind) (\<lambda>parsed.
      bindE (mapE (\<lambda>record. bindE (decode_network record) decode_transport) (pc_records parsed)) (\<lambda>transports.
      bindE (dns_stage_query family resolvers transports t1) (\<lambda>start.
      bindE (dns_stage_query family resolvers transports t2) (\<lambda>target.
      bindE (dns_stage_query family resolvers transports t3) (\<lambda>end.
      Inr (start, target, end)))))))"

definition dns_stage_endpoints ::
  "bytes \<Rightarrow> string \<Rightarrow> string \<Rightarrow> string \<Rightarrow> tokens \<Rightarrow> staged_capture_endpoint list res" where
  "dns_stage_endpoints data kind family remote_address tokens =
     (case ip_address remote_address of
        Inl _ \<Rightarrow> Inl (PacketCaptureError ''remote DNS endpoint address is invalid'')
      | Inr address \<Rightarrow>
          let remote = ip_text address; expected_version = (if family = ''ipv4'' then 4 else 6) in
          bindE (ip_address remote) (\<lambda>again.
          if ip_version again \<noteq> expected_version then
            Inl (PacketCaptureError ''remote DNS endpoint family differs'')
          else bindE (dns_stage_queries data kind family [(family, remote)] tokens) (\<lambda>queries.
          Inr (query_stage_endpoints queries))))"

text \<open>The query of a stage comes from the client of the leg whose family carries it.\<close>

definition from_leg_client :: "leg_index \<Rightarrow> transport_packet \<Rightarrow> unit res" where
  "from_leg_client indexed query =
     (case map_of indexed (tp_family query) of
        None \<Rightarrow> Inl KeyError
      | Some leg \<Rightarrow>
          if tp_source query \<noteq> lg_client_address leg then
            Inl (PacketCaptureError ''DNS {} query did not come from its resolver leg's client'')
          else Inr ())"

definition dns_resolver_leg_stage_endpoints ::
  "bytes \<Rightarrow> string \<Rightarrow> string \<Rightarrow> dns_resolver_leg list \<Rightarrow> tokens \<Rightarrow> retransmission_policy \<Rightarrow>
   staged_capture_endpoint list res" where
  "dns_resolver_leg_stage_endpoints data kind family legs tokens retransmissions =
     bindE (identical_retransmissions retransmissions ''dns'' True) (\<lambda>identical.
     bindE (resolver_legs_by_family legs) (\<lambda>indexed.
     if identical then
       bindE (parse_packet_capture data kind) (\<lambda>parsed.
       bindE (mapE (\<lambda>record. bindE (decode_network record) decode_transport) (pc_records parsed)) (\<lambda>transports.
       bindE (dns_exchanges transports indexed family tokens) (\<lambda>(start, target, end).
       Inr (query_stage_endpoints (dx_query start, dx_query target, dx_query end)))))
     else
       bindE (dns_stage_queries data kind family
                (map (\<lambda>(leg_family, leg). (leg_family, lg_resolver_address leg)) indexed) tokens) (\<lambda>queries.
       case queries of (start, target, end) \<Rightarrow>
       bindE (mapE (from_leg_client indexed) [start, target, end]) (\<lambda>_.
       Inr (query_stage_endpoints queries)))))"

section \<open>One flow per stage\<close>

record staged_claim =
  sc_protocol :: string
  sc_family :: string
  sc_endpoints :: "staged_capture_endpoint list"
  sc_expected_link_type :: int
  sc_expected_interface_name :: string
  sc_expected_quic_version :: "int option"
  sc_token :: bytes
  sc_start_marker :: bytes
  sc_end_marker :: bytes
  sc_expect_token :: bool
  sc_declared_observation_ms :: int
  sc_retransmissions :: retransmission_policy
  sc_dns_resolver_legs :: "dns_resolver_leg list option"

definition normalize_endpoint :: "staged_capture_endpoint \<times> string \<Rightarrow> staged_capture_endpoint res" where
  "normalize_endpoint ef =
     (let (endpoint, stage_family) = ef;
          expected_version = (if stage_family = ''ipv4'' then 4 else 6) in
      case bindE (ip_address (se_local_address endpoint)) (\<lambda>l.
           bindE (ip_address (se_remote_address endpoint)) (\<lambda>r. Inr (l, r))) of
        Inl _ \<Rightarrow> Inl (PacketCaptureError ''staged capture endpoint address is invalid'')
      | Inr (l, r) \<Rightarrow>
          if ip_version l \<noteq> expected_version \<or> ip_version r \<noteq> expected_version \<or>
             \<not> (1 \<le> se_local_port endpoint \<and> se_local_port endpoint \<le> 65535) \<or>
             \<not> (1 \<le> se_remote_port endpoint \<and> se_remote_port endpoint \<le> 65535) then
            Inl (PacketCaptureError ''staged capture endpoint family/port is invalid'')
          else Inr (endpoint\<lparr>se_local_address := ip_text l, se_remote_address := ip_text r\<rparr>))"

definition stage_flow_packets ::
  "transport_packet list \<Rightarrow> staged_capture_endpoint \<Rightarrow> string \<Rightarrow> transport_packet list" where
  "stage_flow_packets transports endpoint stage_family =
     filter (\<lambda>packet. tp_family packet = stage_family \<and>
       matches_flow packet (se_local_address endpoint) (se_local_port endpoint)
         (se_remote_address endpoint) (se_remote_port endpoint)) transports"

text \<open>
  What a capture shows about the three stages: the DNS exchanges and the stage records when identical
  retransmissions are admitted, the packets of each stage (start, target, end), the family that
  carries each, and the windows of the two markers.
\<close>

record stage_evidence =
  ev_exchanges :: "(exchange_pair \<times> exchange_pair \<times> exchange_pair) option"
  ev_records :: "stage_records option"
  ev_packets :: stage_records
  ev_families :: "string \<times> string \<times> string"
  ev_start_windows :: "(rat \<times> rat) list"
  ev_end_windows :: "(rat \<times> rat) list"

definition exchange_evidence ::
  "staged_claim \<Rightarrow> transport_packet list \<Rightarrow> staged_capture_endpoint list \<Rightarrow> string \<times> string \<times> string \<Rightarrow>
   stage_evidence res" where
  "exchange_evidence c transports normalized families =
     bindE (resolver_legs_by_family (case sc_dns_resolver_legs c of None \<Rightarrow> [] | Some legs \<Rightarrow> legs)) (\<lambda>legs.
     bindE (dns_exchanges transports legs (sc_family c) (sc_start_marker c, sc_token c, sc_end_marker c))
       (\<lambda>(start, target, end).
     if normalized \<noteq> query_stage_endpoints (dx_query start, dx_query target, dx_query end) then
       Inl (PacketCaptureError ''staged DNS endpoint is not its stage's first answered query'')
     else
     let records = (dx_records start, dx_records target, dx_records end) in
     Inr \<lparr>ev_exchanges = Some (start, target, end), ev_records = Some records, ev_packets = records,
          ev_families = families, ev_start_windows = [exchange_window start],
          ev_end_windows = [exchange_window end]\<rparr>))"

definition flow_evidence ::
  "staged_claim \<Rightarrow> bool \<Rightarrow> transport_packet list \<Rightarrow> staged_capture_endpoint list \<Rightarrow> string list \<Rightarrow>
   stage_evidence res" where
  "flow_evidence c identical transports normalized families =
     bindE (if identical then
              bindE (tcp_stage_segments transports normalized (sc_start_marker c, sc_token c, sc_end_marker c))
                (\<lambda>segments. Inr (Some segments))
            else Inr None) (\<lambda>stage_records.
     case (normalized, families) of
       ([e1, e2, e3], [f1, f2, f3]) \<Rightarrow>
         let start = stage_flow_packets transports e1 f1;
             target = stage_flow_packets transports e2 f2;
             end = stage_flow_packets transports e3 f3 in
         bindE (event_windows_for_token start (sc_protocol c) f1 (sc_start_marker c) (sc_family c)) (\<lambda>start_windows.
         bindE (event_windows_for_token end (sc_protocol c) f3 (sc_end_marker c) (sc_family c)) (\<lambda>end_windows.
         Inr \<lparr>ev_exchanges = None, ev_records = stage_records, ev_packets = (start, target, end),
              ev_families = (f1, f2, f3), ev_start_windows = start_windows, ev_end_windows = end_windows\<rparr>))
     | _ \<Rightarrow> Inl (ValueError ''zip() arguments differ in length''))"

definition stage_evidence_of ::
  "staged_claim \<Rightarrow> bool \<Rightarrow> transport_packet list \<Rightarrow> staged_capture_endpoint list \<Rightarrow> string list \<Rightarrow>
   stage_evidence res" where
  "stage_evidence_of c identical transports normalized families =
     (if identical \<and> sc_protocol c = ''dns'' then
        exchange_evidence c transports normalized (families ! 0, families ! 1, families ! 2)
      else flow_evidence c identical transports normalized families)"

definition target_windows_of :: "staged_claim \<Rightarrow> marker_bounds \<Rightarrow> stage_evidence \<Rightarrow> (rat \<times> rat) list res" where
  "target_windows_of c mb ev =
     (case ev_exchanges ev of
        Some (_, target, _) \<Rightarrow>
          Inr (if snd (mb_start mb) \<le> fst (exchange_window target) \<and>
                  snd (exchange_window target) \<le> snd (mb_end mb) then [exchange_window target] else [])
      | None \<Rightarrow>
          (case (ev_packets ev, ev_families ev) of ((_, target, _), (_, target_family, _)) \<Rightarrow>
           event_windows_for_token (filter (in_window mb) target) (sc_protocol c) target_family
             (sc_token c) (sc_family c)))"

definition check_staged_quic :: "staged_claim \<Rightarrow> transport_packet list \<Rightarrow> unit res" where
  "check_staged_quic c selected_window =
     (if sc_protocol c = ''quic'' then
        (if \<not> supported_quic (sc_expected_quic_version c) then
           Inl (PacketCaptureError ''signed QUIC version is not an accepted v1/v2 version'')
         else bindE (quic_versions_differ selected_window (sc_expected_quic_version c)) (\<lambda>differ.
           if differ then Inl (PacketCaptureError ''captured QUIC version differs from signed provenance'')
           else Inr ()))
      else if sc_expected_quic_version c \<noteq> None then
        Inl (PacketCaptureError ''non-QUIC evidence declares a QUIC version'')
      else Inr ())"

definition staged_responses :: "staged_claim \<Rightarrow> stage_evidence \<Rightarrow> bytes list option res" where
  "staged_responses c ev =
     (if sc_protocol c = ''dns'' then
        (if \<not> sc_expect_token c then
           Inl (PacketCaptureError ''DNS evidence requires successful resolution proof'')
         else case ev_exchanges ev of
           Some (start, target, end) \<Rightarrow>
             Inr (Some (map (\<lambda>x. tp_payload (dx_answer x)) [start, target, end]))
         | None \<Rightarrow>
             (case (ev_packets ev, ev_families ev) of ((start, target, end), (f1, f2, f3)) \<Rightarrow>
              bindE (mapE (\<lambda>(packets, stage_family, token).
                  bindE (dns_response_for_token packets stage_family token (sc_family c))
                    (\<lambda>(_, _, response). Inr response))
                [(start, f1, sc_start_marker c), (target, f2, sc_token c), (end, f3, sc_end_marker c)])
                (\<lambda>responses. Inr (Some responses))))
      else Inr None)"

definition staged_spans :: "stage_evidence \<Rightarrow> stage_spans option res" where
  "staged_spans ev =
     (case ev_records ev of
        None \<Rightarrow> Inr None
      | Some records \<Rightarrow> bindE (record_spans records) (\<lambda>spans. Inr (Some spans)))"

definition stage_window_packets :: "marker_bounds \<Rightarrow> stage_evidence \<Rightarrow> transport_packet list" where
  "stage_window_packets mb ev =
     (case ev_packets ev of (start, target, end) \<Rightarrow> filter (in_window mb) (start @ target @ end))"

text \<open>The second half of the validator, from the marker windows on.\<close>

definition judge_staged_evidence ::
  "staged_claim \<Rightarrow> parsed_capture \<Rightarrow> stage_evidence \<Rightarrow> capture_proof res" where
  "judge_staged_evidence c capture ev =
     bindE (marker_window (ev_start_windows ev) (ev_end_windows ev) (sc_declared_observation_ms c)) (\<lambda>mb.
     bindE (target_windows_of c mb ev) (\<lambda>target_windows.
     let occurrences = length target_windows in
     if sc_expect_token c \<and> occurrences < 1 then
       Inl (PacketCaptureError ''required unique token is absent from decoded application data'')
     else if \<not> sc_expect_token c \<and> occurrences \<noteq> 0 then
       Inl (PacketCaptureError ''forbidden unique token is present from the required vantage'')
     else
     let selected_window = stage_window_packets mb ev in
     if selected_window = [] then
       Inl (PacketCaptureError ''staged capture contains no marker-bounded packets'')
     else
     let expected_transport = (if sc_protocol c = ''tcp'' then ''tcp'' else ''udp'') in
     if list_ex (\<lambda>packet. tp_protocol packet \<noteq> expected_transport) selected_window then
       Inl (PacketCaptureError ''{} evidence contains a transport fallback'')
     else bindE (check_staged_quic c selected_window) (\<lambda>_.
     bindE (staged_responses c ev) (\<lambda>responses.
     bindE (used_interface capture selected_window) (\<lambda>interface.
     bindE (staged_spans ev) (\<lambda>spans.
     Inr (finish_proof capture mb selected_window target_windows interface
            (sc_expected_quic_version c) (sc_family c) responses spans)))))))"

definition validate_staged_capture_tokens :: "bytes \<Rightarrow> string \<Rightarrow> staged_claim \<Rightarrow> capture_proof res" where
  "validate_staged_capture_tokens data kind c =
     (if map se_stage (sc_endpoints c) \<noteq> [''start'', ''target'', ''end''] then
        Inl (PacketCaptureError ''staged capture endpoints are not start/target/end'')
      else bindE (identical_retransmissions (sc_retransmissions c) (sc_protocol c)
                    (sc_dns_resolver_legs c \<noteq> None)) (\<lambda>identical.
      if identical \<and> \<not> sc_expect_token c then
        Inl (TypeError ''identical retransmissions prove only an expected token'')
      else bindE (parse_packet_capture data kind) (\<lambda>capture.
      bindE (check_interfaces capture (sc_expected_link_type c) (sc_expected_interface_name c)) (\<lambda>_.
      bindE (stage_transport_families (sc_endpoints c) (sc_protocol c) (sc_family c)
               (sc_dns_resolver_legs c)) (\<lambda>stage_families.
      bindE (mapE normalize_endpoint (zip (sc_endpoints c) stage_families)) (\<lambda>normalized.
      bindE (decode_records (pc_records capture)) (\<lambda>transports.
      bindE (stage_evidence_of c identical transports normalized stage_families) (\<lambda>ev.
      judge_staged_evidence c capture ev))))))))"

section \<open>The marker window of a producer\<close>

definition staged_marker_window ::
  "bytes \<Rightarrow> string \<Rightarrow> string \<Rightarrow> string \<Rightarrow> staged_capture_endpoint list \<Rightarrow> bytes \<Rightarrow> bytes \<Rightarrow>
   retransmission_policy \<Rightarrow> dns_resolver_leg list option \<Rightarrow> (rat \<times> rat) res" where
  "staged_marker_window data kind protocol family endpoints start_marker end_marker retransmissions legs =
     (if map se_stage endpoints \<noteq> [''start'', ''target'', ''end''] then
        Inl (PacketCaptureError ''staged marker endpoints are not ordered'')
      else bindE (identical_retransmissions retransmissions protocol (legs \<noteq> None)) (\<lambda>identical.
      bindE (stage_transport_families endpoints protocol family legs) (\<lambda>families.
      let start_family = families ! 0; end_family = families ! 2 in
      bindE (parse_packet_capture data kind) (\<lambda>capture.
      bindE (mapE (\<lambda>record. bindE (decode_network record) decode_transport) (pc_records capture)) (\<lambda>transports.
      bindE (if identical \<and> protocol = ''dns'' then
               bindE (resolver_legs_by_family (case legs of None \<Rightarrow> [] | Some ls \<Rightarrow> ls)) (\<lambda>indexed.
               bindE (dns_leg_messages transports indexed family) (\<lambda>messages.
               bindE (dns_exchange messages start_marker) (\<lambda>start.
               bindE (dns_exchange messages end_marker) (\<lambda>end.
               if (endpoints ! 0, endpoints ! 2) \<noteq>
                  (query_endpoint ''start'' (dx_query start), query_endpoint ''end'' (dx_query end)) then
                 Inl (PacketCaptureError ''staged DNS endpoint is not its stage's first answered query'')
               else Inr ([tp_timestamp (dx_answer start)], [tp_timestamp (dx_answer end)])))))
             else
               bindE (events_for_token (stage_flow_packets transports (endpoints ! 0) start_family)
                        protocol start_family start_marker family) (\<lambda>starts.
               bindE (events_for_token (stage_flow_packets transports (endpoints ! 2) end_family)
                        protocol end_family end_marker family) (\<lambda>ends.
               Inr (starts, ends)))) (\<lambda>(starts, ends).
      case (starts, ends) of
        ([started], [ended]) \<Rightarrow>
          if ended \<le> started then
            Inl (PacketCaptureError ''staged capture markers are absent, repeated, or reversed'')
          else Inr (started, ended)
      | _ \<Rightarrow> Inl (PacketCaptureError ''staged capture markers are absent, repeated, or reversed'')))))))"

section \<open>The marker window\<close>

lemma marker_windowD:
  assumes "marker_window sws ews declared = Inr mb"
  shows "sws = [mb_start mb]" "ews = [mb_end mb]" "snd (mb_start mb) < snd (mb_end mb)"
    "mb_observation_ms mb = \<lfloor>(snd (mb_end mb) - snd (mb_start mb)) * 1000\<rfloor>"
    "1000 \<le> mb_observation_ms mb" "mb_observation_ms mb \<le> 30000" "declared = mb_observation_ms mb"
  using assms by (auto simp: marker_window_def Let_def res_simps)

lemma marker_window_span:
  assumes "marker_window sws ews declared = Inr mb"
  shows "1 \<le> snd (mb_end mb) - snd (mb_start mb)" "snd (mb_end mb) - snd (mb_start mb) < 30.001"
proof -
  have *: "1000 \<le> \<lfloor>(snd (mb_end mb) - snd (mb_start mb)) * 1000\<rfloor>"
    "\<lfloor>(snd (mb_end mb) - snd (mb_start mb)) * 1000\<rfloor> \<le> 30000"
    using marker_windowD [OF assms] by simp_all
  from *(1) have "1000 \<le> (snd (mb_end mb) - snd (mb_start mb)) * 1000"
    by (simp add: le_floor_iff)
  then show "1 \<le> snd (mb_end mb) - snd (mb_start mb)" by simp
  from *(2) have "(snd (mb_end mb) - snd (mb_start mb)) * 1000 < 30001"
    by (simp add: floor_le_iff)
  then show "snd (mb_end mb) - snd (mb_start mb) < 30.001" by simp
qed

section \<open>Successful runs\<close>

lemma validate_capture_tokensE:
  assumes "validate_capture_tokens data kind c = Inr proof"
  obtains capture transports sws ews mb tws responses interface where
    "parse_packet_capture data kind = Inr capture"
    "check_interfaces capture (tc_expected_link_type c) (tc_expected_interface_name c) = Inr ()"
    "decode_records (pc_records capture) = Inr transports"
    "check_quic c (filter (claim_flow c) transports) = Inr ()"
    "event_windows_for_token (filter (claim_flow c) transports) (tc_protocol c) (tc_family c) (tc_start_marker c) (tc_family c) = Inr sws"
    "event_windows_for_token (filter (claim_flow c) transports) (tc_protocol c) (tc_family c) (tc_end_marker c) (tc_family c) = Inr ews"
    "marker_window sws ews (tc_declared_observation_ms c) = Inr mb"
    "event_windows_for_token (filter (in_window mb) (filter (claim_flow c) transports)) (tc_protocol c) (tc_family c) (tc_token c) (tc_family c) = Inr tws"
    "tc_expect_token c \<longleftrightarrow> tws \<noteq> []"
    "claim_responses c (filter (claim_flow c) transports) = Inr responses"
    "tc_protocol c = ''quic'' \<Longrightarrow> \<not> list_ex (\<lambda>p. tp_protocol p = ''tcp'' \<and> claim_flow c p \<and> in_window mb p) transports"
    "used_interface capture (filter (in_window mb) (filter (claim_flow c) transports)) = Inr interface"
    "proof = finish_proof capture mb (filter (in_window mb) (filter (claim_flow c) transports)) tws interface
            (tc_expected_quic_version c) (tc_family c) responses None"
proof -
  from assms show ?thesis
    unfolding validate_capture_tokens_def Let_def res_simps
    by (elim exE conjE) (rule that; (assumption | auto))
qed


section \<open>What a proof shows\<close>

theorem validate_window:
  assumes "validate_capture_tokens data kind c = Inr proof"
  shows "cp_observation_ms proof = tc_declared_observation_ms c \<and>
    cp_observation_ms proof = \<lfloor>(cp_ended_at proof - cp_started_at proof) * 1000\<rfloor> \<and>
    1 \<le> cp_ended_at proof - cp_started_at proof \<and> cp_ended_at proof - cp_started_at proof < 30.001 \<and>
    cp_started_at proof = cp_start_event_ended_at proof \<and> cp_ended_at proof = cp_end_event_ended_at proof"
proof -
  from assms obtain capture sws ews mb w tws interface responses where
    mb: "marker_window sws ews (tc_declared_observation_ms c) = Inr mb"
    and "proof = finish_proof capture mb w tws interface (tc_expected_quic_version c) (tc_family c) responses None"
    by (rule validate_capture_tokensE)
  then show ?thesis
    using marker_windowD [OF mb] marker_window_span [OF mb] by (simp add: finish_proof_def)
qed

definition proof_window :: "capture_proof \<Rightarrow> transport_packet \<Rightarrow> bool" where
  "proof_window proof p = (cp_started_at proof \<le> tp_timestamp p \<and> tp_timestamp p \<le> cp_ended_at proof)"

definition capture_transports :: "bytes \<Rightarrow> string \<Rightarrow> transport_packet list res" where
  "capture_transports data kind =
     bindE (parse_packet_capture data kind) (\<lambda>capture. decode_records (pc_records capture))"

lemma in_window_proof:
  "in_window mb = proof_window (finish_proof capture mb w tws i q f r s)"
  by (auto simp: in_window_def proof_window_def finish_proof_def fun_eq_iff)

text \<open>The packets of the claim's family and endpoint tuple.\<close>

theorem validate_udp_count:
  assumes "validate_capture_tokens data kind c = Inr proof" "tc_protocol c = ''udp''"
  shows "\<exists>transports. capture_transports data kind = Inr transports \<and>
    cp_token_occurrences proof = length (filter (\<lambda>p. claim_flow c p \<and> proof_window proof p \<and>
      tp_protocol p = ''udp'' \<and> contains (tp_payload p) (tc_token c)) transports) \<and>
    (tc_expect_token c \<longleftrightarrow> 0 < cp_token_occurrences proof)"
  using assms(1)
proof (rule validate_capture_tokensE)
  fix capture transports mb tws responses interface
  assume r: "parse_packet_capture data kind = Inr capture" "decode_records (pc_records capture) = Inr transports"
    "event_windows_for_token (filter (in_window mb) (filter (claim_flow c) transports)) (tc_protocol c) (tc_family c) (tc_token c) (tc_family c) = Inr tws"
    "tc_expect_token c \<longleftrightarrow> tws \<noteq> []"
    and p: "proof = finish_proof capture mb (filter (in_window mb) (filter (claim_flow c) transports)) tws interface
            (tc_expected_quic_version c) (tc_family c) responses None"
  have iw: "in_window mb = proof_window proof" unfolding p by (rule in_window_proof)
  have "tws = map (\<lambda>t. (t, t)) (udp_token_times (filter (\<lambda>p. tp_family p = tc_family c)
      (filter (in_window mb) (filter (claim_flow c) transports))) (tc_token c))"
    using r(3) assms(2) by (simp add: event_windows_for_token_def)
  then have "length tws = length (filter (\<lambda>p. claim_flow c p \<and> proof_window proof p \<and>
      tp_protocol p = ''udp'' \<and> contains (tp_payload p) (tc_token c)) transports)"
    by (simp add: udp_token_times_def iw)
      (rule arg_cong [where f = length], rule filter_cong; auto simp: claim_flow_def)
  moreover have "cp_token_occurrences proof = length tws" by (simp add: p finish_proof_def)
  ultimately show ?thesis using r by (auto simp: capture_transports_def)
qed

lemma check_quicD:
  assumes "check_quic c selected = Inr ()" "tc_protocol c = ''quic''" "p \<in> set selected" "tp_protocol p = ''udp''"
  shows "\<exists>v dcid scid. quic_connection_ids (tp_payload p) = Inr (v, dcid, scid) \<and>
    tc_expected_quic_version c = Some (int v) \<and> int v \<in> set SUPPORTED_QUIC_VERSIONS"
proof -
  let ?f = "\<lambda>packet. bindE (quic_connection_ids (tp_payload packet)) (\<lambda>(version, _, _). Inr (int version))"
  from assms obtain versions e where e: "tc_expected_quic_version c = Some e" "e \<in> set SUPPORTED_QUIC_VERSIONS"
    and m: "mapE ?f (filter (\<lambda>packet. tp_protocol packet = ''udp'') selected) = Inr versions" "set versions = {e}"
    by (auto simp: check_quic_def res_simps supported_quic_def quic_versions_differ_def split: option.splits)
  from mapE_Inr_in_set [OF m(1), of p] assms obtain v where "v \<in> set versions" "?f p = Inr v" by auto
  then show ?thesis using e m(2) by (auto simp: res_simps)
qed

text \<open>
  C37: A QUIC proof of validate_capture_tokens means that no TCP packet of the claimed flow lies
  in the marker window (no fallback) and that every UDP packet of the flow is a QUIC long-header
  packet of the one declared version, which is version 1 or 2.
\<close>

theorem validate_quic:
  assumes "validate_capture_tokens data kind c = Inr proof" "tc_protocol c = ''quic''"
  shows "\<exists>transports. capture_transports data kind = Inr transports \<and>
    (\<forall>p \<in> set transports. claim_flow c p \<and> proof_window proof p \<longrightarrow> tp_protocol p \<noteq> ''tcp'') \<and>
    (\<forall>p \<in> set transports. claim_flow c p \<and> tp_protocol p = ''udp'' \<longrightarrow>
      (\<exists>v dcid scid. quic_connection_ids (tp_payload p) = Inr (v, dcid, scid) \<and>
         cp_quic_version proof = Some (int v) \<and> int v \<in> {1, 0x6B3343CF}))"
  using assms(1)
proof (rule validate_capture_tokensE)
  fix capture transports mb tws responses interface
  assume r: "parse_packet_capture data kind = Inr capture" "decode_records (pc_records capture) = Inr transports"
    "check_quic c (filter (claim_flow c) transports) = Inr ()"
    and fb: "tc_protocol c = ''quic'' \<Longrightarrow> \<not> list_ex (\<lambda>p. tp_protocol p = ''tcp'' \<and> claim_flow c p \<and> in_window mb p) transports"
    and p: "proof = finish_proof capture mb (filter (in_window mb) (filter (claim_flow c) transports)) tws interface
            (tc_expected_quic_version c) (tc_family c) responses None"
  have iw: "in_window mb = proof_window proof" unfolding p by (rule in_window_proof)
  have qv: "cp_quic_version proof = tc_expected_quic_version c" by (simp add: p finish_proof_def)
  show ?thesis
    using r(1,2) fb [OF assms(2)] check_quicD [OF r(3) assms(2)]
    by (auto simp: capture_transports_def list_ex_iff iw qv SUPPORTED_QUIC_VERSIONS_def QUIC_VERSION_1_def QUIC_VERSION_2_def)
qed


lemma decode_records_member:
  assumes "decode_records records = Inr transports" "p \<in> set transports"
  shows "\<exists>r \<in> set records. tp_interface_id p = pr_interface_id r \<and> tp_timestamp p = pr_timestamp r \<and>
    tp_link_type p = pr_link_type r"
proof -
  from assms obtain network where n: "mapE decode_network records = Inr network" "mapE decode_transport network = Inr transports"
    by (auto simp: decode_records_def bindE_eq_Inr)
  from mapE_in_set [OF n(2) assms(2)] obtain q where q: "q \<in> set network" "decode_transport q = Inr p" by blast
  from mapE_in_set [OF n(1) q(1)] obtain r where r: "r \<in> set records" "decode_network r = Inr q" by blast
  have "tp_interface_id p = np_interface_id q \<and> tp_timestamp p = np_timestamp q \<and> tp_link_type p = np_link_type q"
    using q(2) by (auto simp: decode_transport_def Let_def res_simps split: if_splits)
  moreover have "np_interface_id q = pr_interface_id r \<and> np_timestamp q = pr_timestamp r \<and> np_link_type q = pr_link_type r"
    using r(2) by (auto simp: decode_network_def res_simps)
  ultimately show ?thesis using r(1) by auto
qed

lemma used_interfaceD:
  assumes "used_interface capture window = Inr interface"
  shows "\<exists>i < length (pc_interfaces capture). interface = pc_interfaces capture ! i \<and> window \<noteq> [] \<and>
    (\<forall>p \<in> set window. tp_interface_id p = i)"
proof -
  from assms obtain i where i: "remdups (map tp_interface_id window) = [i]"
    and "py_index (pc_interfaces capture) (int i) = Inr interface"
    by (auto simp: used_interface_def res_simps)
  then have "i < length (pc_interfaces capture)" "interface = pc_interfaces capture ! i"
    by (auto simp: py_index_int split: if_splits)
  moreover have "tp_interface_id ` set window = {i}"
    using arg_cong [OF i, of set] by simp
  ultimately show ?thesis by (intro exI [of _ i]) auto
qed

theorem validate_vantage:
  assumes "validate_capture_tokens data kind c = Inr proof"
  shows "\<exists>capture transports i. parse_packet_capture data kind = Inr capture \<and>
    decode_records (pc_records capture) = Inr transports \<and> i < length (pc_interfaces capture) \<and>
    int (cp_link_type proof) = tc_expected_link_type c \<and>
    cp_interface_name proof \<in> {None, Some (tc_expected_interface_name c)} \<and>
    cp_total_record_count proof = length transports \<and>
    cp_packet_count proof = length (filter (\<lambda>p. claim_flow c p \<and> proof_window proof p) transports) \<and>
    (\<forall>p \<in> set transports. claim_flow c p \<and> proof_window proof p \<longrightarrow> tp_interface_id p = i)"
  using assms
proof (rule validate_capture_tokensE)
  fix capture transports mb tws responses interface
  assume r: "parse_packet_capture data kind = Inr capture" "decode_records (pc_records capture) = Inr transports"
    and ci: "check_interfaces capture (tc_expected_link_type c) (tc_expected_interface_name c) = Inr ()"
    and ui: "used_interface capture (filter (in_window mb) (filter (claim_flow c) transports)) = Inr interface"
    and p: "proof = finish_proof capture mb (filter (in_window mb) (filter (claim_flow c) transports)) tws interface
            (tc_expected_quic_version c) (tc_family c) responses None"
  have iw: "in_window mb = proof_window proof" unfolding p by (rule in_window_proof)
  from used_interfaceD [OF ui] obtain i where i: "i < length (pc_interfaces capture)"
    "interface = pc_interfaces capture ! i"
    "\<forall>p \<in> set (filter (in_window mb) (filter (claim_flow c) transports)). tp_interface_id p = i" by blast
  have mem: "interface \<in> set (pc_interfaces capture)" using i by simp
  have "int (ci_link_type interface) = tc_expected_link_type c"
    using ci mem by (auto simp: check_interfaces_def Let_def res_simps list_ex_iff)
  moreover have "ci_name interface \<in> {None, Some (tc_expected_interface_name c)}"
  proof (cases "ci_name interface")
    case (Some n)
    then have "n \<in> set (List.map_filter ci_name (pc_interfaces capture))"
      using mem by (force simp: List.map_filter_def)
    with ci Some show ?thesis by (auto simp: check_interfaces_def Let_def res_simps)
  qed simp
  moreover have "length (pc_records capture) = length transports"
    using r(2) by (auto simp: decode_records_def bindE_eq_Inr dest!: mapE_length)
  moreover have "cp_link_type proof = ci_link_type interface" "cp_interface_name proof = ci_name interface"
    "cp_total_record_count proof = length (pc_records capture)"
    "cp_packet_count proof = length (filter (\<lambda>p. claim_flow c p \<and> proof_window proof p) transports)"
    unfolding iw [symmetric] by (simp_all add: p finish_proof_def conj_commute)
  ultimately show ?thesis
    using r i(1,3) iw by (intro exI [of _ capture] exI [of _ transports] exI [of _ i]) auto
qed


lemma tcp_token_windows_absent:
  assumes "tcp_token_windows packets token = Inr []" "token \<noteq> []" "p \<in> set packets" "tp_payload p \<noteq> []"
  shows "\<exists>base stream. list_all (placed base stream)
      (filter (\<lambda>q. flow_key_of q = flow_key_of p \<and> tp_payload q \<noteq> []) packets) \<and>
    \<not> contains stream token"
proof -
  let ?segs = "filter (\<lambda>q. flow_key_of q = flow_key_of p) packets"
  let ?ord = "sort_key segment_order (filter (\<lambda>s. tp_payload s \<noteq> []) ?segs)"
  have "map_of (tcp_flows packets) (flow_key_of p) = Some ?segs"
    using assms(3) by (auto simp: tcp_flows_lookup)
  then have "?segs \<in> set (map snd (tcp_flows packets))" by (force dest: map_of_SomeD)
  then have run: "flow_token_windows token ?segs = Inr []"
    using assms(1) by (auto simp: tcp_token_windows_def bindE_eq_Inr dest!: mapE_Inr_in_set)
  have ne: "?ord \<noteq> []" using assms(3,4) by (auto simp: filter_empty_conv)
  then obtain st where st: "reassemble ?ord = Inr st"
    using run by (auto simp: flow_token_windows_def Let_def bindE_eq_Inr split: if_splits)
  then have "token_offsets (re_stream st) token = []"
    using flow_token_windows_nonempty [OF assms(2) refl ne st] run by simp
  then have "\<not> occurs_at (re_stream st) token i" for i
    using set_token_offsets [of "re_stream st" token] by auto
  then have "\<not> contains (re_stream st) token"
    by (auto simp: contains_def find_sub_None_iff)
  moreover have "sorted (map segment_order ?ord)" by simp
  then obtain base where "reassembled base ?ord st" using reassemble_sound ne st by blast
  ultimately show ?thesis by (auto simp: reassembled_def list_all_iff)
qed

text \<open>
  C1: When validate_capture_tokens accepts a capture as proof that a token is absent from a TCP
  flow, every data segment of the flow inside the marker window lies, at its sequence number, in
  one reassembled stream per direction, and no such stream contains the token: splitting the
  token over segments cannot hide it.
\<close>

theorem validate_tcp_absence:
  assumes "validate_capture_tokens data kind c = Inr proof" "tc_protocol c = ''tcp''"
    and "\<not> tc_expect_token c" "tc_token c \<noteq> []"
  shows "\<exists>transports. capture_transports data kind = Inr transports \<and>
    (\<forall>p \<in> set transports. claim_flow c p \<and> proof_window proof p \<and> tp_protocol p = ''tcp'' \<and> tp_payload p \<noteq> [] \<longrightarrow>
      (\<exists>base stream. \<not> contains stream (tc_token c) \<and>
        (\<forall>q \<in> set transports. claim_flow c q \<and> proof_window proof q \<and> tp_protocol q = ''tcp'' \<and> tp_payload q \<noteq> [] \<and>
           flow_key_of q = flow_key_of p \<longrightarrow> placed base stream q)))"
  using assms(1)
proof (rule validate_capture_tokensE)
  fix capture transports mb tws responses interface
  assume r: "parse_packet_capture data kind = Inr capture" "decode_records (pc_records capture) = Inr transports"
    "event_windows_for_token (filter (in_window mb) (filter (claim_flow c) transports)) (tc_protocol c) (tc_family c) (tc_token c) (tc_family c) = Inr tws"
    "tc_expect_token c \<longleftrightarrow> tws \<noteq> []"
    and p: "proof = finish_proof capture mb (filter (in_window mb) (filter (claim_flow c) transports)) tws interface
            (tc_expected_quic_version c) (tc_family c) responses None"
  have iw: "in_window mb = proof_window proof" unfolding p by (rule in_window_proof)
  let ?ps = "filter (\<lambda>p. tp_protocol p = ''tcp'') (filter (\<lambda>p. tp_family p = tc_family c)
      (filter (in_window mb) (filter (claim_flow c) transports)))"
  have none: "tcp_token_windows ?ps (tc_token c) = Inr []"
    using r(3,4) assms(2,3) by (simp add: event_windows_for_token_def)
  have mem: "q \<in> set ?ps \<longleftrightarrow> q \<in> set transports \<and> claim_flow c q \<and> proof_window proof q \<and> tp_protocol q = ''tcp''" for q
    by (auto simp: iw claim_flow_def)
  have "\<exists>base stream. \<not> contains stream (tc_token c) \<and>
        (\<forall>q \<in> set transports. claim_flow c q \<and> proof_window proof q \<and> tp_protocol q = ''tcp'' \<and> tp_payload q \<noteq> [] \<and>
           flow_key_of q = flow_key_of p \<longrightarrow> placed base stream q)"
    if "p \<in> set transports" "claim_flow c p" "proof_window proof p" "tp_protocol p = ''tcp''" "tp_payload p \<noteq> []" for p
  proof -
    have "p \<in> set ?ps" using that mem by blast
    from tcp_token_windows_absent [OF none assms(4) this that(5)] obtain base stream
      where a: "\<forall>q \<in> set (filter (\<lambda>q. flow_key_of q = flow_key_of p \<and> tp_payload q \<noteq> []) ?ps). placed base stream q"
        "\<not> contains stream (tc_token c)" by (auto simp only: list_all_iff)
    have "placed base stream q" if "q \<in> set transports" "claim_flow c q" "proof_window proof q"
        "tp_protocol q = ''tcp''" "tp_payload q \<noteq> []" "flow_key_of q = flow_key_of p" for q
    proof -
      have "q \<in> set ?ps" using that mem by blast
      with a(1) that(5,6) show ?thesis unfolding set_filter [where xs = ?ps] by blast
    qed
    with a(2) show ?thesis by blast
  qed
  then show ?thesis using r(1,2) by (auto simp: capture_transports_def)
qed

lemma claim_responsesD:
  assumes "claim_responses c selected = Inr responses" "tc_protocol c = ''dns''"
  shows "\<exists>r1 r2 r3. responses = Some [r1, r2, r3] \<and> tc_expect_token c \<and>
    (\<forall>(t, r) \<in> set [(tc_start_marker c, r1), (tc_token c, r2), (tc_end_marker c, r3)].
       \<exists>q a. dns_response_for_token selected (tc_family c) t (tc_family c) = Inr (q, a, r))"
  using assms by (auto simp: claim_responses_def res_simps)

text \<open>
  C36: A DNS proof of validate_capture_tokens rests on exactly one query and one later
  authoritative answer for each of the start marker, the token and the end marker in the claimed
  flow, and its digest is over exactly those three answers, in that order.
\<close>

theorem validate_dns:
  assumes "validate_capture_tokens data kind c = Inr proof" "tc_protocol c = ''dns''"
  shows "\<exists>transports r1 r2 r3. capture_transports data kind = Inr transports \<and>
    cp_dns_response_count proof = Some 3 \<and> cp_dns_ttl proof = Some 0 \<and>
    cp_dns_responses_sha256 proof = Some (dns_responses_digest [r1, r2, r3]) \<and>
    (\<forall>(t, r) \<in> set [(tc_start_marker c, r1), (tc_token c, r2), (tc_end_marker c, r3)].
       \<exists>name q a. evidence_name t = Inr name \<and> tp_timestamp q < tp_timestamp a \<and> r = tp_payload a \<and>
         filter (names_token (tc_family c) (tc_family c) name False) (filter (claim_flow c) transports) = [q] \<and>
         filter (names_token (tc_family c) (tc_family c) name True) (filter (claim_flow c) transports) = [a])"
  using assms(1)
proof (rule validate_capture_tokensE)
  fix capture transports mb tws responses interface
  assume r: "parse_packet_capture data kind = Inr capture" "decode_records (pc_records capture) = Inr transports"
    "claim_responses c (filter (claim_flow c) transports) = Inr responses"
    and p: "proof = finish_proof capture mb (filter (in_window mb) (filter (claim_flow c) transports)) tws interface
            (tc_expected_quic_version c) (tc_family c) responses None"
  from claim_responsesD [OF r(3) assms(2)] obtain r1 r2 r3 where rs: "responses = Some [r1, r2, r3]"
    and each: "\<forall>(t, r) \<in> set [(tc_start_marker c, r1), (tc_token c, r2), (tc_end_marker c, r3)].
       \<exists>q a. dns_response_for_token (filter (claim_flow c) transports) (tc_family c) t (tc_family c) = Inr (q, a, r)"
    by blast
  have sound: "\<exists>name q a. evidence_name t = Inr name \<and> tp_timestamp q < tp_timestamp a \<and> r = tp_payload a \<and>
         filter (names_token (tc_family c) (tc_family c) name False) (filter (claim_flow c) transports) = [q] \<and>
         filter (names_token (tc_family c) (tc_family c) name True) (filter (claim_flow c) transports) = [a]"
    if "dns_response_for_token (filter (claim_flow c) transports) (tc_family c) t (tc_family c) = Inr (q0, a0, r)" for t r q0 a0
    using dns_response_for_token_sound [OF that] by metis
  have "capture_transports data kind = Inr transports" using r by (simp add: capture_transports_def)
  moreover have "cp_dns_response_count proof = Some 3" "cp_dns_ttl proof = Some 0"
    "cp_dns_responses_sha256 proof = Some (dns_responses_digest [r1, r2, r3])"
    by (simp_all add: p rs finish_proof_def DNS_TTL_def)
  ultimately show ?thesis
    using each sound by (intro exI [of _ transports] exI [of _ r1] exI [of _ r2] exI [of _ r3]) (fastforce)
qed

section \<open>Only capture errors are raised\<close>

lemma check_interfaces_raises_only [raises_intros]:
  "raises_only is_capture_error (check_interfaces capture l n)"
  unfolding check_interfaces_def Let_def by (intro raises_intros) auto

lemma decode_records_raises_only [raises_intros]: "raises_only is_capture_error (decode_records records)"
  unfolding decode_records_def by (intro raises_intros)

lemma compose_decode_raises_only [raises_intros]:
  "raises_only is_capture_error (mapE (\<lambda>record. bindE (decode_network record) decode_transport) records)"
  by (intro raises_intros)

lemma quic_versions_differ_raises_only [raises_intros]:
  "raises_only is_capture_error (quic_versions_differ packets v)"
  unfolding quic_versions_differ_def by (intro raises_intros)

lemma marker_window_raises_only [raises_intros]:
  "raises_only is_capture_error (marker_window sws ews d)"
  unfolding marker_window_def Let_def by (intro raises_intros) auto

lemma check_endpoints_raises_only [raises_intros]: "raises_only is_capture_error (check_endpoints c)"
  unfolding check_endpoints_def Let_def by (intro raises_intros) auto

lemma check_quic_raises_only [raises_intros]: "raises_only is_capture_error (check_quic c ps)"
  unfolding check_quic_def by (intro raises_intros) auto

lemma claim_responses_raises_only [raises_intros]:
  assumes "ascii_token (tc_start_marker c)" "ascii_token (tc_token c)" "ascii_token (tc_end_marker c)"
  shows "raises_only is_capture_error (claim_responses c ps)"
  unfolding claim_responses_def by (intro raises_intros) (use assms in auto)

lemma used_interface_raises_only:
  assumes "parse_packet_capture data kind = Inr capture" "decode_records (pc_records capture) = Inr transports"
    and "set window \<subseteq> set transports"
  shows "raises_only is_capture_error (used_interface capture window)"
proof (cases "\<exists>i. remdups (map tp_interface_id window) = [i]")
  case True
  then obtain i where i: "remdups (map tp_interface_id window) = [i]" by blast
  then have "i \<in> tp_interface_id ` set window" by (metis list.set_intros(1) set_map set_remdups)
  then obtain r where "r \<in> set (pc_records capture)" "i = pr_interface_id r"
    using assms(2,3) decode_records_member by blast
  moreover have "wf_capture capture" using parse_packet_capture_wf [OF assms(1)] .
  ultimately have "i < length (pc_interfaces capture)"
    by (auto simp: wf_capture_def wf_capture_parts_def list_all_iff wf_record_def)
  with i show ?thesis by (simp add: used_interface_def py_index_int)
next
  case False
  then show ?thesis by (auto simp: used_interface_def split: list.splits)
qed

theorem validate_capture_tokens_raises_only:
  assumes "ascii_token (tc_start_marker c)" "ascii_token (tc_token c)" "ascii_token (tc_end_marker c)"
  shows "raises_only is_capture_error (validate_capture_tokens data kind c)"
  unfolding validate_capture_tokens_def Let_def
  by (intro raises_intros parse_packet_capture_raises_only used_interface_raises_only assms;
      (assumption | simp)?) auto

section \<open>Staged captures\<close>

lemma judge_staged_evidenceE:
  assumes "judge_staged_evidence c capture ev = Inr proof"
  obtains mb tws responses interface spans where
    "marker_window (ev_start_windows ev) (ev_end_windows ev) (sc_declared_observation_ms c) = Inr mb"
    "target_windows_of c mb ev = Inr tws"
    "sc_expect_token c \<longleftrightarrow> tws \<noteq> []"
    "stage_window_packets mb ev \<noteq> []"
    "\<not> list_ex (\<lambda>p. tp_protocol p \<noteq> (if sc_protocol c = ''tcp'' then ''tcp'' else ''udp'')) (stage_window_packets mb ev)"
    "check_staged_quic c (stage_window_packets mb ev) = Inr ()"
    "staged_responses c ev = Inr responses"
    "used_interface capture (stage_window_packets mb ev) = Inr interface"
    "staged_spans ev = Inr spans"
    "proof = finish_proof capture mb (stage_window_packets mb ev) tws interface
            (sc_expected_quic_version c) (sc_family c) responses spans"
  using assms unfolding judge_staged_evidence_def Let_def res_simps
  by (elim exE conjE) (rule that; (assumption | auto))

lemma validate_stagedE:
  assumes "validate_staged_capture_tokens data kind c = Inr proof"
  obtains identical capture families normalized transports ev where
    "map se_stage (sc_endpoints c) = [''start'', ''target'', ''end'']"
    "identical_retransmissions (sc_retransmissions c) (sc_protocol c) (sc_dns_resolver_legs c \<noteq> None) = Inr identical"
    "identical \<Longrightarrow> sc_expect_token c"
    "parse_packet_capture data kind = Inr capture"
    "check_interfaces capture (sc_expected_link_type c) (sc_expected_interface_name c) = Inr ()"
    "stage_transport_families (sc_endpoints c) (sc_protocol c) (sc_family c) (sc_dns_resolver_legs c) = Inr families"
    "mapE normalize_endpoint (zip (sc_endpoints c) families) = Inr normalized"
    "decode_records (pc_records capture) = Inr transports"
    "stage_evidence_of c identical transports normalized families = Inr ev"
    "judge_staged_evidence c capture ev = Inr proof"
  using assms unfolding validate_staged_capture_tokens_def Let_def res_simps
  by (elim exE conjE) (rule that; (assumption | auto))

lemma list3_of_map:
  assumes "map f xs = [a, b, c]"
  obtains x y z where "xs = [x, y, z]"
  using assms by (auto simp: map_eq_Cons_conv)

lemma normalize_endpoint_stage: "normalize_endpoint (e, f) = Inr n \<Longrightarrow> se_stage n = se_stage e"
  by (auto simp: normalize_endpoint_def Let_def res_simps split: sum.splits if_splits)

lemma stage_transport_families_length:
  "stage_transport_families endpoints protocol family legs = Inr fs \<Longrightarrow> length fs = length endpoints"
  by (auto simp: stage_transport_families_def res_simps dest: mapE_length split: option.splits if_splits)

lemma validate_staged_three:
  assumes "map se_stage endpoints = [''start'', ''target'', ''end'']"
    and "stage_transport_families endpoints protocol family legs = Inr families"
    and "mapE normalize_endpoint (zip endpoints families) = Inr normalized"
  shows "\<exists>e1 e2 e3 f1 f2 f3. normalized = [e1, e2, e3] \<and> families = [f1, f2, f3]"
proof -
  have "length families = 3" using assms(1,2) stage_transport_families_length [OF assms(2)] by (metis length_map length_Cons list.size(3) numeral_3_eq_3)
  moreover have "length endpoints = 3" using assms(1) by (metis length_map length_Cons list.size(3) numeral_3_eq_3)
  ultimately have "length normalized = 3" "length families = 3" using mapE_length [OF assms(3)] by simp_all
  then show ?thesis by (simp add: numeral_3_eq_3 length_Suc_conv) blast
qed

theorem staged_window:
  assumes "validate_staged_capture_tokens data kind c = Inr proof"
  shows "cp_observation_ms proof = sc_declared_observation_ms c \<and>
    cp_observation_ms proof = \<lfloor>(cp_ended_at proof - cp_started_at proof) * 1000\<rfloor> \<and>
    1 \<le> cp_ended_at proof - cp_started_at proof \<and> cp_ended_at proof - cp_started_at proof < 30.001 \<and>
    (sc_expect_token c \<longleftrightarrow> 0 < cp_token_occurrences proof)"
proof -
  from assms obtain capture ev where "judge_staged_evidence c capture ev = Inr proof" by (rule validate_stagedE)
  then obtain mb tws w interface responses spans where
    mb: "marker_window (ev_start_windows ev) (ev_end_windows ev) (sc_declared_observation_ms c) = Inr mb"
    and e: "sc_expect_token c \<longleftrightarrow> tws \<noteq> []"
    and p: "proof = finish_proof capture mb w tws interface (sc_expected_quic_version c) (sc_family c) responses spans"
    by (rule judge_staged_evidenceE)
  show ?thesis
    using marker_windowD [OF mb] marker_window_span [OF mb] e by (simp add: p finish_proof_def)
qed

lemma dns_exchanges_named:
  assumes "dns_exchanges transports legs qf (t1, t2, t3) = Inr xs" "p \<in> set transports"
  shows "\<exists>t \<in> {t1, t2, t3}. \<exists>name m. evidence_name t = Inr name \<and>
    dns_message_of (tp_payload p) qf = Inr m \<and> dm_question_name m = name"
proof -
  from assms(1) obtain ms n1 n2 n3 where ms: "dns_leg_messages transports legs qf = Inr ms"
    and n: "evidence_name t1 = Inr n1" "evidence_name t2 = Inr n2" "evidence_name t3 = Inr n3"
    and all: "\<forall>pm \<in> set ms. dm_question_name (snd pm) \<in> {n1, n2, n3}"
    by (auto simp: dns_exchanges_def res_simps list_ex_iff split_beta)
  from mapE_Inr_in_set [OF ms [unfolded dns_leg_messages_def] assms(2)]
  obtain p' m where "(p', m) \<in> set ms" "dns_leg_message legs qf p = Inr (p', m)" by force
  moreover from this(2) have "dns_message_of (tp_payload p) qf = Inr m"
    by (auto simp: dns_leg_message_def Let_def res_simps)
  moreover from calculation(1) all have "dm_question_name m \<in> {n1, n2, n3}" by force
  ultimately show ?thesis using n by blast
qed

text \<open>
  C39: A staged proof under IDENTICAL_RETRANSMISSIONS accounts for every packet of the capture:
  each is a TCP data segment that is exactly one of the three tokens, or a DNS message that
  names one of them.
\<close>

theorem staged_identical_accounts:
  assumes "validate_staged_capture_tokens data kind c = Inr proof"
    and "sc_retransmissions c = IDENTICAL_RETRANSMISSIONS"
  shows "\<exists>transports. capture_transports data kind = Inr transports \<and>
    (\<forall>p \<in> set transports. \<exists>t \<in> {sc_start_marker c, sc_token c, sc_end_marker c}.
       (sc_protocol c = ''tcp'' \<and> tp_protocol p = ''tcp'' \<and> tp_payload p = t) \<or>
       (sc_protocol c = ''dns'' \<and> (\<exists>name m. evidence_name t = Inr name \<and>
          dns_message_of (tp_payload p) (sc_family c) = Inr m \<and> dm_question_name m = name)))"
  using assms(1)
proof (rule validate_stagedE)
  fix identical capture families normalized transports ev
  assume st: "map se_stage (sc_endpoints c) = [''start'', ''target'', ''end'']"
    and id: "identical_retransmissions (sc_retransmissions c) (sc_protocol c) (sc_dns_resolver_legs c \<noteq> None) = Inr identical"
    and r: "parse_packet_capture data kind = Inr capture" "decode_records (pc_records capture) = Inr transports"
    and f: "stage_transport_families (sc_endpoints c) (sc_protocol c) (sc_family c) (sc_dns_resolver_legs c) = Inr families"
      "mapE normalize_endpoint (zip (sc_endpoints c) families) = Inr normalized"
    and ev: "stage_evidence_of c identical transports normalized families = Inr ev"
  have ident: identical and proto: "sc_protocol c = ''tcp'' \<or> sc_protocol c = ''dns''"
    using id assms(2) by (auto simp: identical_retransmissions_def split: if_splits)
  have ct: "capture_transports data kind = Inr transports" using r by (simp add: capture_transports_def)
  from validate_staged_three [OF st f] obtain e1 e2 e3 where n: "normalized = [e1, e2, e3]" by blast
  show ?thesis
  proof (cases "sc_protocol c = ''dns''")
    case True
    with ev ident obtain legs xs where
      "dns_exchanges transports legs (sc_family c) (sc_start_marker c, sc_token c, sc_end_marker c) = Inr xs"
      by (auto simp: stage_evidence_of_def exchange_evidence_def res_simps)
    from dns_exchanges_named [OF this] True ct show ?thesis by blast
  next
    case False
    with ev ident proto obtain s1 s2 s3 where
      s: "tcp_stage_segments transports [e1, e2, e3] (sc_start_marker c, sc_token c, sc_end_marker c) = Inr (s1, s2, s3)"
      by (auto simp: stage_evidence_of_def flow_evidence_def res_simps n)
    have "\<exists>t \<in> {sc_start_marker c, sc_token c, sc_end_marker c}. tp_protocol p = ''tcp'' \<and> tp_payload p = t"
      if "p \<in> set transports" for p
    proof -
      have "p \<in> set s1 \<union> set s2 \<union> set s3" using tcp_stage_segments_account [OF s] that by blast
      then show ?thesis
        using tcp_stage_segments_account [OF s] unfolding stage_ok_def owns_def by blast
    qed
    with False proto ct show ?thesis by blast
  qed
qed


section \<open>Producers and validators see the same markers\<close>

lemma decode_records_compose:
  "decode_records records = Inr transports \<Longrightarrow>
   mapE (\<lambda>record. bindE (decode_network record) decode_transport) records = Inr transports"
  unfolding decode_records_def
  by (induction records arbitrary: transports) (auto simp: bindE_eq_Inr)

definition canonical_endpoint :: "staged_capture_endpoint \<Rightarrow> bool" where
  "canonical_endpoint e =
     list_all (\<lambda>a. case ip_address a of Inl _ \<Rightarrow> True | Inr ip \<Rightarrow> ip_text ip = a)
       [se_local_address e, se_remote_address e]"

lemma normalize_canonical:
  "canonical_endpoint e \<Longrightarrow> normalize_endpoint (e, f) = Inr n \<Longrightarrow> n = e"
  by (auto simp: canonical_endpoint_def normalize_endpoint_def Let_def res_simps split: sum.splits if_splits)

lemma mapE_normalize_canonical:
  "list_all canonical_endpoint es \<Longrightarrow> length fs = length es \<Longrightarrow> mapE normalize_endpoint (zip es fs) = Inr ns \<Longrightarrow> ns = es"
  by (induction es arbitrary: fs ns) (auto simp: length_Suc_conv bindE_eq_Inr dest: normalize_canonical)

lemma exchange_evidence_marker:
  assumes ev: "exchange_evidence c transports normalized fs = Inr ev"
  obtains legs messages start and target :: exchange_pair and stop where
    "resolver_legs_by_family (case sc_dns_resolver_legs c of None \<Rightarrow> [] | Some legs \<Rightarrow> legs) = Inr legs"
    "dns_leg_messages transports legs (sc_family c) = Inr messages"
    "dns_exchange messages (sc_start_marker c) = Inr start" "dns_exchange messages (sc_end_marker c) = Inr stop"
    "normalized = query_stage_endpoints (dx_query start, dx_query target, dx_query stop)"
    "ev_start_windows ev = [exchange_window start]" "ev_end_windows ev = [exchange_window stop]"
proof -
  from ev obtain legs start target stop where
    l: "resolver_legs_by_family (case sc_dns_resolver_legs c of None \<Rightarrow> [] | Some legs \<Rightarrow> legs) = Inr legs"
    and x: "dns_exchanges transports legs (sc_family c) (sc_start_marker c, sc_token c, sc_end_marker c) = Inr (start, target, stop)"
    and r: "normalized = query_stage_endpoints (dx_query start, dx_query target, dx_query stop)"
    "ev_start_windows ev = [exchange_window start]" "ev_end_windows ev = [exchange_window stop]"
    by (auto simp: exchange_evidence_def Let_def res_simps)
  from x obtain messages where m: "dns_leg_messages transports legs (sc_family c) = Inr messages"
    "dns_exchange messages (sc_start_marker c) = Inr start" "dns_exchange messages (sc_end_marker c) = Inr stop"
    by (auto simp: dns_exchanges_def res_simps)
  show thesis by (rule that [OF l m r])
qed

lemma event_windows_events:
  "event_windows_for_token ps protocol f t qf = Inr ws \<Longrightarrow>
   events_for_token ps protocol f t qf = Inr (map (window_event protocol) ws)"
  by (simp add: events_for_token_eq)

lemma event_windows_instant:
  assumes "event_windows_for_token ps protocol f t qf = Inr ws" "protocol \<noteq> ''tcp''" "w \<in> set ws"
  shows "window_event protocol w = snd w"
  using assms by (auto simp: event_windows_for_token_def window_event_def Let_def bindE_eq_Inr split: if_splits)

text \<open>
  C40: For every protocol but TCP and canonical endpoints, the marker window a producer gets
  from staged_marker_window is the window of the proof the validator accepts.
\<close>

theorem staged_marker_window_agrees:
  assumes "validate_staged_capture_tokens data kind c = Inr proof"
    and "sc_protocol c \<noteq> ''tcp''" "list_all canonical_endpoint (sc_endpoints c)"
  shows "staged_marker_window data kind (sc_protocol c) (sc_family c) (sc_endpoints c) (sc_start_marker c)
    (sc_end_marker c) (sc_retransmissions c) (sc_dns_resolver_legs c) =
    Inr (cp_started_at proof, cp_ended_at proof)"
  using assms(1)
proof (rule validate_stagedE)
  fix identical capture families normalized transports ev
  assume st: "map se_stage (sc_endpoints c) = [''start'', ''target'', ''end'']"
    and id: "identical_retransmissions (sc_retransmissions c) (sc_protocol c) (sc_dns_resolver_legs c \<noteq> None) = Inr identical"
    and r: "parse_packet_capture data kind = Inr capture" "decode_records (pc_records capture) = Inr transports"
    and f: "stage_transport_families (sc_endpoints c) (sc_protocol c) (sc_family c) (sc_dns_resolver_legs c) = Inr families"
      "mapE normalize_endpoint (zip (sc_endpoints c) families) = Inr normalized"
    and ev: "stage_evidence_of c identical transports normalized families = Inr ev"
    and judge: "judge_staged_evidence c capture ev = Inr proof"
  from judge obtain mb w tws interface responses spans where
    mb: "marker_window (ev_start_windows ev) (ev_end_windows ev) (sc_declared_observation_ms c) = Inr mb"
    and p: "proof = finish_proof capture mb w tws interface (sc_expected_quic_version c) (sc_family c) responses spans"
    by (rule judge_staged_evidenceE)
  have pt: "cp_started_at proof = snd (mb_start mb)" "cp_ended_at proof = snd (mb_end mb)"
    by (simp_all add: p finish_proof_def)
  have norm: "normalized = sc_endpoints c"
    using mapE_normalize_canonical [OF assms(3) stage_transport_families_length [OF f(1)] f(2)] .
  from validate_staged_three [OF st f, unfolded norm] obtain e1 e2 e3 f1 f2 f3 where
    n: "sc_endpoints c = [e1, e2, e3]" "families = [f1, f2, f3]" by blast
  note m = marker_windowD [OF mb]
  note common = id f(1) r(1) decode_records_compose [OF r(2)]
  show ?thesis
  proof (cases "identical \<and> sc_protocol c = ''dns''")
    case True
    with ev have "exchange_evidence c transports normalized (f1, f2, f3) = Inr ev"
      by (simp add: stage_evidence_of_def n)
    then obtain legs messages start and target :: exchange_pair and stop where
      x: "resolver_legs_by_family (case sc_dns_resolver_legs c of None \<Rightarrow> [] | Some legs \<Rightarrow> legs) = Inr legs"
      "dns_leg_messages transports legs (sc_family c) = Inr messages"
      "dns_exchange messages (sc_start_marker c) = Inr start" "dns_exchange messages (sc_end_marker c) = Inr stop"
      "normalized = query_stage_endpoints (dx_query start, dx_query target, dx_query stop)"
      "ev_start_windows ev = [exchange_window start]" "ev_end_windows ev = [exchange_window stop]"
      by (rule exchange_evidence_marker)
    have e: "e1 = query_endpoint ''start'' (dx_query start)" "e3 = query_endpoint ''end'' (dx_query stop)"
      using x(5) norm n(1) by (simp_all add: query_stage_endpoints_def)
    have t: "tp_timestamp (dx_answer start) = snd (mb_start mb)" "tp_timestamp (dx_answer stop) = snd (mb_end mb)"
      using arg_cong [of _ _ "\<lambda>ws. snd (hd ws)", OF m(1) [unfolded x(6)]]
        arg_cong [of _ _ "\<lambda>ws. snd (hd ws)", OF m(2) [unfolded x(7)]] by (simp_all add: exchange_window_def)
    show ?thesis
      using st m(3) unfolding staged_marker_window_def common bindE_Inr Let_def if_P [OF True] x
      by (simp add: n e t pt x)
  next
    case False
    have "flow_evidence c identical transports normalized families = Inr ev"
      using ev unfolding stage_evidence_of_def if_not_P [OF False] .
    then have w: "event_windows_for_token (stage_flow_packets transports e1 f1) (sc_protocol c) f1 (sc_start_marker c) (sc_family c) = Inr (ev_start_windows ev)"
      "event_windows_for_token (stage_flow_packets transports e3 f3) (sc_protocol c) f3 (sc_end_marker c) (sc_family c) = Inr (ev_end_windows ev)"
      unfolding flow_evidence_def norm n by (auto simp: res_simps Let_def)
    have t: "window_event (sc_protocol c) (mb_start mb) = snd (mb_start mb)"
      "window_event (sc_protocol c) (mb_end mb) = snd (mb_end mb)"
      using event_windows_instant [OF w(1) assms(2)] event_windows_instant [OF w(2) assms(2)] m(1,2) by simp_all
    show ?thesis
      using st m(3) unfolding staged_marker_window_def common bindE_Inr Let_def if_not_P [OF False]
      by (simp add: n t pt m(1,2) event_windows_events [OF w(1)] event_windows_events [OF w(2)])
  qed
qed

end
