(* ===== verification/Packet_Samples.thy ===== *)
theory Packet_Samples
  imports Packet_Validate
begin

text \<open>
  Concrete captures, written with the reference encoders, on which the theorems about the validators
  of \<open>src/scripts/harness/packet_capture.py\<close> apply: a client at 10.0.0.1 and a server at 10.0.0.2
  exchange datagrams, a TCP stream, QUIC packets or DNS messages that carry the markers and the token.
\<close>

record sample_packet =
  sm_seconds :: nat
  sm_outbound :: bool
  sm_protocol :: nat
  sm_body :: bytes

definition sample_packet_of :: "sample_packet \<Rightarrow> pcap_packet" where
  "sample_packet_of s =
     (let client = [10, 0, 0, 1]; server = [10, 0, 0, 2];
          frame = ipv4_frame (if sm_outbound s then client else server) (if sm_outbound s then server else client)
            (sm_protocol s) (sm_body s) (replicate 12 0) [] in
      \<lparr>pk_seconds = sm_seconds s, pk_subseconds = 0, pk_original = length frame, pk_payload = frame\<rparr>)"

definition sample_capture :: "sample_packet list \<Rightarrow> bytes" where
  "sample_capture ss = pcap_file_bytes Little 1000000 65535 1 (map sample_packet_of ss)"

definition sample_records :: "sample_packet list \<Rightarrow> parsed_capture" where
  "sample_records ss = pcap_file_capture 1000000 65535 1 (map sample_packet_of ss)"

lemma sample_parsed:
  assumes "wf_pcap_file 1000000 65535 1 (map sample_packet_of ss)"
  shows "parse_packet_capture (sample_capture ss) ''packet-pcap'' = Inr (sample_records ss)"
  using capture_pcap_encoded [OF assms] by (simp add: parse_packet_capture_def sample_capture_def sample_records_def)

definition sample_claim :: "string \<Rightarrow> bool \<Rightarrow> token_claim" where
  "sample_claim protocol expect =
     \<lparr>tc_protocol = protocol, tc_family = ''ipv4'', tc_local_address = ''10.0.0.1'', tc_local_port = 4000,
      tc_remote_address = ''10.0.0.2'', tc_remote_port = (if protocol = ''dns'' then 53 else 443),
      tc_expected_link_type = 1, tc_expected_interface_name = ''en0'',
      tc_expected_quic_version = (if protocol = ''quic'' then Some 1 else None),
      tc_token = [0x62, 0x62], tc_start_marker = [0x61, 0x61], tc_end_marker = [0x63, 0x63],
      tc_expect_token = expect, tc_declared_observation_ms = 2000\<rparr>"

definition sample_udp :: "sample_packet list" where
  "sample_udp = map (\<lambda>(t, body). \<lparr>sm_seconds = t, sm_outbound = True, sm_protocol = 17,
       sm_body = udp_bytes 4000 443 body\<rparr>)
     [(10, [0x61, 0x61]), (11, [0x62, 0x62]), (12, [0x63, 0x63])]"

text \<open>The token is absent; the stream of the start marker arrives in two segments, out of order.\<close>

definition sample_tcp :: "sample_packet list" where
  "sample_tcp = map (\<lambda>(t, sequence, body). \<lparr>sm_seconds = t, sm_outbound = True, sm_protocol = 6,
       sm_body = tcp_bytes 4000 443 sequence body\<rparr>)
     [(10, 101, [0x61]), (11, 100, [0x61]), (11, 102, [0x64]), (12, 103, [0x63, 0x63])]"

text \<open>QUIC long headers of version 1 whose destination connection id is the marker or the token.\<close>

definition sample_quic :: "sample_packet list" where
  "sample_quic = map (\<lambda>(t, cid). \<lparr>sm_seconds = t, sm_outbound = True, sm_protocol = 17,
       sm_body = udp_bytes 4000 443 ([0xC0, 0, 0, 0, 1, 2] @ cid @ [1, 0])\<rparr>)
     [(10, [0x61, 0x61]), (11, [0x62, 0x62]), (12, [0x63, 0x63])]"

definition sample_dns :: "sample_packet list" where
  "sample_dns = concat (map (\<lambda>(t, identifier, label).
       [\<lparr>sm_seconds = t, sm_outbound = True, sm_protocol = 17,
         sm_body = udp_bytes 4000 53 (dns_query_bytes identifier True ''ipv4'' [label, ''evidence'', ''test''])\<rparr>,
        \<lparr>sm_seconds = t + 1, sm_outbound = False, sm_protocol = 17,
         sm_body = udp_bytes 53 4000
           (dns_answer_bytes identifier True ''ipv4'' [label, ''evidence'', ''test''] [192, 0, 2, 1])\<rparr>])
     [(10, 1, ''aa''), (11, 2, ''bb''), (12, 3, ''cc'')])"

text \<open>One flow per stage; the segment of the target is sent twice.\<close>

definition sample_stages :: "sample_packet list" where
  "sample_stages = map (\<lambda>(t, port, sequence, body). \<lparr>sm_seconds = t, sm_outbound = True, sm_protocol = 6,
       sm_body = tcp_bytes port 443 sequence body\<rparr>)
     [(10, 4000, 100, [0x61, 0x61]), (11, 4001, 200, [0x62, 0x62]), (11, 4001, 200, [0x62, 0x62]),
      (12, 4002, 300, [0x63, 0x63])]"

definition sample_endpoint :: "string \<Rightarrow> int \<Rightarrow> staged_capture_endpoint" where
  "sample_endpoint stage port = \<lparr>se_stage = stage, se_local_address = ''10.0.0.1'', se_local_port = port,
     se_remote_address = ''10.0.0.2'', se_remote_port = 443\<rparr>"

definition sample_staged_claim :: "string \<Rightarrow> int list \<Rightarrow> retransmission_policy \<Rightarrow> staged_claim" where
  "sample_staged_claim protocol ports policy =
     \<lparr>sc_protocol = protocol, sc_family = ''ipv4'',
      sc_endpoints = map2 sample_endpoint [''start'', ''target'', ''end''] ports,
      sc_expected_link_type = 1, sc_expected_interface_name = ''en0'', sc_expected_quic_version = None,
      sc_token = [0x62, 0x62], sc_start_marker = [0x61, 0x61], sc_end_marker = [0x63, 0x63],
      sc_expect_token = True, sc_declared_observation_ms = 2000, sc_retransmissions = policy,
      sc_dns_resolver_legs = None\<rparr>"

section \<open>The captures are accepted\<close>

definition sample_transport :: "nat \<Rightarrow> bool \<Rightarrow> string \<Rightarrow> nat \<Rightarrow> nat \<Rightarrow> bytes \<Rightarrow> nat option \<Rightarrow> transport_packet" where
  "sample_transport t outbound protocol sport dport payload sequence =
     \<lparr>tp_timestamp = of_nat t, tp_family = ''ipv4'',
      tp_source = (if outbound then ''10.0.0.1'' else ''10.0.0.2''),
      tp_destination = (if outbound then ''10.0.0.2'' else ''10.0.0.1''),
      tp_source_port = sport, tp_destination_port = dport, tp_protocol = protocol, tp_payload = payload,
      tp_sequence = sequence, tp_link_type = 1, tp_interface_id = 0\<rparr>"

definition sample_interface :: capture_interface where
  "sample_interface = \<lparr>ci_interface_id = 0, ci_link_type = 1, ci_snaplen = 65535,
     ci_timestamp_resolution = 1 / 1000000, ci_name = None\<rparr>"

definition sample_bounds :: "rat \<Rightarrow> rat \<Rightarrow> rat \<Rightarrow> rat \<Rightarrow> marker_bounds" where
  "sample_bounds a b c d = \<lparr>mb_start = (a, b), mb_end = (c, d), mb_observation_ms = 2000\<rparr>"

lemma samples_wf:
  "wf_pcap_file 1000000 65535 1 (map sample_packet_of sample_udp)"
  "wf_pcap_file 1000000 65535 1 (map sample_packet_of sample_tcp)"
  "wf_pcap_file 1000000 65535 1 (map sample_packet_of sample_quic)"
  "wf_pcap_file 1000000 65535 1 (map sample_packet_of sample_dns)"
  "wf_pcap_file 1000000 65535 1 (map sample_packet_of sample_stages)"
  by code_simp+

lemmas samples_parsed = samples_wf [THEN sample_parsed]

lemma sample_accepted:
  assumes "wf_pcap_file 1000000 65535 1 (map sample_packet_of ss)"
    and "check_interfaces (sample_records ss) (tc_expected_link_type c) (tc_expected_interface_name c) = Inr ()"
    and "check_endpoints c = Inr ()" "decode_records (pc_records (sample_records ss)) = Inr transports"
    and "filter (claim_flow c) transports = transports" "transports \<noteq> []" "check_quic c transports = Inr ()"
    and "event_windows_for_token transports (tc_protocol c) (tc_family c) (tc_start_marker c) (tc_family c) = Inr sws"
    and "event_windows_for_token transports (tc_protocol c) (tc_family c) (tc_end_marker c) (tc_family c) = Inr ews"
    and "marker_window sws ews (tc_declared_observation_ms c) = Inr mb"
    and "event_windows_for_token (filter (in_window mb) transports) (tc_protocol c) (tc_family c) (tc_token c)
           (tc_family c) = Inr tws"
    and "tc_expect_token c \<longleftrightarrow> tws \<noteq> []" "claim_responses c transports = Inr responses"
    and "list_all (\<lambda>p. tp_protocol p \<noteq> ''tcp'' \<or> tc_protocol c \<noteq> ''quic'') transports"
    and "used_interface (sample_records ss) (filter (in_window mb) transports) = Inr sample_interface"
  shows "\<exists>proof. validate_capture_tokens (sample_capture ss) ''packet-pcap'' c = Inr proof"
  unfolding validate_capture_tokens_def sample_parsed [OF assms(1)]
  using assms by (auto simp: Let_def list_ex_iff list_all_iff)

definition udp_transports :: "transport_packet list" where
  "udp_transports = map (\<lambda>(t, body). sample_transport t True ''udp'' 4000 443 body None)
     [(10, [0x61, 0x61]), (11, [0x62, 0x62]), (12, [0x63, 0x63])]"

lemma sample_udp_run:
  "\<exists>proof. validate_capture_tokens (sample_capture sample_udp) ''packet-pcap'' (sample_claim ''udp'' True) = Inr proof"
  by (rule sample_accepted [where transports = udp_transports and sws = "[(10, 10)]" and ews = "[(12, 12)]"
        and mb = "sample_bounds 10 10 12 12" and tws = "[(11, 11)]" and responses = None]) code_simp+

definition tcp_transports :: "transport_packet list" where
  "tcp_transports = map (\<lambda>(t, sequence, body). sample_transport t True ''tcp'' 4000 443 body (Some sequence))
     [(10, 101, [0x61]), (11, 100, [0x61]), (11, 102, [0x64]), (12, 103, [0x63, 0x63])]"

lemma sample_tcp_run:
  "\<exists>proof. validate_capture_tokens (sample_capture sample_tcp) ''packet-pcap'' (sample_claim ''tcp'' False) = Inr proof"
  by (rule sample_accepted [where transports = tcp_transports and sws = "[(11, 10)]" and ews = "[(12, 12)]"
        and mb = "sample_bounds 11 10 12 12" and tws = "[]" and responses = None]) code_simp+

definition quic_transports :: "transport_packet list" where
  "quic_transports = map (\<lambda>(t, cid). sample_transport t True ''udp'' 4000 443 ([0xC0, 0, 0, 0, 1, 2] @ cid @ [1, 0]) None)
     [(10, [0x61, 0x61]), (11, [0x62, 0x62]), (12, [0x63, 0x63])]"

lemma sample_quic_run:
  "\<exists>proof. validate_capture_tokens (sample_capture sample_quic) ''packet-pcap'' (sample_claim ''quic'' True) = Inr proof"
  by (rule sample_accepted [where transports = quic_transports and sws = "[(10, 10)]" and ews = "[(12, 12)]"
        and mb = "sample_bounds 10 10 12 12" and tws = "[(11, 11)]" and responses = None]) code_simp+

definition dns_sample_answer :: "nat \<Rightarrow> string \<Rightarrow> bytes" where
  "dns_sample_answer identifier label =
     dns_answer_bytes identifier True ''ipv4'' [label, ''evidence'', ''test''] [192, 0, 2, 1]"

definition dns_transports :: "transport_packet list" where
  "dns_transports = concat (map (\<lambda>(t, identifier, label).
       [sample_transport t True ''udp'' 4000 53 (dns_query_bytes identifier True ''ipv4'' [label, ''evidence'', ''test'']) None,
        sample_transport (t + 1) False ''udp'' 53 4000 (dns_sample_answer identifier label) None])
     [(10, 1, ''aa''), (11, 2, ''bb''), (12, 3, ''cc'')])"


lemma dns_decoded: "decode_records (pc_records (sample_records sample_dns)) = Inr dns_transports"
  by code_simp

lemma dns_transports_eq: "dns_transports = 
  [sample_transport 10 True ''udp'' 4000 53 (dns_query_bytes 1 True ''ipv4'' [''aa'', ''evidence'', ''test'']) None,
   sample_transport 11 False ''udp'' 53 4000 (dns_sample_answer 1 ''aa'') None,
   sample_transport 11 True ''udp'' 4000 53 (dns_query_bytes 2 True ''ipv4'' [''bb'', ''evidence'', ''test'']) None,
   sample_transport 12 False ''udp'' 53 4000 (dns_sample_answer 2 ''bb'') None,
   sample_transport 12 True ''udp'' 4000 53 (dns_query_bytes 3 True ''ipv4'' [''cc'', ''evidence'', ''test'']) None,
   sample_transport 13 False ''udp'' 53 4000 (dns_sample_answer 3 ''cc'') None]"
  by (simp add: dns_transports_def)

lemma dns_labels: "label \<in> {''aa'', ''bb'', ''cc''} \<Longrightarrow> (\<forall>l \<in> set [label, ''evidence'', ''test'']. wf_label l \<and> CHR ''.'' \<notin> set l) \<and>
   join_with ''.'' (map ascii_lower [label, ''evidence'', ''test'']) = label @ ''.evidence.test''"
  by (elim insertE emptyE; simp; code_simp)

lemma sample_query_parsed:
  assumes "label \<in> {''aa'', ''bb'', ''cc''}" "identifier < 65536"
  shows "dns_message_of (dns_query_bytes identifier True ''ipv4'' [label, ''evidence'', ''test'']) ''ipv4'' =
    Inr \<lparr>dm_identifier = identifier, dm_is_response = False, dm_question_name = label @ ''.evidence.test'',
      dm_question_type = 1, dm_answer_address = None, dm_recursion_desired = True\<rparr>"
  using dns_labels [OF assms(1)] assms(2) by (subst dns_query_parses) auto

lemma sample_answer_parsed:
  assumes "label \<in> {''aa'', ''bb'', ''cc''}" "identifier < 65536"
  shows "dns_message_of (dns_sample_answer identifier label) ''ipv4'' =
    Inr \<lparr>dm_identifier = identifier, dm_is_response = True, dm_question_name = label @ ''.evidence.test'',
      dm_question_type = 1, dm_answer_address = Some DNS_A_ADDRESS, dm_recursion_desired = True\<rparr>"
  using dns_labels [OF assms(1)] assms(2) unfolding dns_sample_answer_def by (subst dns_answer_parses) auto

lemma sample_names: "evidence_name [0x61, 0x61] = Inr ''aa.evidence.test''"
  "evidence_name [0x62, 0x62] = Inr ''bb.evidence.test''" "evidence_name [0x63, 0x63] = Inr ''cc.evidence.test''"
  by code_simp+

lemma sample_responses:
  "dns_response_for_token dns_transports ''ipv4'' [0x61, 0x61] ''ipv4'' = Inr (10, 11, dns_sample_answer 1 ''aa'')"
  "dns_response_for_token dns_transports ''ipv4'' [0x62, 0x62] ''ipv4'' = Inr (11, 12, dns_sample_answer 2 ''bb'')"
  "dns_response_for_token dns_transports ''ipv4'' [0x63, 0x63] ''ipv4'' = Inr (12, 13, dns_sample_answer 3 ''cc'')"
  "dns_response_for_token (tl dns_transports) ''ipv4'' [0x62, 0x62] ''ipv4'' = Inr (11, 12, dns_sample_answer 2 ''bb'')"
  by (simp_all add: dns_response_for_token_def sample_names dns_transports_eq sample_transport_def dns_scan_step_def
       sample_query_parsed sample_answer_parsed Let_def)

lemma dns_filters:
  "filter (\<lambda>p. tp_family p = ''ipv4'') dns_transports = dns_transports"
  "filter (\<lambda>p. tp_family p = ''ipv4'') (tl dns_transports) = tl dns_transports"
  "filter (in_window (sample_bounds 10 11 12 13)) dns_transports = tl dns_transports"
  "filter (claim_flow (sample_claim ''dns'' True)) dns_transports = dns_transports" "dns_transports \<noteq> []"
  "list_all (\<lambda>p. tp_protocol p \<noteq> ''tcp'' \<or> tc_protocol (sample_claim ''dns'' True) \<noteq> ''quic'') dns_transports"
  by (simp_all add: dns_transports_eq sample_transport_def in_window_def sample_bounds_def claim_flow_def
      matches_flow_def sample_claim_def)

lemma sample_dns_run:
  "\<exists>proof. validate_capture_tokens (sample_capture sample_dns) ''packet-pcap'' (sample_claim ''dns'' True) = Inr proof"
proof (rule sample_accepted [where transports = dns_transports and sws = "[(10, 11)]" and ews = "[(12, 13)]"
      and mb = "sample_bounds 10 11 12 13" and tws = "[(11, 12)]"
      and responses = "Some [dns_sample_answer 1 ''aa'', dns_sample_answer 2 ''bb'', dns_sample_answer 3 ''cc'']"])
  show "check_interfaces (sample_records sample_dns) (tc_expected_link_type (sample_claim ''dns'' True))
      (tc_expected_interface_name (sample_claim ''dns'' True)) = Inr ()"
    by (simp add: check_interfaces_def sample_records_def pcap_file_capture_def sample_claim_def)
  show "check_endpoints (sample_claim ''dns'' True) = Inr ()" by code_simp
  show "used_interface (sample_records sample_dns) (filter (in_window (sample_bounds 10 11 12 13)) dns_transports) =
      Inr sample_interface"
    unfolding dns_filters
    by (simp add: used_interface_def sample_records_def pcap_file_capture_def dns_transports_eq sample_transport_def
        py_index_def sample_interface_def)
  show "marker_window [(10, 11)] [(12, 13)] (tc_declared_observation_ms (sample_claim ''dns'' True)) =
      Inr (sample_bounds 10 11 12 13)"
    by code_simp
  show "wf_pcap_file 1000000 65535 1 (map sample_packet_of sample_dns)"
    by (rule samples_wf)
  show "filter (claim_flow (sample_claim ''dns'' True)) dns_transports = dns_transports"
    by (rule dns_filters)
  show "list_all (\<lambda>p. tp_protocol p \<noteq> ''tcp'' \<or> tc_protocol (sample_claim ''dns'' True) \<noteq> ''quic'') dns_transports"
    by (rule dns_filters)
qed (simp_all add: samples_wf dns_decoded dns_filters event_windows_for_token_def sample_responses
    sample_claim_def check_quic_def claim_responses_def)

section \<open>Staged captures\<close>

lemma sample_staged:
  assumes "map se_stage (sc_endpoints c) = [''start'', ''target'', ''end'']"
    and "identical_retransmissions (sc_retransmissions c) (sc_protocol c) (sc_dns_resolver_legs c \<noteq> None) = Inr identical"
    and "sc_expect_token c" "wf_pcap_file 1000000 65535 1 (map sample_packet_of ss)"
    and "check_interfaces (sample_records ss) (sc_expected_link_type c) (sc_expected_interface_name c) = Inr ()"
    and "stage_transport_families (sc_endpoints c) (sc_protocol c) (sc_family c) (sc_dns_resolver_legs c) = Inr families"
    and "mapE normalize_endpoint (zip (sc_endpoints c) families) = Inr (sc_endpoints c)"
    and "decode_records (pc_records (sample_records ss)) = Inr transports"
    and "stage_evidence_of c identical transports (sc_endpoints c) families = Inr ev"
    and "\<not> isl (judge_staged_evidence c (sample_records ss) ev)"
  shows "\<exists>proof. validate_staged_capture_tokens (sample_capture ss) ''packet-pcap'' c = Inr proof"
  unfolding validate_staged_capture_tokens_def sample_parsed [OF assms(4)]
  using assms by (cases "judge_staged_evidence c (sample_records ss) ev") auto

definition stages_transports :: "transport_packet list" where
  "stages_transports = map (\<lambda>(t, port, sequence, body). sample_transport t True ''tcp'' port 443 body (Some sequence))
     [(10, 4000, 100, [0x61, 0x61]), (11, 4001, 200, [0x62, 0x62]), (11, 4001, 200, [0x62, 0x62]),
      (12, 4002, 300, [0x63, 0x63])]"

definition sample_stage_evidence :: "bool \<Rightarrow> stage_records \<Rightarrow> stage_evidence" where
  "sample_stage_evidence identical records = \<lparr>ev_exchanges = None,
     ev_records = (if identical then Some records else None), ev_packets = records,
     ev_families = (''ipv4'', ''ipv4'', ''ipv4''), ev_start_windows = [(10, 10)], ev_end_windows = [(12, 12)]\<rparr>"

lemma sample_stages_run:
  "\<exists>proof. validate_staged_capture_tokens (sample_capture sample_stages) ''packet-pcap''
     (sample_staged_claim ''tcp'' [4000, 4001, 4002] IDENTICAL_RETRANSMISSIONS) = Inr proof"
  by (rule sample_staged [where transports = stages_transports and identical = True
        and families = "[''ipv4'', ''ipv4'', ''ipv4'']"
        and ev = "sample_stage_evidence True ([stages_transports ! 0], [stages_transports ! 1, stages_transports ! 2],
          [stages_transports ! 3])"]) code_simp+

lemma sample_staged_udp_run:
  "\<exists>proof. validate_staged_capture_tokens (sample_capture sample_udp) ''packet-pcap''
     (sample_staged_claim ''udp'' [4000, 4000, 4000] EXACT) = Inr proof"
  by (rule sample_staged [where transports = udp_transports and identical = False
        and families = "[''ipv4'', ''ipv4'', ''ipv4'']"
        and ev = "sample_stage_evidence False (udp_transports, udp_transports, udp_transports)"]) code_simp+

section \<open>The theorems at the samples\<close>

lemma sample_addresses:
  "ipv4_text (map unat [10, 0, 0, 1 :: byte]) = ''10.0.0.1''" "ipv4_text (map unat [10, 0, 0, 2 :: byte]) = ''10.0.0.2''"
  by code_simp+


theorem dns_roundtrip_witness:
  "\<not> isl (dns_message_of (dns_query_bytes 7 True ''ipv4'' [''aa'', ''evidence'', ''test'']) ''ipv4'') \<and>
   \<not> isl (dns_message_of (dns_answer_bytes 7 True ''ipv4'' [''aa'', ''evidence'', ''test''] [192, 0, 2, 1]) ''ipv4'')"
  using dns_roundtrip [of 7 "[''aa'', ''evidence'', ''test'']" "[192, 0, 2, 1]" "''ipv4''" True] dns_labels [of "''aa''"]
  by simp

lemma tcp_sample_windows: "tcp_token_windows tcp_transports [0x61, 0x61] = Inr [(11, 10)]"
  by code_simp

theorem tcp_token_windows_sound_witness:
  "\<exists>p \<in> set tcp_transports. \<exists>base stream stamps i.
    (let segments = filter (\<lambda>q. flow_key_of q = flow_key_of p \<and> tp_payload q \<noteq> []) tcp_transports in
     list_all (placed base stream) segments \<and>
     occurs_at stream [0x61, 0x61] i \<and> 11 = stamps ! i \<and> 10 = stamps ! (i + length [0x61 :: byte, 0x61] - 1) \<and>
     (\<forall>j < length stream. \<exists>q \<in> set segments. covers base q j \<and> stamps ! j = tp_timestamp q))"
  using tcp_sample_windows by (rule tcp_token_windows_sound) simp_all

theorem tcp_reassembly_complete_witness:
  "\<exists>st. reassemble (sort_key segment_order tcp_transports) = Inr st \<and>
    re_stream st = [0x61, 0x61, 0x64, 0x63, 0x63]"
proof -
  let ?segs = "[tcp_transports ! 1, tcp_transports ! 0, tcp_transports ! 2, tcp_transports ! 3]"
  have "chunking 100 ?segs" by code_simp
  moreover have "mset tcp_transports = mset ?segs"
    by (simp add: tcp_transports_def add_mset_commute)
  moreover have "length (concat (map tp_payload ?segs)) \<le> MAX_REASSEMBLED_FLOW_BYTES" by code_simp
  moreover have "concat (map tp_payload ?segs) = [0x61, 0x61, 0x64, 0x63, 0x63]" by code_simp
  ultimately show ?thesis
    using tcp_reassembly_complete [of 100 ?segs tcp_transports] by (metis list.distinct(1))
qed

definition sample_legs :: leg_index where
  "sample_legs = [(''ipv4'', \<lparr>lg_client_address = ''10.0.0.1'', lg_resolver_address = ''10.0.0.2''\<rparr>)]"

lemma sample_exchanges:
  "\<exists>xs. dns_exchanges dns_transports sample_legs ''ipv4'' ([0x61, 0x61], [0x62, 0x62], [0x63, 0x63]) = Inr xs"
  by (simp add: dns_exchanges_def dns_leg_messages_def dns_leg_message_def dns_transports_eq sample_transport_def
      sample_legs_def sample_names sample_query_parsed sample_answer_parsed dns_exchange_def pair_answer_def Let_def)

theorem dns_exchange_sound_witness:
  "\<exists>messages x name qm am. dns_exchange messages [0x61, 0x61] = Inr x \<and>
    evidence_name [0x61, 0x61] = Inr name \<and> (dx_query x, qm) \<in> set messages \<and> (dx_answer x, am) \<in> set messages \<and>
    dm_identifier qm = dm_identifier am \<and> tp_timestamp (dx_query x) < tp_timestamp (dx_answer x)"
proof -
  obtain xs where "dns_exchanges dns_transports sample_legs ''ipv4'' ([0x61, 0x61], [0x62, 0x62], [0x63, 0x63]) = Inr xs"
    using sample_exchanges by blast
  then obtain messages x where "dns_exchange messages [0x61, 0x61] = Inr x"
    by (auto simp: dns_exchanges_def res_simps)
  with dns_exchange_sound [OF this] show ?thesis by blast
qed

theorem dns_exchanges_account_witness:
  "\<exists>x1 x2 x3. dns_exchanges dns_transports sample_legs ''ipv4'' ([0x61, 0x61], [0x62, 0x62], [0x63, 0x63]) =
      Inr (x1, x2, x3) \<and> set (dx_records x1) \<union> set (dx_records x2) \<union> set (dx_records x3) = set dns_transports"
  using sample_exchanges dns_exchanges_account by (metis prod_cases3)

theorem validate_window_witness:
  "\<exists>proof. validate_capture_tokens (sample_capture sample_udp) ''packet-pcap'' (sample_claim ''udp'' True) = Inr proof \<and>
    cp_observation_ms proof = 2000 \<and> 1 \<le> cp_ended_at proof - cp_started_at proof"
  using sample_udp_run validate_window by (fastforce simp: sample_claim_def)

theorem validate_udp_count_witness:
  "\<exists>proof transports. validate_capture_tokens (sample_capture sample_udp) ''packet-pcap'' (sample_claim ''udp'' True) = Inr proof \<and>
    cp_token_occurrences proof = length (filter (\<lambda>p. claim_flow (sample_claim ''udp'' True) p \<and> proof_window proof p \<and>
      tp_protocol p = ''udp'' \<and> contains (tp_payload p) [0x62, 0x62]) transports) \<and> 0 < cp_token_occurrences proof"
proof -
  obtain pf where run: "validate_capture_tokens (sample_capture sample_udp) ''packet-pcap'' (sample_claim ''udp'' True) = Inr pf"
    using sample_udp_run by blast
  from validate_udp_count [OF run] show ?thesis using run by (auto simp: sample_claim_def)
qed

theorem validate_quic_witness:
  "\<exists>proof transports. validate_capture_tokens (sample_capture sample_quic) ''packet-pcap'' (sample_claim ''quic'' True) = Inr proof \<and>
    capture_transports (sample_capture sample_quic) ''packet-pcap'' = Inr transports \<and>
    (\<forall>p \<in> set transports. claim_flow (sample_claim ''quic'' True) p \<and> proof_window proof p \<longrightarrow> tp_protocol p \<noteq> ''tcp'')"
proof -
  obtain pf where run: "validate_capture_tokens (sample_capture sample_quic) ''packet-pcap'' (sample_claim ''quic'' True) = Inr pf"
    using sample_quic_run by blast
  have "tc_protocol (sample_claim ''quic'' True) = ''quic''" by (simp add: sample_claim_def)
  from validate_quic [OF run this] run show ?thesis by blast
qed

theorem validate_vantage_witness:
  "\<exists>proof. validate_capture_tokens (sample_capture sample_udp) ''packet-pcap'' (sample_claim ''udp'' True) = Inr proof \<and>
    cp_link_type proof = 1 \<and> cp_interface_name proof \<in> {None, Some ''en0''}"
proof -
  obtain pf where run: "validate_capture_tokens (sample_capture sample_udp) ''packet-pcap'' (sample_claim ''udp'' True) = Inr pf"
    using sample_udp_run by blast
  from validate_vantage [OF run] run show ?thesis by (auto simp: sample_claim_def)
qed

theorem validate_tcp_absence_witness:
  "\<exists>proof transports. validate_capture_tokens (sample_capture sample_tcp) ''packet-pcap'' (sample_claim ''tcp'' False) = Inr proof \<and>
    capture_transports (sample_capture sample_tcp) ''packet-pcap'' = Inr transports \<and>
    (\<forall>p \<in> set transports. claim_flow (sample_claim ''tcp'' False) p \<and> proof_window proof p \<and> tp_protocol p = ''tcp'' \<and>
       tp_payload p \<noteq> [] \<longrightarrow> (\<exists>base stream. \<not> contains stream [0x62, 0x62] \<and> placed base stream p))"
proof -
  obtain pf where run: "validate_capture_tokens (sample_capture sample_tcp) ''packet-pcap'' (sample_claim ''tcp'' False) = Inr pf"
    using sample_tcp_run by blast
  have c: "tc_protocol (sample_claim ''tcp'' False) = ''tcp''" "\<not> tc_expect_token (sample_claim ''tcp'' False)"
    "tc_token (sample_claim ''tcp'' False) = [0x62, 0x62]" by (simp_all add: sample_claim_def)
  from validate_tcp_absence [OF run c(1,2)] run show ?thesis unfolding c(3) by blast
qed

theorem validate_dns_witness:
  "\<exists>proof. validate_capture_tokens (sample_capture sample_dns) ''packet-pcap'' (sample_claim ''dns'' True) = Inr proof \<and>
    cp_dns_response_count proof = Some 3 \<and> cp_dns_ttl proof = Some 0"
proof -
  obtain pf where run: "validate_capture_tokens (sample_capture sample_dns) ''packet-pcap'' (sample_claim ''dns'' True) = Inr pf"
    using sample_dns_run by blast
  have "tc_protocol (sample_claim ''dns'' True) = ''dns''" by (simp add: sample_claim_def)
  from validate_dns [OF run this] run show ?thesis by blast
qed

theorem validate_capture_tokens_raises_only_witness:
  "raises_only is_capture_error (validate_capture_tokens [0xFF] ''packet-pcap'' (sample_claim ''udp'' True))"
  by (rule validate_capture_tokens_raises_only) (code_simp+)

theorem staged_window_witness:
  "\<exists>proof. validate_staged_capture_tokens (sample_capture sample_udp) ''packet-pcap''
      (sample_staged_claim ''udp'' [4000, 4000, 4000] EXACT) = Inr proof \<and>
    cp_observation_ms proof = 2000 \<and> 0 < cp_token_occurrences proof"
proof -
  obtain pf where run: "validate_staged_capture_tokens (sample_capture sample_udp) ''packet-pcap''
      (sample_staged_claim ''udp'' [4000, 4000, 4000] EXACT) = Inr pf"
    using sample_staged_udp_run by blast
  from staged_window [OF run] run show ?thesis by (auto simp: sample_staged_claim_def)
qed

theorem staged_identical_accounts_witness:
  "\<exists>transports. capture_transports (sample_capture sample_stages) ''packet-pcap'' = Inr transports \<and>
    (\<forall>p \<in> set transports. tp_protocol p = ''tcp'' \<and> tp_payload p \<in> {[0x61, 0x61], [0x62, 0x62], [0x63, 0x63]})"
proof -
  let ?c = "sample_staged_claim ''tcp'' [4000, 4001, 4002] IDENTICAL_RETRANSMISSIONS"
  obtain pf where run: "validate_staged_capture_tokens (sample_capture sample_stages) ''packet-pcap'' ?c = Inr pf"
    using sample_stages_run by blast
  have c: "sc_retransmissions ?c = IDENTICAL_RETRANSMISSIONS" "sc_protocol ?c = ''tcp''"
    "sc_start_marker ?c = [0x61, 0x61]" "sc_token ?c = [0x62, 0x62]" "sc_end_marker ?c = [0x63, 0x63]"
    by (simp_all add: sample_staged_claim_def)
  from staged_identical_accounts [OF run c(1)] show ?thesis unfolding c by fastforce
qed

theorem staged_marker_window_agrees_witness:
  "\<exists>proof. validate_staged_capture_tokens (sample_capture sample_udp) ''packet-pcap''
      (sample_staged_claim ''udp'' [4000, 4000, 4000] EXACT) = Inr proof \<and>
    staged_marker_window (sample_capture sample_udp) ''packet-pcap'' ''udp'' ''ipv4''
      (sc_endpoints (sample_staged_claim ''udp'' [4000, 4000, 4000] EXACT)) [0x61, 0x61] [0x63, 0x63] EXACT None =
    Inr (cp_started_at proof, cp_ended_at proof)"
proof -
  let ?c = "sample_staged_claim ''udp'' [4000, 4000, 4000] EXACT"
  obtain pf where run: "validate_staged_capture_tokens (sample_capture sample_udp) ''packet-pcap'' ?c = Inr pf"
    using sample_staged_udp_run by blast
  have c: "sc_protocol ?c = ''udp''" "sc_family ?c = ''ipv4''" "sc_start_marker ?c = [0x61, 0x61]"
    "sc_end_marker ?c = [0x63, 0x63]" "sc_retransmissions ?c = EXACT" "sc_dns_resolver_legs ?c = None"
    by (simp_all add: sample_staged_claim_def)
  have "list_all canonical_endpoint (sc_endpoints ?c)" by code_simp
  with staged_marker_window_agrees [OF run] run show ?thesis unfolding c by blast
qed

end
