(* ===== verification/Py_Json.thy ===== *)
theory Py_Json
  imports Py_Text "HOL-Library.List_Lexorder"
begin

text \<open>
  Python text, UTF-8 and the \<open>json\<close> module, as far as the sources use them. A \<open>str\<close> is the list of
  its code points (\<open>ustr\<close>), because \<open>json.loads\<close> can produce any of them, lone surrogates included;
  \<open>u\<close> turns an ASCII literal into one. A parsed document is a value of \<open>json\<close>; an object keeps its
  members in the order of insertion. Floats are the finite IEEE doubles as rationals, with the
  negative zero apart; \<open>float(text)\<close> rounds to the nearest double and \<open>repr\<close> prints the shortest
  digits that round back.

  The scanner follows the C scanner of the \<open>json\<close> module with \<open>strict=True\<close>. Its hooks
  (\<open>object_pairs_hook\<close>, \<open>parse_int\<close>, \<open>parse_float\<close>, \<open>parse_constant\<close>) are the record \<open>json_hooks\<close>. The
  locale \<open>plain_hooks\<close> states what the hooks must do on plain documents for a printed document to be
  read back; the lemmas in it are the round trip.
\<close>

section \<open>Text and UTF-8\<close>

type_synonym ustr = "nat list"

definition u :: "string \<Rightarrow> ustr" where "u s = map char_code s"

lemma u_simps [simp]: "u [] = []" "u (c # s) = char_code c # u s" "u (s @ t) = u s @ u t"
  by (simp_all add: u_def)

lemma length_u [simp]: "length (u s) = length s"
  by (simp add: u_def)

lemma char_code_inj [simp]: "char_code c = char_code d \<longleftrightarrow> c = d"
  by (simp add: char_code_def)

lemma u_inj [simp]: "u s = u t \<longleftrightarrow> s = t"
  unfolding u_def by (metis char_code_inj inj_map_eq_map injI)

definition is_surrogate :: "nat \<Rightarrow> bool" where
  "is_surrogate c = (0xD800 \<le> c \<and> c \<le> 0xDFFF)"

definition scalar :: "nat \<Rightarrow> bool" where
  "scalar c = (c < 0x110000 \<and> \<not> is_surrogate c)"

definition utf8_char :: "nat \<Rightarrow> bytes res" where
  "utf8_char c =
     (if \<not> scalar c then Inl UnicodeEncodeError
      else if c < 0x80 then Inr [word_of_nat c]
      else if c < 0x800 then Inr [word_of_nat (0xC0 + c div 64), word_of_nat (0x80 + c mod 64)]
      else if c < 0x10000 then
        Inr [word_of_nat (0xE0 + c div 4096), word_of_nat (0x80 + c div 64 mod 64), word_of_nat (0x80 + c mod 64)]
      else Inr [word_of_nat (0xF0 + c div 262144), word_of_nat (0x80 + c div 4096 mod 64),
                word_of_nat (0x80 + c div 64 mod 64), word_of_nat (0x80 + c mod 64)])"

definition utf8_encode :: "ustr \<Rightarrow> bytes res" where
  "utf8_encode s = bindE (mapE utf8_char s) (\<lambda>bs. Inr (concat bs))"

definition is_cont :: "nat \<Rightarrow> bool" where
  "is_cont b = (0x80 \<le> b \<and> b < 0xC0)"

text \<open>Strict decoding: an overlong form, a surrogate or a code point above the range is an error.\<close>

fun utf8_decode :: "bytes \<Rightarrow> ustr res" where
  "utf8_decode [] = Inr []"
| "utf8_decode (w0 # ws) =
     (let b0 = unat w0; more = (\<lambda>c r. bindE r (\<lambda>cs. Inr (c # cs))) in
      if b0 < 0x80 then more b0 (utf8_decode ws)
      else if 0xC0 \<le> b0 \<and> b0 < 0xE0 then
        (case ws of w1 # r \<Rightarrow>
           let c = (b0 - 0xC0) * 64 + (unat w1 - 0x80) in
           if is_cont (unat w1) \<and> 0x80 \<le> c then more c (utf8_decode r) else Inl UnicodeDecodeError
         | _ \<Rightarrow> Inl UnicodeDecodeError)
      else if 0xE0 \<le> b0 \<and> b0 < 0xF0 then
        (case ws of w1 # w2 # r \<Rightarrow>
           let c = (b0 - 0xE0) * 4096 + (unat w1 - 0x80) * 64 + (unat w2 - 0x80) in
           if is_cont (unat w1) \<and> is_cont (unat w2) \<and> 0x800 \<le> c \<and> \<not> is_surrogate c
           then more c (utf8_decode r) else Inl UnicodeDecodeError
         | _ \<Rightarrow> Inl UnicodeDecodeError)
      else if 0xF0 \<le> b0 \<and> b0 < 0xF8 then
        (case ws of w1 # w2 # w3 # r \<Rightarrow>
           let c = (b0 - 0xF0) * 262144 + (unat w1 - 0x80) * 4096 + (unat w2 - 0x80) * 64 + (unat w3 - 0x80) in
           if is_cont (unat w1) \<and> is_cont (unat w2) \<and> is_cont (unat w3) \<and> 0x10000 \<le> c \<and> c < 0x110000
           then more c (utf8_decode r) else Inl UnicodeDecodeError
         | _ \<Rightarrow> Inl UnicodeDecodeError)
      else Inl UnicodeDecodeError)"

declare utf8_decode.simps(2) [simp del]

lemma sextets:
  fixes c :: nat
  shows "c div 4096 * 4096 + c div 64 mod 64 * 64 + c mod 64 = c"
    "c div 262144 * 262144 + c div 4096 mod 64 * 4096 + c div 64 mod 64 * 64 + c mod 64 = c"
proof -
  have d: "c div 4096 = c div 64 div 64" "c div 262144 = c div 4096 div 64"
    by (simp_all flip: div_mult2_eq)
  have "c div 64 * 64 + c mod 64 = c" "c div 64 div 64 * 64 + c div 64 mod 64 = c div 64"
    "c div 4096 div 64 * 64 + c div 4096 mod 64 = c div 4096" by (rule div_mult_mod_eq)+
  then show "c div 4096 * 4096 + c div 64 mod 64 * 64 + c mod 64 = c"
    "c div 262144 * 262144 + c div 4096 mod 64 * 4096 + c div 64 mod 64 * 64 + c mod 64 = c"
    unfolding d by linarith+
qed

lemma utf8_decode_char:
  assumes "scalar c" and "utf8_char c = Inr bs"
  shows "utf8_decode (bs @ r) = bindE (utf8_decode r) (\<lambda>cs. Inr (c # cs))"
proof -
  have un: "unat (word_of_nat n :: byte) = n" if "n < 256" for n
    using that by (simp add: unat_of_nat)
  have c: "c < 0x110000" using assms(1) by (simp add: scalar_def)
  consider (one) "c < 0x80" | (two) "0x80 \<le> c" "c < 0x800" | (three) "0x800 \<le> c" "c < 0x10000" | (four) "0x10000 \<le> c"
    by linarith
  then show ?thesis
  proof cases
    case one
    then show ?thesis using assms by (auto simp: utf8_char_def utf8_decode.simps(2) un Let_def)
  next
    case two
    define x y where "x = c div 64" and "y = c mod 64"
    have b: "x < 32" "2 \<le> x" "y < 64" "x * 64 + y = c" using two by (auto simp: x_def y_def)
    obtain w0 w1 where bs: "bs = [w0, w1]" and w: "unat w0 = 0xC0 + x" "unat w1 = 0x80 + y"
      using assms(2) two b that [of "word_of_nat (0xC0 + x)" "word_of_nat (0x80 + y)"]
      by (simp add: utf8_char_def assms(1) un x_def y_def del: of_nat_add)
    show ?thesis unfolding bs using b two
      by (simp add: utf8_decode.simps(2) w Let_def is_cont_def)
  next
    case three
    define x y z where "x = c div 4096" and "y = c div 64 mod 64" and "z = c mod 64"
    have b: "x < 16" "y < 64" "z < 64" "x * 4096 + y * 64 + z = c"
      using three sextets(1) [of c] by (auto simp: x_def y_def z_def)
    obtain w0 w1 w2 where bs: "bs = [w0, w1, w2]" and w: "unat w0 = 0xE0 + x" "unat w1 = 0x80 + y" "unat w2 = 0x80 + z"
      using assms(2) three b that [of "word_of_nat (0xE0 + x)" "word_of_nat (0x80 + y)" "word_of_nat (0x80 + z)"]
      by (simp add: utf8_char_def assms(1) un x_def y_def z_def del: of_nat_add)
    show ?thesis unfolding bs using b three assms(1)
      by (simp add: utf8_decode.simps(2) w Let_def is_cont_def scalar_def)
  next
    case four
    define x y z t where "x = c div 262144" and "y = c div 4096 mod 64" and "z = c div 64 mod 64" and "t = c mod 64"
    have b: "x < 8" "y < 64" "z < 64" "t < 64" "x * 262144 + y * 4096 + z * 64 + t = c"
      using c sextets(2) [of c] by (auto simp: x_def y_def z_def t_def)
    obtain w0 w1 w2 w3 where bs: "bs = [w0, w1, w2, w3]"
      and w: "unat w0 = 0xF0 + x" "unat w1 = 0x80 + y" "unat w2 = 0x80 + z" "unat w3 = 0x80 + t"
      using assms(2) four b that [of "word_of_nat (0xF0 + x)" "word_of_nat (0x80 + y)" "word_of_nat (0x80 + z)" "word_of_nat (0x80 + t)"]
      by (simp add: utf8_char_def assms(1) un x_def y_def z_def t_def del: of_nat_add)
    show ?thesis unfolding bs using b four c
      by (simp add: utf8_decode.simps(2) w Let_def is_cont_def)
  qed
qed

lemma utf8_char_scalar: "scalar c \<Longrightarrow> \<exists>b. utf8_char c = Inr b"
  by (simp add: utf8_char_def)

lemma utf8_roundtrip:
  assumes "list_all scalar s"
  shows "\<exists>bs. utf8_encode s = Inr bs \<and> utf8_decode bs = Inr s"
  using assms
proof (induction s)
  case Nil
  then show ?case by (simp add: utf8_encode_def)
next
  case (Cons c s)
  then obtain bs where "utf8_encode s = Inr bs" "utf8_decode bs = Inr s" by auto
  moreover obtain b where "utf8_char c = Inr b" using Cons.prems utf8_char_scalar by auto
  ultimately show ?case using Cons.prems utf8_decode_char [of c b bs]
    by (auto simp: utf8_encode_def bindE_eq_Inr)
qed

lemma utf8_encode_error: "utf8_encode s = Inl e \<Longrightarrow> e = UnicodeEncodeError"
  by (induction s) (auto simp: utf8_encode_def bindE_eq_Inl utf8_char_def split: if_splits)

section \<open>Floats\<close>

datatype pyfloat = NegZero | Finite rat

definition pow_int :: "nat \<Rightarrow> int \<Rightarrow> rat" where
  "pow_int b e = (if 0 \<le> e then of_nat b ^ nat e else 1 / of_nat b ^ nat (- e))"

text \<open>The greatest \<open>e\<close> with \<open>b ^ e \<le> x\<close>, for positive \<open>x\<close>.\<close>

definition floor_log_rat :: "nat \<Rightarrow> rat \<Rightarrow> int" where
  "floor_log_rat b x =
     (let (p, q) = quotient_of x;
          e = int (length (digits_base b (nat p))) - int (length (digits_base b (nat q))) in
      if pow_int b e \<le> x then e else e - 1)"

definition round_half_even :: "rat \<Rightarrow> int" where
  "round_half_even x =
     (let f = \<lfloor>x\<rfloor>; d = x - of_int f in
      if d < 1 / 2 then f else if d > 1 / 2 then f + 1 else if even f then f else f + 1)"

text \<open>The nearest double of a non-negative rational; \<open>None\<close> is an overflow to infinity.\<close>

definition nearest_double :: "rat \<Rightarrow> rat option" where
  "nearest_double x =
     (if x = 0 then Some 0
      else let e = max (floor_log_rat 2 x - 52) (- 1074);
               v = of_int (round_half_even (x / pow_int 2 e)) * pow_int 2 e in
      if v \<ge> 2 ^ 1024 then None else Some v)"

definition signed_double :: "bool \<Rightarrow> rat \<Rightarrow> pyfloat option" where
  "signed_double neg x =
     map_option (\<lambda>v. if neg \<and> v = 0 then NegZero else Finite (if neg then - v else v)) (nearest_double x)"

text \<open>
  \<open>repr\<close>: the shortest significand whose value rounds back, the nearest one of that length, as an
  integer \<open>d\<close> and a power of ten.
\<close>

definition repr_candidates :: "rat \<Rightarrow> nat \<Rightarrow> (int \<times> int) list" where
  "repr_candidates x n =
     (let p = floor_log_rat 10 x - int n + 1; y = x / pow_int 10 p;
          ok = filter (\<lambda>d. nearest_double (of_int d * pow_int 10 p) = Some x) [\<lfloor>y\<rfloor>, \<lceil>y\<rceil>] in
      map (\<lambda>d. (d, p)) (sort_key (\<lambda>d. \<bar>of_int d - y\<bar>) ok))"

definition repr_digits :: "rat \<Rightarrow> int \<times> int" where
  "repr_digits x = hd (concat (map (repr_candidates x) [1..<18]))"

definition strip_zeros :: "string \<Rightarrow> string" where
  "strip_zeros s = rev (dropWhile (\<lambda>c. c = CHR ''0'') (rev s))"

definition positive_repr :: "rat \<Rightarrow> string" where
  "positive_repr x =
     (let (d, p) = repr_digits x; all = dec_str (nat d); ds = strip_zeros all;
          point = int (length all) + p in
      if point > 16 \<or> point \<le> - 4 then
        let e = point - 1; es = dec_str (nat \<bar>e\<bar>) in
        take 1 ds @ (if length ds > 1 then ''.'' @ drop 1 ds else []) @ ''e'' @
          (if e < 0 then ''-'' else ''+'') @ (if length es < 2 then ''0'' else []) @ es
      else if point \<le> 0 then ''0.'' @ replicate (nat (- point)) (CHR ''0'') @ ds
      else if nat point \<ge> length ds then ds @ replicate (nat point - length ds) (CHR ''0'') @ ''.0''
      else take (nat point) ds @ ''.'' @ drop (nat point) ds)"

fun float_repr :: "pyfloat \<Rightarrow> string" where
  "float_repr NegZero = ''-0.0''"
| "float_repr (Finite x) =
     (if x = 0 then ''0.0'' else if x < 0 then ''-'' @ positive_repr (- x) else positive_repr x)"

section \<open>Documents\<close>

datatype json =
    JNull
  | JBool bool
  | JInt int
  | JFloat pyfloat
  | JStr ustr
  | JArr "json list"
  | JObj "(ustr \<times> json) list"

text \<open>Reading a value of one type; and the exceptions of a case analysis.\<close>

lemma case_json_object_eq_Inr [res_simps]:
  "(case v of JNull \<Rightarrow> Inl e1 | JBool b \<Rightarrow> Inl (e2 b) | JInt i \<Rightarrow> Inl (e3 i) | JFloat x \<Rightarrow> Inl (e4 x)
     | JStr s \<Rightarrow> Inl (e5 s) | JArr vs \<Rightarrow> Inl (e6 vs) | JObj ms \<Rightarrow> f ms) = Inr y
   \<longleftrightarrow> (\<exists>ms. v = JObj ms \<and> f ms = Inr y)"
  by (cases v) auto

lemma case_json_string_eq_Inr [res_simps]:
  "(case v of JNull \<Rightarrow> Inl e1 | JBool b \<Rightarrow> Inl (e2 b) | JInt i \<Rightarrow> Inl (e3 i) | JFloat x \<Rightarrow> Inl (e4 x)
     | JStr s \<Rightarrow> f s | JArr vs \<Rightarrow> Inl (e6 vs) | JObj ms \<Rightarrow> Inl (e7 ms)) = Inr y
   \<longleftrightarrow> (\<exists>s. v = JStr s \<and> f s = Inr y)"
  by (cases v) auto

lemma case_json_int_eq_Inr [res_simps]:
  "(case v of JNull \<Rightarrow> Inl e1 | JBool b \<Rightarrow> Inl (e2 b) | JInt i \<Rightarrow> f i | JFloat x \<Rightarrow> Inl (e4 x)
     | JStr s \<Rightarrow> Inl (e5 s) | JArr vs \<Rightarrow> Inl (e6 vs) | JObj ms \<Rightarrow> Inl (e7 ms)) = Inr y
   \<longleftrightarrow> (\<exists>i. v = JInt i \<and> f i = Inr y)"
  by (cases v) auto

lemma case_json_array_eq_Inr [res_simps]:
  "(case v of JNull \<Rightarrow> Inl e1 | JBool b \<Rightarrow> Inl (e2 b) | JInt i \<Rightarrow> Inl (e3 i) | JFloat x \<Rightarrow> Inl (e4 x)
     | JStr s \<Rightarrow> Inl (e5 s) | JArr vs \<Rightarrow> f vs | JObj ms \<Rightarrow> Inl (e7 ms)) = Inr y
   \<longleftrightarrow> (\<exists>vs. v = JArr vs \<and> f vs = Inr y)"
  by (cases v) auto

lemma raises_only_case_json [raises_intros]:
  "(v = JNull \<Longrightarrow> raises_only P a) \<Longrightarrow> (\<And>b. v = JBool b \<Longrightarrow> raises_only P (f1 b)) \<Longrightarrow>
   (\<And>i. v = JInt i \<Longrightarrow> raises_only P (f2 i)) \<Longrightarrow> (\<And>x. v = JFloat x \<Longrightarrow> raises_only P (f3 x)) \<Longrightarrow>
   (\<And>s. v = JStr s \<Longrightarrow> raises_only P (f4 s)) \<Longrightarrow> (\<And>vs. v = JArr vs \<Longrightarrow> raises_only P (f5 vs)) \<Longrightarrow>
   (\<And>ms. v = JObj ms \<Longrightarrow> raises_only P (f6 ms)) \<Longrightarrow>
   raises_only P (case v of JNull \<Rightarrow> a | JBool b \<Rightarrow> f1 b | JInt i \<Rightarrow> f2 i | JFloat x \<Rightarrow> f3 x
     | JStr s \<Rightarrow> f4 s | JArr vs \<Rightarrow> f5 vs | JObj ms \<Rightarrow> f6 ms)"
  by (cases v) auto

section \<open>Printing\<close>

text \<open>\<open>json.dumps\<close> with \<open>ensure_ascii=False\<close> and \<open>separators=(",", ":")\<close>.\<close>

definition hex_code :: "nat \<Rightarrow> nat" where "hex_code d = char_code (digit_char d)"

definition esc_char :: "nat \<Rightarrow> ustr" where
  "esc_char c =
     (if c = 34 then [92, 34] else if c = 92 then [92, 92]
      else if c = 10 then [92, 110] else if c = 13 then [92, 114] else if c = 9 then [92, 116]
      else if c = 12 then [92, 102] else if c = 8 then [92, 98]
      else if c < 32 then [92, 117, 48, 48, hex_code (c div 16), hex_code (c mod 16)]
      else [c])"

definition print_str :: "ustr \<Rightarrow> ustr" where
  "print_str s = [34] @ concat (map esc_char s) @ [34]"

definition print_int :: "int \<Rightarrow> ustr" where
  "print_int i = (if i < 0 then [45] else []) @ u (dec_str (nat \<bar>i\<bar>))"

fun print_json :: "json \<Rightarrow> ustr" where
  "print_json JNull = u ''null''"
| "print_json (JBool b) = u (if b then ''true'' else ''false'')"
| "print_json (JInt i) = print_int i"
| "print_json (JFloat x) = u (float_repr x)"
| "print_json (JStr s) = print_str s"
| "print_json (JArr xs) = [91] @ join_with [44] (map print_json xs) @ [93]"
| "print_json (JObj kvs) = [123] @ join_with [44] (map (\<lambda>(k, v). print_str k @ [58] @ print_json v) kvs) @ [125]"

text \<open>\<open>sort_keys=True\<close> sorts the members of every object by their keys.\<close>

fun canon :: "json \<Rightarrow> json" where
  "canon (JArr xs) = JArr (map canon xs)"
| "canon (JObj kvs) = JObj (sort_key fst (map (\<lambda>(k, v). (k, canon v)) kvs))"
| "canon v = v"

section \<open>Scanning\<close>

record json_hooks =
  hook_int :: "ustr \<Rightarrow> json res"
  hook_float :: "ustr \<Rightarrow> json res"
  hook_constant :: "json res"
  hook_object :: "(ustr \<times> json) list \<Rightarrow> json res"

definition skip_ws :: "ustr \<Rightarrow> ustr" where
  "skip_ws cs = dropWhile (\<lambda>c. c \<in> {32, 9, 10, 13}) cs"

lemma length_skip_ws: "length (skip_ws cs) \<le> length cs"
  by (simp add: skip_ws_def length_dropWhile_le)

definition is_dig :: "nat \<Rightarrow> bool" where "is_dig c = (48 \<le> c \<and> c \<le> 57)"

definition hex_digit_value :: "nat \<Rightarrow> nat option" where
  "hex_digit_value c = (if c < 128 then digit_val (char_of c) else None)"

text \<open>Four hexadecimal digits.\<close>

definition hex4 :: "ustr \<Rightarrow> nat option" where
  "hex4 cs =
     (case map hex_digit_value (take 4 cs) of
        [Some a, Some b, Some c, Some d] \<Rightarrow> Some (((a * 16 + b) * 16 + c) * 16 + d)
      | _ \<Rightarrow> None)"

definition simple_escape :: "nat \<Rightarrow> nat option" where
  "simple_escape c = map_of [(34, 34), (92, 92), (47, 47), (98, 8), (102, 12), (110, 10), (114, 13), (116, 9)] c"

text \<open>A low surrogate escape right behind: its value and the rest.\<close>

definition low_escape :: "ustr \<Rightarrow> (nat \<times> ustr) option" where
  "low_escape cs =
     (case cs of x # y # r \<Rightarrow>
        (if x = 92 \<and> y = 117 then
           (case hex4 r of Some c \<Rightarrow> if 0xDC00 \<le> c \<and> c \<le> 0xDFFF then Some (c, drop 4 r) else None | None \<Rightarrow> None)
         else None)
      | _ \<Rightarrow> None)"

lemma low_escape_shorter: "low_escape cs = Some (c, r) \<Longrightarrow> length r < length cs"
  by (auto simp: low_escape_def split: list.splits if_splits option.splits)

function scan_string :: "ustr \<Rightarrow> (ustr \<times> ustr) res" where
  "scan_string cs =
     (let more = (\<lambda>c m. bindE m (\<lambda>(s, r). Inr (c # s, r))) in
      case cs of
        [] \<Rightarrow> Inl JSONDecodeError
      | c # r \<Rightarrow>
          if c = 34 then Inr ([], r)
          else if c < 32 then Inl JSONDecodeError
          else if c \<noteq> 92 then more c (scan_string r)
          else (case r of
            [] \<Rightarrow> Inl JSONDecodeError
          | e # r1 \<Rightarrow>
              if e \<noteq> 117 then
                (case simple_escape e of None \<Rightarrow> Inl JSONDecodeError | Some v \<Rightarrow> more v (scan_string r1))
              else (case hex4 r1 of
                None \<Rightarrow> Inl JSONDecodeError
              | Some v \<Rightarrow>
                  (case (if 0xD800 \<le> v \<and> v \<le> 0xDBFF then low_escape (drop 4 r1) else None) of
                     Some (v2, r2) \<Rightarrow> more (0x10000 + (v - 0xD800) * 1024 + (v2 - 0xDC00)) (scan_string r2)
                   | None \<Rightarrow> more v (scan_string (drop 4 r1))))))"
  by pat_completeness auto
termination
  by (relation "measure length") (auto split: if_splits dest!: low_escape_shorter)

declare scan_string.simps [simp del]

definition fraction_part :: "ustr \<Rightarrow> ustr" where
  "fraction_part cs =
     (case cs of c # r \<Rightarrow> if c = 46 \<and> takeWhile is_dig r \<noteq> [] then 46 # takeWhile is_dig r else [] | [] \<Rightarrow> [])"

definition exponent_part :: "ustr \<Rightarrow> ustr" where
  "exponent_part cs =
     (case cs of c # r \<Rightarrow>
        let sign = (case r of s # _ \<Rightarrow> if s = 43 \<or> s = 45 then [s] else [] | [] \<Rightarrow> []);
            ds = takeWhile is_dig (drop (length sign) r) in
        if (c = 101 \<or> c = 69) \<and> ds \<noteq> [] then c # sign @ ds else []
      | [] \<Rightarrow> [])"

definition scan_number :: "json_hooks \<Rightarrow> ustr \<Rightarrow> (json \<times> ustr) res" where
  "scan_number h cs =
     (let sign = (if take 1 cs = [45] then [45] else []); r = drop (length sign) cs in
      case r of
        [] \<Rightarrow> Inl JSONDecodeError
      | d # _ \<Rightarrow>
          if \<not> is_dig d then Inl JSONDecodeError
          else let whole = (if d = 48 then [48] else takeWhile is_dig r);
                   r1 = drop (length whole) r; frac = fraction_part r1;
                   r2 = drop (length frac) r1; expo = exponent_part r2;
                   r3 = drop (length expo) r2 in
          bindE (if frac = [] \<and> expo = [] then hook_int h (sign @ whole)
                 else hook_float h (sign @ whole @ frac @ expo)) (\<lambda>v. Inr (v, r3)))"

definition starts :: "string \<Rightarrow> ustr \<Rightarrow> bool" where
  "starts lit cs = (take (length lit) cs = u lit)"

text \<open>A value that is neither a string nor a container.\<close>

definition scan_atom :: "json_hooks \<Rightarrow> ustr \<Rightarrow> (json \<times> ustr) res" where
  "scan_atom h cs =
     (if starts ''null'' cs then Inr (JNull, drop 4 cs)
      else if starts ''true'' cs then Inr (JBool True, drop 4 cs)
      else if starts ''false'' cs then Inr (JBool False, drop 5 cs)
      else if starts ''NaN'' cs then bindE (hook_constant h) (\<lambda>v. Inr (v, drop 3 cs))
      else if starts ''Infinity'' cs then bindE (hook_constant h) (\<lambda>v. Inr (v, drop 8 cs))
      else if starts ''-Infinity'' cs then bindE (hook_constant h) (\<lambda>v. Inr (v, drop 9 cs))
      else scan_number h cs)"

lemma skip_ws_Cons_length: "skip_ws r = d # r1 \<Longrightarrow> length r1 < length r"
  using length_skip_ws [of r] by simp

text \<open>
  The recursive part of the scanner. \<open>scan_elements\<close> reads the elements of an array up to its
  bracket, \<open>scan_members\<close> the members of an object up to its brace. The two tests that the rest has
  become shorter always succeed (\<open>scan_value_shorter\<close>); they make the recursion well founded.
\<close>

function (sequential) scan_value :: "json_hooks \<Rightarrow> ustr \<Rightarrow> (json \<times> ustr) res"
  and scan_elements :: "json_hooks \<Rightarrow> ustr \<Rightarrow> (json list \<times> ustr) res"
  and scan_members :: "json_hooks \<Rightarrow> ustr \<Rightarrow> ((ustr \<times> json) list \<times> ustr) res" where
  "scan_value h cs =
     (case cs of
        [] \<Rightarrow> Inl JSONDecodeError
      | c # r \<Rightarrow>
          if c = 34 then bindE (scan_string r) (\<lambda>(s, r'). Inr (JStr s, r'))
          else if c = 123 then
            (case skip_ws r of
               [] \<Rightarrow> Inl JSONDecodeError
             | d # r1 \<Rightarrow>
                 if d = 125 then bindE (hook_object h []) (\<lambda>v. Inr (v, r1))
                 else bindE (scan_members h (d # r1)) (\<lambda>(kvs, r').
                      bindE (hook_object h kvs) (\<lambda>v. Inr (v, r'))))
          else if c = 91 then
            (case skip_ws r of
               [] \<Rightarrow> Inl JSONDecodeError
             | d # r1 \<Rightarrow>
                 if d = 93 then Inr (JArr [], r1)
                 else bindE (scan_elements h (d # r1)) (\<lambda>(vs, r'). Inr (JArr vs, r')))
          else scan_atom h cs)"
| "scan_elements h cs =
     bindE (scan_value h cs) (\<lambda>(v, r).
     case skip_ws r of
       [] \<Rightarrow> Inl JSONDecodeError
     | d # r1 \<Rightarrow>
         if d = 93 then Inr ([v], r1)
         else if d = 44 \<and> length r1 < length cs then
           bindE (scan_elements h (skip_ws r1)) (\<lambda>(vs, r'). Inr (v # vs, r'))
         else Inl JSONDecodeError)"
| "scan_members h cs =
     (case cs of
        [] \<Rightarrow> Inl JSONDecodeError
      | c # r \<Rightarrow>
          if c \<noteq> 34 then Inl JSONDecodeError
          else bindE (scan_string r) (\<lambda>(k, r0).
          case skip_ws r0 of
            [] \<Rightarrow> Inl JSONDecodeError
          | colon # r1 \<Rightarrow>
              if colon \<noteq> 58 \<or> \<not> length r1 < length cs then Inl JSONDecodeError
              else bindE (scan_value h (skip_ws r1)) (\<lambda>(v, r2).
              case skip_ws r2 of
                [] \<Rightarrow> Inl JSONDecodeError
              | d # r3 \<Rightarrow>
                  if d = 125 then Inr ([(k, v)], r3)
                  else if d = 44 \<and> length r3 < length cs then
                    bindE (scan_members h (skip_ws r3)) (\<lambda>(kvs, r'). Inr ((k, v) # kvs, r'))
                  else Inl JSONDecodeError)))"
  by pat_completeness auto

termination
proof (relation "measures [\<lambda>x. case x of Inl (_, cs) \<Rightarrow> length cs | Inr (Inl (_, cs)) \<Rightarrow> length cs
      | Inr (Inr (_, cs)) \<Rightarrow> length cs,
      \<lambda>x. case x of Inl _ \<Rightarrow> 0 | Inr _ \<Rightarrow> (1 :: nat)]", goal_cases)
qed (auto dest: skip_ws_Cons_length intro: le_less_trans [OF length_skip_ws])

declare scan_value.simps [simp del] scan_elements.simps [simp del] scan_members.simps [simp del]

text \<open>\<open>json.loads\<close> of a \<open>str\<close>: one value between white space, and no byte order mark.\<close>

definition py_json_loads :: "json_hooks \<Rightarrow> ustr \<Rightarrow> json res" where
  "py_json_loads h text =
     (if take 1 text = [0xFEFF] then Inl JSONDecodeError
      else bindE (scan_value h (skip_ws text)) (\<lambda>(v, r).
        if skip_ws r \<noteq> [] then Inl JSONDecodeError else Inr v))"

section \<open>The scanner makes progress\<close>

lemma scan_string_shorter: "scan_string cs = Inr (s, r) \<Longrightarrow> length r < length cs"
proof (induction "length cs" arbitrary: cs s r rule: less_induct)
  case less
  have IH: "scan_string cs' = Inr (s', r) \<Longrightarrow> length cs' < length cs \<Longrightarrow> length r < length cs" for cs' s'
    using less.hyps [of cs' s' r] by linarith
  obtain c r0 where cs: "cs = c # r0" using less.prems by (subst (asm) scan_string.simps) (auto split: list.splits)
  show ?case
  proof (cases "c = 34 \<or> c < 32 \<or> c \<noteq> 92")
    case True
    with less.prems cs IH show ?thesis
      by (subst (asm) scan_string.simps) (auto simp: bindE_eq_Inr split: if_splits)
  next
    case False
    then obtain e r1 where r0: "r0 = e # r1" using less.prems cs
      by (subst (asm) scan_string.simps) (auto split: list.splits)
    show ?thesis
    proof (cases "e = 117")
      case True
      then obtain v where "hex4 r1 = Some v" using less.prems cs r0 False
        by (subst (asm) scan_string.simps) (auto split: option.splits)
      with True less.prems cs r0 False IH show ?thesis
        by (subst (asm) scan_string.simps)
          (auto simp: bindE_eq_Inr split: if_splits option.splits dest!: low_escape_shorter)
    next
      case F: False
      with less.prems cs r0 False IH show ?thesis
        by (subst (asm) scan_string.simps) (auto simp: bindE_eq_Inr split: option.splits)
    qed
  qed
qed

lemma scan_number_shorter:
  assumes "scan_number h cs = Inr (v, r)"
  shows "length r < length cs"
proof -
  define sign where "sign = (if take 1 cs = [45] then [45 :: nat] else [])"
  obtain d ds where r0: "drop (length sign) cs = d # ds"
    using assms unfolding scan_number_def Let_def sign_def [symmetric] by (auto split: list.splits)
  define whole where "whole = (if d = 48 then [48] else takeWhile is_dig (d # ds))"
  have dig: "is_dig d" and r: "length r \<le> length (drop (length whole) (d # ds))"
    using assms unfolding scan_number_def Let_def sign_def [symmetric] r0 list.case whole_def [symmetric]
    by (auto simp: bindE_eq_Inr split: if_splits)
  have "whole \<noteq> []" using dig by (simp add: whole_def)
  then have "0 < length whole" by simp
  moreover have "length (d # ds) \<le> length cs" unfolding r0 [symmetric] by simp
  ultimately show ?thesis using r by (cases "length whole") auto
qed

lemma scan_atom_shorter:
  assumes "scan_atom h cs = Inr (v, r)"
  shows "length r < length cs"
proof -
  have "length lit \<le> length cs" if "starts lit cs" for lit
    using arg_cong [OF that [unfolded starts_def], of length] by simp
  from this [of "''null''"] this [of "''true''"] this [of "''false''"] this [of "''NaN''"]
    this [of "''Infinity''"] this [of "''-Infinity''"]
  show ?thesis using assms
    by (auto simp: scan_atom_def bindE_eq_Inr split: if_splits dest: scan_number_shorter)
qed

lemma scan_valueE:
  assumes "scan_value h cs = Inr (v, r)"
  obtains (string) c r0 s where "cs = c # r0" "scan_string r0 = Inr (s, r)" "v = JStr s"
  | (object_empty) c r0 d where "cs = c # r0" "skip_ws r0 = d # r"
  | (object) c r0 d r1 kvs where "cs = c # r0" "skip_ws r0 = d # r1" "scan_members h (d # r1) = Inr (kvs, r)"
      "c \<noteq> 34" "c = 123" "d \<noteq> 125" "hook_object h kvs = Inr v"
  | (array) c r0 d r1 vs where "cs = c # r0" "skip_ws r0 = d # r1" "scan_elements h (d # r1) = Inr (vs, r)"
      "c \<noteq> 34" "c \<noteq> 123" "c = 91" "d \<noteq> 93"
  | (atom) "scan_atom h cs = Inr (v, r)"
  using assms that unfolding scan_value.simps [of h cs]
    by (auto simp: bindE_eq_Inr split: list.splits if_splits prod.splits)

lemma scan_elementsE:
  assumes "scan_elements h cs = Inr (vs, r)"
  obtains v r0 d r1 where "scan_value h cs = Inr (v, r0)" "skip_ws r0 = d # r1" "d = 93" "vs = [v]" "r = r1"
  | v r0 d r1 vs' where "scan_value h cs = Inr (v, r0)" "skip_ws r0 = d # r1" "d \<noteq> 93" "d = 44 \<and> length r1 < length cs"
      "scan_elements h (skip_ws r1) = Inr (vs', r)" "vs = v # vs'"
proof -
  obtain v r0 where v: "scan_value h cs = Inr (v, r0)"
    using assms unfolding scan_elements.simps [of h cs] by (auto simp: bindE_eq_Inr)
  obtain d r1 where d: "skip_ws r0 = d # r1"
    using assms v unfolding scan_elements.simps [of h cs] by (cases "skip_ws r0") auto
  show ?thesis
    using assms v d that unfolding scan_elements.simps [of h cs] by (auto simp: bindE_eq_Inr split: if_splits)
qed

lemma scan_membersE:
  assumes "scan_members h cs = Inr (kvs, r)"
  obtains c r0 k r1 colon r2 v r3 d r4 where "cs = c # r0" "c = 34" "scan_string r0 = Inr (k, r1)"
      "skip_ws r1 = colon # r2" "colon = 58" "length r2 < length cs" "scan_value h (skip_ws r2) = Inr (v, r3)"
      "skip_ws r3 = d # r4"
      "(d = 125 \<and> kvs = [(k, v)] \<and> r = r4) \<or> (d \<noteq> 125 \<and> (d = 44 \<and> length r4 < length cs) \<and>
         (\<exists>kvs'. scan_members h (skip_ws r4) = Inr (kvs', r) \<and> kvs = (k, v) # kvs'))"
proof -
  obtain c r0 where cs: "cs = c # r0"
    using assms unfolding scan_members.simps [of h cs] by (cases cs) auto
  obtain k r1 where k: "c = 34" "scan_string r0 = Inr (k, r1)"
    using assms cs unfolding scan_members.simps [of h cs] by (auto simp: bindE_eq_Inr split: if_splits)
  obtain colon r2 where r2: "skip_ws r1 = colon # r2"
    using assms cs k unfolding scan_members.simps [of h cs] by (cases "skip_ws r1") auto
  obtain v r3 where r3: "colon = 58" "length r2 < length cs" "scan_value h (skip_ws r2) = Inr (v, r3)"
    using assms cs k r2 unfolding scan_members.simps [of h cs] by (auto simp: bindE_eq_Inr split: if_splits)
  obtain d r4 where r4: "skip_ws r3 = d # r4"
    using assms cs k r2 r3 unfolding scan_members.simps [of h cs] by (cases "skip_ws r3") auto
  have "(d = 125 \<and> kvs = [(k, v)] \<and> r = r4) \<or> (d \<noteq> 125 \<and> (d = 44 \<and> length r4 < length cs) \<and>
         (\<exists>kvs'. scan_members h (skip_ws r4) = Inr (kvs', r) \<and> kvs = (k, v) # kvs'))"
    using assms cs k r2 r3 r4 unfolding scan_members.simps [of h cs] by (auto simp: bindE_eq_Inr split: if_splits)
  then show ?thesis by (rule that [OF cs k r2 r3 r4])
qed

lemma scan_shorter:
  "scan_value h cs = Inr (v, r) \<Longrightarrow> length r < length cs"
  "scan_elements h cs = Inr (vs, r) \<Longrightarrow> length r < length cs"
  "scan_members h cs = Inr (kvs, r) \<Longrightarrow> length r < length cs"
proof (induction h cs and h cs and h cs arbitrary: v r and vs r and kvs r
    rule: scan_value_scan_elements_scan_members.induct)
  case (1 h cs)
  from "1.prems" show ?case
  proof (cases rule: scan_valueE)
    case (object c r0 d r1 kvs)
    then have "length r < length (d # r1)" using "1.IH"(1) by auto
    with object length_skip_ws [of r0] show ?thesis by simp
  next
    case (array c r0 d r1 vs)
    then have "length r < length (d # r1)" using "1.IH"(2) by auto
    with array length_skip_ws [of r0] show ?thesis by simp
  qed (auto dest: scan_string_shorter scan_atom_shorter skip_ws_Cons_length)
next
  case (2 h cs)
  from "2.prems" show ?case
  proof (cases rule: scan_elementsE)
    case (1 v r0 d r1)
    with "2.IH"(1) [of v r0] skip_ws_Cons_length [of r0 d r1] show ?thesis by simp
  next
    case (2 v r0 d r1 vs')
    then have "length r < length (skip_ws r1)" using "2.IH"(2) by blast
    with 2 length_skip_ws [of r1] show ?thesis by simp
  qed
next
  case (3 h cs)
  from "3.prems" show ?case
  proof (cases rule: scan_membersE)
    case (1 c r0 k r1 colon r2 v r3 d r4)
    have "length r3 < length (skip_ws r2)" using "3.IH"(1) 1 by blast
    then have r4: "length r4 < length cs"
      using 1 length_skip_ws [of r2] skip_ws_Cons_length [of r3 d r4] by simp
    from 1(9) show ?thesis
    proof (elim disjE conjE exE)
      fix kvs' assume "d \<noteq> 125" "d = 44" "length r4 < length cs" "scan_members h (skip_ws r4) = Inr (kvs', r)"
      then have "length r < length (skip_ws r4)" using "3.IH"(2) 1 by blast
      with r4 length_skip_ws [of r4] show ?thesis by simp
    qed (use r4 in simp)
  qed
qed

section \<open>Reading back what was printed\<close>

lemma hex_digit_value_hex_code: "d < 16 \<Longrightarrow> hex_digit_value (hex_code d) = Some d"
proof -
  assume "d < 16"
  moreover from this have "hex_code d < 128" by (simp add: hex_code_def char_code_def digit_char_def)
  ultimately show ?thesis using digit_val_digit_char [of d]
    by (simp add: hex_digit_value_def) (simp add: hex_code_def char_code_def)
qed

lemma hex4_control: "c < 32 \<Longrightarrow> hex4 (48 # 48 # hex_code (c div 16) # hex_code (c mod 16) # r) = Some c"
proof -
  assume c: "c < 32"
  have z: "hex_digit_value 48 = Some 0" by code_simp
  from c have "c div 16 < 16" "c mod 16 < 16" by simp_all
  then show ?thesis using c by (simp add: hex4_def z hex_digit_value_hex_code)
qed

lemma scan_string_esc:
  "scan_string (esc_char c @ r) = bindE (scan_string r) (\<lambda>(s, r'). Inr (c # s, r'))"
proof (cases "c \<in> {34, 92, 10, 13, 9, 12, 8} \<or> 32 \<le> c")
  case True
  then show ?thesis
    by (subst scan_string.simps) (auto simp: esc_char_def simple_escape_def Let_def)
next
  case False
  then have "esc_char c = [92, 117, 48, 48, hex_code (c div 16), hex_code (c mod 16)]" "c < 32"
    by (auto simp: esc_char_def)
  then show ?thesis
    by (subst scan_string.simps) (simp add: hex4_control Let_def)
qed

lemma scan_string_print: "scan_string (concat (map esc_char s) @ 34 # r) = Inr (s, r)"
proof (induction s)
  case Nil
  show ?case by (subst scan_string.simps) simp
next
  case (Cons c s)
  then show ?case by (simp add: scan_string_esc)
qed

definition number_end :: "ustr \<Rightarrow> bool" where
  "number_end r = (case r of [] \<Rightarrow> True | c # _ \<Rightarrow> \<not> is_dig c \<and> c \<notin> {46, 101, 69})"

lemma is_dig_u: "list_all is_digit s \<Longrightarrow> list_all is_dig (u s)"
  by (auto simp: list_all_iff u_def is_digit_def is_dig_def)

lemma u_eq_Nil [simp]: "u s = [] \<longleftrightarrow> s = []"
  by (simp add: u_def)

lemma zero_code: "char_code (CHR ''0'') = 48"
  by code_simp

lemma hd_digits_base:
  assumes "0 < n"
  shows "hd (digits_base 10 n) \<noteq> CHR ''0''"
  using assms
proof (induction n rule: less_induct)
  case (less n)
  show ?case
  proof (cases "n < 10")
    case True
    then have "char_code (digit_char n) = 48 + n" by (simp add: digit_char_def char_code_def)
    with less.prems zero_code have "digit_char n \<noteq> CHR ''0''" by (metis add_cancel_left_right less_numeral_extra(3))
    with True show ?thesis by (subst digits_base.simps) simp
  next
    case False
    then show ?thesis using less.IH [of "n div 10"] by (subst digits_base.simps) simp
  qed
qed

lemma scan_number_print:
  assumes "number_end r"
  shows "scan_number h (print_int i @ r) = bindE (hook_int h (print_int i)) (\<lambda>v. Inr (v, r))"
proof -
  define n where "n = nat \<bar>i\<bar>"
  define ds where "ds = u (dec_str n)"
  have dig: "list_all is_dig ds" unfolding ds_def by (intro is_dig_u dec_str_digits)
  obtain d ds' where ds: "ds = d # ds'" by (cases ds) (auto simp: ds_def dec_str_def)
  have d: "is_dig d" "d \<noteq> 45" using dig ds by (auto simp: is_dig_def)
  have tw: "takeWhile is_dig (ds @ r) = ds"
    using dig assms by (cases r) (auto simp: number_end_def list_all_iff takeWhile_append2 takeWhile_tail)
  have whole: "(if d = 48 then [48] else takeWhile is_dig (ds @ r)) = ds"
  proof (cases "n = 0")
    case True
    then show ?thesis using ds by (auto simp: ds_def dec_str_def digits_base.simps digit_char_def char_code_def)
  next
    case False
    then have "hd (dec_str n) \<noteq> CHR ''0''" using hd_digits_base by (simp add: dec_str_def)
    moreover have "char_code (hd (dec_str n)) = d" using ds
      by (cases "dec_str n") (auto simp: ds_def)
    ultimately have "d \<noteq> 48" by (metis char_code_inj zero_code)
    with tw show ?thesis by simp
  qed
  have fr: "fraction_part r = []" "exponent_part r = []"
    using assms by (auto simp: fraction_part_def exponent_part_def number_end_def split: list.splits)
  have p: "print_int i = (if i < 0 then [45] else []) @ ds"
    by (simp add: print_int_def ds_def n_def)
  define sign where "sign = (if i < 0 then [45 :: nat] else [])"
  define cs where "cs = print_int i @ r"
  have cs: "cs = sign @ ds @ r" by (simp add: cs_def p sign_def)
  have sg: "(if take 1 cs = [45] then [45] else []) = sign" "drop (length sign) cs = ds @ r"
    using d(2) by (auto simp: cs sign_def ds)
  have hd: "(case ds @ r of [] \<Rightarrow> m | x # _ \<Rightarrow> f x) = f d" for m :: "(json \<times> ustr) res" and f
    by (simp add: ds)
  have nd: "drop (length ds) (ds @ r) = r" by simp
  have "scan_number h cs = bindE (hook_int h (sign @ ds)) (\<lambda>v. Inr (v, r))"
    unfolding scan_number_def Let_def sg hd whole nd fr using d(1) fr by simp
  then show ?thesis unfolding cs_def by (simp add: p sign_def)
qed

text \<open>
  A plain document has no floats, integers that satisfy \<open>ok\<close>, and no repeated key. The hooks of a
  loader are plain when they return such integers and such objects unchanged.
\<close>

fun plain :: "(int \<Rightarrow> bool) \<Rightarrow> json \<Rightarrow> bool" where
  "plain ok (JInt i) = ok i"
| "plain ok (JFloat x) = False"
| "plain ok (JArr xs) = list_all (plain ok) xs"
| "plain ok (JObj kvs) = (distinct (map fst kvs) \<and> list_all (\<lambda>(k, v). plain ok v) kvs)"
| "plain ok v = True"

definition not_ws :: "nat \<Rightarrow> bool" where
  "not_ws c = (c \<notin> {32, 9, 10, 13, 93, 125, 0xFEFF})"

lemma skip_ws_not_ws: "not_ws c \<Longrightarrow> skip_ws (c # r) = c # r"
  by (simp add: skip_ws_def not_ws_def)

lemma print_int_hd: "\<exists>c r. print_int i = c # r \<and> not_ws c \<and> (c = 45 \<or> is_dig c) \<and> (c = 45 \<longrightarrow> (\<exists>d t. r = d # t \<and> is_dig d))"
proof -
  have "list_all is_dig (u (dec_str (nat \<bar>i\<bar>)))" by (intro is_dig_u dec_str_digits)
  moreover obtain d ds where "u (dec_str (nat \<bar>i\<bar>)) = d # ds"
    by (cases "u (dec_str (nat \<bar>i\<bar>))") (auto simp: dec_str_def)
  ultimately show ?thesis by (auto simp: print_int_def not_ws_def is_dig_def)
qed

lemma print_json_hd: "plain ok v \<Longrightarrow> \<exists>c r. print_json v = c # r \<and> not_ws c"
proof (cases v)
  case (JInt i)
  then show ?thesis using print_int_hd [of i] by auto
qed (auto simp: print_str_def not_ws_def char_code_def)

lemma scan_atom_print_int:
  assumes "number_end r"
  shows "scan_atom h (print_int i @ r) = bindE (hook_int h (print_int i)) (\<lambda>v. Inr (v, r))"
proof -
  obtain c t where p: "print_int i = c # t" "c = 45 \<or> is_dig c" "c = 45 \<longrightarrow> (\<exists>d t'. t = d # t' \<and> is_dig d)"
    using print_int_hd [of i] by (elim exE conjE)
  have code: "char_code CHR ''-'' = 45" "char_code CHR ''n'' = 110" "char_code CHR ''t'' = 116"
    "char_code CHR ''f'' = 102" "char_code CHR ''N'' = 78" "char_code CHR ''I'' = 73" by code_simp+
  have "\<not> starts (l # lit) (print_int i @ r)" if "char_code l \<noteq> 45" "\<not> is_dig (char_code l)" for l lit
    using that p(1,2) by (auto simp: starts_def)
  moreover have "\<not> starts (CHR ''-'' # l # lit) (print_int i @ r)" if "\<not> is_dig (char_code l)" for l lit
  proof (cases "c = 45")
    case True
    then obtain d t' where "t = d # t'" "is_dig d" using p(3) by blast
    with that p(1) show ?thesis by (auto simp: starts_def)
  next
    case False
    with p(1) show ?thesis by (simp add: starts_def code)
  qed
  ultimately show ?thesis by (simp add: scan_atom_def scan_number_print [OF assms] is_dig_def code)
qed

locale plain_hooks =
  fixes h :: json_hooks and ok :: "int \<Rightarrow> bool"
  assumes hook_int: "ok i \<Longrightarrow> hook_int h (print_int i) = Inr (JInt i)"
    and hook_object: "distinct (map fst kvs) \<Longrightarrow> hook_object h kvs = Inr (JObj kvs)"
begin

lemma scan_elements_print:
  assumes "xs \<noteq> []" and "\<And>v r. v \<in> set xs \<Longrightarrow> number_end r \<Longrightarrow> scan_value h (print_json v @ r) = Inr (v, r)"
    and "list_all (plain ok) xs"
  shows "scan_elements h (join_with [44] (map print_json xs) @ 93 # r) = Inr (xs, r)"
  using assms
proof (induction xs rule: list_nonempty_induct)
  case (single v)
  have "scan_value h (print_json v @ 93 # r) = Inr (v, 93 # r)"
    using single.prems by (simp add: number_end_def is_dig_def)
  then show ?case by (subst scan_elements.simps) (simp add: skip_ws_def)
next
  case (cons v vs)
  obtain w ws where vs: "vs = w # ws" using cons.hyps by (cases vs) auto
  let ?rest = "join_with [44] (map print_json vs) @ 93 # r"
  have "scan_value h (print_json v @ 44 # ?rest) = Inr (v, 44 # ?rest)"
    using cons.prems by (simp add: number_end_def is_dig_def)
  moreover obtain c t where "?rest = c # t" "not_ws c"
    using print_json_hd [of ok w] cons.prems vs by (cases ws) auto
  then have "skip_ws ?rest = ?rest" using skip_ws_not_ws by metis
  moreover have "scan_elements h ?rest = Inr (vs, r)" using cons by auto
  ultimately show ?case using vs
    by (subst scan_elements.simps) (simp add: skip_ws_def)
qed

lemma scan_members_print:
  assumes "kvs \<noteq> []"
    and "\<And>k v r. (k, v) \<in> set kvs \<Longrightarrow> number_end r \<Longrightarrow> scan_value h (print_json v @ r) = Inr (v, r)"
    and "list_all (\<lambda>(k, v). plain ok v) kvs"
  shows "scan_members h (join_with [44] (map (\<lambda>(k, v). print_str k @ [58] @ print_json v) kvs) @ 125 # r) =
    Inr (kvs, r)"
  using assms
proof (induction kvs rule: list_nonempty_induct)
  case (single kv)
  obtain k v where kv: "kv = (k, v)" by (cases kv)
  have "scan_value h (print_json v @ 125 # r) = Inr (v, 125 # r)"
    using single.prems(1) [of k v "125 # r"] kv by (simp add: number_end_def is_dig_def)
  moreover obtain c t where "print_json v = c # t" "not_ws c"
    using print_json_hd [of ok v] single.prems kv by auto
  then have "skip_ws (print_json v @ 125 # r) = print_json v @ 125 # r" using skip_ws_not_ws by simp
  ultimately show ?case using kv scan_string_print [of k "58 # print_json v @ 125 # r"]
    by (subst scan_members.simps) (simp add: print_str_def skip_ws_def)
next
  case (cons kv kvs)
  obtain k v where kv: "kv = (k, v)" by (cases kv)
  obtain k2 v2 kvs2 where kvs: "kvs = (k2, v2) # kvs2" using cons.hyps by (cases kvs) auto
  define rest where "rest = join_with [44] (map (\<lambda>(k, v). print_str k @ [58] @ print_json v) kvs) @ 125 # r"
  have v: "scan_value h (print_json v @ 44 # rest) = Inr (v, 44 # rest)"
    using cons.prems(1) [of k v "44 # rest"] kv by (simp add: number_end_def is_dig_def)
  obtain c t where "print_json v = c # t" "not_ws c"
    using print_json_hd [of ok v] cons.prems kv by auto
  then have w: "skip_ws (print_json v @ 44 # rest) = print_json v @ 44 # rest" using skip_ws_not_ws by simp
  have "\<exists>t. rest = 34 # t" unfolding rest_def kvs by (cases kvs2) (auto simp: print_str_def)
  then have w2: "skip_ws rest = rest" by (auto simp: skip_ws_def)
  have IH: "scan_members h rest = Inr (kvs, r)" unfolding rest_def using cons by auto
  have cs: "join_with [44] (map (\<lambda>(k, v). print_str k @ [58] @ print_json v) (kv # kvs)) @ 125 # r =
      34 # concat (map esc_char k) @ 34 # 58 # print_json v @ 44 # rest"
    using kv kvs by (simp add: print_str_def rest_def)
  have sk: "skip_ws (58 # xs) = 58 # xs" "skip_ws (44 # xs) = 44 # xs" for xs by (simp_all add: skip_ws_def)
  show ?case unfolding cs
    by (subst scan_members.simps) (simp add: scan_string_print sk w v w2 IH kv)
qed

lemma scan_value_print:
  "plain ok v \<Longrightarrow> number_end r \<Longrightarrow> scan_value h (print_json v @ r) = Inr (v, r)"
proof (induction v arbitrary: r)
  case (JInt i)
  obtain c t where "print_int i = c # t" "c = 45 \<or> is_dig c"
    using print_int_hd [of i] by (elim exE conjE)
  then show ?case using JInt scan_atom_print_int [OF JInt.prems(2), of h i] hook_int [of i]
    by (subst scan_value.simps) (auto simp: is_dig_def)
next
  case (JStr s)
  then show ?case by (subst scan_value.simps) (simp add: print_str_def scan_string_print)
next
  case (JArr xs)
  show ?case
  proof (cases xs)
    case Nil
    then show ?thesis by (subst scan_value.simps) (simp add: skip_ws_def)
  next
    case (Cons w ws)
    let ?m = "join_with [44] (map print_json xs) @ 93 # r"
    have pl: "list_all (plain ok) xs" using JArr.prems by simp
    obtain c t where c: "print_json w = c # t" "not_ws c" using print_json_hd [of ok w] pl Cons by auto
    then obtain t' where m: "?m = c # t'" unfolding Cons by (cases ws) auto
    have "scan_elements h ?m = Inr (xs, r)"
      using JArr.IH Cons pl by (intro scan_elements_print) (auto simp: list_all_iff)
    then have "scan_elements h (c # t') = Inr (xs, r)" unfolding m .
    moreover have "c \<noteq> 93" using c by (simp add: not_ws_def)
    moreover have "print_json (JArr xs) @ r = 91 # c # t'" using m by simp
    ultimately show ?thesis using skip_ws_not_ws [OF c(2)]
      by (subst scan_value.simps) simp
  qed
next
  case (JObj kvs)
  have pl: "list_all (\<lambda>(k, v). plain ok v) kvs" and dist: "distinct (map fst kvs)" using JObj.prems by simp_all
  show ?case
  proof (cases kvs)
    case Nil
    then show ?thesis using hook_object [of "[]"] by (subst scan_value.simps) (simp add: skip_ws_def)
  next
    case (Cons kv kvs')
    let ?m = "join_with [44] (map (\<lambda>(k, v). print_str k @ [58] @ print_json v) kvs) @ 125 # r"
    obtain t where m: "?m = 34 # t" unfolding Cons by (cases kvs'; cases kv) (auto simp: print_str_def)
    have "scan_members h ?m = Inr (kvs, r)"
    proof (rule scan_members_print)
      fix k v r' assume "(k, v) \<in> set kvs" "number_end r'"
      then show "scan_value h (print_json v @ r') = Inr (v, r')"
        using JObj.IH [of "(k, v)" v r'] pl by (auto simp: list_all_iff)
    qed (use Cons pl in auto)
    then have "scan_members h (34 # t) = Inr (kvs, r)" unfolding m .
    moreover have "print_json (JObj kvs) @ r = 123 # 34 # t" using m by simp
    ultimately show ?thesis using hook_object [OF dist]
      by (subst scan_value.simps) (simp add: skip_ws_def)
  qed
qed (subst scan_value.simps; simp add: scan_atom_def starts_def char_code_def)+

lemma loads_print:
  assumes "plain ok v" and "skip_ws r = []" and "number_end r"
  shows "py_json_loads h (print_json v @ r) = Inr v"
proof -
  obtain c t where c: "print_json v = c # t" "not_ws c" using print_json_hd [OF assms(1)] by blast
  then have "skip_ws (print_json v @ r) = print_json v @ r" "take 1 (print_json v @ r) \<noteq> [0xFEFF]"
    by (auto simp: skip_ws_not_ws not_ws_def)
  then show ?thesis using assms by (simp add: py_json_loads_def scan_value_print)
qed

end

end
