(* ===== verification/Raw_Artifacts.thy ===== *)
theory Raw_Artifacts
  imports Py_Json Sha256 "HOL-Library.Multiset"
begin

text \<open>
  The strict JSON layer and the artifact descriptors of \<open>scripts/harness/raw_artifacts.py\<close>:
  \<open>exact_object\<close>, the scalar checks, \<open>canonical_json\<close>, \<open>load_json_bytes\<close> with its hooks, and
  \<open>parse_descriptor\<close> with the table of artifact kinds. Every failure is a \<open>RawArtifactError\<close>. The
  interpretation \<open>raw\<close> of \<open>plain_hooks\<close> gives the round trip of canonical documents.
\<close>

section \<open>Constants\<close>

definition MAX_RELATIVE_PATH_BYTES :: nat where "MAX_RELATIVE_PATH_BYTES = 512"
definition MAX_JSON_DEPTH :: nat where "MAX_JSON_DEPTH = 32"
definition MAX_JSON_INTEGER_DIGITS :: nat where "MAX_JSON_INTEGER_DIGITS = 19"
definition MAX_JSON_FLOAT_CHARS :: nat where "MAX_JSON_FLOAT_CHARS = 128"
definition REPORT_MAX_BYTES :: nat where "REPORT_MAX_BYTES = 1 * 1024 * 1024"

section \<open>Scalars\<close>

definition is_lower_hex :: "nat \<Rightarrow> bool" where
  "is_lower_hex c = (is_dig c \<or> (97 \<le> c \<and> c \<le> 102))"

definition is_alnum :: "nat \<Rightarrow> bool" where
  "is_alnum c = (is_dig c \<or> (65 \<le> c \<and> c \<le> 90) \<or> (97 \<le> c \<and> c \<le> 122))"

text \<open>\<open>^[0-9a-f]{64}$\<close> and \<open>^[A-Za-z0-9][A-Za-z0-9._-]{0,127}$\<close>, both under \<open>fullmatch\<close>.\<close>

definition SHA256_RE :: "ustr \<Rightarrow> bool" where
  "SHA256_RE s = (length s = 64 \<and> list_all is_lower_hex s)"

definition PATH_COMPONENT_RE :: "ustr \<Rightarrow> bool" where
  "PATH_COMPONENT_RE s =
     (case s of [] \<Rightarrow> False
      | c # cs \<Rightarrow> is_alnum c \<and> length cs \<le> 127 \<and> list_all (\<lambda>d. is_alnum d \<or> d \<in> {46, 95, 45}) cs)"

definition IDENTIFIER_RE :: "ustr \<Rightarrow> bool" where
  "IDENTIFIER_RE s = PATH_COMPONENT_RE s"

definition require_sha256 :: "json \<Rightarrow> ustr res" where
  "require_sha256 value =
     (case value of
        JStr s \<Rightarrow> if SHA256_RE s then Inr s else Inl (RawArtifactError ''{} is not a lowercase SHA-256'')
      | _ \<Rightarrow> Inl (RawArtifactError ''{} is not a lowercase SHA-256''))"

definition require_identifier :: "json \<Rightarrow> ustr res" where
  "require_identifier value =
     (case value of
        JStr s \<Rightarrow> if IDENTIFIER_RE s then Inr s else Inl (RawArtifactError ''{} is not a canonical identifier'')
      | _ \<Rightarrow> Inl (RawArtifactError ''{} is not a canonical identifier''))"

definition utf8_size :: "ustr \<Rightarrow> nat res" where
  "utf8_size value =
     (case utf8_encode value of
        Inl _ \<Rightarrow> Inl (RawArtifactError ''{} is not valid Unicode text'')
      | Inr bs \<Rightarrow> Inr (length bs))"

section \<open>Objects\<close>

type_synonym members = "(ustr \<times> json) list"

text \<open>A field of an object whose field set \<open>exact_object\<close> has checked, so that it is present.\<close>

definition field :: "members \<Rightarrow> string \<Rightarrow> json" where
  "field ms name = (case map_of ms (u name) of Some v \<Rightarrow> v | None \<Rightarrow> JNull)"

definition exact_object :: "json \<Rightarrow> string list \<Rightarrow> members res" where
  "exact_object value names =
     (case value of
        JObj ms \<Rightarrow>
          let actual = set (map fst ms) in
          if \<not> set (map u names) \<subseteq> actual then Inl (RawArtifactError ''{} is missing required fields: {}'')
          else if \<not> actual \<subseteq> set (map u names) then Inl (RawArtifactError ''{} has unknown fields: {}'')
          else Inr ms
      | _ \<Rightarrow> Inl (RawArtifactError ''{} must be a JSON object''))"

section \<open>Canonical JSON\<close>

definition canonical_json :: "json \<Rightarrow> bytes res" where
  "canonical_json value =
     (case utf8_encode (print_json (canon value)) of
        Inl _ \<Rightarrow> Inl (RawArtifactError ''value cannot be encoded as canonical JSON'')
      | Inr bs \<Rightarrow> Inr bs)"

section \<open>Strict loading\<close>

definition reject_duplicate_keys :: "members \<Rightarrow> json res" where
  "reject_duplicate_keys pairs =
     bindE (foldE (\<lambda>result (key, value).
         if key \<in> fst ` set result then Inl (RawArtifactError ''JSON object has a duplicate field: {}'')
         else Inr (result @ [(key, value)])) [] pairs)
       (\<lambda>result. Inr (JObj result))"

definition reject_constant :: "json res" where
  "reject_constant = Inl (RawArtifactError ''JSON contains a non-finite number: {}'')"

text \<open>\<open>int\<close> and \<open>float\<close> of the text of a JSON number.\<close>

definition text_value :: "ustr \<Rightarrow> nat" where
  "text_value ds = foldl (\<lambda>acc d. acc * 10 + (d - 48)) 0 ds"

definition int_of_text :: "ustr \<Rightarrow> int" where
  "int_of_text s = (if take 1 s = [45] then - int (text_value (drop 1 s)) else int (text_value s))"

definition parse_json_integer :: "ustr \<Rightarrow> json res" where
  "parse_json_integer value =
     (let digits = (if take 1 value = [45] then drop 1 value else value) in
      if length digits > MAX_JSON_INTEGER_DIGITS then
        Inl (RawArtifactError ''JSON integer exceeds {} decimal digits'')
      else Inr (JInt (int_of_text value)))"

text \<open>The value of \<open>[-]digits[.digits][e[+-]digits]\<close>, without its sign.\<close>

definition rat_of_text :: "ustr \<Rightarrow> rat" where
  "rat_of_text s =
     (let r = (if take 1 s = [45] then drop 1 s else s);
          mantissa = takeWhile (\<lambda>c. c \<noteq> 101 \<and> c \<noteq> 69) r;
          e = drop (Suc (length mantissa)) r;
          whole = takeWhile (\<lambda>c. c \<noteq> 46) mantissa;
          frac = drop (Suc (length whole)) mantissa;
          expo = (if take 1 e = [45] then - int (text_value (drop 1 e))
                  else if take 1 e = [43] then int (text_value (drop 1 e)) else int (text_value e)) in
      of_nat (text_value (whole @ frac)) * pow_int 10 (expo - int (length frac)))"

definition parse_json_float :: "ustr \<Rightarrow> json res" where
  "parse_json_float value =
     (if length value > MAX_JSON_FLOAT_CHARS then
        Inl (RawArtifactError ''JSON floating-point token exceeds {} characters'')
      else case signed_double (take 1 value = [45]) (rat_of_text value) of
        None \<Rightarrow> Inl (RawArtifactError ''JSON floating-point value is not finite'')
      | Some x \<Rightarrow> Inr (JFloat x))"

definition raw_hooks :: json_hooks where
  "raw_hooks = \<lparr>hook_int = parse_json_integer, hook_float = parse_json_float,
     hook_constant = reject_constant, hook_object = reject_duplicate_keys\<rparr>"

text \<open>The depth and text checks after loading; keys of a loaded object are always strings.\<close>

definition bounded_depth :: "nat \<Rightarrow> 'a res \<Rightarrow> 'a res" where
  "bounded_depth depth m =
     (if depth > MAX_JSON_DEPTH then Inl (RawArtifactError ''JSON nesting exceeds {}'') else m)"

fun json_depth :: "json \<Rightarrow> nat \<Rightarrow> nat res" where
  "json_depth (JObj ms) depth = bounded_depth depth
     (bindE (mapE (\<lambda>(key, nested). bindE (utf8_size key) (\<lambda>_. json_depth nested (Suc depth))) ms) (\<lambda>_. Inr depth))"
| "json_depth (JArr vs) depth = bounded_depth depth
     (bindE (mapE (\<lambda>nested. json_depth nested (Suc depth)) vs) (\<lambda>_. Inr depth))"
| "json_depth (JStr s) depth = bounded_depth depth (bindE (utf8_size s) (\<lambda>_. Inr depth))"
| "json_depth v depth = bounded_depth depth (Inr depth)"

text \<open>
  An interpreter that runs out of stack on deep nesting also raises \<open>RawArtifactError\<close>, which the
  depth check would raise otherwise.
\<close>

definition load_json_bytes :: "bytes \<Rightarrow> json res" where
  "load_json_bytes data =
     (case utf8_decode data of
        Inl _ \<Rightarrow> Inl (RawArtifactError ''{} is not valid UTF-8'')
      | Inr text \<Rightarrow>
          (case py_json_loads raw_hooks text of
             Inl JSONDecodeError \<Rightarrow> Inl (RawArtifactError ''{} is not valid JSON'')
           | Inl e \<Rightarrow> Inl e
           | Inr value \<Rightarrow> bindE (json_depth value 0) (\<lambda>_. Inr value)))"

section \<open>Artifact descriptors\<close>

definition ARTIFACT_KINDS :: "(string \<times> string \<times> nat) list" where
  "ARTIFACT_KINDS = [
     (''physical-aggregate'', ''.json'', 8 * 1024 * 1024),
     (''packet-report'', ''.json'', REPORT_MAX_BYTES),
     (''lifecycle-report'', ''.json'', REPORT_MAX_BYTES),
     (''performance-report'', ''.json'', REPORT_MAX_BYTES),
     (''adversarial-report'', ''.json'', REPORT_MAX_BYTES),
     (''packet-pcap'', ''.pcap'', 32 * 1024 * 1024),
     (''packet-pcapng'', ''.pcapng'', 32 * 1024 * 1024),
     (''packet-product-state-observation'', ''.json'', 1 * 1024 * 1024),
     (''packet-capture-provenance'', ''.json'', 256 * 1024),
     (''packet-send-attempt'', ''.json'', 256 * 1024),
     (''lifecycle-observation'', ''.json'', 1 * 1024 * 1024),
     (''lifecycle-event'', ''.json'', 1 * 1024 * 1024),
     (''renderer-ready-trace'', ''.json'', 1 * 1024 * 1024),
     (''network-extension-trace'', ''.json'', 1 * 1024 * 1024),
     (''sleep-wake-trace'', ''.json'', 1 * 1024 * 1024),
     (''wkwebview-metadata'', ''.json'', 256 * 1024),
     (''wkwebview-rgba'', ''.rgba'', 16 * 1024 * 1024),
     (''performance-sample-ledger'', ''.json'', 64 * 1024 * 1024),
     (''performance-shaping-transaction'', ''.json'', 16 * 1024 * 1024),
     (''adversarial-case-observation'', ''.json'', 1 * 1024 * 1024),
     (''adversarial-secret-coverage'', ''.json'', 1 * 1024 * 1024),
     (''adversarial-signature-observation'', ''.json'', 256 * 1024),
     (''adversarial-transcript'', ''.json'', 1 * 1024 * 1024)]"

text \<open>The suffix and the byte bound of a kind.\<close>

definition artifact_kind :: "ustr \<Rightarrow> (string \<times> nat) option" where
  "artifact_kind kind = map_of (map (\<lambda>(k, spec). (u k, spec)) ARTIFACT_KINDS) kind"

text \<open>
  \<open>PurePosixPath\<close>: empty and \<open>.\<close> components are dropped; two leading slashes are kept, any other
  number becomes one; the empty path prints as \<open>.\<close>.
\<close>

definition path_parts :: "ustr \<Rightarrow> ustr list" where
  "path_parts text = filter (\<lambda>p. p \<noteq> [] \<and> p \<noteq> [46]) (split_on 47 text)"

definition path_absolute :: "ustr \<Rightarrow> bool" where
  "path_absolute text = (take 1 text = [47])"

definition path_str :: "ustr \<Rightarrow> ustr" where
  "path_str text =
     (let root = (if take 2 text = [47, 47] \<and> take 3 text \<noteq> [47, 47, 47] then [47, 47]
                  else if path_absolute text then [47] else []);
          body = root @ join_with [47] (path_parts text) in
      if body = [] then [46] else body)"

definition ends_with :: "'a list \<Rightarrow> 'a list \<Rightarrow> bool" where
  "ends_with s t = (length t \<le> length s \<and> drop (length s - length t) s = t)"

record artifact_descriptor =
  ad_kind :: ustr
  ad_path :: ustr
  ad_size :: int
  ad_sha256 :: ustr

definition descriptor_as_dict :: "artifact_descriptor \<Rightarrow> json" where
  "descriptor_as_dict d = JObj [(u ''kind'', JStr (ad_kind d)), (u ''path'', JStr (ad_path d)),
     (u ''size'', JInt (ad_size d)), (u ''sha256'', JStr (ad_sha256 d))]"

text \<open>The checks of the \<open>path\<close> field; \<open>expected\<close> is the set of accepted kinds.\<close>

definition descriptor_path :: "json \<Rightarrow> ustr res" where
  "descriptor_path value =
     (case value of
        JStr path \<Rightarrow>
          if path = [] then Inl (RawArtifactError ''{}.path must be a non-empty relative path'')
          else if 92 \<in> set path then Inl (RawArtifactError ''{}.path is not a bounded POSIX relative path'')
          else bindE (utf8_size path) (\<lambda>size.
          if size > MAX_RELATIVE_PATH_BYTES then
            Inl (RawArtifactError ''{}.path is not a bounded POSIX relative path'')
          else if path_absolute path \<or> path_str path \<noteq> path then
            Inl (RawArtifactError ''{}.path must be canonical and relative'')
          else let parts = path_parts path in
          if parts = [] \<or> list_ex (\<lambda>part. part \<in> {[], [46], [46, 46]}) parts then
            Inl (RawArtifactError ''{}.path contains traversal or an empty component'')
          else if list_ex (\<lambda>part. \<not> PATH_COMPONENT_RE part) parts then
            Inl (RawArtifactError ''{}.path contains a non-canonical component'')
          else Inr path)
      | _ \<Rightarrow> Inl (RawArtifactError ''{}.path must be a non-empty relative path''))"

definition parse_descriptor :: "json \<Rightarrow> ustr list \<Rightarrow> artifact_descriptor res" where
  "parse_descriptor value expected =
     bindE (exact_object value [''kind'', ''path'', ''size'', ''sha256'']) (\<lambda>raw.
     case field raw ''kind'' of
       JStr kind \<Rightarrow>
         (if kind \<notin> set expected then Inl (RawArtifactError ''{}.kind is not an allowed artifact kind'')
          else case artifact_kind kind of
            None \<Rightarrow> Inl (RawArtifactError ''{}.kind is not an allowed artifact kind'')
          | Some (extension, maximum_bytes) \<Rightarrow>
              bindE (descriptor_path (field raw ''path'')) (\<lambda>path.
              if \<not> ends_with path (u extension) then
                Inl (RawArtifactError ''{}.path extension does not match artifact kind {}'')
              else case field raw ''size'' of
                JInt n \<Rightarrow>
                  if n < 1 then Inl (RawArtifactError ''{}.size must be a positive integer'')
                  else if n > int maximum_bytes then
                    Inl (RawArtifactError ''{}.size exceeds the {} byte bound'')
                  else bindE (require_sha256 (field raw ''sha256'')) (\<lambda>digest.
                    Inr \<lparr>ad_kind = kind, ad_path = path, ad_size = n, ad_sha256 = digest\<rparr>)
              | _ \<Rightarrow> Inl (RawArtifactError ''{}.size must be a positive integer'')))
     | _ \<Rightarrow> Inl (RawArtifactError ''{}.kind is not an allowed artifact kind''))"

section \<open>Proof bindings\<close>

text \<open>
  \<open>canonical_build_version\<close> of \<open>scripts/release_build_identity.py\<close>; its \<open>BuildIdentityError\<close> is
  re-raised by the only caller here as \<open>RawArtifactError\<close>. Strings of equal length compare
  lexicographically.
\<close>

definition POSITIVE_INTEGER_RE :: "ustr \<Rightarrow> bool" where
  "POSITIVE_INTEGER_RE s = (case s of [] \<Rightarrow> False | c # cs \<Rightarrow> 49 \<le> c \<and> c \<le> 57 \<and> list_all is_dig cs)"

definition MAX_BUILD_VERSION_TEXT :: ustr where
  "MAX_BUILD_VERSION_TEXT = u ''9223372036854775807''"

definition canonical_build_version :: "json \<Rightarrow> ustr option" where
  "canonical_build_version value =
     (case value of
        JStr s \<Rightarrow>
          if \<not> POSITIVE_INTEGER_RE s then None
          else if length s > length MAX_BUILD_VERSION_TEXT
                  \<or> (length s = length MAX_BUILD_VERSION_TEXT \<and> s > MAX_BUILD_VERSION_TEXT) then None
          else Some s
      | _ \<Rightarrow> None)"

text \<open>\<open>GCP_KMS_KEY_VERSION_RE\<close>: no class of the expression contains a slash, so it is ten segments.\<close>

definition is_lower_code :: "nat \<Rightarrow> bool" where "is_lower_code c = (97 \<le> c \<and> c \<le> 122)"

definition GCP_KMS_KEY_VERSION_RE :: "ustr \<Rightarrow> bool" where
  "GCP_KMS_KEY_VERSION_RE s =
     (case split_on 47 s of
        [a, project, b, location, c, ring, d, key, e, version] \<Rightarrow>
          a = u ''projects'' \<and> 6 \<le> length project \<and> length project \<le> 30
          \<and> is_lower_code (hd project)
          \<and> list_all (\<lambda>x. is_lower_code x \<or> is_dig x \<or> x = 45) (tl project) \<and> last project \<noteq> 45
          \<and> b = u ''locations'' \<and> 1 \<le> length location \<and> length location \<le> 63
          \<and> list_all (\<lambda>x. is_lower_code x \<or> is_dig x \<or> x = 45) location
          \<and> c = u ''keyRings'' \<and> 1 \<le> length ring \<and> length ring \<le> 63
          \<and> list_all (\<lambda>x. is_alnum x \<or> x = 95 \<or> x = 45) ring
          \<and> d = u ''cryptoKeys'' \<and> 1 \<le> length key \<and> length key \<le> 63
          \<and> list_all (\<lambda>x. is_alnum x \<or> x = 95 \<or> x = 45) key
          \<and> e = u ''cryptoKeyVersions'' \<and> POSITIVE_INTEGER_RE version
      | _ \<Rightarrow> False)"

definition require_kms_key_version :: "json \<Rightarrow> ustr res" where
  "require_kms_key_version value =
     (case value of
        JStr s \<Rightarrow>
          if GCP_KMS_KEY_VERSION_RE s then Inr s
          else Inl (RawArtifactError ''{} is not a complete GCP KMS key-version resource'')
      | _ \<Rightarrow> Inl (RawArtifactError ''{} is not a complete GCP KMS key-version resource''))"

text \<open>Non-empty text of at most \<open>maximum\<close> bytes without control characters.\<close>

definition bounded_text :: "nat \<Rightarrow> json \<Rightarrow> string \<Rightarrow> ustr res" where
  "bounded_text maximum value message =
     (case value of
        JStr s \<Rightarrow>
          if s = [] then Inl (RawArtifactError message)
          else bindE (utf8_size s) (\<lambda>n.
            if n > maximum \<or> list_ex (\<lambda>c. c < 0x20 \<or> c = 0x7F) s then Inl (RawArtifactError message)
            else Inr s)
      | _ \<Rightarrow> Inl (RawArtifactError message))"

definition PROOF_FIELDS :: "string list" where
  "PROOF_FIELDS = [''schema_version'', ''run_id'', ''run_nonce'', ''candidate'', ''collector'']"

definition CANDIDATE_FIELDS :: "string list" where
  "CANDIDATE_FIELDS = [''version'', ''build_number'', ''app_manifest_sha256'',
     ''signed_app_tree_sha256'', ''artifact_hash_manifest_sha256'']"

definition COLLECTOR_BINDING_FIELDS :: "string list" where
  "COLLECTOR_BINDING_FIELDS =
     [''version'', ''source_sha256'', ''executable_sha256'', ''algorithm'', ''key_version'']"

definition COLLECTOR_SIGNATURE_ALGORITHM :: ustr where
  "COLLECTOR_SIGNATURE_ALGORITHM = u ''PS256''"

definition parse_candidate :: "json \<Rightarrow> json res" where
  "parse_candidate value =
     bindE (exact_object value CANDIDATE_FIELDS) (\<lambda>candidate.
     bindE (bounded_text 32 (field candidate ''version'') ''{}.candidate.version must be bounded printable text'') (\<lambda>version.
     case canonical_build_version (field candidate ''build_number'') of
       None \<Rightarrow> Inl (RawArtifactError ''{}.candidate.build_number is not canonical'')
     | Some build_number \<Rightarrow>
         bindE (require_sha256 (field candidate ''app_manifest_sha256'')) (\<lambda>manifest.
         bindE (require_sha256 (field candidate ''signed_app_tree_sha256'')) (\<lambda>tree.
         bindE (require_sha256 (field candidate ''artifact_hash_manifest_sha256'')) (\<lambda>hashes.
         Inr (JObj [(u ''version'', JStr version), (u ''build_number'', JStr build_number),
           (u ''app_manifest_sha256'', JStr manifest), (u ''signed_app_tree_sha256'', JStr tree),
           (u ''artifact_hash_manifest_sha256'', JStr hashes)]))))))"

definition parse_collector_binding :: "json \<Rightarrow> json res" where
  "parse_collector_binding value =
     bindE (exact_object value COLLECTOR_BINDING_FIELDS) (\<lambda>collector.
     bindE (require_identifier (field collector ''version'')) (\<lambda>version.
     bindE (require_sha256 (field collector ''source_sha256'')) (\<lambda>source_sha256.
     bindE (require_sha256 (field collector ''executable_sha256'')) (\<lambda>executable_sha256.
     bindE (require_kms_key_version (field collector ''key_version'')) (\<lambda>key_version.
     if field collector ''algorithm'' \<noteq> JStr COLLECTOR_SIGNATURE_ALGORITHM then
       Inl (RawArtifactError ''{}.collector.algorithm must be {}'')
     else Inr (JObj [(u ''version'', JStr version), (u ''source_sha256'', JStr source_sha256),
       (u ''executable_sha256'', JStr executable_sha256), (u ''algorithm'', JStr COLLECTOR_SIGNATURE_ALGORITHM),
       (u ''key_version'', JStr key_version)]))))))"

definition parse_proof_binding :: "json \<Rightarrow> json res" where
  "parse_proof_binding value =
     bindE (exact_object value PROOF_FIELDS) (\<lambda>proof_object.
     if field proof_object ''schema_version'' \<noteq> JInt 3 then
       Inl (RawArtifactError ''{}.schema_version must be {}'')
     else
       bindE (require_identifier (field proof_object ''run_id'')) (\<lambda>run_id.
       bindE (require_sha256 (field proof_object ''run_nonce'')) (\<lambda>run_nonce.
       bindE (parse_candidate (field proof_object ''candidate'')) (\<lambda>candidate.
       bindE (parse_collector_binding (field proof_object ''collector'')) (\<lambda>collector.
       Inr (JObj [(u ''schema_version'', JInt 3), (u ''run_id'', JStr run_id), (u ''run_nonce'', JStr run_nonce),
         (u ''candidate'', candidate), (u ''collector'', collector)]))))))"

section \<open>Canonical documents are read back\<close>

lemma text_value_snoc: "text_value (ds @ [d]) = text_value ds * 10 + (d - 48)"
  by (simp add: text_value_def)

lemma text_value_dec_str: "text_value (u (dec_str n)) = n"
  unfolding dec_str_def
proof (induction n rule: less_induct)
  case (less n)
  have code: "char_code (digit_char d) = 48 + d" if "d < 10" for d
    using that by (simp add: digit_char_def char_code_def)
  show ?case
  proof (cases "n < 10")
    case True
    then show ?thesis by (subst digits_base.simps) (simp add: text_value_def code)
  next
    case False
    then have "text_value (u (digits_base 10 (n div 10))) = n div 10" using less by simp
    with False show ?thesis by (subst digits_base.simps) (simp add: text_value_snoc code)
  qed
qed

definition short_int :: "int \<Rightarrow> bool" where
  "short_int i = (length (dec_str (nat \<bar>i\<bar>)) \<le> MAX_JSON_INTEGER_DIGITS)"

lemma print_int_cases:
  "print_int i = (if i < 0 then 45 # u (dec_str (nat \<bar>i\<bar>)) else u (dec_str (nat \<bar>i\<bar>)))"
  by (simp add: print_int_def)

lemma take1_dec_str: "take 1 (u (dec_str n)) \<noteq> [45]"
proof -
  have "list_all is_dig (u (dec_str n))" by (intro is_dig_u dec_str_digits)
  then show ?thesis by (cases "u (dec_str n)") (auto simp: is_dig_def)
qed

lemma parse_json_integer_print: "short_int i \<Longrightarrow> parse_json_integer (print_int i) = Inr (JInt i)"
  using take1_dec_str [of "nat \<bar>i\<bar>"]
  by (auto simp: parse_json_integer_def print_int_cases int_of_text_def short_int_def text_value_dec_str Let_def)

lemma foldE_distinct:
  assumes "distinct (map fst (acc @ kvs))"
  shows "foldE (\<lambda>result (key, value).
      if key \<in> fst ` set result then Inl e else Inr (result @ [(key, value)])) acc kvs = Inr (acc @ kvs)"
  using assms by (induction kvs arbitrary: acc) (force split: prod.splits)+

interpretation raw: plain_hooks raw_hooks short_int
proof
  show "hook_int raw_hooks (print_int i) = Inr (JInt i)" if "short_int i" for i
    using that by (simp add: raw_hooks_def parse_json_integer_print)
  show "hook_object raw_hooks kvs = Inr (JObj kvs)" if "distinct (map fst kvs)" for kvs
    using that foldE_distinct [of "[]" kvs "RawArtifactError ''JSON object has a duplicate field: {}''"]
    by (simp add: raw_hooks_def reject_duplicate_keys_def)
qed

text \<open>
  The documents the loader accepts: text without surrogates, and nesting of at most the given depth.
\<close>

fun loadable :: "nat \<Rightarrow> json \<Rightarrow> bool" where
  "loadable n (JObj ms) = (\<forall>(k, v) \<in> set ms. list_all scalar k \<and> 0 < n \<and> loadable (n - 1) v)"
| "loadable n (JArr vs) = (\<forall>v \<in> set vs. 0 < n \<and> loadable (n - 1) v)"
| "loadable n (JStr s) = list_all scalar s"
| "loadable n v = True"

lemma utf8_size_ok: "list_all scalar s \<Longrightarrow> \<exists>k. utf8_size s = Inr k"
  unfolding utf8_size_def using utf8_roundtrip [of s] by auto

lemma mapE_okI: "(\<And>x. x \<in> set xs \<Longrightarrow> \<exists>y. f x = Inr y) \<Longrightarrow> \<exists>ys. mapE f xs = Inr ys"
  by (induction xs) (auto simp: res_simps)

lemma json_depth_ok: "loadable n v \<Longrightarrow> depth + n \<le> MAX_JSON_DEPTH \<Longrightarrow> json_depth v depth = Inr depth"
proof (induction v depth arbitrary: n rule: json_depth.induct)
  case (1 ms depth)
  have "\<exists>ys. mapE (\<lambda>(key, nested). bindE (utf8_size key) (\<lambda>_. json_depth nested (Suc depth))) ms = Inr ys"
  proof (rule mapE_okI)
    fix x assume x: "x \<in> set ms"
    obtain k v where kv: "x = (k, v)" by (cases x)
    have l: "list_all scalar k" "0 < n" "loadable (n - 1) v" using 1(2) x kv by auto
    obtain m where m: "utf8_size k = Inr m" using utf8_size_ok [OF l(1)] by blast
    have "json_depth v (Suc depth) = Inr (Suc depth)"
      using 1(1) [OF x kv [symmetric], of m "n - 1"] l m 1(3) by auto
    then show "\<exists>y. (case x of (key, nested) \<Rightarrow> bindE (utf8_size key) (\<lambda>_. json_depth nested (Suc depth))) = Inr y"
      using kv m by simp
  qed
  then show ?case using 1(3) by (auto simp: bounded_depth_def)
next
  case (2 vs depth)
  have "\<exists>ys. mapE (\<lambda>nested. json_depth nested (Suc depth)) vs = Inr ys"
  proof (rule mapE_okI)
    fix v assume v: "v \<in> set vs"
    have "0 < n" "loadable (n - 1) v" using 2(2) v by auto
    then show "\<exists>y. json_depth v (Suc depth) = Inr y" using 2(1) [OF v, of "n - 1"] 2(3) by auto
  qed
  then show ?case using 2(3) by (auto simp: bounded_depth_def)
next
  case (3 s depth)
  then show ?case using utf8_size_ok [of s] by (auto simp: bounded_depth_def)
qed (auto simp: bounded_depth_def)

lemma loadable_canon: "loadable n v \<Longrightarrow> loadable n (canon v)"
proof (induction n v rule: loadable.induct)
  case (1 n ms)
  then show ?case by fastforce
qed auto

lemma plain_canon: "plain ok v \<Longrightarrow> plain ok (canon v)"
proof (induction ok v rule: plain.induct)
  case (4 ok kvs)
  define ms where "ms = map (\<lambda>(k, v). (k, canon v)) kvs"
  have "map fst ms = map fst kvs" by (auto simp: ms_def)
  moreover have "distinct (map fst (sort_key fst ms)) = distinct (map fst ms)"
    by (rule mset_eq_imp_distinct_iff) simp
  ultimately have "distinct (map fst (sort_key fst ms))" using 4 by simp
  moreover have "plain ok w" if "(k, w) \<in> set ms" for k w
    using that 4 by (auto simp: ms_def list_all_iff)
  ultimately show ?case by (auto simp: ms_def [symmetric] list_all_iff)
qed (auto simp: list_all_iff)

lemma scalar_u: "list_all scalar (u s)"
proof -
  have "scalar (char_code c)" for c using char_code_less [of c] by (simp add: scalar_def is_surrogate_def del: char_code_less)
  then show ?thesis by (simp add: u_def list_all_iff)
qed

lemma scalar_print_str: "list_all scalar s \<Longrightarrow> list_all scalar (print_str s)"
proof -
  have hex: "scalar (hex_code d)" for d
    using char_code_less [of "digit_char d"] by (simp add: hex_code_def scalar_def is_surrogate_def del: char_code_less)
  have "scalar c \<Longrightarrow> list_all scalar (esc_char c)" for c
    by (simp add: esc_char_def hex) (simp add: scalar_def is_surrogate_def)
  then have "list_all scalar s \<Longrightarrow> list_all scalar (concat (map esc_char s))"
    by (induction s) auto
  then show "list_all scalar s \<Longrightarrow> list_all scalar (print_str s)"
    by (simp add: print_str_def) (simp add: scalar_def is_surrogate_def)
qed

lemma list_all_join: "list_all P sep \<Longrightarrow> (\<And>w. w \<in> set ws \<Longrightarrow> list_all P w) \<Longrightarrow> list_all P (join_with sep ws)"
  by (induction sep ws rule: join_with.induct) auto

lemma scalar_codes: "scalar 44" "scalar 45" "scalar 58" "scalar 91" "scalar 93" "scalar 123" "scalar 125"
  by (simp_all add: scalar_def is_surrogate_def)

lemma scalar_print_json: "loadable n v \<Longrightarrow> list_all scalar (print_json v)"
proof (induction n v rule: loadable.induct)
  case (1 n ms)
  then show ?case by (fastforce intro!: list_all_join simp: scalar_codes scalar_print_str)
next
  case (2 n vs)
  then show ?case by (auto intro!: list_all_join simp: scalar_codes)
qed (auto simp: scalar_codes scalar_print_str scalar_u print_int_def simp del: u_simps)

lemma utf8_encode_append:
  "utf8_encode s = Inr bs \<Longrightarrow> utf8_encode t = Inr cs \<Longrightarrow> utf8_encode (s @ t) = Inr (bs @ cs)"
  by (induction s arbitrary: bs) (auto simp: utf8_encode_def res_simps)

lemma loads_printed:
  assumes "loadable MAX_JSON_DEPTH v" "plain short_int v"
    and "utf8_encode (print_json v) = Inr bs" "utf8_encode r = Inr rs" "list_all scalar r" "skip_ws r = []" "number_end r"
  shows "load_json_bytes (bs @ rs) = Inr v"
proof -
  have sc: "list_all scalar (print_json v @ r)" using scalar_print_json assms(1,5) by simp
  have enc: "utf8_encode (print_json v @ r) = Inr (bs @ rs)"
    using assms(3,4) by (rule utf8_encode_append)
  then have "utf8_decode (bs @ rs) = Inr (print_json v @ r)" using utf8_roundtrip [OF sc] by simp
  moreover have "py_json_loads raw_hooks (print_json v @ r) = Inr v" using raw.loads_print assms by blast
  ultimately show ?thesis using json_depth_ok [OF assms(1), of 0] by (simp add: load_json_bytes_def)
qed

lemma canonical_json_loaded:
  assumes "loadable MAX_JSON_DEPTH v" "plain short_int v"
  shows "\<exists>bs. canonical_json v = Inr bs \<and> load_json_bytes bs = Inr (canon v) \<and> load_json_bytes (bs @ [10]) = Inr (canon v)"
proof -
  have l: "loadable MAX_JSON_DEPTH (canon v)" "plain short_int (canon v)"
    using assms by (auto intro: loadable_canon plain_canon)
  obtain bs where bs: "utf8_encode (print_json (canon v)) = Inr bs"
    using utf8_roundtrip [OF scalar_print_json [OF l(1)]] by blast
  have e: "utf8_encode [] = Inr []" "utf8_encode [10] = Inr [10]" by code_simp+
  have "load_json_bytes (bs @ []) = Inr (canon v)"
    by (rule loads_printed [OF l bs e(1)]) (auto simp: skip_ws_def number_end_def)
  moreover have "load_json_bytes (bs @ [10]) = Inr (canon v)"
    by (rule loads_printed [OF l bs e(2)]) (auto simp: skip_ws_def number_end_def is_dig_def scalar_def is_surrogate_def)
  ultimately show ?thesis using bs by (simp add: canonical_json_def)
qed

section \<open>Digests and lengths of documents\<close>

lemma is_lower_hex_u: "is_lower_hex (char_code (digit_char d))" if "d < 16"
proof -
  have "list_all (\<lambda>d. is_lower_hex (char_code (digit_char d))) [0..<16]" by code_simp
  with that show ?thesis by (auto simp: list_all_iff)
qed

lemma SHA256_RE_hex: "length bs = 32 \<Longrightarrow> SHA256_RE (u (hex_of_bytes bs))"
proof -
  have h: "list_all is_lower_hex (u (hex_of_bytes cs))" for cs
  proof (induction cs)
    case (Cons c cs)
    have "unat c div 16 < 16" using unat_byte_less [of c] by linarith
    with Cons show ?case by (simp add: hex_of_bytes_def is_lower_hex_u)
  qed (simp add: hex_of_bytes_def)
  show "length bs = 32 \<Longrightarrow> ?thesis" using h by (simp add: SHA256_RE_def)
qed

lemma SHA256_RE_sha256 [simp]: "SHA256_RE (u (sha256_hex data))"
  unfolding sha256_hex_def by (rule SHA256_RE_hex) simp

text \<open>A bound on the length of a printed document.\<close>

fun print_bound :: "json \<Rightarrow> nat" where
  "print_bound (JStr s) = 6 * length s + 2"
| "print_bound (JArr vs) = sum_list (map (\<lambda>v. print_bound v + 1) vs) + 2"
| "print_bound (JObj ms) = sum_list (map (\<lambda>(k, v). 6 * length k + print_bound v + 4) ms) + 2"
| "print_bound v = length (print_json v)"

lemma length_print_str: "length (print_str s) \<le> 6 * length s + 2"
proof -
  have "length (esc_char c) \<le> 6" for c by (simp add: esc_char_def)
  then have "length (concat (map esc_char s)) \<le> 6 * length s" 
  proof (induction s)
    case (Cons c s)
    then show ?case using Cons.prems [of c] by fastforce
  qed simp
  then show ?thesis by (simp add: print_str_def)
qed

lemma length_join: "length (join_with [c] ws) \<le> sum_list (map (\<lambda>w. length w + 1) ws)"
  by (induction "[c]" ws rule: join_with.induct) auto

lemma length_print_json: "length (print_json v) \<le> print_bound v"
proof (induction v rule: print_bound.induct)
  case (1 s)
  show ?case using length_print_str by simp
next
  case (2 vs)
  have "sum_list (map (\<lambda>v. length (print_json v) + 1) vs) \<le> sum_list (map (\<lambda>v. print_bound v + 1) vs)"
    by (rule sum_list_mono) (use 2 in auto)
  with length_join [of 44 "map print_json vs"] show ?case by (simp add: comp_def)
next
  case (3 ms)
  have "sum_list (map (\<lambda>(k, v). length (print_str k @ [58] @ print_json v) + 1) ms)
      \<le> sum_list (map (\<lambda>(k, v). 6 * length k + print_bound v + 4) ms)"
  proof (rule sum_list_mono)
    fix x assume "x \<in> set ms"
    then show "(case x of (k, v) \<Rightarrow> length (print_str k @ [58] @ print_json v) + 1)
        \<le> (case x of (k, v) \<Rightarrow> 6 * length k + print_bound v + 4)"
      using 3 [of x "fst x" "snd x"] length_print_str [of "fst x"] by (simp add: case_prod_unfold)
  qed
  with length_join [of 44 "map (\<lambda>(k, v). print_str k @ [58] @ print_json v) ms"]
  show ?case by (simp add: comp_def case_prod_unfold)
qed auto

lemma length_utf8_encode: "utf8_encode s = Inr bs \<Longrightarrow> length bs \<le> 4 * length s"
proof (induction s arbitrary: bs)
  case (Cons c s)
  obtain cs ds where "utf8_char c = Inr cs" "utf8_encode s = Inr ds" "bs = cs @ ds"
    using Cons.prems by (auto simp: utf8_encode_def res_simps)
  moreover from this have "length cs \<le> 4" by (auto simp: utf8_char_def split: if_splits)
  ultimately show ?case using Cons.IH [of ds] by simp
qed (simp add: utf8_encode_def)

lemma canonical_json_length: "canonical_json v = Inr bs \<Longrightarrow> length bs \<le> 4 * print_bound (canon v)"
  using length_utf8_encode [of "print_json (canon v)" bs] length_print_json [of "canon v"]
  by (auto simp: canonical_json_def split: sum.splits)

lemma sum_list_sort_key: "sum_list (map f (sort_key k xs)) = sum_list (map f xs)" for f :: "_ \<Rightarrow> nat"
  by (metis mset_map mset_sort sum_mset_sum_list)

lemma print_bound_canon: "print_bound (canon v) = print_bound v"
proof (induction v rule: canon.induct)
  case (1 xs)
  have "map (\<lambda>v. print_bound (canon v) + 1) xs = map (\<lambda>v. print_bound v + 1) xs" by (rule map_cong) (use 1 in auto)
  then show ?case by (simp add: comp_def cong: map_cong)
next
  case (2 kvs)
  have "map (\<lambda>(k, v). 6 * length k + print_bound (canon v) + 4) kvs = map (\<lambda>(k, v). 6 * length k + print_bound v + 4) kvs"
    by (rule map_cong) (use 2 in auto)
  then show ?case by (simp add: sum_list_sort_key comp_def case_prod_unfold cong: map_cong)
qed auto

section \<open>Errors\<close>

lemma scan_string_raises: "raises_only (\<lambda>e. e = JSONDecodeError) (scan_string cs)"
proof (induction "length cs" arbitrary: cs rule: less_induct)
  case less
  show ?case
    by (subst scan_string.simps, unfold Let_def, intro raises_intros)
      (auto intro!: less.hyps split: if_splits dest!: low_escape_shorter)
qed

definition hooks_raise :: "(exn \<Rightarrow> bool) \<Rightarrow> json_hooks \<Rightarrow> bool" where
  "hooks_raise P h = (P JSONDecodeError \<and> (\<forall>t. raises_only P (hook_int h t)) \<and> (\<forall>t. raises_only P (hook_float h t))
     \<and> raises_only P (hook_constant h) \<and> (\<forall>kvs. raises_only P (hook_object h kvs)))"

lemma scan_atom_raises: "hooks_raise P h \<Longrightarrow> raises_only P (scan_atom h cs)"
  unfolding scan_atom_def scan_number_def Let_def hooks_raise_def
  by (intro raises_intros) auto

lemma scan_string_raises_hooks: "hooks_raise P h \<Longrightarrow> raises_only P (scan_string cs)"
  using scan_string_raises [of cs] by (cases "scan_string cs") (auto simp: hooks_raise_def)

lemma scan_value_raises:
  "hooks_raise P h \<Longrightarrow> raises_only P (scan_value h cs)"
  "hooks_raise P h \<Longrightarrow> raises_only P (scan_elements h cs)"
  "hooks_raise P h \<Longrightarrow> raises_only P (scan_members h cs)"
proof (induction h cs and h cs and h cs rule: scan_value_scan_elements_scan_members.induct)
  case (1 h cs)
  show ?case using 1(3)
    by (subst scan_value.simps, intro raises_intros)
      (auto simp: hooks_raise_def intro: 1(1,2) scan_atom_raises scan_string_raises_hooks)
next
  case (2 h cs)
  show ?case using 2(3)
    by (subst scan_elements.simps, intro raises_intros) (auto simp: hooks_raise_def intro: 2(1,2))
next
  case (3 h cs)
  show ?case using 3(3)
    by (subst scan_members.simps, intro raises_intros)
      (auto simp: hooks_raise_def intro: 3(1,2) scan_string_raises_hooks)
qed

fun is_raw_error :: "exn \<Rightarrow> bool" where
  "is_raw_error (RawArtifactError _) = True"
| "is_raw_error _ = False"

lemma raw_hooks_raise: "hooks_raise (\<lambda>e. is_raw_error e \<or> e = JSONDecodeError) raw_hooks"
  by (auto simp: hooks_raise_def raw_hooks_def parse_json_integer_def parse_json_float_def reject_constant_def
      reject_duplicate_keys_def Let_def intro!: raises_intros raises_only_foldE_always)

lemma utf8_size_raises: "raises_only is_raw_error (utf8_size s)"
  by (auto simp: utf8_size_def intro!: raises_intros)

lemma json_depth_raises: "raises_only is_raw_error (json_depth v depth)"
  by (induction v depth rule: json_depth.induct)
    (auto simp: bounded_depth_def intro!: raises_intros utf8_size_raises)

lemma load_json_bytes_raises: "raises_only is_raw_error (load_json_bytes data)"
proof -
  have r: "raises_only (\<lambda>e. is_raw_error e \<or> e = JSONDecodeError) (py_json_loads raw_hooks t)" for t
    unfolding py_json_loads_def
    by (intro raises_intros) (auto intro: scan_value_raises raw_hooks_raise)
  have loads_error: "is_raw_error e \<or> e = JSONDecodeError" if "py_json_loads raw_hooks t = Inl e" for t e
    using raises_only_not_Inl [OF r that] .
  have "raises_only is_raw_error (case py_json_loads raw_hooks t of
      Inl JSONDecodeError \<Rightarrow> Inl (RawArtifactError ''{} is not valid JSON'')
    | Inl e \<Rightarrow> Inl e | Inr value \<Rightarrow> bindE (json_depth value 0) (\<lambda>_. Inr value))" for t
  proof (cases "py_json_loads raw_hooks t")
    case (Inl e)
    with loads_error [of t e] show ?thesis by (cases e) simp_all
  next
    case (Inr v)
    then show ?thesis by (auto intro!: raises_intros json_depth_raises)
  qed
  then show ?thesis by (simp add: load_json_bytes_def split: sum.split)
qed

lemma exact_object_raises: "raises_only is_raw_error (exact_object v names)"
  by (auto simp: exact_object_def Let_def split: json.splits)

lemma require_sha256_raises: "raises_only is_raw_error (require_sha256 v)"
  by (auto simp: require_sha256_def split: json.splits)

lemma require_identifier_raises: "raises_only is_raw_error (require_identifier v)"
  by (auto simp: require_identifier_def split: json.splits)

lemma descriptor_path_raises: "raises_only is_raw_error (descriptor_path v)"
  by (auto simp: descriptor_path_def Let_def intro!: raises_intros utf8_size_raises split: json.splits)

lemma parse_descriptor_raises: "raises_only is_raw_error (parse_descriptor v expected)"
  unfolding parse_descriptor_def
  by (intro raises_only_bindE exact_object_raises)
    (auto intro!: raises_intros descriptor_path_raises require_sha256_raises split: json.splits)

section \<open>Accepted descriptors\<close>

text \<open>
  What a client of the archive may assume of a path that was accepted: it is the slash-joined list of
  its components, and each component is a plain name, so it never leaves its directory.
\<close>

lemma descriptor_path_parts:
  assumes "descriptor_path v = Inr path"
  shows "v = JStr path" "path = join_with [47] (path_parts path)" "path_parts path \<noteq> []"
    "list_all PATH_COMPONENT_RE (path_parts path)"
proof -
  have v: "v = JStr path" and ok: "path_parts path \<noteq> []" "list_all PATH_COMPONENT_RE (path_parts path)"
    and abs: "\<not> path_absolute path" "path_str path = path" "path \<noteq> []"
    using assms by (auto simp: descriptor_path_def Let_def res_simps list_all_iff list_ex_iff split: json.splits if_splits)
  have "take 2 path \<noteq> [47, 47]" using abs(1) by (cases path) (auto simp: path_absolute_def)
  then have "path_str path = (if join_with [47] (path_parts path) = [] then [46] else join_with [47] (path_parts path))"
    using abs(1) by (auto simp: path_str_def)
  moreover have "join_with [47] (path_parts path) \<noteq> []"
    using ok by (cases "path_parts path" rule: remdups_adj.cases) (auto simp: PATH_COMPONENT_RE_def split: list.splits)
  ultimately show "v = JStr path" "path = join_with [47] (path_parts path)" "path_parts path \<noteq> []"
    "list_all PATH_COMPONENT_RE (path_parts path)" using v ok abs by auto
qed

lemma require_kms_key_version_raises: "raises_only is_raw_error (require_kms_key_version v)"
  by (auto simp: require_kms_key_version_def split: json.splits)

lemma bounded_text_raises: "raises_only is_raw_error (bounded_text n v msg)"
  by (auto simp: bounded_text_def intro!: raises_intros utf8_size_raises split: json.splits)

lemma parse_proof_binding_raises: "raises_only is_raw_error (parse_proof_binding v)"
  unfolding parse_proof_binding_def parse_candidate_def parse_collector_binding_def
  by (intro raises_intros exact_object_raises require_identifier_raises require_sha256_raises
      bounded_text_raises require_kms_key_version_raises) simp_all

lemma exact_object_ok: "exact_object v names = Inr ms \<longleftrightarrow> v = JObj ms \<and> fst ` set ms = u ` set names"
  by (auto simp: exact_object_def Let_def split: json.splits)

lemma field_in: "fst ` set ms = u ` set names \<Longrightarrow> name \<in> set names \<Longrightarrow> map_of ms (u name) = Some (field ms name)"
  unfolding field_def by (metis image_eqI map_of_eq_None_iff option.case(2) option.exhaust)

lemma require_ok:
  "require_sha256 v = Inr s \<longleftrightarrow> v = JStr s \<and> SHA256_RE s"
  "require_identifier v = Inr s \<longleftrightarrow> v = JStr s \<and> IDENTIFIER_RE s"
  "require_kms_key_version v = Inr s \<longleftrightarrow> v = JStr s \<and> GCP_KMS_KEY_VERSION_RE s"
  by (auto simp: require_sha256_def require_identifier_def require_kms_key_version_def split: json.splits)

lemma bounded_text_ok: "bounded_text n v msg = Inr s \<Longrightarrow> v = JStr s"
  by (auto simp: bounded_text_def res_simps split: json.splits if_splits)

lemma canonical_build_version_ok: "canonical_build_version v = Some s \<Longrightarrow> v = JStr s"
  by (auto simp: canonical_build_version_def split: json.splits if_splits)

lemma field_simps: "field ((k, v) # ms) name = (if k = u name then v else field ms name)"
  by (simp add: field_def)

text \<open>Parsing a parsed binding gives it back.\<close>

lemma parse_candidate_stable: "parse_candidate v = Inr w \<Longrightarrow> parse_candidate w = Inr w"
proof -
  assume "parse_candidate v = Inr w"
  then obtain ms version build a b c where
    f: "bounded_text 32 (field ms ''version'') ''{}.candidate.version must be bounded printable text'' = Inr version"
      "canonical_build_version (field ms ''build_number'') = Some build" "SHA256_RE a" "SHA256_RE b" "SHA256_RE c"
    and w: "w = JObj [(u ''version'', JStr version), (u ''build_number'', JStr build),
           (u ''app_manifest_sha256'', JStr a), (u ''signed_app_tree_sha256'', JStr b),
           (u ''artifact_hash_manifest_sha256'', JStr c)]"
    unfolding parse_candidate_def res_simps require_ok by (elim exE conjE) (rule that; (assumption | auto))
  have f': "bounded_text 32 (JStr version) ''{}.candidate.version must be bounded printable text'' = Inr version"
    "canonical_build_version (JStr build) = Some build"
    using f(1,2) bounded_text_ok [OF f(1)] canonical_build_version_ok [OF f(2)] by simp_all
  show ?thesis unfolding parse_candidate_def w
    by (simp add: exact_object_def CANDIDATE_FIELDS_def field_simps f' f(3-5) require_sha256_def del: u_simps)
qed

lemma parse_collector_binding_stable: "parse_collector_binding v = Inr w \<Longrightarrow> parse_collector_binding w = Inr w"
proof -
  assume "parse_collector_binding v = Inr w"
  then obtain version a b key where f: "IDENTIFIER_RE version" "SHA256_RE a" "SHA256_RE b" "GCP_KMS_KEY_VERSION_RE key"
    and w: "w = JObj [(u ''version'', JStr version), (u ''source_sha256'', JStr a),
       (u ''executable_sha256'', JStr b), (u ''algorithm'', JStr COLLECTOR_SIGNATURE_ALGORITHM),
       (u ''key_version'', JStr key)]"
    unfolding parse_collector_binding_def res_simps require_ok by (elim exE conjE) (rule that; (assumption | auto))
  show ?thesis unfolding parse_collector_binding_def w
    by (simp add: exact_object_def COLLECTOR_BINDING_FIELDS_def field_simps f require_sha256_def
        require_identifier_def require_kms_key_version_def del: u_simps)
qed

lemma parse_proof_binding_stable: "parse_proof_binding v = Inr w \<Longrightarrow> parse_proof_binding w = Inr w"
proof -
  assume "parse_proof_binding v = Inr w"
  then obtain ms run nonce c d where f: "IDENTIFIER_RE run" "SHA256_RE nonce"
      "parse_candidate (field ms ''candidate'') = Inr c" "parse_collector_binding (field ms ''collector'') = Inr d"
    and w: "w = JObj [(u ''schema_version'', JInt 3), (u ''run_id'', JStr run), (u ''run_nonce'', JStr nonce),
         (u ''candidate'', c), (u ''collector'', d)]"
    unfolding parse_proof_binding_def res_simps require_ok by (elim exE conjE) (rule that; (assumption | auto))
  show ?thesis unfolding parse_proof_binding_def w
    by (simp add: exact_object_def PROOF_FIELDS_def field_simps f(1,2) require_sha256_def require_identifier_def
        parse_candidate_stable [OF f(3)] parse_collector_binding_stable [OF f(4)] del: u_simps)
qed

lemma parse_descriptor_elim:
  assumes "parse_descriptor v expected = Inr d"
  obtains raw extension bound where
    "exact_object v [''kind'', ''path'', ''size'', ''sha256''] = Inr raw" "field raw ''kind'' = JStr (ad_kind d)"
    "ad_kind d \<in> set expected" "artifact_kind (ad_kind d) = Some (extension, bound)"
    "descriptor_path (field raw ''path'') = Inr (ad_path d)" "ends_with (ad_path d) (u extension)"
    "field raw ''size'' = JInt (ad_size d)" "1 \<le> ad_size d" "ad_size d \<le> int bound"
    "require_sha256 (field raw ''sha256'') = Inr (ad_sha256 d)"
  using assms unfolding parse_descriptor_def res_simps sum.inject not_not not_less
  by (elim exE conjE, hypsubst) (rule that; (assumption | simp))

lemma parse_descriptor_facts:
  assumes "parse_descriptor v expected = Inr d"
  shows "ad_kind d \<in> set expected"
    and "\<exists>extension bound. artifact_kind (ad_kind d) = Some (extension, bound) \<and> ends_with (ad_path d) (u extension)
       \<and> 1 \<le> ad_size d \<and> ad_size d \<le> int bound"
    and "SHA256_RE (ad_sha256 d)"
    and "path_parts (ad_path d) \<noteq> []" "list_all PATH_COMPONENT_RE (path_parts (ad_path d))"
    and "ad_path d = join_with [47] (path_parts (ad_path d))"
    and "parse_descriptor (descriptor_as_dict d) expected = Inr d"
proof -
  obtain raw extension bound where e:
    "field raw ''kind'' = JStr (ad_kind d)"
    "ad_kind d \<in> set expected" "artifact_kind (ad_kind d) = Some (extension, bound)"
    "descriptor_path (field raw ''path'') = Inr (ad_path d)" "ends_with (ad_path d) (u extension)"
    "field raw ''size'' = JInt (ad_size d)" "1 \<le> ad_size d" "ad_size d \<le> int bound"
    "require_sha256 (field raw ''sha256'') = Inr (ad_sha256 d)"
    by (rule parse_descriptor_elim [OF assms])
  show "ad_kind d \<in> set expected" by (rule e)
  show "\<exists>extension bound. artifact_kind (ad_kind d) = Some (extension, bound) \<and> ends_with (ad_path d) (u extension)
       \<and> 1 \<le> ad_size d \<and> ad_size d \<le> int bound" using e by blast
  show "SHA256_RE (ad_sha256 d)" using e(9) by (simp add: require_ok)
  note path = descriptor_path_parts [OF e(4)]
  show "path_parts (ad_path d) \<noteq> []" "list_all PATH_COMPONENT_RE (path_parts (ad_path d))"
    "ad_path d = join_with [47] (path_parts (ad_path d))" using path by blast+
  have "descriptor_path (JStr (ad_path d)) = Inr (ad_path d)" using e(4) path(1) by simp
  then show "parse_descriptor (descriptor_as_dict d) expected = Inr d" using e \<open>SHA256_RE (ad_sha256 d)\<close>
    by (simp add: parse_descriptor_def descriptor_as_dict_def exact_object_def field_simps require_sha256_def del: u_simps)
qed

theorem parse_descriptor_sound:
  assumes "parse_descriptor v expected = Inr d"
  shows "ad_kind d \<in> set expected
    \<and> (\<exists>extension bound. artifact_kind (ad_kind d) = Some (extension, bound) \<and> ends_with (ad_path d) (u extension)
         \<and> 1 \<le> ad_size d \<and> ad_size d \<le> int bound)
    \<and> SHA256_RE (ad_sha256 d)
    \<and> path_parts (ad_path d) \<noteq> [] \<and> list_all PATH_COMPONENT_RE (path_parts (ad_path d))
    \<and> ad_path d = join_with [47] (path_parts (ad_path d))
    \<and> parse_descriptor (descriptor_as_dict d) expected = Inr d"
  using parse_descriptor_facts [OF assms] by blast

text \<open>
  C28: load_json_bytes reads back what canonical_json writes: every document of at most 32
  levels, with text that is valid Unicode, distinct member names, integers of at most 19 digits
  and no floats is encoded, and its bytes, with or without the final newline, are loaded as the
  same document with its members in sorted order.
\<close>

theorem canonical_json_roundtrip:
  assumes "loadable MAX_JSON_DEPTH v" "plain short_int v"
  shows "\<exists>bs. canonical_json v = Inr bs \<and> load_json_bytes bs = Inr (canon v) \<and> load_json_bytes (bs @ [10]) = Inr (canon v)"
  using assms by (rule canonical_json_loaded)


end
