(* ===== verification/Collector_Signature.thy ===== *)
theory Collector_Signature
  imports Raw_Artifacts
begin

text \<open>
  The signature side of \<open>scripts/harness/raw_artifacts.py\<close>: unpadded base64url, MGF1 with SHA-256,
  \<open>verify_ps256\<close>, the DER encoding behind \<open>rsa_spki_sha256\<close>, and \<open>parse_trust_policy_bytes\<close>. The
  verification routine is shown equivalent to RSASSA-PSS verification as the standard states it, by
  the encoding \<open>emsa_pss\<close>; the DER encoding is shown injective.
\<close>

unbundle bit_operations_syntax

section \<open>Unpadded base64url\<close>

definition b64_char :: "nat \<Rightarrow> nat" where
  "b64_char v = (if v < 26 then 65 + v else if v < 52 then 71 + v else if v < 62 then v - 4
     else if v = 62 then 45 else 95)"

definition b64_value :: "nat \<Rightarrow> nat" where
  "b64_value c = (if 65 \<le> c \<and> c \<le> 90 then c - 65 else if 97 \<le> c \<and> c \<le> 122 then c - 71
     else if is_dig c then c + 4 else if c = 45 then 62 else 63)"

definition BASE64URL_RE :: "ustr \<Rightarrow> bool" where
  "BASE64URL_RE s = (s \<noteq> [] \<and> list_all (\<lambda>c. is_alnum c \<or> c = 95 \<or> c = 45) s)"

text \<open>\<open>urlsafe_b64encode\<close> without the padding, on the values of the characters.\<close>

fun sextets :: "nat list \<Rightarrow> nat list" where
  "sextets (a # b # c # r) = [a div 4, a mod 4 * 16 + b div 16, b mod 16 * 4 + c div 64, c mod 64] @ sextets r"
| "sextets [a, b] = [a div 4, a mod 4 * 16 + b div 16, b mod 16 * 4]"
| "sextets [a] = [a div 4, a mod 4 * 16]"
| "sextets [] = []"

text \<open>
  \<open>urlsafe_b64decode\<close> of a text padded to a multiple of four; the left-over bits of a short group are
  dropped, and a group of a single character is an error.
\<close>

fun octets :: "nat list \<Rightarrow> nat list option" where
  "octets (a # b # c # d # r) =
     (case octets r of None \<Rightarrow> None
      | Some bs \<Rightarrow> Some ([a * 4 + b div 16, b mod 16 * 16 + c div 4, c mod 4 * 64 + d] @ bs))"
| "octets [a, b, c] = Some [a * 4 + b div 16, b mod 16 * 16 + c div 4]"
| "octets [a, b] = Some [a * 4 + b div 16]"
| "octets [a] = None"
| "octets [] = Some []"

definition base64url_encode :: "bytes \<Rightarrow> ustr" where
  "base64url_encode bs = map b64_char (sextets (map unat bs))"

definition base64url_decode :: "json \<Rightarrow> bytes res" where
  "base64url_decode value =
     (case value of
        JStr s \<Rightarrow>
          if \<not> BASE64URL_RE s then Inl (RawArtifactError ''{} is not unpadded base64url'')
          else (case octets (map b64_value s) of
            None \<Rightarrow> Inl (RawArtifactError ''{} is not valid base64url'')
          | Some vs \<Rightarrow>
              let decoded = map word_of_nat vs in
              if base64url_encode decoded \<noteq> s then
                Inl (RawArtifactError ''{} is not canonical unpadded base64url'')
              else Inr decoded)
      | _ \<Rightarrow> Inl (RawArtifactError ''{} is not unpadded base64url''))"

section \<open>PS256\<close>

definition RSA_MODULUS_BITS :: nat where "RSA_MODULUS_BITS = 3072"
definition RSA_PUBLIC_EXPONENT :: nat where "RSA_PUBLIC_EXPONENT = 65537"
definition PS256_SIGNATURE_BYTES :: nat where "PS256_SIGNATURE_BYTES = 384"
definition PS256_HASH_BYTES :: nat where "PS256_HASH_BYTES = 32"
definition PS256_SALT_BYTES :: nat where "PS256_SALT_BYTES = 32"
definition PS256_EM_BITS :: nat where "PS256_EM_BITS = 3071"

definition mgf1_sha256 :: "bytes \<Rightarrow> nat \<Rightarrow> bytes res" where
  "mgf1_sha256 seed len =
     (if len > 2 ^ 32 * PS256_HASH_BYTES then Inl (RawArtifactError ''PS256 MGF1 output length is excessive'')
      else Inr (take len (concat (map (\<lambda>counter. sha256 (seed @ to_bytes_be 4 counter))
        [0..<(len + PS256_HASH_BYTES - 1) div PS256_HASH_BYTES]))))"

text \<open>\<open>pow\<close> with three arguments, and \<open>int.bit_length\<close>.\<close>

fun pow_mod :: "nat \<Rightarrow> nat \<Rightarrow> nat \<Rightarrow> nat" where
  "pow_mod b e n =
     (if e = 0 then 1 mod n
      else let h = pow_mod (b * b mod n) (e div 2) n in if odd e then b * h mod n else h)"

declare pow_mod.simps [simp del]

fun bit_length :: "nat \<Rightarrow> nat" where
  "bit_length n = (if n = 0 then 0 else Suc (bit_length (n div 2)))"

declare bit_length.simps [simp del]

definition verify_ps256 :: "bytes \<Rightarrow> json \<Rightarrow> int \<Rightarrow> int \<Rightarrow> unit res" where
  "verify_ps256 message signature_base64url modulus exponent =
     (if modulus \<le> 0 \<or> modulus mod 2 = 0 \<or> bit_length (nat modulus) \<noteq> RSA_MODULUS_BITS then
        Inl (RawArtifactError ''collector RSA modulus must be exactly 3072 bits'')
      else if exponent \<noteq> int RSA_PUBLIC_EXPONENT then
        Inl (RawArtifactError ''collector RSA public exponent must be 65537'')
      else bindE (base64url_decode signature_base64url) (\<lambda>signature.
      if length signature \<noteq> PS256_SIGNATURE_BYTES then
        Inl (RawArtifactError ''collector PS256 signature must be exactly 384 bytes'')
      else let encoded_integer = be_nat signature in
      if int encoded_integer \<ge> modulus then
        Inl (RawArtifactError ''collector signature representative is outside the RSA modulus'')
      else let encoded = to_bytes_be PS256_SIGNATURE_BYTES (pow_mod encoded_integer (nat exponent) (nat modulus)) in
      if last encoded \<noteq> 0xBC then Inl (RawArtifactError ''collector PS256 trailer field is invalid'')
      else let masked_db = take (length encoded - (PS256_HASH_BYTES + 1)) encoded;
               encoded_hash = py_slice encoded (length encoded - (PS256_HASH_BYTES + 1)) (length encoded - 1) in
      if length masked_db \<noteq> 351 then Inl (RawArtifactError ''collector PS256 encoded DB length is invalid'')
      else let unused_bits = 8 * PS256_SIGNATURE_BYTES - PS256_EM_BITS in
      if unused_bits \<noteq> 1 \<or> masked_db ! 0 AND 0x80 \<noteq> 0 then
        Inl (RawArtifactError ''collector PS256 unused high bit is nonzero'')
      else bindE (mgf1_sha256 encoded_hash (length masked_db)) (\<lambda>mask.
      let db = map2 (XOR) masked_db mask;
          decoded_db = db[0 := db ! 0 AND 0x7F];
          padding_length = length decoded_db - PS256_SALT_BYTES - 1 in
      if padding_length \<noteq> 318 then Inl (RawArtifactError ''collector PS256 salt contract is inconsistent'')
      else if take padding_length decoded_db \<noteq> replicate padding_length 0 then
        Inl (RawArtifactError ''collector PS256 DB padding is invalid'')
      else if decoded_db ! padding_length \<noteq> 0x01 then
        Inl (RawArtifactError ''collector PS256 DB delimiter is invalid'')
      else let salt = drop (length decoded_db - PS256_SALT_BYTES) decoded_db;
               expected_hash = sha256 (replicate 8 0 @ sha256 message @ salt) in
      if encoded_hash \<noteq> expected_hash then Inl (RawArtifactError ''collector PS256 receipt signature is invalid'')
      else Inr ())))"

section \<open>DER\<close>

definition to_minimal_bytes :: "nat \<Rightarrow> bytes" where
  "to_minimal_bytes n = to_bytes_be ((bit_length n + 7) div 8) n"

definition der_length :: "nat \<Rightarrow> bytes" where
  "der_length len =
     (if len < 0x80 then [word_of_nat len]
      else let encoded = to_minimal_bytes len in (0x80 OR word_of_nat (length encoded)) # encoded)"

definition der_tlv :: "byte \<Rightarrow> bytes \<Rightarrow> bytes" where
  "der_tlv tag value = [tag] @ der_length (length value) @ value"

definition der_integer :: "nat \<Rightarrow> bytes res" where
  "der_integer value =
     (if value = 0 then Inl (RawArtifactError ''RSA public integer must be positive'')
      else let encoded = to_minimal_bytes value;
               encoded = (if encoded ! 0 AND 0x80 \<noteq> 0 then [0] @ encoded else encoded) in
           Inr (der_tlv 0x02 encoded))"

definition rsa_encryption_algorithm :: bytes where
  "rsa_encryption_algorithm = [0x30, 0x0d, 0x06, 0x09, 0x2a, 0x86, 0x48, 0x86, 0xf7, 0x0d, 0x01, 0x01, 0x01, 0x05, 0x00]"

definition rsa_spki :: "nat \<Rightarrow> nat \<Rightarrow> bytes res" where
  "rsa_spki modulus exponent =
     bindE (der_integer modulus) (\<lambda>n. bindE (der_integer exponent) (\<lambda>e.
       let rsa_public_key = der_tlv 0x30 (n @ e);
           subject_public_key = der_tlv 0x03 ([0] @ rsa_public_key) in
       Inr (der_tlv 0x30 (rsa_encryption_algorithm @ subject_public_key))))"

definition rsa_spki_sha256 :: "nat \<Rightarrow> nat \<Rightarrow> ustr res" where
  "rsa_spki_sha256 modulus exponent = bindE (rsa_spki modulus exponent) (\<lambda>spki. Inr (u (sha256_hex spki)))"

section \<open>The trust policy\<close>

definition EVIDENCE_PROFILE :: json where
  "EVIDENCE_PROFILE = JObj [
     (u ''aggregate_schema_version'', JInt 5),
     (u ''aggregator_version'', JStr (u ''physical-evidence-aggregator-v5-single-machine'')),
     (u ''boot_environment_scheme'', JStr (u ''cfw-boot-environment-v1'')),
     (u ''machine_identity_scheme'', JStr (u ''cfw-physical-machine-identity-v1'')),
     (u ''machine_topology'', JStr (u ''one-machine-two-clean-os-v1'')),
     (u ''required_runs'', JArr [
        JObj [(u ''macos_build'', JStr (u ''25G72'')), (u ''macos_version'', JStr (u ''26.6'')),
              (u ''os'', JStr (u ''current-macos''))],
        JObj [(u ''macos_build'', JStr (u ''24G824'')), (u ''macos_version'', JStr (u ''15.7.8'')),
              (u ''os'', JStr (u ''macos15''))]]),
     (u ''schema_version'', JInt 1),
     (u ''soak_hours_per_run'', JInt 3)]"

definition EVIDENCE_PROFILE_FIELDS :: "string list" where
  "EVIDENCE_PROFILE_FIELDS = [''schema_version'', ''aggregate_schema_version'', ''aggregator_version'',
     ''boot_environment_scheme'', ''machine_identity_scheme'', ''machine_topology'', ''required_runs'',
     ''soak_hours_per_run'']"

lemma size_pair_in: "(k, v) \<in> set kvs \<Longrightarrow> size v \<le> size_list (size_prod f size) kvs"
  by (induction kvs) auto

text \<open>
  \<open>_require_exact_json_value\<close>: the value has the type of the expected one at every node, objects have
  the same fields, arrays the same length, and scalars are equal.
\<close>

function (sequential) require_exact_json_value :: "json \<Rightarrow> json \<Rightarrow> unit res" where
  "require_exact_json_value value (JObj expected) =
     (case value of
        JObj raw \<Rightarrow>
          if fst ` set raw \<noteq> fst ` set expected then
            Inl (RawArtifactError ''{} is missing required fields or has unknown fields'')
          else bindE (mapE (\<lambda>(key, e). require_exact_json_value (case map_of raw key of Some v \<Rightarrow> v | None \<Rightarrow> JNull) e) expected)
            (\<lambda>_. Inr ())
      | _ \<Rightarrow> Inl (RawArtifactError ''{} has a non-canonical JSON type''))"
| "require_exact_json_value value (JArr expected) =
     (case value of
        JArr items \<Rightarrow>
          if length items \<noteq> length expected then
            Inl (RawArtifactError ''{} has a non-canonical JSON array length'')
          else bindE (mapE (\<lambda>(e, item). require_exact_json_value item e) (zip expected items)) (\<lambda>_. Inr ())
      | _ \<Rightarrow> Inl (RawArtifactError ''{} has a non-canonical JSON type''))"
| "require_exact_json_value value expected =
     (if value \<noteq> expected then Inl (RawArtifactError ''{} differs from the source-pinned value'') else Inr ())"
  by pat_completeness auto
termination
  by (relation "measure (\<lambda>(_, expected). size expected)")
    (auto dest!: set_zip_leftD simp: less_Suc_eq_le size_list_estimation' dest: size_pair_in)

definition KMS_ATTESTATION_FORMATS :: "ustr list" where
  "KMS_ATTESTATION_FORMATS = [u ''CAVIUM_V1_COMPRESSED'', u ''CAVIUM_V2_COMPRESSED'']"

definition MAX_TRUST_POLICY_BYTES :: nat where "MAX_TRUST_POLICY_BYTES = 64 * 1024"

definition POLICY_FIELDS :: "string list" where
  "POLICY_FIELDS = [''schema_version'', ''state'', ''key_version'', ''kty'', ''alg'', ''kms_algorithm'',
     ''protection_level'', ''attestation_format'', ''public_key_sha256'', ''attestation_sha256'', ''n'', ''e'',
     ''collector_version'', ''collector_source_sha256'', ''collector_executable_sha256'', ''evidence_profile'']"

text \<open>
  The accepted policy. Its fields \<open>algorithm\<close>, \<open>kms_algorithm\<close> and \<open>protection_level\<close> are constants of
  the program, and the five fields copied from the evidence profile are read off \<open>tp_evidence_profile\<close>.
\<close>

record collector_trust_policy =
  tp_policy_sha256 :: ustr
  tp_key_version :: ustr
  tp_attestation_format :: ustr
  tp_public_key_sha256 :: ustr
  tp_attestation_sha256 :: ustr
  tp_modulus :: nat
  tp_exponent :: nat
  tp_collector_version :: ustr
  tp_collector_source_sha256 :: ustr
  tp_collector_executable_sha256 :: ustr
  tp_evidence_profile_sha256 :: ustr
  tp_evidence_profile :: members
  tp_release_source_pinned :: bool

text \<open>The record that says that no key has been provisioned; it always raises.\<close>

definition policy_not_configured :: "json \<Rightarrow> collector_trust_policy res" where
  "policy_not_configured value =
     bindE (exact_object value [''schema_version'', ''state'', ''reason'']) (\<lambda>ms.
     if field ms ''schema_version'' \<noteq> JInt 2 then
       Inl (RawArtifactError ''collector trust policy not-configured record is malformed'')
     else bindE (bounded_text 512 (field ms ''reason'') ''collector trust policy not-configured record is malformed'')
       (\<lambda>_. Inl (RawArtifactError ''production collector trust policy is not configured'')))"

text \<open>
  Membership in a \<open>frozenset\<close> hashes the value, which raises \<open>TypeError\<close> for a list or a dictionary.
\<close>

definition attestation_format_of :: "json \<Rightarrow> ustr res" where
  "attestation_format_of value =
     (case value of
        JStr s \<Rightarrow>
          if s \<in> set KMS_ATTESTATION_FORMATS then Inr s
          else Inl (RawArtifactError ''collector trust policy attestation_format is not an allowed Cloud HSM attestation format'')
      | JArr _ \<Rightarrow> Inl (TypeError ''unhashable type: list'')
      | JObj _ \<Rightarrow> Inl (TypeError ''unhashable type: dict'')
      | _ \<Rightarrow> Inl (RawArtifactError ''collector trust policy attestation_format is not an allowed Cloud HSM attestation format''))"

text \<open>The modulus and the exponent, from the fields \<open>n\<close> and \<open>e\<close>.\<close>

definition policy_key :: "members \<Rightarrow> (nat \<times> nat) res" where
  "policy_key policy =
     bindE (base64url_decode (field policy ''n'')) (\<lambda>modulus_bytes.
     bindE (base64url_decode (field policy ''e'')) (\<lambda>exponent_bytes.
     if length modulus_bytes \<noteq> PS256_SIGNATURE_BYTES \<or> modulus_bytes ! 0 < 0x80 then
       Inl (RawArtifactError ''collector trust policy RSA modulus must be canonical 3072-bit bytes'')
     else if exponent_bytes \<noteq> to_bytes_be 3 RSA_PUBLIC_EXPONENT then
       Inl (RawArtifactError ''collector trust policy RSA exponent must be canonical 65537 bytes'')
     else let modulus = be_nat modulus_bytes; exponent = be_nat exponent_bytes in
     if modulus mod 2 = 0 \<or> bit_length modulus \<noteq> RSA_MODULUS_BITS then
       Inl (RawArtifactError ''collector trust policy RSA modulus must be exactly {} bits'')
     else if exponent \<noteq> RSA_PUBLIC_EXPONENT then
       Inl (RawArtifactError ''collector trust policy RSA exponent must be {}'')
     else Inr (modulus, exponent)))"

definition policy_constants :: "members \<Rightarrow> unit res" where
  "policy_constants policy =
     (if field policy ''kty'' \<noteq> JStr (u ''RSA'') \<or> field policy ''alg'' \<noteq> JStr COLLECTOR_SIGNATURE_ALGORITHM then
        Inl (RawArtifactError ''collector trust policy must use RSA/{}'')
      else if field policy ''kms_algorithm'' \<noteq> JStr (u ''RSA_SIGN_PSS_3072_SHA256'') then
        Inl (RawArtifactError ''collector trust policy kms_algorithm must be {}'')
      else if field policy ''protection_level'' \<noteq> JStr (u ''HSM'') then
        Inl (RawArtifactError ''collector trust policy protection_level must be {}'')
      else Inr ())"

text \<open>The two digests of the key and of its attestation.\<close>

definition policy_digests :: "members \<Rightarrow> nat \<Rightarrow> nat \<Rightarrow> (ustr \<times> ustr) res" where
  "policy_digests policy modulus exponent =
     bindE (require_sha256 (field policy ''public_key_sha256'')) (\<lambda>public_key_sha256.
     bindE (rsa_spki_sha256 modulus exponent) (\<lambda>computed.
     if public_key_sha256 \<noteq> computed then
       Inl (RawArtifactError ''collector trust policy public-key digest does not match n/e'')
     else bindE (require_sha256 (field policy ''attestation_sha256'')) (\<lambda>attestation_sha256.
     if attestation_sha256 = replicate 64 48 \<or> attestation_sha256 = public_key_sha256 then
       Inl (RawArtifactError ''collector trust policy attestation digest is not independently provisioned'')
     else Inr (public_key_sha256, attestation_sha256))))"

definition policy_configured :: "json \<Rightarrow> ustr \<Rightarrow> bool \<Rightarrow> collector_trust_policy res" where
  "policy_configured value digest source_pinned =
     bindE (exact_object value POLICY_FIELDS) (\<lambda>policy.
     if field policy ''schema_version'' \<noteq> JInt 3 \<or> field policy ''state'' \<noteq> JStr (u ''configured'') then
       Inl (RawArtifactError ''collector trust policy state/schema is unsupported'')
     else
       bindE (exact_object (field policy ''evidence_profile'') EVIDENCE_PROFILE_FIELDS) (\<lambda>profile.
       bindE (require_exact_json_value (JObj profile) EVIDENCE_PROFILE) (\<lambda>_.
       bindE (canonical_json (JObj profile)) (\<lambda>profile_bytes.
       bindE (policy_constants policy) (\<lambda>_.
       bindE (attestation_format_of (field policy ''attestation_format'')) (\<lambda>attestation_format.
       bindE (require_kms_key_version (field policy ''key_version'')) (\<lambda>key_version.
       bindE (policy_key policy) (\<lambda>(modulus, exponent).
       bindE (policy_digests policy modulus exponent) (\<lambda>(public_key_sha256, attestation_sha256).
       bindE (require_identifier (field policy ''collector_version'')) (\<lambda>collector_version.
       bindE (require_sha256 (field policy ''collector_source_sha256'')) (\<lambda>source_sha256.
       bindE (require_sha256 (field policy ''collector_executable_sha256'')) (\<lambda>executable_sha256.
       Inr \<lparr>tp_policy_sha256 = digest, tp_key_version = key_version,
            tp_attestation_format = attestation_format, tp_public_key_sha256 = public_key_sha256,
            tp_attestation_sha256 = attestation_sha256, tp_modulus = modulus, tp_exponent = exponent,
            tp_collector_version = collector_version, tp_collector_source_sha256 = source_sha256,
            tp_collector_executable_sha256 = executable_sha256,
            tp_evidence_profile_sha256 = u (sha256_hex profile_bytes),
            tp_evidence_profile = profile, tp_release_source_pinned = source_pinned\<rparr>))))))))))))"

definition parse_trust_policy_bytes :: "bytes \<Rightarrow> json \<Rightarrow> bool \<Rightarrow> collector_trust_policy res" where
  "parse_trust_policy_bytes data expected_sha256 source_pinned =
     bindE (require_sha256 expected_sha256) (\<lambda>pinned.
     if data = [] \<or> length data > MAX_TRUST_POLICY_BYTES then
       Inl (RawArtifactError ''collector trust policy size is outside the accepted range'')
     else if u (sha256_hex data) \<noteq> pinned then
       Inl (RawArtifactError ''collector trust policy bytes do not match the source-pinned digest'')
     else bindE (load_json_bytes data) (\<lambda>value.
     case value of
       JObj ms \<Rightarrow>
         bindE (canonical_json value) (\<lambda>canonical.
         if data \<noteq> canonical @ [10] then
           Inl (RawArtifactError ''collector trust policy bytes are not canonical JSON plus newline'')
         else if map_of ms (u ''state'') = Some (JStr (u ''not-configured'')) then policy_not_configured value
         else policy_configured value pinned source_pinned)
     | _ \<Rightarrow> Inl (RawArtifactError ''collector trust policy must be a JSON object'')))"

section \<open>Base64url\<close>

lemma regroup:
  fixes b :: nat
  assumes "b < 256"
  shows "b div 16 div 16 = 0" "b div 16 mod 16 = b div 16" "b div 64 div 4 = 0" "b div 64 mod 4 = b div 64"
proof -
  have "b div 16 < 16" "b div 64 < 4" using assms by auto
  then show "b div 16 div 16 = 0" "b div 16 mod 16 = b div 16" "b div 64 div 4 = 0" "b div 64 mod 4 = b div 64"
    by simp_all
qed

lemma octets_sextets: "list_all (\<lambda>a. a < 256) bs \<Longrightarrow> octets (sextets bs) = Some bs"
  by (induction bs rule: sextets.induct) (simp_all add: regroup del: div_mult2_eq [symmetric])

lemma sextets_less: "list_all (\<lambda>a. a < 256) bs \<Longrightarrow> list_all (\<lambda>a. a < 64) (sextets bs)"
  by (induction bs rule: sextets.induct) auto

lemma b64_value_char: "v < 64 \<Longrightarrow> b64_value (b64_char v) = v"
  by (auto simp: b64_value_def b64_char_def is_dig_def)

lemma b64_char_class: "v < 64 \<Longrightarrow> is_alnum (b64_char v) \<or> b64_char v = 95 \<or> b64_char v = 45"
  by (auto simp: b64_char_def is_alnum_def is_dig_def)

lemma base64url_decode_encode: "bs \<noteq> [] \<Longrightarrow> base64url_decode (JStr (base64url_encode bs)) = Inr bs"
proof -
  assume ne: "bs \<noteq> []"
  define vs where "vs = sextets (map unat bs)"
  have lt: "list_all (\<lambda>a. a < 64) vs" unfolding vs_def by (rule sextets_less) (simp add: list_all_iff)
  have dec: "octets vs = Some (map unat bs)" unfolding vs_def by (rule octets_sextets) (simp add: list_all_iff)
  have "vs \<noteq> []" using dec ne by auto
  then have "BASE64URL_RE (map b64_char vs)"
    using lt b64_char_class by (auto simp: BASE64URL_RE_def list_all_iff)
  moreover have "map b64_value (map b64_char vs) = vs"
    using lt b64_value_char by (induction vs) auto
  moreover have "map (word_of_nat \<circ> unat) bs = bs" by (simp add: map_idI)
  ultimately show ?thesis using dec
    by (simp add: base64url_decode_def base64url_encode_def vs_def [symmetric] Let_def)
qed

lemma base64url_decode_iff: "base64url_decode v = Inr bs \<longleftrightarrow> bs \<noteq> [] \<and> v = JStr (base64url_encode bs)"
proof
  assume "base64url_decode v = Inr bs"
  then show "bs \<noteq> [] \<and> v = JStr (base64url_encode bs)"
    by (auto simp: base64url_decode_def Let_def BASE64URL_RE_def base64url_encode_def split: json.splits if_splits option.splits)
qed (auto simp: base64url_decode_encode)

section \<open>Exponentiation\<close>

lemma pow_mod_eq: "pow_mod b e n = b ^ e mod n"
proof (induction b e n rule: pow_mod.induct)
  case (1 b e n)
  show ?case
  proof (cases "e = 0")
    case False
    have sq: "(b * b mod n) ^ (e div 2) mod n = b ^ (2 * (e div 2)) mod n"
      by (simp add: power_mod power_mult power2_eq_square)
    define h where "h = b ^ (2 * (e div 2))"
    have "pow_mod b e n = (if odd e then b * (h mod n) mod n else h mod n)"
      unfolding pow_mod.simps [of b e n] Let_def 1 [OF False] sq h_def using False by simp
    moreover have "b ^ e = (if odd e then b * h else h)" unfolding h_def by (auto simp flip: power_Suc)
    ultimately show ?thesis by (simp add: mod_mult_right_eq)
  qed (simp add: pow_mod.simps)
qed

section \<open>Masking\<close>

definition mask_db :: "bytes \<Rightarrow> bytes \<Rightarrow> bytes" where
  "mask_db m db = (let x = map2 (XOR) db m in x[0 := x ! 0 AND 0x7F])"

lemma byte_masks:
  fixes x k :: byte
  shows "(((x XOR k) AND 0x7F) XOR k) AND 0x7F = x AND 0x7F" "(x AND 0x7F) AND 0x80 = 0"
    "x AND 0x80 = 0 \<Longrightarrow> x AND 0x7F = x"
proof -
  have n: "(0x7F :: byte) = NOT 0x80" by simp
  show "(((x XOR k) AND 0x7F) XOR k) AND 0x7F = x AND 0x7F" by (auto simp: bit_eq_iff bit_simps)
  show "(x AND 0x7F) AND 0x80 = 0" by (simp add: and.assoc)
  assume "x AND 0x80 = 0"
  then show "x AND 0x7F = x" unfolding n
    by (metis (no_types) and.left_idem bit.conj_disj_distrib bit.disj_cancel_right and.right_neutral or.right_neutral or.left_neutral)
qed

lemma mask_db_involutive:
  assumes "length m = length db" "db \<noteq> []" "db ! 0 AND 0x80 = 0"
  shows "mask_db m (mask_db m db) = db"
proof (rule nth_equalityI)
  fix i assume "i < length (mask_db m (mask_db m db))"
  then have "i < length db" using assms by (simp add: mask_db_def Let_def)
  then show "mask_db m (mask_db m db) ! i = db ! i"
    using assms byte_masks(1) [of "db ! 0" "m ! 0"] byte_masks(3) [of "db ! 0"]
    by (cases "i = 0") (simp_all add: mask_db_def Let_def xor.assoc)
qed (use assms in \<open>simp add: mask_db_def Let_def\<close>)

lemma mask_db_length [simp]: "length (mask_db m db) = min (length db) (length m)"
  by (simp add: mask_db_def Let_def)

lemma mask_db_high_bit: "m \<noteq> [] \<Longrightarrow> db \<noteq> [] \<Longrightarrow> mask_db m db ! 0 AND 0x80 = 0"
  by (simp add: mask_db_def Let_def byte_masks)

section \<open>Equivalence with RSASSA-PSS\<close>

text \<open>
  The reference: the mask generation function, and the encoding operation with a 32-byte salt for a
  modulus of 3072 bits.
\<close>

definition mgf1 :: "bytes \<Rightarrow> nat \<Rightarrow> bytes" where
  "mgf1 seed n = take n (concat (map (\<lambda>i. sha256 (seed @ to_bytes_be 4 i)) [0..<(n + 31) div 32]))"

definition emsa_pss :: "bytes \<Rightarrow> bytes \<Rightarrow> bytes" where
  "emsa_pss message salt =
     (let h = sha256 (replicate 8 0 @ sha256 message @ salt);
          db = replicate 318 0 @ [1] @ salt in
      mask_db (mgf1 h 351) db @ h @ [0xBC])"

lemma length_mgf1 [simp]: "length (mgf1 seed n) = n"
proof -
  have "length (concat (map (\<lambda>i. sha256 (f i)) xs)) = 32 * length xs" for f :: "nat \<Rightarrow> bytes" and xs
    by (induction xs) auto
  then show ?thesis by (simp add: mgf1_def)
qed

lemma mgf1_sha256_eq: "n \<le> 2 ^ 32 * 32 \<Longrightarrow> mgf1_sha256 seed n = Inr (mgf1 seed n)"
  by (simp add: mgf1_sha256_def mgf1_def PS256_HASH_BYTES_def add.commute)

lemma split_encoded:
  assumes "length em = 384" shows "em = take 351 em @ py_slice em 351 383 @ [last em]"
proof -
  have "drop 383 em = [last em]" using assms by (cases em rule: rev_cases) auto
  then show ?thesis using py_slice_drop [of 351 383 em] by simp
qed

lemma emsa_pss_checks:
  assumes len: "length em = 384"
    and d: "d = mask_db (mgf1 (py_slice em 351 383) 351) (take 351 em)"
  shows "(last em = 0xBC \<and> take 351 em ! 0 AND 0x80 = 0 \<and> take 318 d = replicate 318 0 \<and> d ! 318 = 1 \<and>
      py_slice em 351 383 = sha256 (replicate 8 0 @ sha256 message @ drop 319 d))
    \<longleftrightarrow> (\<exists>salt. length salt = 32 \<and> em = emsa_pss message salt)" (is "?checks \<longleftrightarrow> ?encoded")
proof
  assume c: ?checks
  define salt where "salt = drop 319 d"
  define m where "m = mgf1 (py_slice em 351 383) 351"
  have ld: "length d = 351" using len by (simp add: d)
  then have "d = take 318 d @ d ! 318 # drop 319 d"
    using id_take_nth_drop [of 318 d] by simp
  then have db: "d = replicate 318 0 @ [1] @ salt" using c by (simp add: salt_def)
  have "mask_db m d = take 351 em" unfolding d m_def using c len by (intro mask_db_involutive) auto
  then have "em = emsa_pss message salt"
    using split_encoded [OF len] c unfolding emsa_pss_def Let_def db [symmetric] by (simp add: m_def salt_def)
  then show ?encoded using ld by (intro exI [of _ salt]) (simp add: salt_def)
next
  assume ?encoded
  then obtain salt where salt: "length salt = 32" "em = emsa_pss message salt" by blast
  define h where "h = sha256 (replicate 8 0 @ sha256 message @ salt)"
  define db where "db = replicate 318 0 @ [1] @ salt"
  have lh: "length h = 32" and ldb: "length db = 351" using salt(1) by (simp_all add: h_def db_def)
  have em: "em = mask_db (mgf1 h 351) db @ h @ [0xBC]" by (simp add: salt(2) emsa_pss_def Let_def h_def db_def)
  have parts: "take 351 em = mask_db (mgf1 h 351) db" "py_slice em 351 383 = h" "last em = 0xBC"
    using lh ldb by (simp_all add: em py_slice_def)
  have "db ! 0 AND 0x80 = 0" by (simp add: db_def nth_append)
  then have "d = db" unfolding d parts by (intro mask_db_involutive) (use ldb in auto)
  moreover have "take 351 em ! 0 AND 0x80 = 0" unfolding parts
    by (rule mask_db_high_bit) (use ldb in \<open>auto simp flip: length_0_conv\<close>)
  ultimately show ?checks using parts by (simp add: db_def h_def nth_append)
qed

lemma verify_ps256_accepts:
  "verify_ps256 message signature n e = Inr () \<longleftrightarrow>
     0 < n \<and> odd n \<and> bit_length (nat n) = 3072 \<and> e = 65537 \<and>
     (\<exists>s salt. signature = JStr (base64url_encode s) \<and> length s = 384 \<and> int (be_nat s) < n \<and>
        length salt = 32 \<and> to_bytes_be 384 (be_nat s ^ 65537 mod nat n) = emsa_pss message salt)"
proof (cases "0 < n \<and> odd n \<and> bit_length (nat n) = 3072 \<and> e = 65537")
  case key: True
  define em where "em s = to_bytes_be 384 (be_nat s ^ 65537 mod nat n)" for s
  define dec where "dec s = mask_db (mgf1 (py_slice (em s) 351 383) 351) (take 351 (em s))" for s
  have key': "n mod 2 = 1" using key by presburger
  have len: "length (em s) = 384" for s by (simp add: em_def)
  have "verify_ps256 message signature n e = Inr () \<longleftrightarrow>
    (\<exists>s. base64url_decode signature = Inr s \<and> length s = 384 \<and> int (be_nat s) < n \<and>
      last (em s) = 0xBC \<and> take 351 (em s) ! 0 AND 0x80 = 0 \<and> take 318 (dec s) = replicate 318 0 \<and> dec s ! 318 = 1 \<and>
      py_slice (em s) 351 383 = sha256 (replicate 8 0 @ sha256 message @ drop 319 (dec s)))"
    unfolding verify_ps256_def RSA_MODULUS_BITS_def RSA_PUBLIC_EXPONENT_def PS256_SIGNATURE_BYTES_def
      PS256_HASH_BYTES_def PS256_SALT_BYTES_def PS256_EM_BITS_def Let_def pow_mod_eq
    using key len key'
    by (simp add: bindE_eq_Inr mgf1_sha256_eq em_def [symmetric] dec_def mask_db_def) (auto simp: not_le)
  also have "\<dots> \<longleftrightarrow> (\<exists>s. base64url_decode signature = Inr s \<and> length s = 384 \<and> int (be_nat s) < n \<and>
      (\<exists>salt. length salt = 32 \<and> em s = emsa_pss message salt))"
    using emsa_pss_checks [OF len dec_def] by simp
  also have "\<dots> \<longleftrightarrow> (\<exists>s. (signature = JStr (base64url_encode s) \<and> length s = 384) \<and> int (be_nat s) < n \<and>
      (\<exists>salt. length salt = 32 \<and> em s = emsa_pss message salt))"
    by (intro ex_cong1) (auto simp: base64url_decode_iff)
  finally show ?thesis using key by (auto simp: em_def)
next
  case False
  then show ?thesis unfolding verify_ps256_def RSA_MODULUS_BITS_def RSA_PUBLIC_EXPONENT_def
    by (auto simp: even_iff_mod_2_eq_zero)
qed

text \<open>
  C6: verify_ps256 is RSASSA-PSS verification: it accepts exactly when the key is an odd
  3072-bit modulus with exponent 65537 and the signature is the base64url text of a 384-byte
  representative below the modulus whose 65537th power is the PSS encoding of the message under
  some 32-byte salt (MGF1 with SHA-256, zero padding, 0x01 delimiter, cleared top bit, 0xBC
  trailer).
\<close>

theorem verify_ps256_iff:
  "verify_ps256 message signature n e = Inr () \<longleftrightarrow>
     0 < n \<and> odd n \<and> bit_length (nat n) = 3072 \<and> e = 65537 \<and>
     (\<exists>s salt. signature = JStr (base64url_encode s) \<and> length s = 384 \<and> int (be_nat s) < n \<and>
        length salt = 32 \<and> to_bytes_be 384 (be_nat s ^ 65537 mod nat n) = emsa_pss message salt)"
  by (rule verify_ps256_accepts)

section \<open>DER is injective\<close>

lemma bit_length_bound: "n < 2 ^ bit_length n"
proof (induction n rule: bit_length.induct)
  case (1 n)
  then show ?case by (cases "n = 0") (auto simp: bit_length.simps [of n])
qed

lemma bit_length_le: "n < 2 ^ k \<Longrightarrow> bit_length n \<le> k"
proof (induction n arbitrary: k rule: bit_length.induct)
  case (1 n)
  show ?case
  proof (cases "n = 0")
    case False
    with 1(2) obtain j where "k = Suc j" by (cases k) auto
    with 1(1) [OF False, of j] 1(2) False show ?thesis by (subst bit_length.simps) auto
  qed (simp add: bit_length.simps)
qed

lemma length_minimal_bytes_le: "n < 256 ^ k \<Longrightarrow> length (to_minimal_bytes n) \<le> k"
proof -
  assume "n < 256 ^ k"
  then have "n < 2 ^ (8 * k)" by (simp add: power_mult)
  then have "bit_length n \<le> 8 * k" by (rule bit_length_le)
  then show ?thesis by (simp add: to_minimal_bytes_def)
qed

lemma be_nat_minimal_bytes [simp]: "be_nat (to_minimal_bytes n) = n"
proof -
  have "n < 2 ^ bit_length n" by (rule bit_length_bound)
  also have "\<dots> \<le> 2 ^ (8 * ((bit_length n + 7) div 8))" by (rule power_increasing) auto
  finally show ?thesis unfolding to_minimal_bytes_def by (intro be_nat_to_bytes_be) (simp add: power_mult)
qed

lemma length_byte: "k < 128 \<Longrightarrow> (0x80 :: byte) OR word_of_nat k = word_of_nat (128 + k)"
proof -
  have "list_all (\<lambda>k. (0x80 :: byte) OR word_of_nat k = word_of_nat (128 + k)) [0..<128]" by code_simp
  then show "k < 128 \<Longrightarrow> ?thesis" by (simp add: list_all_iff)
qed

lemma unat_byte_mod: "unat (word_of_nat a :: byte) = a mod 256"
  by (simp add: unsigned_of_nat take_bit_eq_mod)

lemma word_of_nat_byte_inj: "a < 256 \<Longrightarrow> b < 256 \<Longrightarrow> (word_of_nat a :: byte) = word_of_nat b \<longleftrightarrow> a = b"
  by (metis mod_less unat_byte_mod)

lemma der_length_inj:
  assumes "a < 256 ^ 127" "b < 256 ^ 127" "der_length a @ x = der_length b @ y"
  shows "a = b \<and> x = y"
proof -
  define la lb where "la = length (to_minimal_bytes a)" and "lb = length (to_minimal_bytes b)"
  have l: "la < 128" "lb < 128"
    using assms(1,2) length_minimal_bytes_le [of _ 127] by (fastforce simp: la_def lb_def)+
  have da: "der_length a = (if a < 128 then [word_of_nat a] else word_of_nat (128 + la) # to_minimal_bytes a)"
    and db: "der_length b = (if b < 128 then [word_of_nat b] else word_of_nat (128 + lb) # to_minimal_bytes b)"
    using l by (simp_all add: der_length_def Let_def length_byte la_def lb_def del: of_nat_add)
  show ?thesis
  proof (cases "a < 128 \<or> b < 128")
    case True
    with assms(3) l show ?thesis unfolding da db
      by (auto simp: word_of_nat_byte_inj simp del: of_nat_add split: if_splits)
  next
    case False
    with assms(3) l have "la = lb" and eq: "to_minimal_bytes a @ x = to_minimal_bytes b @ y" unfolding da db
      by (auto simp: word_of_nat_byte_inj simp del: of_nat_add)
    then have "to_minimal_bytes a = to_minimal_bytes b" "x = y" by (simp_all add: la_def lb_def)
    then show ?thesis by (metis be_nat_minimal_bytes)
  qed
qed

lemma small_length: "n \<le> 1000000 \<Longrightarrow> n < (256 :: nat) ^ 127"
proof (rule le_less_trans)
  have "(1000000 :: nat) < 256 ^ 3" by simp
  also have "(256 :: nat) ^ 3 \<le> 256 ^ 127" by (rule power_increasing) simp_all
  finally show "1000000 < (256 :: nat) ^ 127" .
qed

lemma der_tlv_inj:
  assumes "length v \<le> 1000000" "length w \<le> 1000000" "der_tlv t v @ x = der_tlv t w @ y"
  shows "v = w \<and> x = y"
  using assms der_length_inj [of "length v" "length w" "v @ x" "w @ y"] by (auto simp: der_tlv_def small_length)

lemma der_tlv_cancel:
  "length v \<le> 1000000 \<Longrightarrow> length w \<le> 1000000 \<Longrightarrow> der_tlv t v = der_tlv t w \<Longrightarrow> v = w"
  using der_tlv_inj [of v w t "[]" "[]"] by simp

lemma length_der_tlv: "length v \<le> k \<Longrightarrow> k \<le> 1000000 \<Longrightarrow> length (der_tlv t v) \<le> k + 129"
  using length_minimal_bytes_le [of "length v" 127] small_length [of "length v"]
  by (auto simp: der_tlv_def der_length_def Let_def)

lemma der_integer_form:
  assumes "der_integer n = Inr v" "n < 256 ^ 512"
  obtains c where "v = der_tlv 0x02 c" "be_nat c = n" "length c \<le> 513"
proof -
  define m where "m = to_minimal_bytes n"
  define c where "c = (if m ! 0 AND 0x80 \<noteq> 0 then [0] @ m else m)"
  have "v = der_tlv 0x02 c" using assms(1) by (simp add: der_integer_def Let_def c_def m_def split: if_splits)
  moreover have "be_nat ([0] @ m) = be_nat m" unfolding be_nat_append by (simp add: be_nat_def)
  then have "be_nat c = n" by (simp add: c_def m_def)
  moreover have "length c \<le> 513" using length_minimal_bytes_le [OF assms(2)] by (simp add: c_def m_def)
  ultimately show ?thesis by (rule that)
qed

definition spki_of :: "bytes \<Rightarrow> bytes \<Rightarrow> bytes" where
  "spki_of a b = der_tlv 0x30 (rsa_encryption_algorithm @ der_tlv 0x03 ([0] @ der_tlv 0x30 (der_tlv 0x02 a @ der_tlv 0x02 b)))"

lemma spki_of_inj:
  assumes len: "length a \<le> 513" "length b \<le> 513" "length c \<le> 513" "length d \<le> 513"
    and eq: "spki_of a b = spki_of c d"
  shows "a = c \<and> b = d"
proof -
  define key where "key v w = der_tlv 0x02 v @ der_tlv 0x02 w" for v w
  define bits where "bits v w = [0] @ der_tlv 0x30 (key v w)" for v w
  define info where "info v w = rsa_encryption_algorithm @ der_tlv 0x03 (bits v w)" for v w
  have key: "length (key v w) \<le> 1284" if "length v \<le> 513" "length w \<le> 513" for v w
    using length_der_tlv [OF that(1), of 2] length_der_tlv [OF that(2), of 2] by (simp add: key_def)
  have bits: "length (bits v w) \<le> 1414" if "length v \<le> 513" "length w \<le> 513" for v w
    using length_der_tlv [OF key [OF that], of 48] by (simp add: bits_def)
  have info: "length (info v w) \<le> 1558" if "length v \<le> 513" "length w \<le> 513" for v w
    using length_der_tlv [OF bits [OF that], of 3] by (simp add: info_def rsa_encryption_algorithm_def)
  have l: "length (key a b) \<le> 1000000" "length (key c d) \<le> 1000000" "length (bits a b) \<le> 1000000"
    "length (bits c d) \<le> 1000000" "length (info a b) \<le> 1000000" "length (info c d) \<le> 1000000"
    using key [of a b] key [of c d] bits [of a b] bits [of c d] info [of a b] info [of c d] len by linarith+
  have "info a b = info c d"
    using der_tlv_cancel [OF l(5,6)] eq by (simp add: spki_of_def info_def bits_def key_def)
  then have "bits a b = bits c d" using der_tlv_cancel [OF l(3,4)] by (simp add: info_def)
  then have "key a b = key c d" using der_tlv_cancel [OF l(1,2)] by (simp add: bits_def)
  then have ac: "a = c \<and> der_tlv 0x02 b = der_tlv 0x02 d"
    using len unfolding key_def by (intro der_tlv_inj) auto
  moreover have "b = d" using ac len by (intro der_tlv_cancel [of b d 2]) auto
  ultimately show ?thesis by blast
qed

lemma rsa_spki_form:
  assumes "rsa_spki n e = Inr spki" "n < 256 ^ 512" "e < 256 ^ 512"
  obtains a b where "spki = spki_of a b" "be_nat a = n" "be_nat b = e" "length a \<le> 513" "length b \<le> 513"
proof -
  obtain v w where v: "der_integer n = Inr v" and w: "der_integer e = Inr w"
    and s: "spki = der_tlv 0x30 (rsa_encryption_algorithm @ der_tlv 0x03 ([0] @ der_tlv 0x30 (v @ w)))"
    using assms(1) by (auto simp: rsa_spki_def Let_def res_simps)
  obtain a where a: "v = der_tlv 0x02 a" "be_nat a = n" "length a \<le> 513" by (rule der_integer_form [OF v assms(2)])
  obtain b where b: "w = der_tlv 0x02 b" "be_nat b = e" "length b \<le> 513" by (rule der_integer_form [OF w assms(3)])
  show ?thesis by (rule that [of a b]) (use a b s in \<open>simp_all add: spki_of_def\<close>)
qed

lemma rsa_spki_inj:
  assumes "rsa_spki n e = Inr spki" "rsa_spki n' e' = Inr spki"
    and "n < 256 ^ 512" "e < 256 ^ 512" "n' < 256 ^ 512" "e' < 256 ^ 512"
  shows "n = n' \<and> e = e'"
proof -
  obtain a b where 1: "spki = spki_of a b" "be_nat a = n" "be_nat b = e" "length a \<le> 513" "length b \<le> 513"
    by (rule rsa_spki_form [OF assms(1,3,4)])
  obtain c d where 2: "spki = spki_of c d" "be_nat c = n'" "be_nat d = e'" "length c \<le> 513" "length d \<le> 513"
    by (rule rsa_spki_form [OF assms(2,5,6)])
  show ?thesis using spki_of_inj [of a b c d] 1 2 by simp
qed

section \<open>Accepted policies\<close>

lemma base64url_decode_raises: "raises_only is_raw_error (base64url_decode v)"
  by (auto simp: base64url_decode_def Let_def split: json.splits option.splits)

lemma require_exact_json_value_raises: "raises_only is_raw_error (require_exact_json_value v e)"
  by (induction v e rule: require_exact_json_value.induct)
    (auto intro!: raises_intros split: json.splits)

lemma canonical_json_raises: "raises_only is_raw_error (canonical_json v)"
  by (auto simp: canonical_json_def intro!: raises_intros)

definition is_policy_error :: "exn \<Rightarrow> bool" where
  "is_policy_error e = (is_raw_error e \<or> e = TypeError ''unhashable type: list'' \<or> e = TypeError ''unhashable type: dict'')"

lemma raises_only_policy: "raises_only is_raw_error m \<Longrightarrow> raises_only is_policy_error m"
  by (cases m) (auto simp: is_policy_error_def)

lemma rsa_spki_sha256_raises: "raises_only is_raw_error (rsa_spki_sha256 n e)"
  unfolding rsa_spki_sha256_def rsa_spki_def der_integer_def Let_def by (intro raises_intros) simp_all

lemma attestation_format_of_raises: "raises_only is_policy_error (attestation_format_of v)"
  by (auto simp: attestation_format_of_def is_policy_error_def split: json.splits)

lemma policy_configured_raises: "raises_only is_policy_error (policy_configured v d b)"
  unfolding policy_configured_def policy_constants_def policy_key_def policy_digests_def Let_def
  by (intro raises_intros attestation_format_of_raises
      raises_only_policy [OF exact_object_raises] raises_only_policy [OF require_exact_json_value_raises]
      raises_only_policy [OF canonical_json_raises] raises_only_policy [OF require_kms_key_version_raises]
      raises_only_policy [OF base64url_decode_raises] raises_only_policy [OF require_sha256_raises]
      raises_only_policy [OF rsa_spki_sha256_raises] raises_only_policy [OF require_identifier_raises])
    (simp_all add: is_policy_error_def)

lemma policy_not_configured_raises: "raises_only is_raw_error (policy_not_configured v)"
  unfolding policy_not_configured_def
  by (intro raises_intros exact_object_raises bounded_text_raises) simp_all

lemma parse_trust_policy_bytes_raises:
  "raises_only is_policy_error (parse_trust_policy_bytes data pin pinned)"
  unfolding parse_trust_policy_bytes_def
  by (intro raises_intros policy_configured_raises raises_only_policy [OF policy_not_configured_raises]
      raises_only_policy [OF canonical_json_raises] raises_only_policy [OF require_sha256_raises]
      raises_only_policy [OF load_json_bytes_raises]) (simp_all add: is_policy_error_def)

lemma attestation_format_of_ok: "attestation_format_of v = Inr s \<longleftrightarrow> v = JStr s \<and> s \<in> set KMS_ATTESTATION_FORMATS"
  by (auto simp: attestation_format_of_def split: json.splits)

lemma policy_configured_elim:
  assumes "policy_configured v d b = Inr p"
  obtains policy profile checked profile_bytes constants format key n e pk att cv cs ce where
    "exact_object v POLICY_FIELDS = Inr policy"
    "\<not> (field policy ''schema_version'' \<noteq> JInt 3 \<or> field policy ''state'' \<noteq> JStr (u ''configured''))"
    "exact_object (field policy ''evidence_profile'') EVIDENCE_PROFILE_FIELDS = Inr profile"
    "require_exact_json_value (JObj profile) EVIDENCE_PROFILE = Inr checked"
    "canonical_json (JObj profile) = Inr profile_bytes" "policy_constants policy = Inr constants"
    "attestation_format_of (field policy ''attestation_format'') = Inr format"
    "require_kms_key_version (field policy ''key_version'') = Inr key"
    "policy_key policy = Inr (n, e)" "policy_digests policy n e = Inr (pk, att)"
    "require_identifier (field policy ''collector_version'') = Inr cv"
    "require_sha256 (field policy ''collector_source_sha256'') = Inr cs"
    "require_sha256 (field policy ''collector_executable_sha256'') = Inr ce"
    "p = \<lparr>tp_policy_sha256 = d, tp_key_version = key, tp_attestation_format = format,
       tp_public_key_sha256 = pk, tp_attestation_sha256 = att, tp_modulus = n, tp_exponent = e,
       tp_collector_version = cv, tp_collector_source_sha256 = cs, tp_collector_executable_sha256 = ce,
       tp_evidence_profile_sha256 = u (sha256_hex profile_bytes), tp_evidence_profile = profile,
       tp_release_source_pinned = b\<rparr>"
  using assms unfolding policy_configured_def res_simps sum.inject
  by (elim exE conjE, hypsubst) (rule that; (assumption | rule refl))

lemma trust_policy_bytes_elim:
  assumes "parse_trust_policy_bytes data pin pinned = Inr p"
  obtains ms canonical where "pin = JStr (u (sha256_hex data))" "load_json_bytes data = Inr (JObj ms)"
    "canonical_json (JObj ms) = Inr canonical" "data = canonical @ [10]"
    "policy_configured (JObj ms) (u (sha256_hex data)) pinned = Inr p"
proof -
  have "policy_not_configured v \<noteq> Inr p" for v
    unfolding policy_not_configured_def by (simp add: bindE_eq_Inr)
  then show ?thesis using assms that unfolding parse_trust_policy_bytes_def
    by (auto simp: res_simps require_ok split: if_splits simp del: u_simps)
qed

lemma policy_key_ok:
  assumes "policy_key policy = Inr (n, e)"
  shows "odd n" "bit_length n = 3072" "e = 65537"
  using assms unfolding policy_key_def RSA_MODULUS_BITS_def RSA_PUBLIC_EXPONENT_def
  by (auto simp: res_simps Let_def even_iff_mod_2_eq_zero)

lemma policy_digests_ok:
  assumes "policy_digests policy n e = Inr (pk, att)"
  shows "\<exists>spki. rsa_spki n e = Inr spki \<and> pk = u (sha256_hex spki)" "att \<noteq> pk" "SHA256_RE att"
  using assms unfolding policy_digests_def rsa_spki_sha256_def by (auto simp: res_simps require_ok)

lemma trust_policy_accepted:
  assumes "parse_trust_policy_bytes data pin pinned = Inr p"
  shows "pin = JStr (u (sha256_hex data))" "tp_policy_sha256 p = u (sha256_hex data)"
    "odd (tp_modulus p)" "bit_length (tp_modulus p) = 3072" "tp_exponent p = 65537"
    "\<exists>spki. rsa_spki (tp_modulus p) (tp_exponent p) = Inr spki \<and> tp_public_key_sha256 p = u (sha256_hex spki)"
    "tp_attestation_sha256 p \<noteq> tp_public_key_sha256 p"
    "\<exists>ms bytes. load_json_bytes data = Inr (JObj ms) \<and> canonical_json (JObj ms) = Inr bytes \<and> data = bytes @ [10]"
proof -
  obtain ms canonical where b: "pin = JStr (u (sha256_hex data))" "load_json_bytes data = Inr (JObj ms)"
    "canonical_json (JObj ms) = Inr canonical" "data = canonical @ [10]"
    "policy_configured (JObj ms) (u (sha256_hex data)) pinned = Inr p"
    by (rule trust_policy_bytes_elim [OF assms])
  show "pin = JStr (u (sha256_hex data))" by (rule b)
  show "\<exists>ms bytes. load_json_bytes data = Inr (JObj ms) \<and> canonical_json (JObj ms) = Inr bytes \<and> data = bytes @ [10]"
    using b(2-4) by blast
  show "tp_policy_sha256 p = u (sha256_hex data)" "odd (tp_modulus p)" "bit_length (tp_modulus p) = 3072" "tp_exponent p = 65537"
    "\<exists>spki. rsa_spki (tp_modulus p) (tp_exponent p) = Inr spki \<and> tp_public_key_sha256 p = u (sha256_hex spki)"
    "tp_attestation_sha256 p \<noteq> tp_public_key_sha256 p"
    by (rule policy_configured_elim [OF b(5)], use policy_key_ok policy_digests_ok in force)+
qed

lemma trust_policy_key_bound:
  assumes "parse_trust_policy_bytes data pin pinned = Inr p"
  shows "tp_modulus p < 256 ^ 512"
proof -
  have "tp_modulus p < 2 ^ 3072" using bit_length_bound [of "tp_modulus p"] trust_policy_accepted(4) [OF assms] by simp
  also have "\<dots> \<le> 2 ^ (8 * 512)" by (rule power_increasing) auto
  finally show ?thesis by (simp add: power_mult)
qed

theorem trust_policy_key_unique:
  assumes "parse_trust_policy_bytes data pin pinned = Inr p" "parse_trust_policy_bytes data' pin' pinned' = Inr p'"
    and "tp_public_key_sha256 p = tp_public_key_sha256 p'"
    and "\<And>spki spki'. rsa_spki (tp_modulus p) 65537 = Inr spki \<Longrightarrow> rsa_spki (tp_modulus p') 65537 = Inr spki' \<Longrightarrow>
      sha256_hex spki = sha256_hex spki' \<Longrightarrow> spki = spki'"
  shows "tp_modulus p = tp_modulus p'"
proof -
  note a = trust_policy_accepted [OF assms(1)] and b = trust_policy_accepted [OF assms(2)]
  obtain spki where s: "rsa_spki (tp_modulus p) 65537 = Inr spki" "tp_public_key_sha256 p = u (sha256_hex spki)"
    using a(5,6) by auto
  obtain spki' where s': "rsa_spki (tp_modulus p') 65537 = Inr spki'" "tp_public_key_sha256 p' = u (sha256_hex spki')"
    using b(5,6) by auto
  have "spki = spki'" using assms(3,4) s s' by (metis u_inj)
  moreover have "(65537 :: nat) < 256 ^ 512"
    by (rule less_le_trans [of _ "256 ^ 3"]) (simp, rule power_increasing, auto)
  ultimately show ?thesis
    using rsa_spki_inj [OF s(1) s'(1) [folded \<open>spki = spki'\<close>]] trust_policy_key_bound [OF assms(1)]
      trust_policy_key_bound [OF assms(2)] by blast
qed

text \<open>
  C31: A trust policy that parse_trust_policy_bytes accepts is the canonical document with the
  pinned digest, its key passes every key check of verify_ps256 so that signature verification
  under it is exactly PSS verification, its public-key digest is that of the DER encoding of its
  own key, and its attestation digest is not the key digest.
\<close>

theorem trust_policy_verifies:
  assumes "parse_trust_policy_bytes data pin pinned = Inr p"
  shows "(verify_ps256 message signature (int (tp_modulus p)) (int (tp_exponent p)) = Inr () \<longleftrightarrow>
       (\<exists>s salt. signature = JStr (base64url_encode s) \<and> length s = 384 \<and> be_nat s < tp_modulus p \<and>
          length salt = 32 \<and> to_bytes_be 384 (be_nat s ^ 65537 mod tp_modulus p) = emsa_pss message salt))
    \<and> (\<exists>spki. rsa_spki (tp_modulus p) (tp_exponent p) = Inr spki \<and> tp_public_key_sha256 p = u (sha256_hex spki))
    \<and> tp_attestation_sha256 p \<noteq> tp_public_key_sha256 p \<and> pin = JStr (u (sha256_hex data))
    \<and> (\<exists>ms bytes. load_json_bytes data = Inr (JObj ms) \<and> canonical_json (JObj ms) = Inr bytes \<and> data = bytes @ [10])"
proof -
  note a = trust_policy_accepted [OF assms]
  have "0 < tp_modulus p" using a(3) by (cases "tp_modulus p") auto
  then have "verify_ps256 message signature (int (tp_modulus p)) (int (tp_exponent p)) = Inr () \<longleftrightarrow>
     (\<exists>s salt. signature = JStr (base64url_encode s) \<and> length s = 384 \<and> be_nat s < tp_modulus p \<and>
        length salt = 32 \<and> to_bytes_be 384 (be_nat s ^ 65537 mod tp_modulus p) = emsa_pss message salt)"
    using a(3-5) by (simp add: verify_ps256_accepts)
  with a show ?thesis by blast
qed

theorem parse_trust_policy_bytes_raises_only:
  "raises_only is_policy_error (parse_trust_policy_bytes data pin pinned)"
  by (rule parse_trust_policy_bytes_raises)

end
