(* ===== verification/Artifact_Reader.thy ===== *)
theory Artifact_Reader
  imports Collector_Signature
begin

text \<open>
  \<open>ArtifactReader\<close> of \<open>scripts/harness/raw_artifacts.py\<close>: opening descriptors below one evidence root,
  the accounting of what has been accepted, and the final rescan. What the operating system answers
  (metadata, chunks read, failed opens) is an argument of every operation, so each theorem holds for
  files that another process changes, replaces or truncates between any two calls.
\<close>

unbundle bit_operations_syntax

section \<open>The operating system's answers\<close>

record stat_result =
  st_dev :: int
  st_ino :: int
  st_mode :: nat
  st_nlink :: int
  st_size :: int
  st_mtime_ns :: int

definition S_ISREG :: "nat \<Rightarrow> bool" where "S_ISREG mode = (mode AND 0xF000 = 0x8000)"
definition S_ISDIR :: "nat \<Rightarrow> bool" where "S_ISDIR mode = (mode AND 0xF000 = 0x4000)"

type_synonym identity = "int \<times> int \<times> nat \<times> int \<times> int \<times> int"

definition stat_identity :: "stat_result \<Rightarrow> identity" where
  "stat_identity m = (st_dev m, st_ino m, st_mode m, st_nlink m, st_size m, st_mtime_ns m)"

text \<open>
  The answers to the two \<open>stat\<close> calls of \<open>_check_root_path\<close>, and to the calls that read one file: the
  metadata of the opened file (or a failed open), the chunks \<open>os.read\<close> returns (\<open>None\<close> is a
  \<open>BlockingIOError\<close>, the end of the list the end of the file), the metadata after reading, and the
  metadata of the path when it is opened again.
\<close>

record root_answers =
  ra_path_stat :: "stat_result option"
  ra_fd_stat :: stat_result

record file_answers =
  fa_root_before :: root_answers
  fa_opened :: "stat_result option"
  fa_chunks :: "bytes option list"
  fa_after :: stat_result
  fa_reopened :: "stat_result option"
  fa_root_after :: root_answers

section \<open>The reader\<close>

definition MAX_ARTIFACT_COUNT :: nat where "MAX_ARTIFACT_COUNT = 543"
definition MAX_TOTAL_ARTIFACT_BYTES :: int where "MAX_TOTAL_ARTIFACT_BYTES = 256 * 1024 * 1024"

record artifact_snapshot =
  as_descriptor :: artifact_descriptor
  as_identity :: identity

record artifact_reader =
  rd_root_identity :: "(int \<times> int) option"
  rd_seen_paths :: "ustr list"
  rd_seen_digests :: "ustr list"
  rd_artifact_count :: nat
  rd_total_bytes :: int
  rd_snapshots :: "artifact_snapshot list"

definition new_reader :: artifact_reader where
  "new_reader = \<lparr>rd_root_identity = None, rd_seen_paths = [], rd_seen_digests = [], rd_artifact_count = 0,
     rd_total_bytes = 0, rd_snapshots = []\<rparr>"

text \<open>\<open>__enter__\<close>; the argument is the metadata of the opened root, if it can be opened.\<close>

definition reader_enter :: "stat_result option \<Rightarrow> artifact_reader \<Rightarrow> artifact_reader res" where
  "reader_enter opened rd =
     (case opened of
        None \<Rightarrow> Inl (RawArtifactError ''evidence root is not an openable non-symlink directory'')
      | Some metadata \<Rightarrow>
          if \<not> S_ISDIR (st_mode metadata) then Inl (RawArtifactError ''evidence root is not a directory'')
          else Inr (rd\<lparr>rd_root_identity := Some (st_dev metadata, st_ino metadata)\<rparr>))"

definition check_root_path :: "root_answers \<Rightarrow> artifact_reader \<Rightarrow> unit res" where
  "check_root_path answers rd =
     (case rd_root_identity rd of
        None \<Rightarrow> Inl (RawArtifactError ''artifact reader is not open'')
      | Some anchor \<Rightarrow>
          (case ra_path_stat answers of
             None \<Rightarrow> Inl (RawArtifactError ''evidence root path drifted during verification'')
           | Some metadata \<Rightarrow>
               if \<not> S_ISDIR (st_mode metadata) \<or> (st_dev metadata, st_ino metadata) \<noteq> anchor then
                 Inl (RawArtifactError ''evidence root path drifted during verification'')
               else if (st_dev (ra_fd_stat answers), st_ino (ra_fd_stat answers)) \<noteq> anchor then
                 Inl (RawArtifactError ''evidence root descriptor drifted during verification'')
               else Inr ()))"

definition open_relative :: "stat_result option \<Rightarrow> stat_result res" where
  "open_relative opened =
     (case opened of
        None \<Rightarrow> Inl (RawArtifactError ''artifact path cannot be opened without following links: {}'')
      | Some metadata \<Rightarrow> Inr metadata)"

text \<open>\<open>os.read\<close> returns at most the bytes asked for.\<close>

fun read_chunks :: "bytes option list \<Rightarrow> nat \<Rightarrow> bytes res" where
  "read_chunks [] remaining = Inr []"
| "read_chunks (answer # answers) remaining =
     (if remaining = 0 then Inr []
      else case answer of
        None \<Rightarrow> Inl (RawArtifactError ''artifact read would block'')
      | Some available \<Rightarrow>
          let chunk = take (min (1024 * 1024) remaining) available in
          if chunk = [] then Inr []
          else bindE (read_chunks answers (remaining - length chunk)) (\<lambda>rest. Inr (chunk @ rest)))"

definition read_fd :: "bytes option list \<Rightarrow> nat \<Rightarrow> bytes res" where
  "read_fd answers maximum = read_chunks answers (maximum + 1)"

definition reader_read ::
  "file_answers \<Rightarrow> artifact_reader \<Rightarrow> json \<Rightarrow> ustr list \<Rightarrow> ((artifact_descriptor \<times> bytes) \<times> artifact_reader) res" where
  "reader_read os rd value expected_kinds =
     bindE (parse_descriptor value expected_kinds) (\<lambda>descriptor.
     if ad_path descriptor \<in> set (rd_seen_paths rd) then Inl (RawArtifactError ''{} reuses artifact path {}'')
     else if ad_sha256 descriptor \<in> set (rd_seen_digests rd) then
       Inl (RawArtifactError ''{} reuses artifact bytes already bound'')
     else if rd_artifact_count rd + 1 > MAX_ARTIFACT_COUNT then
       Inl (RawArtifactError ''artifact count exceeds the global bound'')
     else if rd_total_bytes rd + ad_size descriptor > MAX_TOTAL_ARTIFACT_BYTES then
       Inl (RawArtifactError ''artifact bytes exceed the global bound'')
     else
       bindE (check_root_path (fa_root_before os) rd) (\<lambda>_.
       bindE (open_relative (fa_opened os)) (\<lambda>before.
       if \<not> S_ISREG (st_mode before) then Inl (RawArtifactError ''{} is not a regular file'')
       else if st_nlink before \<noteq> 1 then Inl (RawArtifactError ''{} is a hard-linked file'')
       else if st_size before \<noteq> ad_size descriptor then
         Inl (RawArtifactError ''{}.size does not match the reopened artifact'')
       else
         bindE (read_fd (fa_chunks os) (nat (ad_size descriptor))) (\<lambda>data.
         if stat_identity before \<noteq> stat_identity (fa_after os) then
           Inl (RawArtifactError ''{} changed while it was being read'')
         else if int (length data) \<noteq> ad_size descriptor then
           Inl (RawArtifactError ''{} byte count drifted while it was being read'')
         else if u (sha256_hex data) \<noteq> ad_sha256 descriptor then
           Inl (RawArtifactError ''{}.sha256 does not match the reopened artifact'')
         else
           bindE (open_relative (fa_reopened os)) (\<lambda>reopened.
           if stat_identity before \<noteq> stat_identity reopened then
             Inl (RawArtifactError ''{} path drifted while it was being verified'')
           else
             bindE (check_root_path (fa_root_after os) rd) (\<lambda>_.
             Inr ((descriptor, data),
               rd\<lparr>rd_seen_paths := rd_seen_paths rd @ [ad_path descriptor],
                  rd_seen_digests := rd_seen_digests rd @ [ad_sha256 descriptor],
                  rd_artifact_count := rd_artifact_count rd + 1,
                  rd_total_bytes := rd_total_bytes rd + ad_size descriptor,
                  rd_snapshots := rd_snapshots rd @
                    [\<lparr>as_descriptor = descriptor, as_identity = stat_identity before\<rparr>]\<rparr>)))))))"

definition reader_read_json ::
  "file_answers \<Rightarrow> artifact_reader \<Rightarrow> json \<Rightarrow> ustr \<Rightarrow> (artifact_descriptor \<times> json) res \<times> artifact_reader" where
  "reader_read_json os rd value expected_kind =
     (case reader_read os rd value [expected_kind] of
        Inl e \<Rightarrow> (Inl e, rd)
      | Inr ((descriptor, data), rd') \<Rightarrow>
          (bindE (load_json_bytes data) (\<lambda>document. Inr (descriptor, document)), rd'))"

definition revalidate_snapshot :: "file_answers \<Rightarrow> artifact_reader \<Rightarrow> artifact_snapshot \<Rightarrow> unit res" where
  "revalidate_snapshot os rd snapshot =
     (let descriptor = as_descriptor snapshot in
      bindE (check_root_path (fa_root_before os) rd) (\<lambda>_.
      bindE (open_relative (fa_opened os)) (\<lambda>before.
      if \<not> S_ISREG (st_mode before) \<or> st_nlink before \<noteq> 1 then
        Inl (RawArtifactError ''{} is no longer a regular single-link file'')
      else if stat_identity before \<noteq> as_identity snapshot then
        Inl (RawArtifactError ''{} identity drifted after its initial verification'')
      else
        bindE (read_fd (fa_chunks os) (nat (ad_size descriptor))) (\<lambda>data.
        if stat_identity before \<noteq> stat_identity (fa_after os) then
          Inl (RawArtifactError ''{} changed during its final verification'')
        else if int (length data) \<noteq> ad_size descriptor then
          Inl (RawArtifactError ''{} byte count drifted after its initial verification'')
        else if u (sha256_hex data) \<noteq> ad_sha256 descriptor then
          Inl (RawArtifactError ''{} bytes drifted after its initial verification'')
        else
          bindE (open_relative (fa_reopened os)) (\<lambda>reopened.
          if stat_identity reopened \<noteq> as_identity snapshot then
            Inl (RawArtifactError ''{} path drifted during its final verification'')
          else check_root_path (fa_root_after os) rd)))))"

text \<open>The rescan order: the snapshot of \<open>final_path\<close>, if one is named, comes last.\<close>

fun split_final :: "ustr option \<Rightarrow> artifact_snapshot list \<Rightarrow> artifact_snapshot option \<Rightarrow> artifact_snapshot list \<Rightarrow>
    (artifact_snapshot option \<times> artifact_snapshot list) res" where
  "split_final final_path [] final ordered = Inr (final, ordered)"
| "split_final final_path (s # ss) final ordered =
     (if final_path = Some (ad_path (as_descriptor s)) then
        (if final \<noteq> None then Inl (RawArtifactError ''final artifact path was accepted more than once'')
         else split_final final_path ss (Some s) ordered)
      else split_final final_path ss final (ordered @ [s]))"

definition rescan_order :: "ustr option \<Rightarrow> artifact_reader \<Rightarrow> artifact_snapshot list res" where
  "rescan_order final_path rd =
     (if rd_snapshots rd = [] then
        Inl (RawArtifactError ''artifact reader has no accepted objects to revalidate'')
      else bindE (split_final final_path (rd_snapshots rd) None []) (\<lambda>(final, ordered).
        if final_path \<noteq> None \<and> final = None then
          Inl (RawArtifactError ''final artifact path was not accepted by this reader'')
        else Inr (ordered @ (case final of Some s \<Rightarrow> [s] | None \<Rightarrow> []))))"

text \<open>One list of answers per snapshot of the rescan order.\<close>

fun revalidate_all :: "file_answers list \<Rightarrow> artifact_reader \<Rightarrow> artifact_snapshot list \<Rightarrow> unit res" where
  "revalidate_all answers rd [] = Inr ()"
| "revalidate_all (os # answers) rd (s # ss) =
     bindE (revalidate_snapshot os rd s) (\<lambda>_. revalidate_all answers rd ss)"
| "revalidate_all [] rd (s # ss) = Inl (RawArtifactError ''artifact path cannot be opened without following links: {}'')"

definition verify_all_unchanged :: "file_answers list \<Rightarrow> artifact_reader \<Rightarrow> ustr option \<Rightarrow> unit res" where
  "verify_all_unchanged answers rd final_path =
     bindE (rescan_order final_path rd) (\<lambda>ordered. revalidate_all answers rd ordered)"

section \<open>Standalone files\<close>

text \<open>
  \<open>_read_regular_absolute\<close> opens one absolute path; the answers about a root directory are not used.
\<close>

definition read_regular_absolute :: "file_answers \<Rightarrow> nat \<Rightarrow> bytes res" where
  "read_regular_absolute os maximum =
     (case fa_opened os of
        None \<Rightarrow> Inl (RawArtifactError ''input is not an openable non-symlink file'')
      | Some before \<Rightarrow>
          if \<not> S_ISREG (st_mode before) \<or> st_nlink before \<noteq> 1 then
            Inl (RawArtifactError ''input must be a regular, single-link file'')
          else if st_size before < 1 \<or> st_size before > int maximum then
            Inl (RawArtifactError ''input size is outside the accepted range'')
          else bindE (read_fd (fa_chunks os) maximum) (\<lambda>data.
            if stat_identity before \<noteq> stat_identity (fa_after os) \<or> int (length data) \<noteq> st_size before then
              Inl (RawArtifactError ''input changed while it was being read'')
            else case fa_reopened os of
              None \<Rightarrow> Inl (RawArtifactError ''regular input path drifted while it was being read'')
            | Some reopened \<Rightarrow>
                if stat_identity before \<noteq> stat_identity reopened then
                  Inl (RawArtifactError ''regular input path drifted while it was being read'')
                else Inr data))"

definition load_json_file :: "file_answers \<Rightarrow> nat \<Rightarrow> json res" where
  "load_json_file os maximum = bindE (read_regular_absolute os maximum) load_json_bytes"

definition RELEASE_TRUST_POLICY_SHA256 :: ustr where
  "RELEASE_TRUST_POLICY_SHA256 = u ''e95c2710371b3ba6f6899cb24fcbdc42038869934b1c89ddca651bd910601355''"

definition load_release_trust_policy :: "file_answers \<Rightarrow> collector_trust_policy res" where
  "load_release_trust_policy os =
     bindE (read_regular_absolute os MAX_TRUST_POLICY_BYTES) (\<lambda>data.
       parse_trust_policy_bytes data (JStr RELEASE_TRUST_POLICY_SHA256) True)"

section \<open>What the reader has accepted\<close>

definition snapshot_paths :: "artifact_reader \<Rightarrow> ustr list" where
  "snapshot_paths rd = map (\<lambda>s. ad_path (as_descriptor s)) (rd_snapshots rd)"

definition snapshot_digests :: "artifact_reader \<Rightarrow> ustr list" where
  "snapshot_digests rd = map (\<lambda>s. ad_sha256 (as_descriptor s)) (rd_snapshots rd)"

definition snapshot_bytes :: "artifact_reader \<Rightarrow> int" where
  "snapshot_bytes rd = sum_list (map (\<lambda>s. ad_size (as_descriptor s)) (rd_snapshots rd))"

definition reader_inv :: "artifact_reader \<Rightarrow> bool" where
  "reader_inv rd = (rd_seen_paths rd = snapshot_paths rd \<and> distinct (snapshot_paths rd)
     \<and> rd_seen_digests rd = snapshot_digests rd \<and> distinct (snapshot_digests rd)
     \<and> rd_artifact_count rd = length (rd_snapshots rd) \<and> rd_artifact_count rd \<le> MAX_ARTIFACT_COUNT
     \<and> rd_total_bytes rd = snapshot_bytes rd \<and> rd_total_bytes rd \<le> MAX_TOTAL_ARTIFACT_BYTES)"

lemma reader_read_elim:
  assumes "reader_read os rd value kinds = Inr (r, rd')"
  obtains d data before reopened unit1 unit2 where "r = (d, data)"
    "parse_descriptor value kinds = Inr d" "ad_path d \<notin> set (rd_seen_paths rd)"
    "ad_sha256 d \<notin> set (rd_seen_digests rd)" "\<not> rd_artifact_count rd + 1 > MAX_ARTIFACT_COUNT"
    "\<not> rd_total_bytes rd + ad_size d > MAX_TOTAL_ARTIFACT_BYTES"
    "check_root_path (fa_root_before os) rd = Inr unit1" "open_relative (fa_opened os) = Inr before"
    "S_ISREG (st_mode before)" "st_nlink before = 1" "st_size before = ad_size d"
    "read_fd (fa_chunks os) (nat (ad_size d)) = Inr data" "stat_identity before = stat_identity (fa_after os)"
    "int (length data) = ad_size d" "u (sha256_hex data) = ad_sha256 d"
    "open_relative (fa_reopened os) = Inr reopened" "stat_identity before = stat_identity reopened"
    "check_root_path (fa_root_after os) rd = Inr unit2"
    "rd' = rd\<lparr>rd_seen_paths := rd_seen_paths rd @ [ad_path d],
        rd_seen_digests := rd_seen_digests rd @ [ad_sha256 d],
        rd_artifact_count := rd_artifact_count rd + 1,
        rd_total_bytes := rd_total_bytes rd + ad_size d,
        rd_snapshots := rd_snapshots rd @ [\<lparr>as_descriptor = d, as_identity = stat_identity before\<rparr>]\<rparr>"
  using assms unfolding reader_read_def res_simps sum.inject prod.inject not_not
  by (elim exE conjE, hypsubst) (rule that; (assumption | rule refl))

lemma reader_enter_inv: "reader_enter opened new_reader = Inr rd \<Longrightarrow> reader_inv rd \<and> rd_snapshots rd = []"
  by (auto simp: reader_enter_def new_reader_def reader_inv_def snapshot_paths_def snapshot_digests_def
      snapshot_bytes_def MAX_TOTAL_ARTIFACT_BYTES_def split: option.splits if_splits)

lemma reader_read_inv: "reader_read os rd value kinds = Inr (r, rd') \<Longrightarrow> reader_inv rd \<Longrightarrow> reader_inv rd'"
  by (erule reader_read_elim)
    (auto simp: reader_inv_def snapshot_paths_def snapshot_digests_def snapshot_bytes_def)

text \<open>
  A run of a reader: it is opened, then any number of \<open>read\<close> calls succeed, the accepted descriptors
  and bytes collected in order. A call that raises leaves the reader as it was.
\<close>

inductive reader_run :: "artifact_reader \<Rightarrow> (artifact_descriptor \<times> bytes) list \<Rightarrow> bool" where
  opened: "reader_enter opened new_reader = Inr rd \<Longrightarrow> reader_run rd []"
| accepted: "reader_run rd acc \<Longrightarrow> reader_read os rd value kinds = Inr (r, rd') \<Longrightarrow> reader_run rd' (acc @ [r])"

lemma reader_run_inv: "reader_run rd acc \<Longrightarrow> reader_inv rd"
  by (induction rule: reader_run.induct) (auto dest: reader_enter_inv reader_read_inv)

lemma reader_run_accepted:
  "reader_run rd acc \<Longrightarrow> map as_descriptor (rd_snapshots rd) = map fst acc
     \<and> list_all (\<lambda>(d, data). int (length data) = ad_size d \<and> u (sha256_hex data) = ad_sha256 d) acc"
proof (induction rule: reader_run.induct)
  case (opened start rd)
  then show ?case by (auto dest: reader_enter_inv)
next
  case (accepted rd acc os v kinds r rd')
  from accepted(2) show ?case by (rule reader_read_elim) (use accepted(3) in auto)
qed

section \<open>The final rescan\<close>

lemma split_final_mset:
  "split_final fp ss final ordered = Inr (final', ordered') \<Longrightarrow>
   mset ordered' + (case final' of Some s \<Rightarrow> {#s#} | None \<Rightarrow> {#})
     = mset ss + mset ordered + (case final of Some s \<Rightarrow> {#s#} | None \<Rightarrow> {#})"
  by (induction fp ss final ordered rule: split_final.induct) (auto split: if_splits option.splits)

lemma split_final_path:
  "split_final fp ss final ordered = Inr (Some s, ordered') \<Longrightarrow>
   (\<And>t. final = Some t \<Longrightarrow> fp = Some (ad_path (as_descriptor t))) \<Longrightarrow> fp = Some (ad_path (as_descriptor s))"
  by (induction fp ss final ordered rule: split_final.induct) (auto split: if_splits)

lemma rescan_order_ok:
  assumes "rescan_order fp rd = Inr ordered"
  shows "mset ordered = mset (rd_snapshots rd)" "fp = Some p \<Longrightarrow> ad_path (as_descriptor (last ordered)) = p"
proof -
  obtain final rest where s: "split_final fp (rd_snapshots rd) None [] = Inr (final, rest)"
    and f: "\<not> (fp \<noteq> None \<and> final = None)" and o: "ordered = rest @ (case final of Some s \<Rightarrow> [s] | None \<Rightarrow> [])"
    using assms by (auto simp: rescan_order_def res_simps)
  show "mset ordered = mset (rd_snapshots rd)" using split_final_mset [OF s] by (auto simp: o split: option.splits)
  show "ad_path (as_descriptor (last ordered)) = p" if "fp = Some p"
    using split_final_path [of fp "rd_snapshots rd" None "[]"] s f that by (auto simp: o split: option.splits)
qed

lemma revalidate_snapshot_ok:
  assumes "revalidate_snapshot os rd s = Inr ()"
  obtains data where "read_fd (fa_chunks os) (nat (ad_size (as_descriptor s))) = Inr data"
    "int (length data) = ad_size (as_descriptor s)" "u (sha256_hex data) = ad_sha256 (as_descriptor s)"
    "stat_identity (fa_after os) = as_identity s"
  using assms unfolding revalidate_snapshot_def Let_def res_simps not_not
  by (elim exE conjE) (rule that; (assumption | simp))

lemma revalidate_all_ok:
  "revalidate_all answers rd ss = Inr () \<Longrightarrow> s \<in> set ss \<Longrightarrow> \<exists>os \<in> set answers. revalidate_snapshot os rd s = Inr ()"
  by (induction answers rd ss rule: revalidate_all.induct) (auto simp: res_simps)


text \<open>
  C29: However the files below the evidence root change during a run of an ArtifactReader, the
  artifacts it has accepted have pairwise distinct paths and digests, there are at most 543 of
  them with at most 256 MiB in total, and the bytes handed out for each have the declared length
  and SHA-256.
\<close>

theorem reader_accounting:
  assumes "reader_run rd acc"
  shows "distinct (map (\<lambda>(d, _). ad_path d) acc) \<and> distinct (map (\<lambda>(d, _). ad_sha256 d) acc)
    \<and> length acc \<le> MAX_ARTIFACT_COUNT \<and> sum_list (map (\<lambda>(d, _). ad_size d) acc) \<le> MAX_TOTAL_ARTIFACT_BYTES
    \<and> list_all (\<lambda>(d, data). int (length data) = ad_size d \<and> u (sha256_hex data) = ad_sha256 d) acc"
proof -
  note inv = reader_run_inv [OF assms] and acc = reader_run_accepted [OF assms]
  have m: "map (\<lambda>(d, _). f d) acc = map (\<lambda>s. f (as_descriptor s)) (rd_snapshots rd)" for f :: "artifact_descriptor \<Rightarrow> 'a"
    using arg_cong [OF conjunct1 [OF acc], of "map f"] by (simp add: comp_def case_prod_unfold)
  have "length acc = length (rd_snapshots rd)" using acc by (metis length_map)
  with inv have "distinct (map (\<lambda>(d, _). ad_path d) acc)" "distinct (map (\<lambda>(d, _). ad_sha256 d) acc)"
    "length acc \<le> MAX_ARTIFACT_COUNT" "sum_list (map (\<lambda>(d, _). ad_size d) acc) \<le> MAX_TOTAL_ARTIFACT_BYTES"
    by (auto simp: m reader_inv_def snapshot_paths_def snapshot_digests_def snapshot_bytes_def)
  with acc show ?thesis by blast
qed

end
