(* ===== verification/Artifact_Samples.thy ===== *)
theory Artifact_Samples
  imports Artifact_Reader
begin

text \<open>
  Concrete documents, a trust policy and a run of the artifact reader at which the theorems about raw
  artifacts apply. Digests stay symbolic: the policy holds the digest of its own key, and the reader is
  given a file whose descriptor holds the digest of its bytes.
\<close>

section \<open>A trust policy\<close>

definition sample_modulus_bytes :: bytes where
  "sample_modulus_bytes = 0x80 # replicate 382 0 @ [1]"

definition sample_modulus :: nat where "sample_modulus = 128 * 256 ^ 383 + 1"

definition sample_spki :: bytes where
  "sample_spki = (case rsa_spki sample_modulus 65537 of Inr bs \<Rightarrow> bs | Inl _ \<Rightarrow> [])"

definition sample_digest :: ustr where "sample_digest = replicate 64 97"

text \<open>An attestation digest that differs from the digest of the key, whatever that is.\<close>

definition sample_attestation :: ustr where
  "sample_attestation = (if u (sha256_hex sample_spki) = replicate 64 97 then replicate 64 98 else replicate 64 97)"

definition sample_policy :: "json \<Rightarrow> members" where
  "sample_policy format = [
     (u ''alg'', JStr (u ''PS256'')),
     (u ''attestation_format'', format),
     (u ''attestation_sha256'', JStr sample_attestation),
     (u ''collector_executable_sha256'', JStr sample_digest),
     (u ''collector_source_sha256'', JStr sample_digest),
     (u ''collector_version'', JStr (u ''collector-1'')),
     (u ''e'', JStr (base64url_encode [1, 0, 1])),
     (u ''evidence_profile'', EVIDENCE_PROFILE),
     (u ''key_version'', JStr (u ''projects/sample1/locations/global/keyRings/r/cryptoKeys/k/cryptoKeyVersions/1'')),
     (u ''kms_algorithm'', JStr (u ''RSA_SIGN_PSS_3072_SHA256'')),
     (u ''kty'', JStr (u ''RSA'')),
     (u ''n'', JStr (base64url_encode sample_modulus_bytes)),
     (u ''protection_level'', JStr (u ''HSM'')),
     (u ''public_key_sha256'', JStr (u (sha256_hex sample_spki))),
     (u ''schema_version'', JInt 3),
     (u ''state'', JStr (u ''configured''))]"

lemma be_nat_zeros: "be_nat (replicate n 0 @ bs) = be_nat bs"
  by (induction n) (auto simp: be_nat_def)

lemma sample_modulus: "be_nat sample_modulus_bytes = sample_modulus"
proof -
  have "be_nat ([0x80] @ (replicate 382 0 @ [1])) = be_nat [0x80] * 256 ^ length (replicate 382 (0 :: byte) @ [1]) + be_nat (replicate 382 0 @ [1])"
    by (rule be_nat_append)
  then show ?thesis unfolding sample_modulus_bytes_def sample_modulus_def be_nat_zeros by (simp add: be_nat_def)
qed

lemma bit_length_eq: "2 ^ k \<le> n \<Longrightarrow> n < 2 ^ Suc k \<Longrightarrow> bit_length n = Suc k"
proof -
  assume a: "2 ^ k \<le> n" "n < 2 ^ Suc k"
  have "bit_length n \<le> Suc k" by (rule bit_length_le [OF a(2)])
  moreover have "k < bit_length n"
  proof (rule ccontr)
    assume "\<not> k < bit_length n"
    then have "(2 :: nat) ^ bit_length n \<le> 2 ^ k" by simp
    with bit_length_bound [of n] a(1) show False by linarith
  qed
  ultimately show ?thesis by simp
qed

lemma sample_modulus_bits: "bit_length sample_modulus = 3072" "odd sample_modulus"
proof -
  have e: "(128 :: nat) * 256 ^ 383 = 2 ^ 3071"
  proof -
    have "(128 :: nat) * 256 ^ 383 = 2 ^ 7 * (2 ^ 8) ^ 383" by simp
    then show ?thesis unfolding power_mult [symmetric] power_add [symmetric] by simp
  qed
  have "bit_length sample_modulus = Suc 3071"
  proof (rule bit_length_eq)
    show "2 ^ 3071 \<le> sample_modulus" unfolding sample_modulus_def e by simp
    have "(1 :: nat) < 2 ^ 3071" by (rule one_less_power) simp_all
    then show "sample_modulus < 2 ^ Suc 3071" unfolding sample_modulus_def e power_Suc by linarith
  qed
  then show "bit_length sample_modulus = 3072" by simp
  show "odd sample_modulus" unfolding sample_modulus_def e by simp
qed

lemma sample_spki: "rsa_spki sample_modulus 65537 = Inr sample_spki"
proof -
  have "sample_modulus \<noteq> 0" by (simp add: sample_modulus_def)
  then obtain bs where "rsa_spki sample_modulus 65537 = Inr bs" by (simp add: rsa_spki_def der_integer_def Let_def)
  then show ?thesis by (simp add: sample_spki_def)
qed

lemma sample_exact_profile: "require_exact_json_value EVIDENCE_PROFILE EVIDENCE_PROFILE = Inr ()"
  by (simp add: EVIDENCE_PROFILE_def del: u_simps)

lemma sample_fields:
  "field (sample_policy f) ''alg'' = JStr (u ''PS256'')"
  "field (sample_policy f) ''attestation_format'' = f"
  "field (sample_policy f) ''attestation_sha256'' = JStr sample_attestation"
  "field (sample_policy f) ''collector_executable_sha256'' = JStr sample_digest"
  "field (sample_policy f) ''collector_source_sha256'' = JStr sample_digest"
  "field (sample_policy f) ''collector_version'' = JStr (u ''collector-1'')"
  "field (sample_policy f) ''e'' = JStr (base64url_encode [1, 0, 1])"
  "field (sample_policy f) ''evidence_profile'' = EVIDENCE_PROFILE"
  "field (sample_policy f) ''key_version'' = JStr (u ''projects/sample1/locations/global/keyRings/r/cryptoKeys/k/cryptoKeyVersions/1'')"
  "field (sample_policy f) ''kms_algorithm'' = JStr (u ''RSA_SIGN_PSS_3072_SHA256'')"
  "field (sample_policy f) ''kty'' = JStr (u ''RSA'')"
  "field (sample_policy f) ''n'' = JStr (base64url_encode sample_modulus_bytes)"
  "field (sample_policy f) ''protection_level'' = JStr (u ''HSM'')"
  "field (sample_policy f) ''public_key_sha256'' = JStr (u (sha256_hex sample_spki))"
  "field (sample_policy f) ''schema_version'' = JInt 3"
  "field (sample_policy f) ''state'' = JStr (u ''configured'')"
  by (simp_all add: sample_policy_def field_simps del: u_simps)

lemma sample_policy_key: "policy_key (sample_policy f) = Inr (sample_modulus, 65537)"
proof -
  have d: "base64url_decode (JStr (base64url_encode sample_modulus_bytes)) = Inr sample_modulus_bytes"
    "base64url_decode (JStr (base64url_encode [1, 0, 1])) = Inr [1, 0, 1]"
    by (auto intro!: base64url_decode_encode simp: sample_modulus_bytes_def)
  have l: "length sample_modulus_bytes = 384" "sample_modulus_bytes ! 0 = 0x80" by (simp_all add: sample_modulus_bytes_def)
  have e: "to_bytes_be 3 65537 = [1, 0, 1]" "be_nat [1, 0, 1] = 65537" by code_simp+
  have o: "sample_modulus mod 2 = 1" using sample_modulus_bits(2) by presburger
  show ?thesis unfolding policy_key_def sample_fields
    by (simp add: d l e o sample_modulus sample_modulus_bits RSA_PUBLIC_EXPONENT_def RSA_MODULUS_BITS_def
        PS256_SIGNATURE_BYTES_def del: u_simps)
qed

lemma sample_policy_digests:
  "policy_digests (sample_policy f) sample_modulus 65537 = Inr (u (sha256_hex sample_spki), sample_attestation)"
proof -
  have "SHA256_RE sample_attestation" by (simp add: sample_attestation_def SHA256_RE_def list_all_iff is_lower_hex_def is_dig_def)
  moreover have "sample_attestation \<noteq> replicate 64 48" "sample_attestation \<noteq> u (sha256_hex sample_spki)"
    by (auto simp: sample_attestation_def)
  ultimately show ?thesis unfolding policy_digests_def sample_fields rsa_spki_sha256_def sample_spki
    by (simp add: require_sha256_def)
qed

lemma sample_scalars:
  "require_kms_key_version (JStr (u ''projects/sample1/locations/global/keyRings/r/cryptoKeys/k/cryptoKeyVersions/1'')) =
     Inr (u ''projects/sample1/locations/global/keyRings/r/cryptoKeys/k/cryptoKeyVersions/1'')"
  "require_identifier (JStr (u ''collector-1'')) = Inr (u ''collector-1'')"
  "require_sha256 (JStr sample_digest) = Inr sample_digest"
  by code_simp+

definition sample_profile :: members where
  "sample_profile = (case EVIDENCE_PROFILE of JObj ms \<Rightarrow> ms | _ \<Rightarrow> [])"

lemma sample_profile: "EVIDENCE_PROFILE = JObj sample_profile"
  by (simp add: sample_profile_def EVIDENCE_PROFILE_def)

lemma sample_profile_loadable: "loadable 31 EVIDENCE_PROFILE" "plain short_int EVIDENCE_PROFILE"
  by code_simp+

lemma sample_profile_exact: "exact_object EVIDENCE_PROFILE EVIDENCE_PROFILE_FIELDS = Inr sample_profile"
  by code_simp

definition sample_keys :: "string list" where
  "sample_keys = [''alg'', ''attestation_format'', ''attestation_sha256'', ''collector_executable_sha256'', ''collector_source_sha256'', ''collector_version'', ''e'', ''evidence_profile'', ''key_version'', ''kms_algorithm'', ''kty'', ''n'', ''protection_level'', ''public_key_sha256'', ''schema_version'', ''state'']"

lemma sample_keys: "map fst (sample_policy f) = map u sample_keys"
  by (simp add: sample_policy_def sample_keys_def del: u_simps)

lemma sample_policy_exact: "exact_object (JObj (sample_policy f)) POLICY_FIELDS = Inr (sample_policy f)"
proof -
  have "set (map fst (sample_policy f)) = u ` set POLICY_FIELDS"
    unfolding sample_keys set_map by (rule arg_cong [where f = "\<lambda>A. u ` A"]) code_simp
  then show ?thesis by (simp add: exact_object_ok)
qed

lemma sample_policy_canon: "canon f = f \<Longrightarrow> canon (JObj (sample_policy f)) = JObj (sample_policy f)"
proof -
  assume f: "canon f = f"
  have "canon EVIDENCE_PROFILE = EVIDENCE_PROFILE" by code_simp
  then have m: "map (\<lambda>(k, v). (k, canon v)) (sample_policy f) = sample_policy f"
    using f by (simp add: sample_policy_def del: u_simps)
  have "sorted (map u sample_keys)" by code_simp
  then have "sort_key fst (sample_policy f) = sample_policy f"
    by (intro sort_key_id_if_sorted) (simp add: sample_keys)
  with m show ?thesis by simp
qed

lemma scalar_base64: "list_all scalar (base64url_encode bs)"
proof -
  have "scalar (b64_char v)" if "v < 64" for v
    using b64_char_class [OF that] by (auto simp: is_alnum_def is_dig_def scalar_def is_surrogate_def)
  then show ?thesis using sextets_less [of "map unat bs"] by (auto simp: base64url_encode_def list_all_iff)
qed

lemma sample_policy_loadable:
  assumes "loadable 31 f" "plain short_int f"
  shows "loadable MAX_JSON_DEPTH (JObj (sample_policy f))" "plain short_int (JObj (sample_policy f))"
proof -
  have r: "list_all scalar (replicate n 97)" "list_all scalar (replicate n 98)" for n
    by (simp_all add: list_all_iff scalar_def is_surrogate_def)
  have s: "list_all scalar sample_attestation" "list_all scalar sample_digest"
    by (simp_all add: sample_attestation_def sample_digest_def r)
  show "loadable MAX_JSON_DEPTH (JObj (sample_policy f))" using assms(1) sample_profile_loadable(1)
    by (simp add: sample_policy_def scalar_u scalar_base64 s MAX_JSON_DEPTH_def del: u_simps)
  have "distinct (map u sample_keys)" by code_simp
  then have "distinct (map fst (sample_policy f))" by (simp add: sample_keys)
  moreover have "short_int 3" by code_simp
  ultimately show "plain short_int (JObj (sample_policy f))" using assms(2) sample_profile_loadable(2)
    by (simp add: sample_policy_def del: u_simps)
qed

lemma length_sextets: "length (sextets xs) \<le> 2 * length xs"
  by (induction xs rule: sextets.induct) auto

lemma sample_policy_bound: "print_bound f \<le> 200 \<Longrightarrow> print_bound (JObj (sample_policy f)) \<le> 15000"
proof -
  assume f: "print_bound f \<le> 200"
  have b: "length (base64url_encode sample_modulus_bytes) \<le> 768" "length (base64url_encode [1, 0, 1]) \<le> 6"
    using length_sextets [of "map unat sample_modulus_bytes"] length_sextets [of "map unat [1, 0, 1 :: byte]"]
    by (simp_all add: base64url_encode_def sample_modulus_bytes_def)
  have "print_bound EVIDENCE_PROFILE \<le> 5000" by code_simp
  moreover have "print_bound (JInt 3) = 1" by code_simp
  moreover have "length sample_attestation = 64" "length sample_digest = 64" by (simp_all add: sample_attestation_def sample_digest_def)
  ultimately show ?thesis using f b by (simp add: sample_policy_def)
qed

definition sample_policy_bytes :: "json \<Rightarrow> bytes" where
  "sample_policy_bytes f = (case canonical_json (JObj (sample_policy f)) of Inr bs \<Rightarrow> bs @ [10] | Inl _ \<Rightarrow> [])"

definition sample_accepted_policy :: "collector_trust_policy" where
  "sample_accepted_policy = \<lparr>tp_policy_sha256 = u (sha256_hex (sample_policy_bytes (JStr (u ''CAVIUM_V2_COMPRESSED'')))),
     tp_key_version = u ''projects/sample1/locations/global/keyRings/r/cryptoKeys/k/cryptoKeyVersions/1'',
     tp_attestation_format = u ''CAVIUM_V2_COMPRESSED'', tp_public_key_sha256 = u (sha256_hex sample_spki),
     tp_attestation_sha256 = sample_attestation, tp_modulus = sample_modulus, tp_exponent = 65537,
     tp_collector_version = u ''collector-1'', tp_collector_source_sha256 = sample_digest,
     tp_collector_executable_sha256 = sample_digest,
     tp_evidence_profile_sha256 = u (sha256_hex (case canonical_json EVIDENCE_PROFILE of Inr bs \<Rightarrow> bs | Inl _ \<Rightarrow> [])),
     tp_evidence_profile = sample_profile, tp_release_source_pinned = True\<rparr>"

lemma sample_policy_parsed:
  assumes "loadable 31 f" "plain short_int f" "canon f = f" "print_bound f \<le> 200"
  shows "parse_trust_policy_bytes (sample_policy_bytes f) (JStr (u (sha256_hex (sample_policy_bytes f)))) b
    = policy_configured (JObj (sample_policy f)) (u (sha256_hex (sample_policy_bytes f))) b"
proof -
  define v where "v = JObj (sample_policy f)"
  note l = sample_policy_loadable [OF assms(1,2), folded v_def]
  have c: "canon v = v" unfolding v_def by (rule sample_policy_canon [OF assms(3)])
  obtain bs where bs: "canonical_json v = Inr bs" "load_json_bytes (bs @ [10]) = Inr v"
    using canonical_json_loaded [OF l] c by auto
  have "length bs \<le> 60000" using canonical_json_length [OF bs(1)] sample_policy_bound [OF assms(4)] c by (simp add: v_def)
  moreover have d: "sample_policy_bytes f = bs @ [10]" using bs(1) by (simp add: sample_policy_bytes_def v_def)
  moreover have "map_of (sample_policy f) (u ''state'') = Some (JStr (u ''configured''))"
    by (simp add: sample_policy_def del: u_simps)
  ultimately show ?thesis unfolding parse_trust_policy_bytes_def d using bs
    by (simp add: require_sha256_def MAX_TRUST_POLICY_BYTES_def v_def del: u_simps)
qed

lemma sample_profile_canonical: "\<exists>bs. canonical_json EVIDENCE_PROFILE = Inr bs"
proof -
  have "loadable MAX_JSON_DEPTH EVIDENCE_PROFILE" by code_simp
  then show ?thesis using canonical_json_loaded [of EVIDENCE_PROFILE] sample_profile_loadable(2) by blast
qed

lemma sample_constants: "policy_constants (sample_policy f) = Inr ()"
  by (simp add: policy_constants_def sample_fields COLLECTOR_SIGNATURE_ALGORITHM_def del: u_simps)

lemma sample_policy_accepted:
  "policy_configured (JObj (sample_policy (JStr (u ''CAVIUM_V2_COMPRESSED''))))
     (u (sha256_hex (sample_policy_bytes (JStr (u ''CAVIUM_V2_COMPRESSED''))))) True = Inr sample_accepted_policy"
proof -
  obtain bs where bs: "canonical_json EVIDENCE_PROFILE = Inr bs" using sample_profile_canonical by blast
  have f: "attestation_format_of (JStr (u ''CAVIUM_V2_COMPRESSED'')) = Inr (u ''CAVIUM_V2_COMPRESSED'')" by code_simp
  show ?thesis unfolding policy_configured_def sample_policy_exact
    by (simp add: sample_fields sample_profile_exact sample_exact_profile bs sample_constants f sample_scalars sample_policy_key
        sample_policy_digests sample_accepted_policy_def sample_profile [symmetric] del: u_simps)
qed

lemma sample_policy_type_error:
  "policy_configured (JObj (sample_policy (JArr []))) digest b = Inl (TypeError ''unhashable type: list'')"
proof -
  obtain bs where bs: "canonical_json EVIDENCE_PROFILE = Inr bs" using sample_profile_canonical by blast
  show ?thesis unfolding policy_configured_def sample_policy_exact
    by (simp add: sample_fields sample_profile_exact sample_exact_profile bs sample_constants attestation_format_of_def
        sample_profile [symmetric] del: u_simps)
qed

section \<open>The theorems at the samples\<close>

definition sample_document :: json where
  "sample_document = JObj [(u ''b'', JInt (- 12)), (u ''a'', JArr [JStr [233, 128512], JNull, JBool True])]"

theorem canonical_json_roundtrip_witness:
  "loadable MAX_JSON_DEPTH sample_document \<and> plain short_int sample_document \<and>
   (\<exists>bs. canonical_json sample_document = Inr bs \<and> load_json_bytes (bs @ [10]) =
     Inr (JObj [(u ''a'', JArr [JStr [233, 128512], JNull, JBool True]), (u ''b'', JInt (- 12))]))"
proof -
  have h: "loadable MAX_JSON_DEPTH sample_document" "plain short_int sample_document" by code_simp+
  have "canon sample_document = JObj [(u ''a'', JArr [JStr [233, 128512], JNull, JBool True]), (u ''b'', JInt (- 12))]"
    by code_simp
  then show ?thesis using canonical_json_roundtrip [OF h] h by auto
qed

definition sample_descriptor :: "bytes \<Rightarrow> artifact_descriptor" where
  "sample_descriptor data = \<lparr>ad_kind = u ''packet-report'', ad_path = u ''run/report.json'', ad_size = int (length data),
     ad_sha256 = u (sha256_hex data)\<rparr>"

lemma sample_descriptor_fields:
  "ad_kind (sample_descriptor data) = u ''packet-report''" "ad_path (sample_descriptor data) = u ''run/report.json''"
  "ad_size (sample_descriptor data) = int (length data)" "ad_sha256 (sample_descriptor data) = u (sha256_hex data)"
  by (simp_all add: sample_descriptor_def del: u_simps)

lemma sample_descriptor_parsed:
  assumes "0 < length data" "length data \<le> 1024"
  shows "parse_descriptor (descriptor_as_dict (sample_descriptor data)) [u ''packet-report''] = Inr (sample_descriptor data)"
proof -
  have "artifact_kind (u ''packet-report'') = Some (''.json'', 1048576)"
    "descriptor_path (JStr (u ''run/report.json'')) = Inr (u ''run/report.json'')"
    "ends_with (u ''run/report.json'') (u ''.json'')" by code_simp+
  with assms show ?thesis unfolding parse_descriptor_def descriptor_as_dict_def sample_descriptor_def
    by (simp add: exact_object_def field_simps require_sha256_def del: u_simps)
qed

theorem parse_descriptor_sound_witness:
  "parse_descriptor (descriptor_as_dict (sample_descriptor [1, 2])) [u ''packet-report''] = Inr (sample_descriptor [1, 2])
   \<and> path_parts (ad_path (sample_descriptor [1, 2])) = [u ''run'', u ''report.json'']
   \<and> list_all PATH_COMPONENT_RE [u ''run'', u ''report.json'']"
proof -
  have d: "parse_descriptor (descriptor_as_dict (sample_descriptor [1, 2])) [u ''packet-report''] = Inr (sample_descriptor [1, 2])"
    by (rule sample_descriptor_parsed) simp_all
  have "path_parts (u ''run/report.json'') = [u ''run'', u ''report.json'']" by code_simp
  then have "path_parts (ad_path (sample_descriptor [1, 2])) = [u ''run'', u ''report.json'']" by (simp only: sample_descriptor_fields)
  then show ?thesis using parse_descriptor_sound [OF d] d by simp
qed

definition sample_format :: json where "sample_format = JStr (u ''CAVIUM_V2_COMPRESSED'')"

lemma sample_policy_ok:
  "parse_trust_policy_bytes (sample_policy_bytes sample_format) (JStr (u (sha256_hex (sample_policy_bytes sample_format)))) True
     = Inr sample_accepted_policy"
proof -
  have "loadable 31 sample_format" "plain short_int sample_format" "canon sample_format = sample_format"
    "print_bound sample_format \<le> 200" by code_simp+
  then show ?thesis using sample_policy_accepted by (simp add: sample_policy_parsed sample_format_def del: u_simps)
qed

theorem trust_policy_verifies_witness:
  "parse_trust_policy_bytes (sample_policy_bytes sample_format) (JStr (u (sha256_hex (sample_policy_bytes sample_format)))) True
     = Inr sample_accepted_policy \<and>
   (\<exists>spki. rsa_spki sample_modulus 65537 = Inr spki \<and> tp_public_key_sha256 sample_accepted_policy = u (sha256_hex spki))"
  using trust_policy_verifies [OF sample_policy_ok] sample_policy_ok by (simp add: sample_accepted_policy_def)

theorem trust_policy_key_unique_witness:
  "parse_trust_policy_bytes (sample_policy_bytes sample_format) (JStr (u (sha256_hex (sample_policy_bytes sample_format)))) True
     = Inr sample_accepted_policy \<and> tp_modulus sample_accepted_policy = sample_modulus"
proof -
  have "tp_modulus sample_accepted_policy = tp_modulus sample_accepted_policy"
    by (rule trust_policy_key_unique [OF sample_policy_ok sample_policy_ok]) simp_all
  then show ?thesis using sample_policy_ok by (simp add: sample_accepted_policy_def)
qed


section \<open>A run of the reader\<close>

definition sample_stat :: "nat \<Rightarrow> int \<Rightarrow> stat_result" where
  "sample_stat mode n = \<lparr>st_dev = 1, st_ino = 7, st_mode = mode, st_nlink = 1, st_size = n, st_mtime_ns = 0\<rparr>"

definition sample_root :: root_answers where
  "sample_root = \<lparr>ra_path_stat = Some (sample_stat 0x41C0 0), ra_fd_stat = sample_stat 0x41C0 0\<rparr>"

definition sample_answers :: "bytes \<Rightarrow> file_answers" where
  "sample_answers data = (let m = sample_stat 0x8180 (int (length data)) in
     \<lparr>fa_root_before = sample_root, fa_opened = Some m, fa_chunks = [Some data], fa_after = m,
      fa_reopened = Some m, fa_root_after = sample_root\<rparr>)"

definition sample_reader :: artifact_reader where
  "sample_reader = \<lparr>rd_root_identity = Some (1, 7), rd_seen_paths = [], rd_seen_digests = [], rd_artifact_count = 0,
     rd_total_bytes = 0, rd_snapshots = []\<rparr>"

definition sample_read :: artifact_reader where
  "sample_read = \<lparr>rd_root_identity = Some (1, 7), rd_seen_paths = [u ''run/report.json''],
     rd_seen_digests = [u (sha256_hex [1, 2])], rd_artifact_count = 1, rd_total_bytes = 2,
     rd_snapshots = [\<lparr>as_descriptor = sample_descriptor [1, 2], as_identity = stat_identity (sample_stat 0x8180 2)\<rparr>]\<rparr>"

lemma sample_opened: "reader_enter (Some (sample_stat 0x41C0 0)) new_reader = Inr sample_reader"
  by code_simp

lemma sample_read_ok:
  "reader_read (sample_answers [1, 2]) sample_reader (descriptor_as_dict (sample_descriptor [1, 2])) [u ''packet-report'']
     = Inr ((sample_descriptor [1, 2], [1, 2]), sample_read)"
proof -
  have root: "check_root_path sample_root sample_reader = Inr ()" by code_simp
  have p: "parse_descriptor (descriptor_as_dict (sample_descriptor [1, 2])) [u ''packet-report''] = Inr (sample_descriptor [1, 2])"
    by (rule sample_descriptor_parsed) simp_all
  have "rd_seen_paths sample_reader = []" "rd_seen_digests sample_reader = []" "rd_artifact_count sample_reader = 0"
    "rd_total_bytes sample_reader = 0" by (simp_all add: sample_reader_def new_reader_def)
  moreover have "S_ISREG 0x8180" by code_simp
  moreover have "read_fd [Some [1, 2]] (nat (int (length [1, 2 :: byte]))) = Inr [1, 2]" by code_simp
  ultimately show ?thesis unfolding reader_read_def p
    by (simp add: sample_descriptor_fields sample_answers_def Let_def root open_relative_def sample_stat_def
        MAX_ARTIFACT_COUNT_def MAX_TOTAL_ARTIFACT_BYTES_def sample_read_def sample_reader_def new_reader_def
        root [unfolded sample_reader_def] del: u_simps)
qed

lemma sample_run: "reader_run sample_read [(sample_descriptor [1, 2], [1, 2])]"
  using reader_run.accepted [OF reader_run.opened [OF sample_opened] sample_read_ok] by simp

theorem reader_accounting_witness:
  "reader_run sample_read [(sample_descriptor [1, 2], [1, 2])] \<and> length [(sample_descriptor [1, 2], [1, 2 :: byte])] \<le> MAX_ARTIFACT_COUNT"
  using reader_accounting [OF sample_run] sample_run by blast

lemma sample_rescan: "verify_all_unchanged [sample_answers [1, 2]] sample_read (Some (u ''run/report.json'')) = Inr ()"
proof -
  have "S_ISREG 0x8180" "read_fd [Some [1, 2 :: byte]] (nat 2) = Inr [1, 2]" by code_simp+
  moreover have "check_root_path sample_root sample_reader = Inr ()" by code_simp
  then have "check_root_path sample_root sample_read = Inr ()"
    by (simp add: check_root_path_def sample_reader_def sample_read_def)
  ultimately show ?thesis
    by (simp add: verify_all_unchanged_def rescan_order_def revalidate_snapshot_def sample_answers_def Let_def
        open_relative_def sample_stat_def sample_descriptor_def sample_read_def del: u_simps)
qed


end
