(* ===== verification/Py_State.thy ===== *)
theory Py_State
  imports Prelude
begin

text \<open>
  Stateful Python code. A statement of a program with the state \<open>'w\<close> is a function from the state
  to a result and the state after it; \<open>bindS\<close> runs one after another, \<open>catchS\<close> is
  \<open>try: \<dots> except\<close> and \<open>on_errorS\<close> is \<open>except BaseException: \<dots>; raise\<close>. The death of the process is the
  exception \<open>ProcessKilled\<close>, which no handler sees. The predicate \<open>keeps\<close> states what a
  computation does to the state on every outcome; the locale \<open>state_relation\<close> has its rules.
\<close>

named_theorems st_simps "evaluation of stateful code"

type_synonym ('w, 'a) st = "'w \<Rightarrow> 'a res \<times> 'w"

definition returnS :: "'a \<Rightarrow> ('w, 'a) st" where "returnS x = (\<lambda>w. (Inr x, w))"
definition raiseS :: "exn \<Rightarrow> ('w, 'a) st" where "raiseS e = (\<lambda>w. (Inl e, w))"
definition liftS :: "'a res \<Rightarrow> ('w, 'a) st" where "liftS r = (\<lambda>w. (r, w))"
definition getS :: "('w \<Rightarrow> 'a) \<Rightarrow> ('w, 'a) st" where "getS f = (\<lambda>w. (Inr (f w), w))"
definition modifyS :: "('w \<Rightarrow> 'w) \<Rightarrow> ('w, unit) st" where "modifyS f = (\<lambda>w. (Inr (), f w))"

definition bindS :: "('w, 'a) st \<Rightarrow> ('a \<Rightarrow> ('w, 'b) st) \<Rightarrow> ('w, 'b) st" where
  "bindS m f = (\<lambda>w. case m w of (Inl e, w') \<Rightarrow> (Inl e, w') | (Inr x, w') \<Rightarrow> f x w')"

definition thenS :: "('w, 'a) st \<Rightarrow> ('w, 'b) st \<Rightarrow> ('w, 'b) st" where
  "thenS m n = bindS m (\<lambda>_. n)"

definition catchS :: "('w, 'a) st \<Rightarrow> (exn \<Rightarrow> ('w, 'a) st) \<Rightarrow> ('w, 'a) st" where
  "catchS m h = (\<lambda>w. case m w of
      (Inl e, w') \<Rightarrow> if e = ProcessKilled then (Inl e, w') else h e w'
    | (Inr x, w') \<Rightarrow> (Inr x, w'))"

definition on_errorS :: "('w, 'a) st \<Rightarrow> ('w, unit) st \<Rightarrow> ('w, 'a) st" where
  "on_errorS m cleanup = catchS m (\<lambda>e. thenS cleanup (raiseS e))"

definition whenS :: "bool \<Rightarrow> ('w, unit) st \<Rightarrow> ('w, unit) st" where
  "whenS b m = (if b then m else returnS ())"

primrec mapS :: "('a \<Rightarrow> ('w, 'b) st) \<Rightarrow> 'a list \<Rightarrow> ('w, 'b list) st" where
  "mapS f [] = returnS []"
| "mapS f (x # xs) = bindS (f x) (\<lambda>y. bindS (mapS f xs) (\<lambda>ys. returnS (y # ys)))"

primrec foldS :: "('s \<Rightarrow> 'a \<Rightarrow> ('w, 's) st) \<Rightarrow> 's \<Rightarrow> 'a list \<Rightarrow> ('w, 's) st" where
  "foldS f s [] = returnS s"
| "foldS f s (x # xs) = bindS (f s x) (\<lambda>s'. foldS f s' xs)"

lemma returnS_apply [simp, st_simps]: "returnS x w = (Inr x, w)" by (simp add: returnS_def)
lemma raiseS_apply [simp, st_simps]: "raiseS e w = (Inl e, w)" by (simp add: raiseS_def)
lemma liftS_apply [simp, st_simps]: "liftS r w = (r, w)" by (simp add: liftS_def)
lemma getS_apply [simp, st_simps]: "getS f w = (Inr (f w), w)" by (simp add: getS_def)
lemma modifyS_apply [simp, st_simps]: "modifyS f w = (Inr (), f w)" by (simp add: modifyS_def)

lemma bindS_Inr: "m w = (Inr x, w') \<Longrightarrow> bindS m f w = f x w'"
  by (simp add: bindS_def)

lemma bindS_Inl: "m w = (Inl e, w') \<Longrightarrow> bindS m f w = (Inl e, w')"
  by (simp add: bindS_def)

lemma bindS_cases:
  assumes "bindS m f w = (r, w2)"
  obtains (raised) e where "m w = (Inl e, w2)" "r = Inl e"
    | (next_step) x w1 where "m w = (Inr x, w1)" "f x w1 = (r, w2)"
  using assms by (auto simp: bindS_def split: prod.splits sum.splits)

lemma bindS_Inr_iff: "bindS m f w = (Inr y, w2) \<longleftrightarrow> (\<exists>x w1. m w = (Inr x, w1) \<and> f x w1 = (Inr y, w2))"
  by (auto simp: bindS_def split: prod.splits sum.splits)

lemma bindS_return [simp]: "bindS (returnS x) f = f x"
  by (simp add: bindS_def)

lemma bindS_raise [simp]: "bindS (raiseS e) f = raiseS e"
  by (rule ext) (simp add: bindS_def)

lemma bindS_getS_apply [simp, st_simps]: "bindS (getS g) f w = f (g w) w"
  by (simp add: bindS_def)

lemma bindS_liftS_apply [simp, st_simps]: "bindS (liftS (Inr x)) f w = f x w" "bindS (liftS (Inl e)) f w = (Inl e, w)"
  by (simp_all add: bindS_def)

lemma bindS_modifyS_apply [simp, st_simps]: "bindS (modifyS g) f w = f () (g w)"
  by (simp add: bindS_def)

lemma catchS_Inr: "m w = (Inr x, w') \<Longrightarrow> catchS m h w = (Inr x, w')"
  by (simp add: catchS_def)

lemma catchS_Inl: "m w = (Inl e, w') \<Longrightarrow> e \<noteq> ProcessKilled \<Longrightarrow> catchS m h w = h e w'"
  by (simp add: catchS_def)

section \<open>What a computation does to the state\<close>

text \<open>
  \<open>keeps R m\<close>: on every outcome, the death of the process included, the state after \<open>m\<close> is related
  to the state before by \<open>R\<close>. For a reflexive and transitive \<open>R\<close> every statement form keeps it.
\<close>

definition keeps :: "('w \<Rightarrow> 'w \<Rightarrow> bool) \<Rightarrow> ('w, 'a) st \<Rightarrow> bool" where
  "keeps R m = (\<forall>w. R w (snd (m w)))"

lemma keepsD: "keeps R m \<Longrightarrow> m w = (r, w') \<Longrightarrow> R w w'"
  unfolding keeps_def by (metis snd_conv)

lemma keepsI: "(\<And>w r w'. m w = (r, w') \<Longrightarrow> R w w') \<Longrightarrow> keeps R m"
  unfolding keeps_def by (metis prod.collapse)

lemma keeps_mono: "keeps R m \<Longrightarrow> (\<And>w w'. R w w' \<Longrightarrow> Q w w') \<Longrightarrow> keeps Q m"
  by (auto simp: keeps_def)

lemma keeps_bind_return: "keeps R m \<Longrightarrow> keeps R (bindS m (\<lambda>_. returnS x))"
  by (rule keepsI) (auto elim!: bindS_cases dest: keepsD)

text \<open>The relations that computations keep.\<close>

locale state_relation =
  fixes R :: "'w \<Rightarrow> 'w \<Rightarrow> bool"
  assumes R_refl: "R w w"
    and R_trans: "R w1 w2 \<Longrightarrow> R w2 w3 \<Longrightarrow> R w1 w3"
begin

lemma keeps_return: "keeps R (returnS x)" by (simp add: keeps_def R_refl)
lemma keeps_raise: "keeps R (raiseS e)" by (simp add: keeps_def R_refl)
lemma keeps_lift: "keeps R (liftS r)" by (simp add: keeps_def R_refl)
lemma keeps_get: "keeps R (getS f)" by (simp add: keeps_def R_refl)

lemma keeps_bind:
  assumes "keeps R m" "\<And>x. keeps R (f x)"
  shows "keeps R (bindS m f)"
proof (rule keepsI)
  fix w r w' assume "bindS m f w = (r, w')"
  then show "R w w'" by (cases rule: bindS_cases) (auto dest: keepsD [OF assms(1)] keepsD [OF assms(2)] intro: R_trans)
qed

lemma keeps_bind_result:
  assumes "keeps R m" "\<And>x w w'. m w = (Inr x, w') \<Longrightarrow> keeps R (f x)"
  shows "keeps R (bindS m f)"
proof (rule keepsI)
  fix w r w' assume "bindS m f w = (r, w')"
  then show "R w w'"
  proof (cases rule: bindS_cases)
    case (next_step x w1)
    then show ?thesis using keepsD [OF assms(1)] keepsD [OF assms(2)] R_trans by blast
  qed (auto dest: keepsD [OF assms(1)])
qed

lemma keeps_then: "keeps R m \<Longrightarrow> keeps R n \<Longrightarrow> keeps R (thenS m n)"
  unfolding thenS_def by (rule keeps_bind)

lemma keeps_catch:
  assumes "keeps R m" "\<And>e. keeps R (h e)"
  shows "keeps R (catchS m h)"
proof (rule keepsI)
  fix w r w' assume c: "catchS m h w = (r, w')"
  obtain q w1 where m: "m w = (q, w1)" by (cases "m w")
  then have 1: "R w w1" using assms(1) by (rule keepsD [rotated])
  show "R w w'"
  proof (cases q)
    case (Inl e)
    then show ?thesis using c m 1 by (cases "e = ProcessKilled") (auto simp: catchS_def dest: keepsD [OF assms(2)] intro: R_trans)
  qed (use c m 1 in \<open>auto simp: catchS_def\<close>)
qed

lemma keeps_on_error: "keeps R m \<Longrightarrow> keeps R c \<Longrightarrow> keeps R (on_errorS m c)"
  unfolding on_errorS_def by (intro keeps_catch keeps_then keeps_raise)

lemma keeps_when: "keeps R m \<Longrightarrow> keeps R (whenS b m)"
  by (simp add: whenS_def keeps_return)

lemma keeps_if: "(b \<Longrightarrow> keeps R m) \<Longrightarrow> (\<not> b \<Longrightarrow> keeps R n) \<Longrightarrow> keeps R (if b then m else n)"
  by simp

lemma keeps_case_option: "keeps R m \<Longrightarrow> (\<And>x. keeps R (f x)) \<Longrightarrow> keeps R (case v of None \<Rightarrow> m | Some x \<Rightarrow> f x)"
  by (cases v) simp_all

lemma keeps_case_list: "keeps R m \<Longrightarrow> (\<And>x xs. keeps R (f x xs)) \<Longrightarrow> keeps R (case v of [] \<Rightarrow> m | x # xs \<Rightarrow> f x xs)"
  by (cases v) simp_all

lemma keeps_case_prod: "(\<And>x y. keeps R (f x y)) \<Longrightarrow> keeps R (case v of (x, y) \<Rightarrow> f x y)"
  by (cases v) simp_all

lemma keeps_case_sum: "(\<And>x. keeps R (f x)) \<Longrightarrow> (\<And>x. keeps R (g x)) \<Longrightarrow> keeps R (case v of Inl x \<Rightarrow> f x | Inr x \<Rightarrow> g x)"
  by (cases v) simp_all

lemma keeps_mapS: "(\<And>x. keeps R (f x)) \<Longrightarrow> keeps R (mapS f xs)"
  by (induction xs) (auto intro: keeps_return keeps_bind)

lemma keeps_foldS: "(\<And>s x. keeps R (f s x)) \<Longrightarrow> keeps R (foldS f s xs)"
  by (induction xs arbitrary: s) (auto intro: keeps_return keeps_bind)

lemmas keeps_rules = keeps_return keeps_raise keeps_lift keeps_get keeps_bind keeps_then keeps_catch
  keeps_on_error keeps_when keeps_if keeps_case_option keeps_case_list keeps_case_prod keeps_case_sum
  keeps_mapS keeps_foldS

end

end
