(* ===== verification/Py_Os.thy ===== *)
theory Py_Os
  imports Py_State Raw_Artifacts
begin

text \<open>
  The system calls the capture archive makes, on an explicit file system: a list of paths and their
  nodes, below the \<open>target\<close> directory of the repository. Every call first consults the list of faults
  of the run: it may proceed, fail with an error number and no effect, write fewer bytes than asked,
  or never return because the process is killed. Closing, duplicating and \<open>fstat\<close> of open
  descriptors always succeed, and nobody else changes the private tree while a call is running; the
  comparisons of file identities before and after a read therefore always agree and are left out.
\<close>

section \<open>Nodes and the world\<close>

datatype node =
    DirNode (node_mode: nat) (node_uid: nat)
  | FileNode (node_mode: nat) (node_nlink: nat) (node_uid: nat) (node_data: bytes)
  | OtherNode

type_synonym path = "ustr list"
type_synonym file_system = "(path \<times> node) list"

datatype fault = Proceed | Fails string | ShortWrite nat | Dies

record os_world =
  w_fs :: file_system
  w_faults :: "fault list"
  w_uuids :: "nat list"
  w_euid :: nat
  w_umask :: nat
  w_darwin :: bool

section \<open>System calls\<close>

definition syscall ::
  "(nat option \<Rightarrow> ('z os_world_scheme, 'a) st) \<Rightarrow> ('z os_world_scheme, 'a) st" where
  "syscall act = (\<lambda>w.
     case w_faults w of
       [] \<Rightarrow> act None w
     | f # fs \<Rightarrow>
         let w' = w\<lparr>w_faults := fs\<rparr> in
         (case f of
            Proceed \<Rightarrow> act None w'
          | ShortWrite n \<Rightarrow> act (Some n) w'
          | Fails code \<Rightarrow> (Inl (OSError code), w')
          | Dies \<Rightarrow> (Inl ProcessKilled, w')))"

definition os_open_directory :: "path \<Rightarrow> ('z os_world_scheme, node) st" where
  "os_open_directory p = syscall (\<lambda>_. bindS (getS w_fs) (\<lambda>fs.
     case map_of fs p of
       None \<Rightarrow> raiseS (OSError ''ENOENT'')
     | Some n \<Rightarrow> (case n of DirNode _ _ \<Rightarrow> returnS n | _ \<Rightarrow> raiseS (OSError ''ENOTDIR''))))"

definition os_open :: "path \<Rightarrow> ('z os_world_scheme, node) st" where
  "os_open p = syscall (\<lambda>_. bindS (getS w_fs) (\<lambda>fs.
     case map_of fs p of
       None \<Rightarrow> raiseS (OSError ''ENOENT'')
     | Some n \<Rightarrow> (case n of OtherNode \<Rightarrow> raiseS (OSError ''ELOOP'') | _ \<Rightarrow> returnS n)))"

text \<open>Reading an open regular file to its end.\<close>

definition os_read_all :: "path \<Rightarrow> ('z os_world_scheme, bytes) st" where
  "os_read_all p = syscall (\<lambda>_. bindS (getS w_fs) (\<lambda>fs.
     case map_of fs p of Some (FileNode _ _ _ data) \<Rightarrow> returnS data | _ \<Rightarrow> raiseS (OSError ''EBADF'')))"

definition os_listdir :: "path \<Rightarrow> ('z os_world_scheme, ustr list) st" where
  "os_listdir p = syscall (\<lambda>_. bindS (getS w_fs) (\<lambda>fs.
     returnS (map (\<lambda>(q, _). last q) (filter (\<lambda>(q, _). q \<noteq> [] \<and> butlast q = p) fs))))"

definition os_mkdir :: "path \<Rightarrow> nat \<Rightarrow> ('z os_world_scheme, unit) st" where
  "os_mkdir p mode = syscall (\<lambda>_ w.
     if map_of (w_fs w) p \<noteq> None then (Inl (OSError ''EEXIST''), w)
     else (Inr (), w\<lparr>w_fs := AList.update p (DirNode (nat (int mode AND NOT (int (w_umask w)))) (w_euid w)) (w_fs w)\<rparr>))"

text \<open>\<open>open\<close> with \<open>O_CREAT | O_EXCL\<close>.\<close>

definition os_create :: "path \<Rightarrow> nat \<Rightarrow> ('z os_world_scheme, unit) st" where
  "os_create p mode = syscall (\<lambda>_ w.
     if map_of (w_fs w) p \<noteq> None then (Inl (OSError ''EEXIST''), w)
     else (Inr (), w\<lparr>w_fs := AList.update p (FileNode (nat (int mode AND NOT (int (w_umask w)))) 1 (w_euid w) []) (w_fs w)\<rparr>))"

definition update_file :: "path \<Rightarrow> (node \<Rightarrow> node) \<Rightarrow> ('z os_world_scheme, unit) st" where
  "update_file p f = (\<lambda>w.
     case map_of (w_fs w) p of
       Some n \<Rightarrow> (Inr (), w\<lparr>w_fs := AList.update p (f n) (w_fs w)\<rparr>)
     | None \<Rightarrow> (Inl (OSError ''EBADF''), w))"

definition os_fchmod :: "path \<Rightarrow> nat \<Rightarrow> ('z os_world_scheme, unit) st" where
  "os_fchmod p mode = syscall (\<lambda>_. update_file p (\<lambda>n.
     case n of FileNode _ l o' d \<Rightarrow> FileNode mode l o' d | _ \<Rightarrow> n))"

definition os_write :: "path \<Rightarrow> bytes \<Rightarrow> ('z os_world_scheme, nat) st" where
  "os_write p data = syscall (\<lambda>short.
     let n = (case short of None \<Rightarrow> length data | Some k \<Rightarrow> min k (length data)) in
     thenS (update_file p (\<lambda>m. case m of FileNode mode l o' d \<Rightarrow> FileNode mode l o' (d @ take n data) | _ \<Rightarrow> m))
       (returnS n))"

definition os_fsync :: "path \<Rightarrow> ('z os_world_scheme, unit) st" where
  "os_fsync p = syscall (\<lambda>_. returnS ())"

text \<open>\<open>renameatx_np\<close> with \<open>RENAME_EXCL\<close>: atomic, and refused when the destination exists.\<close>

definition os_rename_excl :: "path \<Rightarrow> path \<Rightarrow> ('z os_world_scheme, unit) st" where
  "os_rename_excl p q = syscall (\<lambda>_ w.
     case map_of (w_fs w) p of
       None \<Rightarrow> (Inl (OSError ''ENOENT''), w)
     | Some n \<Rightarrow>
         if map_of (w_fs w) q \<noteq> None then (Inl (OSError ''EEXIST''), w)
         else (Inr (), w\<lparr>w_fs := AList.update q n (AList.delete p (w_fs w))\<rparr>))"

definition os_unlink :: "path \<Rightarrow> ('z os_world_scheme, unit) st" where
  "os_unlink p = syscall (\<lambda>_ w.
     case map_of (w_fs w) p of
       None \<Rightarrow> (Inl (OSError ''ENOENT''), w)
     | Some _ \<Rightarrow> (Inr (), w\<lparr>w_fs := AList.delete p (w_fs w)\<rparr>))"

text \<open>\<open>uuid.uuid4().hex\<close>: the next number of the run in 32 hexadecimal digits.\<close>

definition fmt_hex :: "nat \<Rightarrow> nat \<Rightarrow> string" where
  "fmt_hex width n = replicate (width - length (hex_str n)) (CHR ''0'') @ hex_str n"

definition uuid4_hex :: "('z os_world_scheme, ustr) st" where
  "uuid4_hex = (\<lambda>w.
     case w_uuids w of
       [] \<Rightarrow> (Inr (u (fmt_hex 32 0)), w)
     | n # ns \<Rightarrow> (Inr (u (fmt_hex 32 (n mod 2 ^ 128))), w\<lparr>w_uuids := ns\<rparr>))"

section \<open>Which changes a call makes\<close>

lemma map_of_update [simp]: "map_of (AList.update k v fs) = (map_of fs)(k \<mapsto> v)"
  by (rule update_conv')

lemma map_of_delete [simp]: "map_of (AList.delete k fs) = (map_of fs)(k := None)"
  by (rule delete_conv')

text \<open>A relation on worlds that depends on the file system only.\<close>

definition fs_rel :: "((path \<rightharpoonup> node) \<Rightarrow> (path \<rightharpoonup> node) \<Rightarrow> bool) \<Rightarrow> 'z os_world_scheme \<Rightarrow> 'z os_world_scheme \<Rightarrow> bool" where
  "fs_rel Q w w' = Q (map_of (w_fs w)) (map_of (w_fs w'))"

end
