(* ===== verification/Capture_Archive.thy ===== *)
theory Capture_Archive
  imports Py_Os
begin

text \<open>
  The private archive of a capture session, \<open>scripts/physical_capture/archive.py\<close>: every operation of
  \<open>SecureArchive\<close> as the sequence of its system calls. A descriptor is the path it was opened at. The
  object's own fields are part of the world: the root, whether it is open, and the sealed prefixes.
\<close>

section \<open>Paths and nodes\<close>

definition PRIVATE_DIRECTORY_MODE :: nat where "PRIVATE_DIRECTORY_MODE = 448"
definition PRIVATE_FILE_MODE :: nat where "PRIVATE_FILE_MODE = 384"
definition DEFAULT_MAXIMUM_BYTES :: nat where "DEFAULT_MAXIMUM_BYTES = 256 * 1024 * 1024"
definition MAX_PATH_COMPONENT_BYTES :: nat where "MAX_PATH_COMPONENT_BYTES = 128"

text \<open>
  \<open>_PENDING_RE\<close> under \<open>fullmatch\<close>: a dot, the final name, \<open>.pending-\<close> and 32 hexadecimal digits. The
  value is the group \<open>final\<close>.
\<close>

definition PENDING_RE :: "ustr \<Rightarrow> ustr option" where
  "PENDING_RE name =
     (let k = length name - 41; final = py_slice name 1 k in
      if 42 < length name \<and> take 1 name = [46] \<and> PATH_COMPONENT_RE final \<and>
         py_slice name k (k + 9) = u ''.pending-'' \<and> list_all is_lower_hex (drop (k + 9) name)
      then Some final else None)"

record archived_file =
  af_relative_path :: ustr
  af_size :: nat
  af_sha256 :: ustr

record pending_file =
  pf_relative_path :: ustr
  pf_final_relative_path :: ustr

definition archived_descriptor :: "archived_file \<Rightarrow> ustr \<Rightarrow> json res" where
  "archived_descriptor f kind =
     (if \<not> PATH_COMPONENT_RE kind then
        Inl (ArchiveError ''invalid_artifact_kind'' ''artifact kind is not a bounded identifier'')
      else Inr (JObj [(u ''kind'', JStr kind), (u ''path'', JStr (af_relative_path f)),
        (u ''size'', JInt (int (af_size f))), (u ''sha256'', JStr (af_sha256 f))]))"

text \<open>The text is encoded before anything is known of it, so a surrogate raises \<open>UnicodeEncodeError\<close>.\<close>

definition relative_parts :: "ustr \<Rightarrow> path res" where
  "relative_parts text =
     (if text = [] \<or> 92 \<in> set text \<or> 0 \<in> set text then
        Inl (ArchiveError ''invalid_relative_path'' ''{} is not a bounded POSIX relative path'')
      else bindE (utf8_encode text) (\<lambda>bs.
      if length bs > MAX_RELATIVE_PATH_BYTES then
        Inl (ArchiveError ''invalid_relative_path'' ''{} is not a bounded POSIX relative path'')
      else if path_absolute text \<or> path_str text \<noteq> text then
        Inl (ArchiveError ''invalid_relative_path'' ''{} must be canonical and relative'')
      else let parts = path_parts text in
      if parts = [] \<or> list_ex (\<lambda>part. part \<in> {[], [46], [46, 46]}
           \<or> (case utf8_encode part of Inl _ \<Rightarrow> True | Inr b \<Rightarrow> length b > MAX_PATH_COMPONENT_BYTES)
           \<or> \<not> PATH_COMPONENT_RE part) parts then
        Inl (ArchiveError ''invalid_relative_path'' ''{} contains an unsafe path component'')
      else Inr parts))"

definition validate_directory :: "nat \<Rightarrow> node \<Rightarrow> bool \<Rightarrow> unit res" where
  "validate_directory euid n private =
     (case n of
        DirNode mode uid \<Rightarrow>
          if uid \<noteq> euid then Inl (ArchiveError ''unsafe_directory'' ''{} is not an owner-controlled directory'')
          else if private then
            if mode mod 4096 \<noteq> PRIVATE_DIRECTORY_MODE then
              Inl (ArchiveError ''unsafe_directory_mode'' ''{} mode must be 0700'')
            else Inr ()
          else if mode AND 18 \<noteq> 0 then
            Inl (ArchiveError ''unsafe_directory_mode'' ''{} must not be group/world writable'')
          else Inr ()
      | _ \<Rightarrow> Inl (ArchiveError ''unsafe_directory'' ''{} is not an owner-controlled directory''))"

definition validate_private_file :: "nat \<Rightarrow> node \<Rightarrow> unit res" where
  "validate_private_file euid n =
     (case n of
        FileNode mode nlink uid _ \<Rightarrow>
          if nlink \<noteq> 1 \<or> uid \<noteq> euid \<or> mode mod 4096 \<noteq> PRIVATE_FILE_MODE then
            Inl (ArchiveError ''unsafe_private_file'' ''{} must be an owner-only regular single-link file'')
          else Inr ()
      | _ \<Rightarrow> Inl (ArchiveError ''unsafe_private_file'' ''{} must be an owner-only regular single-link file''))"

section \<open>The archive object\<close>

record archive_world = os_world +
  ar_root_text :: ustr
  ar_root :: path
  ar_open :: bool
  ar_sealed :: "path list"

text \<open>\<open>except OSError\<close>, with the error number.\<close>

definition except_os :: "('w, 'a) st \<Rightarrow> (string \<Rightarrow> ('w, 'a) st) \<Rightarrow> ('w, 'a) st" where
  "except_os m h = catchS m (\<lambda>e. case e of OSError code \<Rightarrow> h code | _ \<Rightarrow> raiseS e)"

definition open_directory_at :: "path \<Rightarrow> bool \<Rightarrow> ('z archive_world_scheme, path) st" where
  "open_directory_at p private =
     bindS (except_os (os_open_directory p) (\<lambda>code.
       raiseS (ArchiveError (if code = ''ENOENT'' then ''directory_not_found'' else ''directory_open_failed'')
         ''cannot securely open directory {}''))) (\<lambda>n.
     bindS (getS w_euid) (\<lambda>euid.
     thenS (liftS (validate_directory euid n private)) (returnS p)))"

definition fsync_directory :: "path \<Rightarrow> ('z archive_world_scheme, unit) st" where
  "fsync_directory p =
     except_os (os_fsync p) (\<lambda>_. raiseS (ArchiveError ''directory_fsync_failed'' ''cannot make archive directory durable''))"

definition exclusive_rename_at :: "path \<Rightarrow> path \<Rightarrow> ('z archive_world_scheme, unit) st" where
  "exclusive_rename_at source destination =
     bindS (getS w_darwin) (\<lambda>darwin.
     if \<not> darwin then
       raiseS (ArchiveError ''unsupported_atomic_platform''
         ''exclusive physical archive publication requires macOS renameatx_np'')
     else except_os (os_rename_excl source destination) (\<lambda>code.
       raiseS (ArchiveError (if code = ''EEXIST'' then ''archive_destination_exists'' else ''atomic_rename_failed'')
         ''cannot exclusively publish archive file {}'')))"

definition open_or_create_private_directory :: "path \<Rightarrow> ('z archive_world_scheme, path) st" where
  "open_or_create_private_directory p =
     catchS (open_directory_at p True) (\<lambda>e.
       case e of
         ArchiveError code _ \<Rightarrow>
           if code \<noteq> ''directory_not_found'' then raiseS e
           else
             bindS (except_os (thenS (os_mkdir p PRIVATE_DIRECTORY_MODE) (returnS True)) (\<lambda>errno.
               if errno = ''EEXIST'' then returnS False
               else raiseS (ArchiveError ''directory_create_failed'' ''cannot create private directory {}''))) (\<lambda>created.
             bindS (open_directory_at p True) (\<lambda>descriptor.
             thenS (whenS created (fsync_directory (butlast p))) (returnS descriptor)))
       | _ \<Rightarrow> raiseS e)"

definition open_target :: "('z archive_world_scheme, path) st" where
  "open_target = open_directory_at [] False"

definition archive_create :: "ustr \<Rightarrow> ('z archive_world_scheme, unit) st" where
  "archive_create root_relative_to_target =
     bindS (liftS (relative_parts root_relative_to_target)) (\<lambda>root_parts.
     bindS open_target (\<lambda>target.
     bindS (foldS (\<lambda>current component. open_or_create_private_directory (current @ [component])) target (butlast root_parts)) (\<lambda>current.
     let final = current @ [last root_parts] in
     thenS (except_os (os_mkdir final PRIVATE_DIRECTORY_MODE) (\<lambda>code.
       raiseS (if code = ''EEXIST'' then ArchiveError ''archive_exists'' ''physical capture archive already exists''
               else ArchiveError ''archive_create_failed'' ''cannot create physical capture archive'')))
     (bindS (open_directory_at final True) (\<lambda>root.
     thenS (fsync_directory current)
     (modifyS (\<lambda>w. w\<lparr>ar_root_text := root_relative_to_target, ar_root := root_parts, ar_open := True, ar_sealed := []\<rparr>)))))))"

definition archive_open :: "ustr \<Rightarrow> ('z archive_world_scheme, unit) st" where
  "archive_open root_relative_to_target =
     bindS (liftS (relative_parts root_relative_to_target)) (\<lambda>root_parts.
     bindS open_target (\<lambda>target.
     bindS (foldS (\<lambda>current component. open_directory_at (current @ [component]) True) target root_parts) (\<lambda>root.
     modifyS (\<lambda>w. w\<lparr>ar_root_text := root_relative_to_target, ar_root := root_parts, ar_open := True, ar_sealed := []\<rparr>))))"

definition archive_close :: "('z archive_world_scheme, unit) st" where
  "archive_close = modifyS (\<lambda>w. w\<lparr>ar_open := False\<rparr>)"

definition archive_require_open :: "('z archive_world_scheme, path) st" where
  "archive_require_open =
     bindS (getS ar_open) (\<lambda>is_open.
     if \<not> is_open then raiseS (ArchiveError ''archive_closed'' ''physical capture archive is closed'')
     else getS ar_root)"

fun overlapping :: "path list \<Rightarrow> bool" where
  "overlapping [] = False"
| "overlapping (p # ps) = (list_ex (\<lambda>candidate. take (length p) candidate = p) ps \<or> overlapping ps)"

definition seal_prefixes :: "ustr list \<Rightarrow> ('z archive_world_scheme, unit) st" where
  "seal_prefixes namespaces =
     thenS archive_require_open
     (if namespaces = [] then
        raiseS (ArchiveError ''invalid_sealed_prefixes'' ''sealed archive prefixes must be a non-empty tuple'')
      else bindS (liftS (mapE relative_parts namespaces)) (\<lambda>parts.
      let normalized = sort (remdups parts) in
      if length normalized \<noteq> length namespaces \<or> overlapping normalized then
        raiseS (ArchiveError ''invalid_sealed_prefixes'' ''sealed archive prefixes must be unique and non-overlapping'')
      else bindS (getS ar_sealed) (\<lambda>sealed.
      if sealed \<noteq> [] \<and> sealed \<noteq> normalized then
        raiseS (ArchiveError ''sealed_prefix_drift'' ''archive prefixes cannot be changed after they are sealed'')
      else modifyS (\<lambda>w. w\<lparr>ar_sealed := normalized\<rparr>))))"

definition require_mutable :: "ustr \<Rightarrow> ('z archive_world_scheme, unit) st" where
  "require_mutable relative =
     bindS (liftS (relative_parts relative)) (\<lambda>parts.
     bindS (getS ar_sealed) (\<lambda>sealed.
     if list_ex (\<lambda>p. take (length p) parts = p) sealed then
       raiseS (ArchiveError ''archive_namespace_sealed'' ''manifest-bound observation namespace is immutable'')
     else returnS ()))"

definition check_root_binding :: "('z archive_world_scheme, unit) st" where
  "check_root_binding =
     bindS open_target (\<lambda>target.
     bindS (getS ar_root) (\<lambda>root_parts.
     thenS (foldS (\<lambda>current component. open_directory_at (current @ [component]) True) target root_parts)
     (returnS ())))"

definition open_relative_directory :: "path \<Rightarrow> bool \<Rightarrow> ('z archive_world_scheme, path) st" where
  "open_relative_directory parts create =
     thenS check_root_binding
     (bindS archive_require_open (\<lambda>root.
     foldS (\<lambda>current component.
       if create then open_or_create_private_directory (current @ [component])
       else open_directory_at (current @ [component]) True) root parts))"

definition ensure_directory :: "ustr \<Rightarrow> ('z archive_world_scheme, unit) st" where
  "ensure_directory relative =
     thenS (require_mutable relative)
     (bindS (liftS (relative_parts relative)) (\<lambda>parts.
     thenS (open_relative_directory parts True) (returnS ())))"

definition parent_and_name :: "ustr \<Rightarrow> bool \<Rightarrow> ('z archive_world_scheme, path \<times> ustr) st" where
  "parent_and_name relative create_parents =
     bindS (liftS (relative_parts relative)) (\<lambda>parts.
     bindS (open_relative_directory (butlast parts) create_parents) (\<lambda>parent.
     returnS (parent, last parts)))"

section \<open>Writing\<close>

definition new_pending_name :: "ustr \<Rightarrow> ('z archive_world_scheme, ustr) st" where
  "new_pending_name final_name =
     bindS uuid4_hex (\<lambda>nonce. returnS ([46] @ final_name @ u ''.pending-'' @ nonce))"

text \<open>\<open>_validate_private_file(os.fstat(descriptor), \<dots>)\<close>.\<close>

definition validate_opened :: "path \<Rightarrow> ('z archive_world_scheme, unit) st" where
  "validate_opened p =
     bindS (getS w_euid) (\<lambda>euid. bindS (getS w_fs) (\<lambda>fs.
     liftS (case map_of fs p of Some n \<Rightarrow> validate_private_file euid n | None \<Rightarrow> validate_private_file euid OtherNode)))"

definition open_new_private :: "path \<Rightarrow> ('z archive_world_scheme, unit) st" where
  "open_new_private p =
     thenS (except_os (os_create p PRIVATE_FILE_MODE) (\<lambda>_.
       raiseS (ArchiveError ''private_file_create_failed'' ''cannot create private file {}'')))
     (thenS (os_fchmod p PRIVATE_FILE_MODE) (validate_opened p))"

lemma syscall_write_count: "os_write p data w = (Inr n, w') \<Longrightarrow> n \<le> length data"
  by (auto simp: os_write_def syscall_def thenS_def bindS_def Let_def split: list.splits fault.splits prod.splits sum.splits)

function write_all :: "path \<Rightarrow> bytes \<Rightarrow> ('z archive_world_scheme, unit) st" where
  "write_all p data w =
     (if data = [] then (Inr (), w)
      else case os_write p data w of
        (Inl e, w') \<Rightarrow> (Inl e, w')
      | (Inr written, w') \<Rightarrow>
          if written = 0 then (Inl (OSError ''EIO''), w') else write_all p (drop written data) w')"
  by pat_completeness auto
termination
  by (relation "measure (\<lambda>(p, data, w). length data)") auto

declare write_all.simps [simp del]

definition read_opened :: "path \<Rightarrow> node \<Rightarrow> nat \<Rightarrow> ('z archive_world_scheme, bytes) st" where
  "read_opened p metadata maximum =
     (let n = length (node_data metadata) in
      if n < 1 \<or> n > maximum then
        raiseS (ArchiveError ''archive_file_size'' ''archive file size is outside the accepted bound'')
      else os_read_all p)"

definition open_existing_private_at :: "path \<Rightarrow> ('z archive_world_scheme, node) st" where
  "open_existing_private_at p =
     bindS (except_os (os_open p) (\<lambda>_. raiseS (ArchiveError ''archive_file_open_failed'' ''cannot securely open archive file {}''))) (\<lambda>n.
     bindS (getS w_euid) (\<lambda>euid.
     thenS (liftS (validate_private_file euid n)) (returnS n)))"

definition archived :: "ustr \<Rightarrow> bytes \<Rightarrow> archived_file" where
  "archived relative data = \<lparr>af_relative_path = relative, af_size = length data, af_sha256 = u (sha256_hex data)\<rparr>"

definition verify_published_at :: "path \<Rightarrow> nat \<Rightarrow> archived_file \<Rightarrow> ('z archive_world_scheme, archived_file) st" where
  "verify_published_at p maximum expected =
     bindS (open_existing_private_at p) (\<lambda>metadata.
     bindS (read_opened p metadata maximum) (\<lambda>data.
     let observed = archived (af_relative_path expected) data in
     if observed \<noteq> expected then
       raiseS (ArchiveError ''archive_publish_mismatch'' ''published archive bytes differ from the source'')
     else returnS observed))"

definition remove_unpublished :: "path \<Rightarrow> ('z archive_world_scheme, unit) st" where
  "remove_unpublished p =
     except_os (thenS (os_unlink p) (fsync_directory (butlast p)))
       (\<lambda>code. if code = ''ENOENT'' then returnS () else raiseS (OSError code))"

text \<open>The part of the \<open>try\<close> block of \<open>write_bytes\<close> before \<open>published\<close> is set, with its handler.\<close>

definition write_pending :: "path \<Rightarrow> bytes \<Rightarrow> ('z archive_world_scheme, unit) st" where
  "write_pending pending data =
     thenS (open_new_private pending)
     (thenS (write_all pending data)
     (thenS (os_fsync pending)
     (validate_opened pending)))"

definition publish_new :: "path \<Rightarrow> path \<Rightarrow> bytes \<Rightarrow> ('z archive_world_scheme, unit) st" where
  "publish_new pending final data =
     on_errorS (thenS (write_pending pending data) (exclusive_rename_at pending final)) (remove_unpublished pending)"

definition write_bytes :: "ustr \<Rightarrow> bytes \<Rightarrow> nat \<Rightarrow> ('z archive_world_scheme, archived_file) st" where
  "write_bytes relative data maximum =
     thenS (require_mutable relative)
     (if data = [] \<or> length data > maximum then
        raiseS (ArchiveError ''invalid_archive_bytes'' ''archive bytes are empty or exceed the fixed bound'')
      else bindS (parent_and_name relative True) (\<lambda>(parent, final_name).
      bindS (new_pending_name final_name) (\<lambda>pending_name.
      thenS (publish_new (parent @ [pending_name]) (parent @ [final_name]) data)
      (thenS (fsync_directory parent)
      (verify_published_at (parent @ [final_name]) maximum (archived relative data))))))"

definition read_bytes :: "ustr \<Rightarrow> nat \<Rightarrow> ('z archive_world_scheme, bytes) st" where
  "read_bytes relative maximum =
     bindS (parent_and_name relative False) (\<lambda>(parent, name).
     bindS (open_existing_private_at (parent @ [name])) (\<lambda>before.
     bindS (read_opened (parent @ [name]) before maximum) (\<lambda>data.
     thenS (open_existing_private_at (parent @ [name])) (returnS data))))"

definition describe_file :: "ustr \<Rightarrow> nat \<Rightarrow> ('z archive_world_scheme, archived_file) st" where
  "describe_file relative maximum =
     bindS (read_bytes relative maximum) (\<lambda>data. returnS (archived relative data))"

section \<open>Listing\<close>

definition unsafe_entry :: "ustr \<Rightarrow> bool" where
  "unsafe_entry name = (name = [] \<or> 47 \<in> set name \<or> 0 \<in> set name)"

definition list_names :: "ustr \<Rightarrow> ('z archive_world_scheme, ustr list) st" where
  "list_names relative_directory =
     bindS (liftS (relative_parts relative_directory)) (\<lambda>parts.
     bindS (open_relative_directory parts False) (\<lambda>descriptor.
     bindS (except_os (os_listdir descriptor) (\<lambda>_.
       raiseS (ArchiveError ''directory_list_failed'' ''cannot enumerate archive directory''))) (\<lambda>names.
     if list_ex unsafe_entry names then
       raiseS (ArchiveError ''unsafe_directory_entry'' ''archive directory contains an unsafe entry name'')
     else returnS (sort names))))"

definition list_root_names :: "('z archive_world_scheme, ustr list) st" where
  "list_root_names =
     thenS check_root_binding
     (bindS archive_require_open (\<lambda>descriptor.
     bindS (except_os (os_listdir descriptor) (\<lambda>_.
       raiseS (ArchiveError ''directory_list_failed'' ''cannot enumerate archive root''))) (\<lambda>names.
     if list_ex unsafe_entry names then
       raiseS (ArchiveError ''unsafe_directory_entry'' ''archive root contains an unsafe entry name'')
     else returnS (sort names))))"

section \<open>Lock files\<close>

definition create_lock_file :: "ustr \<Rightarrow> ('z archive_world_scheme, path) st" where
  "create_lock_file relative =
     thenS (require_mutable relative)
     (bindS (parent_and_name relative True) (\<lambda>(parent, name).
     thenS (open_new_private (parent @ [name]))
     (on_errorS
       (thenS (os_fsync (parent @ [name])) (thenS (fsync_directory parent) (returnS (parent @ [name]))))
       (remove_unpublished (parent @ [name])))))"

definition open_lock_file :: "ustr \<Rightarrow> ('z archive_world_scheme, path) st" where
  "open_lock_file relative =
     thenS (require_mutable relative)
     (bindS (parent_and_name relative False) (\<lambda>(parent, name).
     bindS (os_open (parent @ [name])) (\<lambda>n.
     bindS (getS w_euid) (\<lambda>euid.
     thenS (liftS (validate_private_file euid n)) (returnS (parent @ [name]))))))"

section \<open>Pending files\<close>

definition path_name :: "ustr \<Rightarrow> ustr" where
  "path_name text = (let parts = path_parts text in if parts = [] then [] else last parts)"

definition pending_files :: "ustr \<Rightarrow> ('z archive_world_scheme, pending_file list) st" where
  "pending_files relative_directory =
     bindS (list_names relative_directory) (\<lambda>names.
     returnS (concat (map (\<lambda>name.
       case PENDING_RE name of
         None \<Rightarrow> []
       | Some final \<Rightarrow> [\<lparr>pf_relative_path = relative_directory @ [47] @ name,
                        pf_final_relative_path = relative_directory @ [47] @ final\<rparr>]) names)))"

definition open_pending :: "pending_file \<Rightarrow> ('z archive_world_scheme, path) st" where
  "open_pending pending =
     (if PENDING_RE (path_name (pf_relative_path pending)) = None then
        raiseS (ArchiveError ''invalid_pending_name'' ''pending archive name is malformed'')
      else bindS (open_relative_directory (butlast (path_parts (pf_relative_path pending))) False) (\<lambda>parent.
      returnS (parent @ [path_name (pf_relative_path pending)])))"

definition read_pending :: "pending_file \<Rightarrow> nat \<Rightarrow> ('z archive_world_scheme, bytes) st" where
  "read_pending pending maximum =
     bindS (open_pending pending) (\<lambda>p.
     bindS (open_existing_private_at p) (\<lambda>before.
     read_opened p before maximum))"

definition read_pending_fragment :: "pending_file \<Rightarrow> nat \<Rightarrow> ('z archive_world_scheme, bytes) st" where
  "read_pending_fragment pending maximum =
     bindS (open_pending pending) (\<lambda>p.
     bindS (open_existing_private_at p) (\<lambda>before.
     if length (node_data before) > maximum then
       raiseS (ArchiveError ''archive_file_size'' ''pending archive fragment exceeds the accepted bound'')
     else os_read_all p))"

definition publish_pending :: "pending_file \<Rightarrow> ('z archive_world_scheme, unit) st" where
  "publish_pending pending =
     thenS (require_mutable (pf_final_relative_path pending))
     (let pending_path = path_parts (pf_relative_path pending); final_path = path_parts (pf_final_relative_path pending) in
      if PENDING_RE (path_name (pf_relative_path pending)) = None
         \<or> butlast pending_path \<noteq> butlast final_path
         \<or> PENDING_RE (path_name (pf_relative_path pending)) \<noteq> Some (path_name (pf_final_relative_path pending)) then
        raiseS (ArchiveError ''invalid_pending_binding'' ''pending archive target binding is malformed'')
      else bindS (open_relative_directory (butlast pending_path) False) (\<lambda>parent.
      thenS (open_existing_private_at (parent @ [path_name (pf_relative_path pending)]))
      (thenS (exclusive_rename_at (parent @ [path_name (pf_relative_path pending)])
                (parent @ [path_name (pf_final_relative_path pending)]))
      (fsync_directory parent))))"

definition discard_pending :: "pending_file \<Rightarrow> ('z archive_world_scheme, unit) st" where
  "discard_pending pending =
     thenS (require_mutable (pf_final_relative_path pending))
     (bindS (open_pending pending) (\<lambda>p.
     thenS (open_existing_private_at p)
     (thenS (os_unlink p) (fsync_directory (butlast p)))))"

definition verify_exact_descriptor :: "ustr \<Rightarrow> archived_file \<Rightarrow> nat \<Rightarrow> ('z archive_world_scheme, archived_file) st" where
  "verify_exact_descriptor relative expected maximum =
     bindS (describe_file relative maximum) (\<lambda>observed.
     if observed \<noteq> expected then
       raiseS (ArchiveError ''archive_publish_mismatch'' ''reopened exact archive descriptor differs from the source'')
     else returnS observed)"

text \<open>The loop of \<open>write_or_reopen_exact\<close> over the names of the parent directory.\<close>

definition pending_of_names :: "ustr \<Rightarrow> ustr list \<Rightarrow> pending_file list res" where
  "pending_of_names parent_relative names =
     foldE (\<lambda>pending name.
       case PENDING_RE name of
         Some final \<Rightarrow>
           Inr (pending @ [\<lparr>pf_relative_path = parent_relative @ [47] @ name,
                            pf_final_relative_path = parent_relative @ [47] @ final\<rparr>])
       | None \<Rightarrow>
           if take 1 name = [46] then
             Inl (ArchiveError ''unexpected_pending_archive_file'' ''exact archive parent contains a malformed hidden file'')
           else Inr pending) [] names"

definition starts_with :: "'a list \<Rightarrow> 'a list \<Rightarrow> bool" where
  "starts_with xs ys = (take (length ys) xs = ys)"

definition reopen_published :: "ustr \<Rightarrow> bytes \<Rightarrow> nat \<Rightarrow> pending_file list \<Rightarrow> ('z archive_world_scheme, archived_file) st" where
  "reopen_published relative data maximum target_pending =
     bindS (read_bytes relative maximum) (\<lambda>observed.
     if observed \<noteq> data then
       raiseS (ArchiveError ''archive_publish_mismatch'' ''published exact archive bytes differ from the source'')
     else
       thenS (case target_pending of
           [] \<Rightarrow> returnS ()
         | candidate # _ \<Rightarrow>
             bindS (read_pending_fragment candidate maximum) (\<lambda>interrupted.
             if \<not> starts_with data interrupted then
               raiseS (ArchiveError ''pending_archive_mismatch'' ''pending exact archive bytes are not a source prefix'')
             else discard_pending candidate))
       (verify_exact_descriptor relative (archived relative data) maximum))"

definition write_exact :: "ustr \<Rightarrow> bytes \<Rightarrow> nat \<Rightarrow> ('z archive_world_scheme, archived_file) st" where
  "write_exact relative data maximum =
     bindS (write_bytes relative data maximum) (\<lambda>f.
     if f \<noteq> archived relative data then
       raiseS (ArchiveError ''archive_publish_mismatch'' ''published exact archive descriptor differs from the source'')
     else returnS f)"

definition write_or_reopen_exact :: "ustr \<Rightarrow> bytes \<Rightarrow> nat \<Rightarrow> ('z archive_world_scheme, archived_file) st" where
  "write_or_reopen_exact relative data maximum =
     thenS (require_mutable relative)
     (bindS (liftS (relative_parts relative)) (\<lambda>parts.
     if length parts < 2 then
       raiseS (ArchiveError ''exact_archive_parent_required'' ''exact archive recovery requires a named private subdirectory'')
     else if data = [] \<or> length data > maximum then
       raiseS (ArchiveError ''invalid_archive_bytes'' ''exact archive bytes are empty or exceed the fixed bound'')
     else bindS (open_relative_directory (butlast parts) True) (\<lambda>parent.
     bindS (except_os (os_listdir parent) (\<lambda>_.
       raiseS (ArchiveError ''directory_list_failed'' ''cannot enumerate exact archive parent''))) (\<lambda>names.
     if list_ex unsafe_entry names then
       raiseS (ArchiveError ''unsafe_directory_entry'' ''exact archive parent contains an unsafe entry'')
     else bindS (liftS (pending_of_names (join_with [47] (butlast parts)) names)) (\<lambda>pending.
     let target_pending = filter (\<lambda>item. pf_final_relative_path item = relative) pending in
     if length pending > 1 then
       raiseS (ArchiveError ''ambiguous_pending_archive_file'' ''exact archive parent contains multiple pending files'')
     else if last parts \<in> set names then
       reopen_published relative data maximum target_pending
     else if pending \<noteq> [] \<and> target_pending = [] then
       raiseS (ArchiveError ''ambiguous_pending_archive_file'' ''exact archive target is preceded by another pending stage'')
     else case target_pending of
         [] \<Rightarrow> write_exact relative data maximum
       | candidate # _ \<Rightarrow>
           bindS (read_pending_fragment candidate maximum) (\<lambda>interrupted.
           if interrupted = data then
             thenS (publish_pending candidate) (verify_exact_descriptor relative (archived relative data) maximum)
           else if \<not> starts_with data interrupted then
             raiseS (ArchiveError ''pending_archive_mismatch'' ''pending exact archive bytes are not a source prefix'')
           else thenS (discard_pending candidate) (write_exact relative data maximum)))))))"

section \<open>The changes an operation may make\<close>

text \<open>
  The contract of a relation between the worlds before and after: it allows the bookkeeping of
  system calls, new directories at the paths in \<open>D\<close>, any change at the paths in \<open>F\<close>, and moving a
  node from a path in \<open>F\<close> to a free path in \<open>G\<close>. Whatever the faults of the run, every operation
  below keeps such a relation when the paths it works on are in these sets.
\<close>

locale archive_relation = state_relation R
  for R :: "'z archive_world_scheme \<Rightarrow> 'z archive_world_scheme \<Rightarrow> bool" +
  fixes D F G :: "path set"
  assumes R_faults: "R w (w\<lparr>w_faults := fs\<rparr>)"
    and R_uuids: "R w (w\<lparr>w_uuids := us\<rparr>)"
    and R_mkdir: "p \<in> D \<Longrightarrow> map_of (w_fs w) p = None \<Longrightarrow> R w (w\<lparr>w_fs := AList.update p (DirNode m i) (w_fs w)\<rparr>)"
    and R_update: "p \<in> F \<Longrightarrow> R w (w\<lparr>w_fs := AList.update p n (w_fs w)\<rparr>)"
    and R_delete: "p \<in> F \<Longrightarrow> R w (w\<lparr>w_fs := AList.delete p (w_fs w)\<rparr>)"
    and R_rename: "p \<in> F \<Longrightarrow> q \<in> G \<Longrightarrow> map_of (w_fs w) q = None \<Longrightarrow>
      R w (w\<lparr>w_fs := AList.update q n (AList.delete p (w_fs w))\<rparr>)"
begin

lemma keeps_syscall: "(\<And>short. keeps R (act short)) \<Longrightarrow> keeps R (syscall act)"
proof (rule keepsI)
  fix w r w' assume a: "\<And>short. keeps R (act short)" and s: "syscall act w = (r, w')"
  show "R w w'"
  proof (cases "w_faults w")
    case Nil
    then show ?thesis using s by (simp add: syscall_def keepsD [OF a])
  next
    case (Cons f fs)
    have "R (w\<lparr>w_faults := fs\<rparr>) w'" using s Cons
      by (cases f) (auto simp: syscall_def R_refl intro: keepsD [OF a])
    then show ?thesis using R_faults R_trans by blast
  qed
qed

lemma keeps_reads: "keeps R (os_open_directory p)" "keeps R (os_open p)" "keeps R (os_read_all p)"
  "keeps R (os_listdir p)" "keeps R (os_fsync p)"
  unfolding os_open_directory_def os_open_def os_read_all_def os_listdir_def os_fsync_def
  by (rule keeps_syscall, rule keepsI, simp add: R_refl split: option.splits node.splits, (auto simp: R_refl)?)+

lemma keeps_uuid: "keeps R uuid4_hex"
  by (rule keepsI) (auto simp: uuid4_hex_def R_refl R_uuids split: list.splits)

lemma keeps_mkdir: "p \<in> D \<Longrightarrow> keeps R (os_mkdir p mode)"
  unfolding os_mkdir_def by (rule keeps_syscall, rule keepsI) (auto simp: R_refl R_mkdir split: if_splits)

lemma keeps_create: "p \<in> F \<Longrightarrow> keeps R (os_create p mode)"
  unfolding os_create_def by (rule keeps_syscall, rule keepsI) (auto simp: R_refl R_update split: if_splits)

lemma keeps_update_file: "p \<in> F \<Longrightarrow> keeps R (update_file p f)"
  by (rule keepsI) (auto simp: update_file_def R_refl R_update split: option.splits)

lemma keeps_fchmod: "p \<in> F \<Longrightarrow> keeps R (os_fchmod p mode)"
  unfolding os_fchmod_def by (intro keeps_syscall keeps_update_file)

lemma keeps_write: "p \<in> F \<Longrightarrow> keeps R (os_write p data)"
  unfolding os_write_def Let_def by (intro keeps_syscall keeps_then keeps_update_file keeps_return)

lemma keeps_rename: "p \<in> F \<Longrightarrow> q \<in> G \<Longrightarrow> keeps R (os_rename_excl p q)"
  unfolding os_rename_excl_def
  by (rule keeps_syscall, rule keepsI) (auto simp: R_refl R_rename split: option.splits if_splits)

lemma keeps_unlink: "p \<in> F \<Longrightarrow> keeps R (os_unlink p)"
  unfolding os_unlink_def by (rule keeps_syscall, rule keepsI) (auto simp: R_refl R_delete split: option.splits)

lemma keeps_except_os: "keeps R m \<Longrightarrow> (\<And>code. keeps R (h code)) \<Longrightarrow> keeps R (except_os m h)"
  unfolding except_os_def by (rule keeps_catch) (auto intro: keeps_raise split: exn.splits)

lemmas keeps_basic = keeps_rules keeps_except_os keeps_reads keeps_uuid

lemma keeps_open_directory_at: "keeps R (open_directory_at p private)"
  unfolding open_directory_at_def by (intro keeps_basic)

lemma keeps_fsync_directory: "keeps R (fsync_directory p)"
  unfolding fsync_directory_def by (intro keeps_basic)

lemma keeps_exclusive_rename: "p \<in> F \<Longrightarrow> q \<in> G \<Longrightarrow> keeps R (exclusive_rename_at p q)"
  unfolding exclusive_rename_at_def by (intro keeps_basic keeps_rename)

lemma keeps_open_or_create: "p \<in> D \<Longrightarrow> keeps R (open_or_create_private_directory p)"
  unfolding open_or_create_private_directory_def
  by (intro keeps_catch keeps_open_directory_at)
    (auto intro!: keeps_basic keeps_open_directory_at keeps_fsync_directory keeps_mkdir split: exn.splits)

lemma keeps_require_open: "keeps R archive_require_open"
  unfolding archive_require_open_def by (intro keeps_basic)

lemma keeps_require_mutable: "keeps R (require_mutable relative)"
  unfolding require_mutable_def by (intro keeps_basic)

lemma keeps_check_root: "keeps R check_root_binding"
  unfolding check_root_binding_def open_target_def by (intro keeps_basic keeps_open_directory_at)

lemma keeps_open_relative_existing: "keeps R (open_relative_directory parts False)"
  unfolding open_relative_directory_def
  by (simp, intro keeps_basic keeps_check_root keeps_require_open keeps_open_directory_at)

lemma keeps_validate_opened: "keeps R (validate_opened p)"
  unfolding validate_opened_def by (intro keeps_basic)

lemma keeps_open_new_private: "p \<in> F \<Longrightarrow> keeps R (open_new_private p)"
  unfolding open_new_private_def by (intro keeps_basic keeps_create keeps_fchmod keeps_validate_opened)

lemma keeps_write_all:
  assumes "p \<in> F" shows "keeps R (write_all p data)"
proof (rule keepsI)
  fix w w' :: "'z archive_world_scheme" and r
  show "write_all p data w = (r, w') \<Longrightarrow> R w w'"
  proof (induction data arbitrary: w rule: length_induct)
    case (1 data)
    obtain x w1 where x: "os_write p data w = (x, w1)" by (cases "os_write p data w")
    have 2: "R w w1" using keepsD [OF keeps_write [OF assms] x] .
    show ?case
    proof (cases x)
      case (Inr k)
      show ?thesis
      proof (cases "data = [] \<or> k = 0")
        case False
        then have "write_all p (drop k data) w1 = (r, w')" "length (drop k data) < length data"
          using 1(2) x Inr by (simp_all add: write_all.simps [of p data w])
        then have "R w1 w'" using 1(1) by blast
        then show ?thesis using 2 R_trans by blast
      qed (use 1 x Inr 2 in \<open>auto simp: write_all.simps [of p data w] R_refl split: if_splits\<close>)
    qed (use 1 x 2 in \<open>auto simp: write_all.simps [of p data w] R_refl split: if_splits\<close>)
  qed
qed

lemma keeps_remove_unpublished: "p \<in> F \<Longrightarrow> keeps R (remove_unpublished p)"
  unfolding remove_unpublished_def by (intro keeps_basic keeps_unlink keeps_fsync_directory)

lemma keeps_write_pending: "p \<in> F \<Longrightarrow> keeps R (write_pending p data)"
  unfolding write_pending_def
  by (intro keeps_then keeps_open_new_private keeps_write_all keeps_reads keeps_validate_opened)

lemma keeps_publish_new: "p \<in> F \<Longrightarrow> q \<in> G \<Longrightarrow> keeps R (publish_new p q data)"
  unfolding publish_new_def
  by (intro keeps_on_error keeps_then keeps_write_pending keeps_exclusive_rename keeps_remove_unpublished)

lemma keeps_read_opened: "keeps R (read_opened p n maximum)"
  unfolding read_opened_def Let_def by (intro keeps_basic)

lemma keeps_open_existing: "keeps R (open_existing_private_at p)"
  unfolding open_existing_private_at_def by (intro keeps_basic)

lemma keeps_verify_published: "keeps R (verify_published_at p maximum expected)"
  unfolding verify_published_at_def Let_def by (intro keeps_basic keeps_open_existing keeps_read_opened)

lemma keeps_parent_existing: "keeps R (parent_and_name relative False)"
  unfolding parent_and_name_def by (intro keeps_basic keeps_open_relative_existing)

lemma keeps_read_bytes: "keeps R (read_bytes relative maximum)"
  unfolding read_bytes_def by (intro keeps_basic keeps_parent_existing keeps_open_existing keeps_read_opened)

lemma keeps_describe_file: "keeps R (describe_file relative maximum)"
  unfolding describe_file_def by (intro keeps_basic keeps_read_bytes)

lemma keeps_list_names: "keeps R (list_names relative)"
  unfolding list_names_def by (intro keeps_basic keeps_open_relative_existing)

lemma keeps_list_root_names: "keeps R list_root_names"
  unfolding list_root_names_def by (intro keeps_basic keeps_check_root keeps_require_open)

lemma keeps_pending_files: "keeps R (pending_files relative)"
  unfolding pending_files_def by (intro keeps_basic keeps_list_names)

lemma keeps_open_lock_file: "keeps R (open_lock_file relative)"
  unfolding open_lock_file_def by (intro keeps_basic keeps_require_mutable keeps_parent_existing)

lemma keeps_open_pending: "keeps R (open_pending pending)"
  unfolding open_pending_def by (intro keeps_basic keeps_open_relative_existing)

lemma keeps_read_pending: "keeps R (read_pending pending maximum)"
  unfolding read_pending_def by (intro keeps_basic keeps_open_pending keeps_open_existing keeps_read_opened)

lemma keeps_read_pending_fragment: "keeps R (read_pending_fragment pending maximum)"
  unfolding read_pending_fragment_def by (intro keeps_basic keeps_open_pending keeps_open_existing)

lemma keeps_verify_exact: "keeps R (verify_exact_descriptor relative expected maximum)"
  unfolding verify_exact_descriptor_def by (intro keeps_basic keeps_describe_file)

end

section \<open>Published files are kept\<close>

text \<open>A path is hidden when its last component starts with a dot, as the names of pending files do.\<close>

definition hidden :: "path \<Rightarrow> bool" where
  "hidden p = (p \<noteq> [] \<and> take 1 (last p) = [46])"

lemma new_pending_name_hidden: "new_pending_name final w = (Inr name, w') \<Longrightarrow> hidden (parent @ [name])"
  by (auto simp: new_pending_name_def bindS_Inr_iff hidden_def)

lemma PENDING_RE_hidden: "PENDING_RE name = Some final \<Longrightarrow> take 1 name = [46]"
  by (auto simp: PENDING_RE_def Let_def split: if_splits)

lemma open_pending_hidden: "open_pending pending w = (Inr p, w') \<Longrightarrow> hidden p"
  by (auto simp: open_pending_def bindS_Inr_iff hidden_def dest: PENDING_RE_hidden split: if_splits)

text \<open>The relations that allow every directory, the hidden files and every publication.\<close>

locale archive_policy = archive_relation R UNIV F UNIV
  for R :: "'z archive_world_scheme \<Rightarrow> 'z archive_world_scheme \<Rightarrow> bool" and F :: "path set" +
  assumes hidden_F: "hidden p \<Longrightarrow> p \<in> F"
begin

lemma keeps_open_relative: "keeps R (open_relative_directory parts create)"
  unfolding open_relative_directory_def
  by (intro keeps_basic keeps_check_root keeps_require_open keeps_open_or_create keeps_open_directory_at) simp

lemma keeps_parent_and_name: "keeps R (parent_and_name relative create)"
  unfolding parent_and_name_def by (intro keeps_basic keeps_open_relative)

lemma keeps_ensure_directory: "keeps R (ensure_directory relative)"
  unfolding ensure_directory_def by (intro keeps_basic keeps_require_mutable keeps_open_relative)

lemma keeps_new_pending_name: "keeps R (new_pending_name name)"
  unfolding new_pending_name_def by (intro keeps_basic)

lemma keeps_write_bytes: "keeps R (write_bytes relative data maximum)"
  unfolding write_bytes_def
  by (intro keeps_then keeps_if keeps_require_mutable keeps_raise keeps_bind keeps_parent_and_name
      keeps_case_prod keeps_bind_result [OF keeps_new_pending_name] keeps_publish_new
      keeps_fsync_directory keeps_verify_published)
    (auto intro: hidden_F new_pending_name_hidden)

lemma keeps_publish_pending: "keeps R (publish_pending pending)"
  unfolding publish_pending_def Let_def
  by (intro keeps_then keeps_if keeps_require_mutable keeps_raise keeps_bind keeps_open_relative keeps_open_existing
      keeps_exclusive_rename keeps_fsync_directory)
    (auto intro!: hidden_F simp: hidden_def dest: PENDING_RE_hidden)

lemma keeps_discard_pending: "keeps R (discard_pending pending)"
  unfolding discard_pending_def
  by (intro keeps_then keeps_require_mutable keeps_bind_result [OF keeps_open_pending] keeps_open_existing
      keeps_unlink keeps_fsync_directory) (auto intro: hidden_F open_pending_hidden)

lemma keeps_write_exact: "keeps R (write_exact relative data maximum)"
  unfolding write_exact_def by (intro keeps_basic keeps_write_bytes)

lemma keeps_reopen_published: "keeps R (reopen_published relative data maximum target)"
  unfolding reopen_published_def
  by (intro keeps_basic keeps_read_bytes keeps_read_pending_fragment keeps_discard_pending keeps_verify_exact)

lemma keeps_write_or_reopen_exact: "keeps R (write_or_reopen_exact relative data maximum)"
  unfolding write_or_reopen_exact_def Let_def
  by (intro keeps_basic keeps_require_mutable keeps_open_relative keeps_reopen_published keeps_write_exact
      keeps_read_pending_fragment keeps_publish_pending keeps_verify_exact keeps_discard_pending)

end

text \<open>Everything that is neither hidden nor exempt stays as it is.\<close>

definition published_kept :: "path set \<Rightarrow> (path \<rightharpoonup> node) \<Rightarrow> (path \<rightharpoonup> node) \<Rightarrow> bool" where
  "published_kept X fs fs' = (\<forall>p n. p \<notin> X \<longrightarrow> \<not> hidden p \<longrightarrow> fs p = Some n \<longrightarrow> fs' p = Some n)"

interpretation kept: archive_policy "fs_rel (published_kept X)" "{p. hidden p \<or> p \<in> X}" for X
  by unfold_locales (auto simp: fs_rel_def published_kept_def)

text \<open>The fields of the archive object and of the process, and whatever a larger world adds.\<close>

definition same_object :: "'z archive_world_scheme \<Rightarrow> 'z archive_world_scheme \<Rightarrow> bool" where
  "same_object w w' =
     (w_euid w' = w_euid w \<and> w_umask w' = w_umask w \<and> w_darwin w' = w_darwin w \<and> ar_root_text w' = ar_root_text w \<and>
      ar_root w' = ar_root w \<and> ar_open w' = ar_open w \<and> ar_sealed w' = ar_sealed w \<and>
      archive_world.more w' = archive_world.more w)"

interpretation object: archive_policy "same_object" "UNIV"
  by unfold_locales (auto simp: same_object_def)

section \<open>Writes are all or nothing\<close>

text \<open>New directories at the paths in \<open>D\<close> and any change at those in \<open>F\<close>, nothing else.\<close>

definition changes :: "path set \<Rightarrow> path set \<Rightarrow> (path \<rightharpoonup> node) \<Rightarrow> (path \<rightharpoonup> node) \<Rightarrow> bool" where
  "changes D F fs fs' =
     (\<forall>q. q \<notin> F \<longrightarrow> fs' q = fs q \<or> q \<in> D \<and> fs q = None \<and> (\<exists>m i. fs' q = Some (DirNode m i)))"

interpretation ch: archive_relation "fs_rel (changes D F)" D F F for D F
proof
  fix w1 w2 w3 :: "'a archive_world_scheme"
  show "fs_rel (changes D F) w1 w2 \<Longrightarrow> fs_rel (changes D F) w2 w3 \<Longrightarrow> fs_rel (changes D F) w1 w3"
    by (simp add: fs_rel_def changes_def) (metis option.distinct(1))
qed (auto simp: fs_rel_def changes_def)

lemma changes_mono: "fs_rel (changes D F) w w' \<Longrightarrow> D \<subseteq> D' \<Longrightarrow> F \<subseteq> F' \<Longrightarrow> fs_rel (changes D' F') w w'"
  by (auto simp: fs_rel_def changes_def)

lemma syscall_Inr:
  assumes "syscall act w = (Inr x, w')"
  obtains w1 short where "act short w1 = (Inr x, w')" "w1 = w \<or> (\<exists>fs. w1 = w\<lparr>w_faults := fs\<rparr>)"
  using assms by (auto simp: syscall_def Let_def split: list.splits fault.splits)

lemma except_os_Inr:
  assumes "except_os m h w = (Inr x, w')"
  obtains "m w = (Inr x, w')" | code w1 where "m w = (Inl (OSError code), w1)" "h code w1 = (Inr x, w')"
  using assms by (auto simp: except_os_def catchS_def split: prod.splits sum.splits if_splits exn.splits)

lemma thenS_Inr: "thenS m n w = (Inr y, w2) \<longleftrightarrow> (\<exists>x w1. m w = (Inr x, w1) \<and> n w1 = (Inr y, w2))"
  by (simp add: thenS_def bindS_Inr_iff)

lemma liftS_Inr: "liftS r w = (Inr x, w') \<longleftrightarrow> r = Inr x \<and> w' = w"
  by auto

lemma open_directory_at_result: "open_directory_at p private w = (Inr d, w') \<Longrightarrow> d = p"
  by (auto simp: open_directory_at_def bindS_Inr_iff thenS_Inr)

lemma open_or_create_result: "open_or_create_private_directory p w = (Inr d, w') \<Longrightarrow> d = p"
  by (auto simp: open_or_create_private_directory_def catchS_def bindS_Inr_iff thenS_Inr
      dest: open_directory_at_result split: prod.splits sum.splits if_splits exn.splits)

lemma fold_create_result:
  "foldS (\<lambda>current c. open_or_create_private_directory (current @ [c])) p parts w = (Inr d, w') \<Longrightarrow> d = p @ parts"
  by (induction parts arbitrary: p w) (auto simp: bindS_Inr_iff dest!: open_or_create_result, fastforce)

lemma fold_open_result:
  "foldS (\<lambda>current c. open_directory_at (current @ [c]) private) p parts w = (Inr d, w') \<Longrightarrow> d = p @ parts"
  by (induction parts arbitrary: p w) (auto simp: bindS_Inr_iff dest!: open_directory_at_result, fastforce)

context archive_relation
begin

lemma keeps_fold_dirs:
  assumes "\<And>k. 0 < k \<Longrightarrow> k \<le> length parts \<Longrightarrow> p @ take k parts \<in> D"
  shows "keeps R (foldS (\<lambda>current c. open_or_create_private_directory (current @ [c])) p parts)"
  using assms
proof (induction parts arbitrary: p)
  case (Cons c parts)
  have "p @ [c] \<in> D" using Cons.prems [of 1] by simp
  moreover have "keeps R (foldS (\<lambda>current c. open_or_create_private_directory (current @ [c])) (p @ [c]) parts)"
    by (rule Cons.IH) (use Cons.prems [of "Suc k" for k] in simp)
  ultimately show ?case
    by (auto intro!: keeps_bind_result keeps_open_or_create dest!: open_or_create_result)
qed (simp add: keeps_return)

end

lemma open_relative_result:
  "open_relative_directory parts create w = (Inr d, w') \<Longrightarrow> d = ar_root w @ parts"
proof -
  assume a: "open_relative_directory parts create w = (Inr d, w')"
  obtain w1 where w1: "check_root_binding w = (Inr (), w1)"
    "bindS archive_require_open (\<lambda>root. foldS (\<lambda>current c. if create then open_or_create_private_directory (current @ [c])
       else open_directory_at (current @ [c]) True) root parts) w1 = (Inr d, w')"
    using a by (auto simp: open_relative_directory_def thenS_Inr)
  have "ar_root w1 = ar_root w" using keepsD [OF object.keeps_check_root w1(1)] by (simp add: same_object_def)
  then show ?thesis using w1(2)
    by (cases create) (auto simp: bindS_Inr_iff archive_require_open_def dest!: fold_create_result fold_open_result split: if_splits)
qed

definition above :: "path \<Rightarrow> path \<Rightarrow> path set" where
  "above p parts = {p @ take k parts | k. 0 < k \<and> k \<le> length parts}"

lemma open_relative_adds:
  assumes "open_relative_directory parts True w = (r, w')"
  shows "fs_rel (changes (above (ar_root w) parts) {}) w w'"
proof -
  define S where "S = above (ar_root w) parts"
  obtain x w1 where w1: "check_root_binding w = (x, w1)" by (cases "check_root_binding w")
  have c: "fs_rel (changes S {}) w w1" "ar_root w1 = ar_root w"
    using keepsD [OF ch.keeps_check_root w1] keepsD [OF object.keeps_check_root w1] by (auto simp: same_object_def)
  show ?thesis
  proof (cases x)
    case (Inl e)
    then show ?thesis using assms w1 c(1) by (auto simp: open_relative_directory_def thenS_def bindS_def S_def)
  next
    case (Inr y)
    have k: "keeps (fs_rel (changes S {})) (foldS (\<lambda>current c. open_or_create_private_directory (current @ [c])) (ar_root w) parts)"
      by (rule ch.keeps_fold_dirs) (auto simp: S_def above_def)
    have "(if ar_open w1 then foldS (\<lambda>current c. open_or_create_private_directory (current @ [c])) (ar_root w) parts
        else raiseS (ArchiveError ''archive_closed'' ''physical capture archive is closed'')) w1 = (r, w')"
      using assms w1 Inr c(2) by (simp add: open_relative_directory_def thenS_def bindS_def archive_require_open_def split: if_splits)
    then have "fs_rel (changes S {}) w1 w'"
      using keepsD [OF k] ch.R_refl by (auto split: if_splits)
    then show ?thesis using c(1) ch.R_trans unfolding S_def by blast
  qed
qed


lemma update_file_Inr:
  "update_file p f w = (Inr x, w') \<longleftrightarrow>
     (\<exists>n. map_of (w_fs w) p = Some n \<and> w' = w\<lparr>w_fs := AList.update p (f n) (w_fs w)\<rparr>)"
  by (auto simp: update_file_def split: option.splits)

lemma open_new_private_ok:
  assumes "open_new_private p w = (Inr (), w')"
  shows "map_of (w_fs w) p = None" "map_of (w_fs w') p = Some (FileNode PRIVATE_FILE_MODE 1 (w_euid w) [])"
proof -
  obtain w1 w2 where 1: "os_create p PRIVATE_FILE_MODE w = (Inr (), w1)" and 2: "os_fchmod p PRIVATE_FILE_MODE w1 = (Inr (), w2)"
    and 3: "validate_opened p w2 = (Inr (), w')"
    using assms by (auto simp: open_new_private_def thenS_Inr elim: except_os_Inr)
  have c: "map_of (w_fs w) p = None \<and> (\<exists>m. map_of (w_fs w1) p = Some (FileNode m 1 (w_euid w) []))"
    using 1 unfolding os_create_def by (rule syscall_Inr) (auto split: if_splits)
  then show "map_of (w_fs w) p = None" by simp
  have "map_of (w_fs w2) p = Some (FileNode PRIVATE_FILE_MODE 1 (w_euid w) [])"
    using 2 c unfolding os_fchmod_def by (elim syscall_Inr) (auto simp: update_file_Inr)
  then show "map_of (w_fs w') p = Some (FileNode PRIVATE_FILE_MODE 1 (w_euid w) [])"
    using 3 by (auto simp: validate_opened_def)
qed

lemma os_write_ok:
  assumes "os_write p data w = (Inr n, w')" "map_of (w_fs w) p = Some (FileNode m l i d)"
  shows "map_of (w_fs w') p = Some (FileNode m l i (d @ take n data))"
  using assms unfolding os_write_def Let_def by (elim syscall_Inr) (auto simp: thenS_Inr update_file_Inr)

lemma write_all_ok:
  "write_all p data w = (Inr (), w') \<Longrightarrow> map_of (w_fs w) p = Some (FileNode m l i d) \<Longrightarrow>
   map_of (w_fs w') p = Some (FileNode m l i (d @ data))"
proof (induction data arbitrary: w d rule: length_induct)
  case (1 data)
  show ?case
  proof (cases "data = []")
    case False
    obtain x w1 where x: "os_write p data w = (x, w1)" by (cases "os_write p data w")
    then obtain k where k: "x = Inr k" "0 < k" "write_all p (drop k data) w1 = (Inr (), w')"
      using 1(2) False by (cases x) (auto simp: write_all.simps [of p data w] split: if_splits)
    have "map_of (w_fs w1) p = Some (FileNode m l i (d @ take k data))" using os_write_ok x k(1) 1(3) by blast
    moreover have "length (drop k data) < length data" using False k(2) by simp
    ultimately have "map_of (w_fs w') p = Some (FileNode m l i ((d @ take k data) @ drop k data))"
      using 1(1) k(3) by blast
    then show ?thesis by simp
  qed (use 1 in \<open>simp add: write_all.simps [of p "[]" w]\<close>)
qed

lemma exclusive_rename_ok:
  assumes "exclusive_rename_at p q w = (r, w')"
  shows "(case r of
      Inr _ \<Rightarrow> map_of (w_fs w) q = None \<and> (\<exists>n. map_of (w_fs w) p = Some n \<and> map_of (w_fs w') = (map_of (w_fs w))(p := None, q \<mapsto> n))
    | Inl _ \<Rightarrow> w_fs w' = w_fs w)"
  using assms
  by (auto simp: exclusive_rename_at_def except_os_def catchS_def os_rename_excl_def syscall_def Let_def
      split: if_splits list.splits fault.splits option.splits sum.splits prod.splits exn.splits)


lemma write_pending_ok:
  assumes "write_pending p data w = (Inr (), w')"
  shows "map_of (w_fs w') p = Some (FileNode PRIVATE_FILE_MODE 1 (w_euid w) data)"
proof -
  obtain w1 w2 w3 where 1: "open_new_private p w = (Inr (), w1)" and 2: "write_all p data w1 = (Inr (), w2)"
    and 3: "os_fsync p w2 = (Inr (), w3)" and 4: "validate_opened p w3 = (Inr (), w')"
    using assms by (auto simp: write_pending_def thenS_Inr)
  have "map_of (w_fs w2) p = Some (FileNode PRIVATE_FILE_MODE 1 (w_euid w) data)"
    using write_all_ok [OF 2 open_new_private_ok(2) [OF 1]] by simp
  moreover have "w_fs w3 = w_fs w2" using 3 unfolding os_fsync_def by (elim syscall_Inr) auto
  moreover have "w_fs w' = w_fs w3" using 4 by (auto simp: validate_opened_def)
  ultimately show ?thesis by simp
qed

lemma changes_D: "fs_rel (changes {} S) w w' \<Longrightarrow> q \<notin> S \<Longrightarrow> map_of (w_fs w') q = map_of (w_fs w) q"
  by (simp add: fs_rel_def changes_def)

lemma publish_new_ok:
  assumes "publish_new p q data w = (r, w')" "p \<noteq> q"
  shows "case r of
      Inr _ \<Rightarrow> map_of (w_fs w) q = None \<and> map_of (w_fs w') q = Some (FileNode PRIVATE_FILE_MODE 1 (w_euid w) data)
    | Inl _ \<Rightarrow> map_of (w_fs w') q = map_of (w_fs w) q"
proof -
  obtain x w1 where x: "write_pending p data w = (x, w1)" by (cases "write_pending p data w")
  have "fs_rel (changes {} {p}) w w1" by (rule keepsD [OF ch.keeps_write_pending x]) simp
  then have q1: "map_of (w_fs w1) q = map_of (w_fs w) q" by (rule changes_D) (use assms(2) in simp)
  have clean: "map_of (w_fs w3) q = map_of (w_fs w2) q" if "thenS (remove_unpublished p) (raiseS e) w2 = (y, w3)" for e y w2 w3
  proof (rule changes_D)
    show "fs_rel (changes {} {p}) w2 w3"
      by (rule keepsD [OF ch.keeps_then [OF ch.keeps_remove_unpublished ch.keeps_raise] that]) simp
  qed (use assms(2) in simp)
  show ?thesis
  proof (cases x)
    case (Inl e)
    then show ?thesis using assms(1) x q1 clean [of e w1 r w']
      by (cases "e = ProcessKilled") (auto simp: publish_new_def on_errorS_def catchS_def thenS_def bindS_def split: sum.splits prod.splits)
  next
    case (Inr y)
    obtain z w2 where z: "exclusive_rename_at p q w1 = (z, w2)" by (cases "exclusive_rename_at p q w1")
    note ok = exclusive_rename_ok [OF z]
    show ?thesis
    proof (cases z)
      case (Inl e)
      then have "map_of (w_fs w2) q = map_of (w_fs w) q" using ok q1 by simp
      then show ?thesis using assms(1) x Inr z Inl clean [of e w2 r w']
        by (cases "e = ProcessKilled") (auto simp: publish_new_def on_errorS_def catchS_def thenS_def bindS_def split: sum.splits prod.splits)
    next
      case (Inr v)
      have "r = Inr ()" "w' = w2" using assms(1) x \<open>x = Inr y\<close> z Inr
        by (simp_all add: publish_new_def on_errorS_def catchS_def thenS_def bindS_def)
      then show ?thesis using ok Inr q1 write_pending_ok [of p data w w1] x \<open>x = Inr y\<close> by auto
    qed
  qed
qed


lemma require_mutable_same: "require_mutable relative w = (r, w') \<Longrightarrow> w' = w"
  unfolding require_mutable_def by (cases "relative_parts relative") (auto simp: bindS_def split: if_splits)

lemma require_mutable_parts: "require_mutable relative w = (Inr (), w') \<Longrightarrow> \<exists>parts. relative_parts relative = Inr parts"
  unfolding require_mutable_def by (cases "relative_parts relative") (auto simp: bindS_def)

lemma relative_parts_hidden:
  assumes "relative_parts text = Inr parts"
  shows "parts \<noteq> []" "\<not> hidden (p @ parts)"
proof -
  have 1: "parts \<noteq> []" "\<forall>part \<in> set parts. PATH_COMPONENT_RE part"
    using assms by (auto simp: relative_parts_def bindE_eq_Inr Let_def list_ex_iff split: if_splits)
  then have "PATH_COMPONENT_RE (last parts)" by simp
  then show "parts \<noteq> []" "\<not> hidden (p @ parts)"
    using 1(1) by (auto simp: hidden_def PATH_COMPONENT_RE_def is_alnum_def is_dig_def split: list.splits)
qed

definition own_hidden :: "path \<Rightarrow> path set" where
  "own_hidden p = {q. hidden q \<and> butlast q = butlast p}"

lemma verify_published_result: "verify_published_at p maximum expected w = (Inr f, w') \<Longrightarrow> f = expected"
  by (auto simp: verify_published_at_def bindS_Inr_iff Let_def split: if_splits)

text \<open>
  What a write to \<open>p\<close> may do: create directories in \<open>D\<close>, leave or remove hidden files beside \<open>p\<close>, and
  for \<open>p\<close> itself either nothing or, when it was free, the complete data. It reports success only in
  the second case.
\<close>

definition write_effect ::
  "archived_file res \<Rightarrow> ustr \<Rightarrow> bytes \<Rightarrow> path \<Rightarrow> path set \<Rightarrow> 'z archive_world_scheme \<Rightarrow> 'z archive_world_scheme \<Rightarrow> bool" where
  "write_effect r relative data p D w w' =
     (fs_rel (changes D (insert p (own_hidden p))) w w' \<and>
      (let put = (map_of (w_fs w) p = None \<and>
             map_of (w_fs w') p = Some (FileNode PRIVATE_FILE_MODE 1 (w_euid w) data)) in
       case r of Inr f \<Rightarrow> f = archived relative data \<and> put
       | Inl _ \<Rightarrow> map_of (w_fs w') p = map_of (w_fs w) p \<or> put))"

lemma write_effect_failed:
  assumes "fs_rel (changes D {}) w w'" "p \<notin> D"
  shows "write_effect (Inl e) relative data p D w w'"
  using assms changes_mono [OF assms(1)] by (auto simp: write_effect_def fs_rel_def changes_def)

lemma write_effect_after:
  assumes "fs_rel (changes D {}) w w1" "p \<notin> D" "w_euid w1 = w_euid w" "write_effect r relative data p {} w1 w'"
  shows "write_effect r relative data p D w w'"
proof -
  have "fs_rel (changes D (insert p (own_hidden p))) w w1" by (rule changes_mono [OF assms(1)]) auto
  moreover have "fs_rel (changes D (insert p (own_hidden p))) w1 w'"
    by (rule changes_mono [of "{}" "insert p (own_hidden p)"]) (use assms(4) in \<open>auto simp: write_effect_def\<close>)
  ultimately have "fs_rel (changes D (insert p (own_hidden p))) w w'" by (rule ch.R_trans)
  moreover have "map_of (w_fs w1) p = map_of (w_fs w) p" using assms(1,2) by (auto simp: fs_rel_def changes_def)
  ultimately show ?thesis using assms(3,4) by (cases r) (simp_all add: write_effect_def Let_def)
qed

lemma after_parent_ok:
  assumes "bindS (new_pending_name name) (\<lambda>pending_name.
      thenS (publish_new (parent @ [pending_name]) (parent @ [name]) data)
      (thenS (fsync_directory parent)
      (verify_published_at (parent @ [name]) maximum (archived relative data)))) w = (r, w')"
    and "\<not> hidden (parent @ [name])"
  shows "write_effect r relative data (parent @ [name]) {} w w'"
  using assms(1)
proof (cases rule: bindS_cases)
  case (raised e)
  then show ?thesis by (auto simp: new_pending_name_def bindS_def uuid4_hex_def split: list.splits)
next
  case (next_step pname w1)
  have h: "hidden (parent @ [pname])" using new_pending_name_hidden [OF next_step(1)] .
  have w1: "w_fs w1 = w_fs w" "w_euid w1 = w_euid w" using next_step(1)
    by (auto simp: new_pending_name_def bindS_def uuid4_hex_def split: list.splits)
  define F where "F = insert (parent @ [name]) (own_hidden (parent @ [name]))"
  have m: "parent @ [pname] \<in> F" "parent @ [name] \<in> F" "parent @ [pname] \<noteq> parent @ [name]"
    using h assms(2) by (auto simp: F_def own_hidden_def)
  have r1: "fs_rel (changes {} F) w w1" by (simp add: fs_rel_def changes_def w1)
  show ?thesis
    using next_step(2) unfolding thenS_def
  proof (cases rule: bindS_cases)
    case (raised e)
    have "fs_rel (changes {} F) w1 w'" by (rule keepsD [OF ch.keeps_publish_new raised(1)]) (rule m)+
    then have "fs_rel (changes {} F) w w'" using ch.R_trans [OF r1] by simp
    then show ?thesis using publish_new_ok [OF raised(1) m(3)] raised(2) w1 by (simp add: write_effect_def F_def)
  next
    case (next_step x w2)
    have r2: "fs_rel (changes {} F) w1 w2" by (rule keepsD [OF ch.keeps_publish_new next_step(1)]) (rule m)+
    have v: "keeps (fs_rel (changes {} {})) (bindS (fsync_directory parent)
        (\<lambda>_. verify_published_at (parent @ [name]) maximum (archived relative data)))"
      by (intro ch.keeps_bind ch.keeps_fsync_directory ch.keeps_verify_published)
    have e: "map_of (w_fs w') = map_of (w_fs w2)" using keepsD [OF v next_step(2)]
      by (auto simp: fs_rel_def changes_def)
    have "fs_rel (changes {} F) w w'" using ch.R_trans [OF r1 r2] e by (simp add: fs_rel_def)
    moreover have "f = archived relative data" if "r = Inr f" for f
      using next_step(2) that by (auto simp: bindS_Inr_iff dest: verify_published_result)
    ultimately show ?thesis using publish_new_ok [OF next_step(1) m(3)] w1 e by (cases r) (auto simp: write_effect_def F_def Let_def)
  qed
qed

lemma write_bytes_effect:
  assumes "write_bytes relative data maximum w = (r, w')" "relative_parts relative = Inr parts"
  shows "write_effect r relative data (ar_root w @ parts) (above (ar_root w) (butlast parts)) w w'"
  (is "write_effect r relative data ?p ?D w w'")
proof -
  note h = relative_parts_hidden [OF assms(2)]
  have p: "(ar_root w @ butlast parts) @ [last parts] = ?p" using h(1) by simp
  have q: "?p \<notin> ?D" using h(1) by (auto simp: above_def dest!: arg_cong [of _ _ length])
  have refl: "fs_rel (changes ?D {}) w w" by (rule ch.R_refl)
  show ?thesis
    using assms(1) unfolding write_bytes_def thenS_def [of "require_mutable relative"]
  proof (cases rule: bindS_cases)
    case (raised e)
    then show ?thesis using require_mutable_same [OF raised(1)] write_effect_failed [OF refl q] by simp
  next
    case (next_step y w0)
    have w0: "w0 = w" using require_mutable_same [OF next_step(1)] .
    show ?thesis
    proof (cases "data = [] \<or> length data > maximum")
      case True
      then show ?thesis using next_step(2) w0 write_effect_failed [OF refl q] by auto
    next
      case False
      have n: "bindS (parent_and_name relative True) (\<lambda>(parent, final_name).
          bindS (new_pending_name final_name) (\<lambda>pending_name.
          thenS (publish_new (parent @ [pending_name]) (parent @ [final_name]) data)
          (thenS (fsync_directory parent)
          (verify_published_at (parent @ [final_name]) maximum (archived relative data))))) w = (r, w')"
        using next_step(2) False w0 by auto
      from n show ?thesis
      proof (cases rule: bindS_cases)
        case (raised e)
        have "open_relative_directory (butlast parts) True w = (Inl e, w')"
          using raised(1) assms(2) by (auto simp: parent_and_name_def bindS_def split: prod.splits sum.splits)
        then show ?thesis using write_effect_failed [OF open_relative_adds q] raised(2) by simp
      next
        case (next_step pn w1)
        have o: "open_relative_directory (butlast parts) True w = (Inr (fst pn), w1)" "snd pn = last parts"
          using next_step(1) assms(2) by (auto simp: parent_and_name_def bindS_Inr_iff)
        have e: "w_euid w1 = w_euid w"
          using keepsD [OF object.keeps_open_relative o(1)] by (simp add: same_object_def)
        have d: "fst pn @ [snd pn] = ?p" using open_relative_result [OF o(1)] o(2) p by simp
        have "write_effect r relative data (fst pn @ [snd pn]) {} w1 w'"
          by (rule after_parent_ok [of "snd pn" "fst pn" data maximum])
            (use next_step(2) h(2) [of "ar_root w"] d in \<open>simp_all add: case_prod_unfold\<close>)
        then show ?thesis using write_effect_after [OF open_relative_adds [OF o(1)] q e] d by simp
      qed
    qed
  qed
qed

section \<open>Runs without faults\<close>

definition private_dir :: "'z archive_world_scheme \<Rightarrow> path \<Rightarrow> bool" where
  "private_dir w p = (map_of (w_fs w) p = Some (DirNode PRIVATE_DIRECTORY_MODE (w_euid w)))"

text \<open>
  An open archive on the supported platform, with its root in place below a \<open>target\<close> directory that
  only the owner can write, in a run in which no call fails.
\<close>

definition archive_ready :: "'z archive_world_scheme \<Rightarrow> bool" where
  "archive_ready w =
     (w_faults w = [] \<and> w_darwin w \<and> ar_open w \<and> (int PRIVATE_DIRECTORY_MODE AND NOT (int (w_umask w)) = int PRIVATE_DIRECTORY_MODE) \<and>
      (\<exists>m. map_of (w_fs w) [] = Some (DirNode m (w_euid w)) \<and> m AND 18 = 0) \<and>
      (\<forall>k. 0 < k \<longrightarrow> k \<le> length (ar_root w) \<longrightarrow> private_dir w (take k (ar_root w))))"

lemma syscall_no_fault: "w_faults w = [] \<Longrightarrow> syscall act w = act None w"
  by (simp add: syscall_def)

lemma PRIVATE_MODES: "PRIVATE_DIRECTORY_MODE mod 4096 = PRIVATE_DIRECTORY_MODE" "PRIVATE_FILE_MODE mod 4096 = PRIVATE_FILE_MODE"
  by code_simp+

lemma open_private_dir:
  assumes "w_faults w = []" "private_dir w p"
  shows "open_directory_at p True w = (Inr p, w)"
  using assms by (simp add: open_directory_at_def except_os_def os_open_directory_def syscall_no_fault bindS_def catchS_def
      thenS_def private_dir_def validate_directory_def PRIVATE_MODES)

lemma open_missing_dir:
  assumes "w_faults w = []" "map_of (w_fs w) p = None"
  shows "open_directory_at p private w = (Inl (ArchiveError ''directory_not_found'' ''cannot securely open directory {}''), w)"
  using assms by (simp add: open_directory_at_def except_os_def os_open_directory_def syscall_no_fault bindS_def catchS_def)

lemma fold_open_private:
  assumes "w_faults w = []" "\<And>k. 0 < k \<Longrightarrow> k \<le> length parts \<Longrightarrow> private_dir w (p @ take k parts)"
  shows "foldS (\<lambda>current c. open_directory_at (current @ [c]) True) p parts w = (Inr (p @ parts), w)"
  using assms
proof (induction parts arbitrary: p)
  case (Cons c parts)
  have "open_directory_at (p @ [c]) True w = (Inr (p @ [c]), w)"
    by (rule open_private_dir) (use Cons.prems(1) Cons.prems(2) [of 1] in simp_all)
  moreover have "foldS (\<lambda>current c. open_directory_at (current @ [c]) True) (p @ [c]) parts w = (Inr ((p @ [c]) @ parts), w)"
    by (rule Cons.IH [OF Cons.prems(1)]) (use Cons.prems(2) [of "Suc k" for k] in simp)
  ultimately show ?case by (simp add: bindS_def)
qed simp

lemma check_root_ready: "archive_ready w \<Longrightarrow> check_root_binding w = (Inr (), w)"
  using fold_open_private [of w "ar_root w" "[]"]
  by (auto simp: check_root_binding_def open_target_def open_directory_at_def except_os_def os_open_directory_def
      syscall_no_fault bindS_def catchS_def thenS_def validate_directory_def archive_ready_def)

lemma open_relative_ready:
  assumes "archive_ready w" "\<And>k. 0 < k \<Longrightarrow> k \<le> length parts \<Longrightarrow> private_dir w (ar_root w @ take k parts)"
  shows "open_relative_directory parts False w = (Inr (ar_root w @ parts), w)"
  using assms fold_open_private [of w parts "ar_root w"]
  by (simp add: open_relative_directory_def thenS_def bindS_def check_root_ready archive_ready_def [of w] archive_require_open_def)

text \<open>The world after \<open>mkdir\<close> of the missing directories on the way.\<close>

definition add_dir :: "path \<Rightarrow> 'z archive_world_scheme \<Rightarrow> 'z archive_world_scheme" where
  "add_dir p w = (if map_of (w_fs w) p = None then
     w\<lparr>w_fs := AList.update p (DirNode PRIVATE_DIRECTORY_MODE (w_euid w)) (w_fs w)\<rparr> else w)"

lemma open_or_create_ready:
  assumes "w_faults w = []" "int PRIVATE_DIRECTORY_MODE AND NOT (int (w_umask w)) = int PRIVATE_DIRECTORY_MODE"
    and "map_of (w_fs w) p = None \<or> private_dir w p"
  shows "open_or_create_private_directory p w = (Inr p, add_dir p w)"
proof (cases "map_of (w_fs w) p = None")
  case True
  define w1 where "w1 = add_dir p w"
  have m: "os_mkdir p PRIVATE_DIRECTORY_MODE w = (Inr (), w1)"
    using assms(1,2) True by (simp add: os_mkdir_def syscall_no_fault w1_def add_dir_def)
  have d: "private_dir w1 p" "w_faults w1 = []" using assms(1) True by (simp_all add: private_dir_def w1_def add_dir_def)
  show ?thesis unfolding open_or_create_private_directory_def
    using m open_private_dir [OF d(2,1)] d(2)
    by (simp add: catchS_def open_missing_dir [OF assms(1) True] bindS_def except_os_def thenS_def whenS_def
        fsync_directory_def os_fsync_def syscall_no_fault w1_def)
next
  case False
  then show ?thesis using assms open_private_dir [of w p]
    by (auto simp: open_or_create_private_directory_def catchS_def add_dir_def)
qed

lemma changes_present:
  "fs_rel (changes D F) w w' \<Longrightarrow> q \<notin> F \<Longrightarrow> map_of (w_fs w) q = Some n \<Longrightarrow> map_of (w_fs w') q = Some n"
  unfolding fs_rel_def changes_def by (metis option.distinct(1))

lemma fold_create_ready:
  assumes "w_faults w = []" "int PRIVATE_DIRECTORY_MODE AND NOT (int (w_umask w)) = int PRIVATE_DIRECTORY_MODE"
    and "\<And>k. 0 < k \<Longrightarrow> k \<le> length parts \<Longrightarrow> map_of (w_fs w) (p @ take k parts) = None \<or> private_dir w (p @ take k parts)"
  shows "\<exists>w'. foldS (\<lambda>current c. open_or_create_private_directory (current @ [c])) p parts w = (Inr (p @ parts), w') \<and>
    w_faults w' = [] \<and> (\<forall>k. 0 < k \<longrightarrow> k \<le> length parts \<longrightarrow> private_dir w' (p @ take k parts))"
  using assms
proof (induction parts arbitrary: p w)
  case (Cons c parts)
  define w1 where "w1 = add_dir (p @ [c]) w"
  have o: "open_or_create_private_directory (p @ [c]) w = (Inr (p @ [c]), w1)"
    unfolding w1_def by (rule open_or_create_ready) (use Cons.prems Cons.prems(3) [of 1] in simp_all)
  have e: "w_faults w1 = []" "w_umask w1 = w_umask w" "w_euid w1 = w_euid w" using Cons.prems(1) by (simp_all add: w1_def add_dir_def)
  have d: "private_dir w1 (p @ [c])" using Cons.prems(3) [of 1] by (auto simp: w1_def add_dir_def private_dir_def)
  have "\<exists>w'. foldS (\<lambda>current c. open_or_create_private_directory (current @ [c])) (p @ [c]) parts w1 = (Inr ((p @ [c]) @ parts), w') \<and>
    w_faults w' = [] \<and> (\<forall>k. 0 < k \<longrightarrow> k \<le> length parts \<longrightarrow> private_dir w' ((p @ [c]) @ take k parts))"
  proof (rule Cons.IH)
    fix k assume "0 < k" "k \<le> length parts"
    then show "map_of (w_fs w1) ((p @ [c]) @ take k parts) = None \<or> private_dir w1 ((p @ [c]) @ take k parts)"
      using Cons.prems(3) [of "Suc k"] by (auto simp: w1_def add_dir_def private_dir_def)
  qed (use e Cons.prems(2) in simp_all)
  then obtain w' where w': "foldS (\<lambda>current c. open_or_create_private_directory (current @ [c])) (p @ [c]) parts w1 = (Inr (p @ c # parts), w')"
    "w_faults w' = []" "\<And>k. 0 < k \<Longrightarrow> k \<le> length parts \<Longrightarrow> private_dir w' ((p @ [c]) @ take k parts)" by auto
  have "keeps (fs_rel (changes UNIV {})) (foldS (\<lambda>current c. open_or_create_private_directory (current @ [c])) (p @ [c]) parts)"
    by (intro ch.keeps_foldS ch.keeps_open_or_create) simp
  from changes_present [OF keepsD [OF this w'(1)]] have k: "map_of (w_fs w') (p @ [c]) = map_of (w_fs w1) (p @ [c])"
    using d by (simp add: private_dir_def)
  have "keeps same_object (foldS (\<lambda>current c. open_or_create_private_directory (current @ [c])) (p @ [c]) parts)"
    by (intro object.keeps_foldS object.keeps_open_or_create) simp
  from keepsD [OF this w'(1)] have "w_euid w' = w_euid w1" by (simp add: same_object_def)
  with k d have d': "private_dir w' (p @ [c])" by (simp add: private_dir_def)
  have "private_dir w' (p @ take k (c # parts))" if "0 < k" "k \<le> Suc (length parts)" for k
    using that d' w'(3) [of "k - 1"] by (cases k; cases "k - 1") auto
  then show ?case using o w'(1,2) by (simp add: bindS_def)
qed simp

text \<open>The place a write goes to: its directories can be made or are private, and it is free.\<close>

definition writable :: "'z archive_world_scheme \<Rightarrow> path \<Rightarrow> bool" where
  "writable w parts =
     (map_of (w_fs w) (ar_root w @ parts) = None \<and>
      (\<forall>q \<in> own_hidden (ar_root w @ parts). map_of (w_fs w) q = None) \<and>
      (\<forall>k. 0 < k \<longrightarrow> k < length parts \<longrightarrow>
         map_of (w_fs w) (ar_root w @ take k parts) = None \<or> private_dir w (ar_root w @ take k parts)))"

lemma write_all_no_fault:
  "w_faults w = [] \<Longrightarrow> map_of (w_fs w) p = Some (FileNode m l i d) \<Longrightarrow> \<exists>w'. write_all p data w = (Inr (), w') \<and> w_faults w' = []"
  by (cases "data = []")
    (auto simp: write_all.simps [of p data w] write_all.simps [of p "[]"] os_write_def syscall_no_fault thenS_def bindS_def update_file_def Let_def)

lemma publish_new_ready:
  assumes "w_faults w = []" "w_darwin w" "map_of (w_fs w) p = None" "map_of (w_fs w) q = None" "p \<noteq> q"
  shows "\<exists>w'. publish_new p q data w = (Inr (), w') \<and> w_faults w' = []"
proof -
  define w1 where "w1 = w\<lparr>w_fs := AList.update p (FileNode (nat (int PRIVATE_FILE_MODE AND NOT (int (w_umask w)))) 1 (w_euid w) []) (w_fs w)\<rparr>"
  define w2 where "w2 = w1\<lparr>w_fs := AList.update p (FileNode PRIVATE_FILE_MODE 1 (w_euid w) []) (w_fs w1)\<rparr>"
  have o: "open_new_private p w = (Inr (), w2)"
    using assms(1,3) by (simp add: open_new_private_def thenS_def bindS_def except_os_def catchS_def os_create_def os_fchmod_def
        syscall_no_fault update_file_def validate_opened_def validate_private_file_def PRIVATE_MODES w1_def w2_def)
  have f: "w_faults w2 = []" "map_of (w_fs w2) p = Some (FileNode PRIVATE_FILE_MODE 1 (w_euid w) [])"
    using assms(1) by (simp_all add: w1_def w2_def)
  obtain w3 where w3: "write_all p data w2 = (Inr (), w3)" "w_faults w3 = []" using write_all_no_fault [OF f] by blast
  have e: "w_euid w3 = w_euid w" "w_darwin w3 = w_darwin w"
    using keepsD [OF object.keeps_write_all w3(1)] by (simp_all add: same_object_def w1_def w2_def)
  have p3: "map_of (w_fs w3) p = Some (FileNode PRIVATE_FILE_MODE 1 (w_euid w) data)" using write_all_ok [OF w3(1) f(2)] by simp
  have "fs_rel (changes {} {p}) w2 w3" by (rule keepsD [OF ch.keeps_write_all w3(1)]) simp
  then have q3: "map_of (w_fs w3) q = None" using assms(4,5) by (auto simp: changes_D w1_def w2_def)
  have "write_pending p data w = (Inr (), w3)"
    using o w3 p3 e by (simp add: write_pending_def thenS_def bindS_def os_fsync_def syscall_no_fault validate_opened_def
        validate_private_file_def PRIVATE_MODES)
  then show ?thesis using w3(2) p3 q3 assms(2) e(2)
    by (simp add: publish_new_def on_errorS_def catchS_def thenS_def bindS_def exclusive_rename_at_def except_os_def
        os_rename_excl_def syscall_no_fault)
qed

lemma read_present:
  assumes "w_faults w = []" "map_of (w_fs w) p = Some (FileNode PRIVATE_FILE_MODE 1 (w_euid w) data)" "data \<noteq> []" "length data \<le> maximum"
  shows "open_existing_private_at p w = (Inr (FileNode PRIVATE_FILE_MODE 1 (w_euid w) data), w)"
    "read_opened p (FileNode PRIVATE_FILE_MODE 1 (w_euid w) data) maximum w = (Inr data, w)"
  using assms by (simp_all add: open_existing_private_at_def read_opened_def bindS_def except_os_def catchS_def os_open_def
      os_read_all_def syscall_no_fault thenS_def validate_private_file_def PRIVATE_MODES Suc_le_eq)


lemma require_mutable_ready:
  assumes "relative_parts relative = Inr parts" "\<forall>s \<in> set (ar_sealed w). take (length s) parts \<noteq> s"
  shows "require_mutable relative w = (Inr (), w)"
  using assms by (auto simp: require_mutable_def bindS_def list_ex_iff)

lemma new_pending_name_total:
  "\<exists>n w2. new_pending_name f w = (Inr n, w2) \<and> w_fs w2 = w_fs w \<and> w_faults w2 = w_faults w \<and> same_object w w2"
  by (cases "w_uuids w") (auto simp: new_pending_name_def bindS_def uuid4_hex_def same_object_def)

lemma own_hidden_length: "q \<in> own_hidden p \<Longrightarrow> p \<noteq> [] \<Longrightarrow> length q = length p"
  by (cases q rule: rev_cases; cases p rule: rev_cases) (auto simp: own_hidden_def hidden_def)

lemma archive_ready_after:
  assumes "archive_ready w" "same_object w w'" "w_faults w' = []" "fs_rel (changes D F) w w'"
    and "\<And>q. q \<in> F \<Longrightarrow> length (ar_root w) < length q"
  shows "archive_ready w'"
proof -
  have k: "map_of (w_fs w') q = Some n" if "map_of (w_fs w) q = Some n" "length q \<le> length (ar_root w)" for q n
    using changes_present [OF assms(4) _ that(1)] assms(5) [of q] that(2) by auto
  have e: "w_euid w' = w_euid w" "w_umask w' = w_umask w" "w_darwin w' = w_darwin w" "ar_root w' = ar_root w" "ar_open w' = ar_open w"
    using assms(2) by (simp_all add: same_object_def)
  have "private_dir w' (take i (ar_root w))" if "0 < i" "i \<le> length (ar_root w)" for i
    using assms(1) that k e(1) by (simp add: archive_ready_def private_dir_def)
  moreover have "\<exists>m. map_of (w_fs w') [] = Some (DirNode m (w_euid w)) \<and> m AND 18 = 0"
    using assms(1) k [of "[]"] by (auto simp: archive_ready_def)
  ultimately show ?thesis using assms(1,3) by (simp add: archive_ready_def e)
qed

lemma create_parents_ready:
  assumes "archive_ready w" "relative_parts relative = Inr parts" "writable w parts"
  shows "\<exists>w1. open_relative_directory (butlast parts) True w = (Inr (ar_root w @ butlast parts), w1) \<and> w_faults w1 = [] \<and>
    (\<forall>k. 0 < k \<longrightarrow> k < length parts \<longrightarrow> private_dir w1 (ar_root w @ take k parts))"
proof -
  note h = relative_parts_hidden(1) [OF assms(2)]
  have t: "k < length parts \<longleftrightarrow> k \<le> length (butlast parts)" "k \<le> length (butlast parts) \<Longrightarrow> take k (butlast parts) = take k parts" for k
    using h by (cases parts rule: rev_cases; auto)+
  have f: "w_faults w = []" "ar_open w" "int PRIVATE_DIRECTORY_MODE AND NOT (int (w_umask w)) = int PRIVATE_DIRECTORY_MODE"
    using assms(1) by (auto simp: archive_ready_def)
  have "\<exists>w1. foldS (\<lambda>current c. open_or_create_private_directory (current @ [c])) (ar_root w) (butlast parts) w =
      (Inr (ar_root w @ butlast parts), w1) \<and> w_faults w1 = [] \<and>
      (\<forall>k. 0 < k \<longrightarrow> k \<le> length (butlast parts) \<longrightarrow> private_dir w1 (ar_root w @ take k (butlast parts)))"
    by (rule fold_create_ready [OF f(1,3)]) (use assms(3) t in \<open>auto simp: writable_def\<close>)
  then obtain w1 where w1: "foldS (\<lambda>current c. open_or_create_private_directory (current @ [c])) (ar_root w) (butlast parts) w =
      (Inr (ar_root w @ butlast parts), w1)" "w_faults w1 = []"
      "\<And>k. 0 < k \<Longrightarrow> k \<le> length (butlast parts) \<Longrightarrow> private_dir w1 (ar_root w @ take k (butlast parts))" by blast
  then have "open_relative_directory (butlast parts) True w = (Inr (ar_root w @ butlast parts), w1)"
    using f(2) by (simp add: open_relative_directory_def thenS_def bindS_def check_root_ready [OF assms(1)] archive_require_open_def)
  moreover have "private_dir w1 (ar_root w @ take k parts)" if "0 < k" "k < length parts" for k
    using w1(3) [of k] that t by simp
  ultimately show ?thesis using w1(2) by blast
qed

lemma after_parent_ready:
  assumes "w_faults w = []" "w_darwin w" "map_of (w_fs w) (parent @ [name]) = None" "\<not> hidden (parent @ [name])"
    and "\<forall>q \<in> own_hidden (parent @ [name]). map_of (w_fs w) q = None" "data \<noteq> []" "length data \<le> maximum"
  shows "\<exists>w'. bindS (new_pending_name name) (\<lambda>pending_name.
      thenS (publish_new (parent @ [pending_name]) (parent @ [name]) data)
      (thenS (fsync_directory parent)
      (verify_published_at (parent @ [name]) maximum (archived relative data)))) w = (Inr (archived relative data), w') \<and> w_faults w' = []"
proof -
  obtain n w1 where n: "new_pending_name name w = (Inr n, w1)" "w_fs w1 = w_fs w" "w_faults w1 = []" "same_object w w1"
    using new_pending_name_total [of name w] assms(1) by auto
  have h: "hidden (parent @ [n])" using new_pending_name_hidden [OF n(1)] .
  then have q: "parent @ [n] \<noteq> parent @ [name]" "map_of (w_fs w1) (parent @ [n]) = None" "w_darwin w1" "w_euid w1 = w_euid w"
    "map_of (w_fs w1) (parent @ [name]) = None"
    using assms(2-5) n(2,4) by (auto simp: own_hidden_def same_object_def)
  obtain w2 where w2: "publish_new (parent @ [n]) (parent @ [name]) data w1 = (Inr (), w2)" "w_faults w2 = []"
    using publish_new_ready [OF n(3) q(3) q(2) q(5) q(1)] by blast
  have e: "w_euid w2 = w_euid w" using keepsD [OF object.keeps_publish_new w2(1)] q(4) by (simp add: same_object_def)
  have "map_of (w_fs w2) (parent @ [name]) = Some (FileNode PRIVATE_FILE_MODE 1 (w_euid w2) data)"
    using publish_new_ok [OF w2(1) q(1)] e q(4) by simp
  note r = read_present [OF w2(2) this assms(6,7)]
  have "verify_published_at (parent @ [name]) maximum (archived relative data) w2 = (Inr (archived relative data), w2)"
    using r by (simp add: verify_published_at_def bindS_def archived_def)
  then show ?thesis using n(1) w2 by (simp add: bindS_def thenS_def fsync_directory_def except_os_def catchS_def os_fsync_def syscall_no_fault)
qed

lemma write_bytes_ready:
  assumes "archive_ready w" "relative_parts relative = Inr parts" "writable w parts"
    and "\<forall>s \<in> set (ar_sealed w). take (length s) parts \<noteq> s" "data \<noteq> []" "length data \<le> maximum"
  shows "\<exists>w'. write_bytes relative data maximum w = (Inr (archived relative data), w') \<and> archive_ready w' \<and>
    (\<forall>k. 0 < k \<longrightarrow> k < length parts \<longrightarrow> private_dir w' (ar_root w @ take k parts))"
proof -
  note h = relative_parts_hidden [OF assms(2)]
  obtain w1 where w1: "open_relative_directory (butlast parts) True w = (Inr (ar_root w @ butlast parts), w1)" "w_faults w1 = []"
    "\<And>k. 0 < k \<Longrightarrow> k < length parts \<Longrightarrow> private_dir w1 (ar_root w @ take k parts)"
    using create_parents_ready [OF assms(1-3)] by blast
  have p: "(ar_root w @ butlast parts) @ [last parts] = ar_root w @ parts" using h(1) by simp
  have s: "same_object w w1" using keepsD [OF object.keeps_open_relative w1(1)] .
  note c = open_relative_adds [OF w1(1)]
  have free: "map_of (w_fs w1) q = None" if "length q = length (ar_root w @ parts)" "map_of (w_fs w) q = None" for q
    using c that h(1) by (auto simp: fs_rel_def changes_def above_def dest!: arg_cong [of _ _ length] spec [of _ q])
  have "\<exists>w'. bindS (new_pending_name (last parts)) (\<lambda>pending_name.
      thenS (publish_new ((ar_root w @ butlast parts) @ [pending_name]) ((ar_root w @ butlast parts) @ [last parts]) data)
      (thenS (fsync_directory (ar_root w @ butlast parts))
      (verify_published_at ((ar_root w @ butlast parts) @ [last parts]) maximum (archived relative data)))) w1 =
      (Inr (archived relative data), w') \<and> w_faults w' = []"
  proof (rule after_parent_ready [OF w1(2) _ _ _ _ assms(5,6)])
    show "w_darwin w1" using s assms(1) by (simp add: same_object_def archive_ready_def)
    show "\<forall>q \<in> own_hidden ((ar_root w @ butlast parts) @ [last parts]). map_of (w_fs w1) q = None"
      unfolding p using free own_hidden_length assms(3) h(1) by (fastforce simp: writable_def)
  qed (use free [of "ar_root w @ parts"] assms(3) h(2) p in \<open>auto simp: writable_def\<close>)
  then obtain w' where b: "bindS (new_pending_name (last parts)) (\<lambda>pending_name.
      thenS (publish_new ((ar_root w @ butlast parts) @ [pending_name]) ((ar_root w @ butlast parts) @ [last parts]) data)
      (thenS (fsync_directory (ar_root w @ butlast parts))
      (verify_published_at ((ar_root w @ butlast parts) @ [last parts]) maximum (archived relative data)))) w1 =
      (Inr (archived relative data), w')" "w_faults w' = []" by blast
  have pn: "parent_and_name relative True w = (Inr (ar_root w @ butlast parts, last parts), w1)"
    using w1(1) assms(2) by (simp add: parent_and_name_def bindS_def)
  have w': "write_bytes relative data maximum w = (Inr (archived relative data), w')"
    using b(1) assms(5,6) by (simp add: write_bytes_def thenS_def [of "require_mutable relative"]
        bindS_Inr [where m = "require_mutable relative", OF require_mutable_ready [OF assms(2,4)]]
        bindS_Inr [where m = "parent_and_name relative True", OF pn])
  define F where "F = insert (ar_root w @ parts) (own_hidden (ar_root w @ parts))"
  have len: "length q = length (ar_root w @ parts)" if "q \<in> F" for q using that own_hidden_length h(1) by (auto simp: F_def)
  have "archive_ready w'"
  proof (rule archive_ready_after [OF assms(1) keepsD [OF object.keeps_write_bytes w'] b(2)])
    show "fs_rel (changes (above (ar_root w) (butlast parts)) F) w w'"
      using write_bytes_effect [OF w' assms(2)] by (simp add: write_effect_def F_def)
  qed (use len h(1) in auto)
  moreover have "private_dir w' (ar_root w @ take k parts)" if "0 < k" "k < length parts" for k
  proof -
    have "fs_rel (changes {} F) w1 w'"
      using after_parent_ok [OF b(1)] h(2) p by (simp add: write_effect_def F_def)
    moreover have "ar_root w @ take k parts \<notin> F" using len [of "ar_root w @ take k parts"] that(2) by auto
    moreover have "w_euid w' = w_euid w1"
      using keepsD [OF object.keeps_write_bytes w'] s by (simp add: same_object_def)
    ultimately show ?thesis using w1(3) [OF that] changes_present by (fastforce simp: private_dir_def)
  qed
  ultimately show ?thesis using w' by blast
qed

lemma read_bytes_ready:
  assumes "archive_ready w" "relative_parts relative = Inr parts" "data \<noteq> []" "length data \<le> maximum"
    and "\<And>k. 0 < k \<Longrightarrow> k < length parts \<Longrightarrow> private_dir w (ar_root w @ take k parts)"
    and "map_of (w_fs w) (ar_root w @ parts) = Some (FileNode PRIVATE_FILE_MODE 1 (w_euid w) data)"
  shows "read_bytes relative maximum w = (Inr data, w)"
proof -
  have h: "parts \<noteq> []" using relative_parts_hidden(1) [OF assms(2)] .
  have "open_relative_directory (butlast parts) False w = (Inr (ar_root w @ butlast parts), w)"
  proof (rule open_relative_ready [OF assms(1)])
    fix k assume "0 < k" "k \<le> length (butlast parts)"
    then show "private_dir w (ar_root w @ take k (butlast parts))"
      using assms(5) [of k] h by (cases parts rule: rev_cases) auto
  qed
  moreover have "w_faults w = []" using assms(1) by (simp add: archive_ready_def)
  ultimately show ?thesis using read_present [OF _ assms(6,3,4)] assms(2) h
    by (simp add: read_bytes_def parent_and_name_def bindS_def thenS_def)
qed

section \<open>A sample archive\<close>

definition sample_world :: "archive_world" where
  "sample_world =
     \<lparr>w_fs = [([], DirNode 493 501), ([u ''run''], DirNode 448 501)], w_faults = [], w_uuids = [7],
      w_euid = 501, w_umask = 18, w_darwin = True,
      ar_root_text = u ''run'', ar_root = [u ''run''], ar_open = True, ar_sealed = []\<rparr>"

lemma sample_world_simps:
  "w_faults sample_world = []" "w_darwin sample_world" "ar_open sample_world" "w_umask sample_world = 18" "w_euid sample_world = 501"
  "ar_root sample_world = [u ''run'']" "map_of (w_fs sample_world) [] = Some (DirNode 493 501)" "ar_sealed sample_world = []"
  "private_dir sample_world [u ''run'']"
  by (simp_all add: sample_world_def private_dir_def PRIVATE_DIRECTORY_MODE_def)

lemma sample_world_ready: "archive_ready sample_world"
proof -
  have "int PRIVATE_DIRECTORY_MODE AND NOT (int 18) = int PRIVATE_DIRECTORY_MODE" "(493 :: nat) AND 18 = 0"
    by (simp_all add: PRIVATE_DIRECTORY_MODE_def)
  moreover have "private_dir sample_world (take k [u ''run''])" if "0 < k" for k
    using that sample_world_simps(9) by (cases k) (simp_all del: u_simps)
  ultimately show ?thesis unfolding archive_ready_def sample_world_simps
    by (intro conjI exI [of _ 493] allI impI) (simp_all add: sample_world_simps del: u_simps)
qed

definition sample_event_path :: path where
  "sample_event_path = [u ''journal'', u ''00000001.json'']"

lemma sample_parts: "relative_parts (u ''journal/00000001.json'') = Inr sample_event_path"
  by code_simp

lemma sample_writable: "writable sample_world sample_event_path"
proof -
  have "map_of (w_fs sample_world) q = None" if "length q = 3" for q
    using that by (auto simp: sample_world_def)
  moreover have "map_of (w_fs sample_world) (ar_root sample_world @ take 1 sample_event_path) = None" by code_simp
  moreover have "k = 1" if "0 < k" "k < length sample_event_path" for k
    using that by (simp add: sample_event_path_def)
  ultimately show ?thesis using own_hidden_length
    by (fastforce simp: writable_def sample_world_def sample_event_path_def)
qed

section \<open>Properties\<close>



text \<open>
  C26: No archive operation (write_bytes, write_or_reopen_exact, publish_pending,
  discard_pending, ensure_directory) ever changes or removes a published file or a directory, on
  any outcome including the death of the process: only names that start with a dot are ever
  rewritten or removed.
\<close>

theorem published_files_are_kept:
  "fs_rel (published_kept {}) w (snd (write_bytes relative data maximum w)) \<and>
   fs_rel (published_kept {}) w (snd (write_or_reopen_exact relative data maximum w)) \<and>
   fs_rel (published_kept {}) w (snd (publish_pending pending w)) \<and>
   fs_rel (published_kept {}) w (snd (discard_pending pending w)) \<and>
   fs_rel (published_kept {}) w (snd (ensure_directory relative w))"
  using kept.keeps_write_bytes kept.keeps_write_or_reopen_exact kept.keeps_publish_pending kept.keeps_discard_pending
    kept.keeps_ensure_directory
  unfolding keeps_def by blast



end
