(* ===== verification/Capture_Journal.thy ===== *)
theory Capture_Journal
  imports Raw_Artifacts "HOL-Library.Product_Lexorder"
begin

text \<open>
  The journal of a physical capture session, \<open>scripts/physical_capture/session.py\<close>: the states and
  events with their fixed transitions, UTC timestamps, the event documents and their validation
  against the snapshot of the preceding events. The file system is not involved here; the session
  and its archive are in the theories \<open>Capture_Archive\<close> and \<open>Capture_Session\<close>.
\<close>

section \<open>States, events and transitions\<close>

datatype capture_state =
    S_INITIALIZED | S_COLLECTING | S_RAW_COMPLETE | S_NONCE_REQUEST_PREPARED | S_NONCE_ATTEMPTED
  | S_NONCE_RECEIVED | S_REPORTS_COMPOSED | S_BINDINGS_COMPOSED | S_RECEIPT_REQUEST_PREPARED
  | S_RECEIPT_ATTEMPTED | S_RECEIPT_RECEIVED | S_FINALIZED | S_NONCE_OUTCOME_UNKNOWN
  | S_RECEIPT_OUTCOME_UNKNOWN | S_ABANDONED

datatype capture_event =
    E_SESSION_STARTED | E_COLLECTION_STARTED | E_RAW_COMPLETED | E_NONCE_REQUEST_PREPARED
  | E_NONCE_ATTEMPT_STARTED | E_NONCE_PRE_SEND_FAILED | E_NONCE_RESPONSE_RECORDED
  | E_REPORTS_COMPOSED | E_BINDINGS_COMPOSED | E_RECEIPT_REQUEST_PREPARED
  | E_RECEIPT_ATTEMPT_STARTED | E_RECEIPT_PRE_SEND_FAILED | E_RECEIPT_RESPONSE_RECORDED
  | E_RUN_FINALIZED | E_NONCE_OUTCOME_UNKNOWN | E_RECEIPT_OUTCOME_UNKNOWN | E_SESSION_ABANDONED
  | E_PRE_SEND_ATTEMPT_DISCARDED

fun state_value :: "capture_state \<Rightarrow> string" where
  "state_value S_INITIALIZED = ''initialized''"
| "state_value S_COLLECTING = ''collecting''"
| "state_value S_RAW_COMPLETE = ''raw_complete''"
| "state_value S_NONCE_REQUEST_PREPARED = ''nonce_request_prepared''"
| "state_value S_NONCE_ATTEMPTED = ''nonce_attempted''"
| "state_value S_NONCE_RECEIVED = ''nonce_received''"
| "state_value S_REPORTS_COMPOSED = ''reports_composed''"
| "state_value S_BINDINGS_COMPOSED = ''bindings_composed''"
| "state_value S_RECEIPT_REQUEST_PREPARED = ''receipt_request_prepared''"
| "state_value S_RECEIPT_ATTEMPTED = ''receipt_attempted''"
| "state_value S_RECEIPT_RECEIVED = ''receipt_received''"
| "state_value S_FINALIZED = ''finalized''"
| "state_value S_NONCE_OUTCOME_UNKNOWN = ''nonce_outcome_unknown''"
| "state_value S_RECEIPT_OUTCOME_UNKNOWN = ''receipt_outcome_unknown''"
| "state_value S_ABANDONED = ''abandoned''"

fun event_value :: "capture_event \<Rightarrow> string" where
  "event_value E_SESSION_STARTED = ''session_started''"
| "event_value E_COLLECTION_STARTED = ''collection_started''"
| "event_value E_RAW_COMPLETED = ''raw_completed''"
| "event_value E_NONCE_REQUEST_PREPARED = ''nonce_request_prepared''"
| "event_value E_NONCE_ATTEMPT_STARTED = ''nonce_attempt_started''"
| "event_value E_NONCE_PRE_SEND_FAILED = ''nonce_pre_send_failed''"
| "event_value E_NONCE_RESPONSE_RECORDED = ''nonce_response_recorded''"
| "event_value E_REPORTS_COMPOSED = ''reports_composed''"
| "event_value E_BINDINGS_COMPOSED = ''bindings_composed''"
| "event_value E_RECEIPT_REQUEST_PREPARED = ''receipt_request_prepared''"
| "event_value E_RECEIPT_ATTEMPT_STARTED = ''receipt_attempt_started''"
| "event_value E_RECEIPT_PRE_SEND_FAILED = ''receipt_pre_send_failed''"
| "event_value E_RECEIPT_RESPONSE_RECORDED = ''receipt_response_recorded''"
| "event_value E_RUN_FINALIZED = ''run_finalized''"
| "event_value E_NONCE_OUTCOME_UNKNOWN = ''nonce_outcome_unknown''"
| "event_value E_RECEIPT_OUTCOME_UNKNOWN = ''receipt_outcome_unknown''"
| "event_value E_SESSION_ABANDONED = ''session_abandoned''"
| "event_value E_PRE_SEND_ATTEMPT_DISCARDED = ''pre_send_attempt_discarded''"

definition capture_states :: "capture_state list" where
  "capture_states =
     [S_INITIALIZED, S_COLLECTING, S_RAW_COMPLETE, S_NONCE_REQUEST_PREPARED, S_NONCE_ATTEMPTED,
      S_NONCE_RECEIVED, S_REPORTS_COMPOSED, S_BINDINGS_COMPOSED, S_RECEIPT_REQUEST_PREPARED,
      S_RECEIPT_ATTEMPTED, S_RECEIPT_RECEIVED, S_FINALIZED, S_NONCE_OUTCOME_UNKNOWN,
      S_RECEIPT_OUTCOME_UNKNOWN, S_ABANDONED]"

definition capture_events :: "capture_event list" where
  "capture_events =
     [E_SESSION_STARTED, E_COLLECTION_STARTED, E_RAW_COMPLETED, E_NONCE_REQUEST_PREPARED,
      E_NONCE_ATTEMPT_STARTED, E_NONCE_PRE_SEND_FAILED, E_NONCE_RESPONSE_RECORDED,
      E_REPORTS_COMPOSED, E_BINDINGS_COMPOSED, E_RECEIPT_REQUEST_PREPARED,
      E_RECEIPT_ATTEMPT_STARTED, E_RECEIPT_PRE_SEND_FAILED, E_RECEIPT_RESPONSE_RECORDED,
      E_RUN_FINALIZED, E_NONCE_OUTCOME_UNKNOWN, E_RECEIPT_OUTCOME_UNKNOWN, E_SESSION_ABANDONED,
      E_PRE_SEND_ATTEMPT_DISCARDED]"

text \<open>
  \<open>CaptureState(v)\<close> and \<open>CaptureEvent(v)\<close>: the lookup of an enumeration member by its value, which
  raises \<open>ValueError\<close> for a value of any other type too.
\<close>

definition capture_state_of :: "json \<Rightarrow> capture_state res" where
  "capture_state_of v =
     (case v of
        JStr s \<Rightarrow> (case List.find (\<lambda>x. u (state_value x) = s) capture_states of
            Some x \<Rightarrow> Inr x | None \<Rightarrow> Inl (ValueError ''{} is not a valid CaptureState''))
      | _ \<Rightarrow> Inl (ValueError ''{} is not a valid CaptureState''))"

definition capture_event_of :: "json \<Rightarrow> capture_event res" where
  "capture_event_of v =
     (case v of
        JStr s \<Rightarrow> (case List.find (\<lambda>x. u (event_value x) = s) capture_events of
            Some x \<Rightarrow> Inr x | None \<Rightarrow> Inl (ValueError ''{} is not a valid CaptureEvent''))
      | _ \<Rightarrow> Inl (ValueError ''{} is not a valid CaptureEvent''))"

definition TERMINAL_STATES :: "capture_state set" where
  "TERMINAL_STATES = {S_FINALIZED, S_NONCE_OUTCOME_UNKNOWN, S_RECEIPT_OUTCOME_UNKNOWN, S_ABANDONED}"

fun LINEAR_TRANSITIONS :: "capture_event \<Rightarrow> (capture_state option \<times> capture_state) option" where
  "LINEAR_TRANSITIONS E_SESSION_STARTED = Some (None, S_INITIALIZED)"
| "LINEAR_TRANSITIONS E_COLLECTION_STARTED = Some (Some S_INITIALIZED, S_COLLECTING)"
| "LINEAR_TRANSITIONS E_RAW_COMPLETED = Some (Some S_COLLECTING, S_RAW_COMPLETE)"
| "LINEAR_TRANSITIONS E_NONCE_REQUEST_PREPARED = Some (Some S_RAW_COMPLETE, S_NONCE_REQUEST_PREPARED)"
| "LINEAR_TRANSITIONS E_NONCE_ATTEMPT_STARTED = Some (Some S_NONCE_REQUEST_PREPARED, S_NONCE_ATTEMPTED)"
| "LINEAR_TRANSITIONS E_NONCE_PRE_SEND_FAILED = Some (Some S_NONCE_ATTEMPTED, S_NONCE_REQUEST_PREPARED)"
| "LINEAR_TRANSITIONS E_NONCE_RESPONSE_RECORDED = Some (Some S_NONCE_ATTEMPTED, S_NONCE_RECEIVED)"
| "LINEAR_TRANSITIONS E_REPORTS_COMPOSED = Some (Some S_NONCE_RECEIVED, S_REPORTS_COMPOSED)"
| "LINEAR_TRANSITIONS E_BINDINGS_COMPOSED = Some (Some S_REPORTS_COMPOSED, S_BINDINGS_COMPOSED)"
| "LINEAR_TRANSITIONS E_RECEIPT_REQUEST_PREPARED = Some (Some S_BINDINGS_COMPOSED, S_RECEIPT_REQUEST_PREPARED)"
| "LINEAR_TRANSITIONS E_RECEIPT_ATTEMPT_STARTED = Some (Some S_RECEIPT_REQUEST_PREPARED, S_RECEIPT_ATTEMPTED)"
| "LINEAR_TRANSITIONS E_RECEIPT_PRE_SEND_FAILED = Some (Some S_RECEIPT_ATTEMPTED, S_RECEIPT_REQUEST_PREPARED)"
| "LINEAR_TRANSITIONS E_RECEIPT_RESPONSE_RECORDED = Some (Some S_RECEIPT_ATTEMPTED, S_RECEIPT_RECEIVED)"
| "LINEAR_TRANSITIONS E_RUN_FINALIZED = Some (Some S_RECEIPT_RECEIVED, S_FINALIZED)"
| "LINEAR_TRANSITIONS E_NONCE_OUTCOME_UNKNOWN = Some (Some S_NONCE_ATTEMPTED, S_NONCE_OUTCOME_UNKNOWN)"
| "LINEAR_TRANSITIONS E_RECEIPT_OUTCOME_UNKNOWN = Some (Some S_RECEIPT_ATTEMPTED, S_RECEIPT_OUTCOME_UNKNOWN)"
| "LINEAR_TRANSITIONS E_SESSION_ABANDONED = None"
| "LINEAR_TRANSITIONS E_PRE_SEND_ATTEMPT_DISCARDED = None"

definition ABANDONABLE_STATES :: "capture_state set" where
  "ABANDONABLE_STATES =
     {S_INITIALIZED, S_COLLECTING, S_RAW_COMPLETE, S_NONCE_REQUEST_PREPARED, S_NONCE_RECEIVED,
      S_REPORTS_COMPOSED, S_BINDINGS_COMPOSED, S_RECEIPT_REQUEST_PREPARED, S_RECEIPT_RECEIVED}"

definition transition_for :: "capture_event \<Rightarrow> capture_state option \<Rightarrow> capture_state res" where
  "transition_for event current =
     (if event = E_PRE_SEND_ATTEMPT_DISCARDED then
        if current \<notin> {Some S_NONCE_REQUEST_PREPARED, Some S_RECEIPT_REQUEST_PREPARED} then
          Inl (SessionError ''invalid_session_transition''
                 ''pre-send pending recovery requires a prepared request state'')
        else Inr (the current)
      else if event = E_SESSION_ABANDONED then
        if current \<notin> Some ` ABANDONABLE_STATES then
          Inl (SessionError ''invalid_session_transition'' ''cannot abandon physical capture session from {}'')
        else Inr S_ABANDONED
      else
        case LINEAR_TRANSITIONS event of
          None \<Rightarrow> Inl (SessionError ''invalid_session_transition'' ''event {} is invalid from state {}'')
        | Some (source, target) \<Rightarrow>
            if source \<noteq> current then
              Inl (SessionError ''invalid_session_transition'' ''event {} is invalid from state {}'')
            else Inr target)"

section \<open>Timestamps\<close>

text \<open>
  A \<open>datetime\<close> in UTC. Comparison is that of the fields from the year down.
\<close>

datatype utc_datetime =
  Utc (dt_year: nat) (dt_month: nat) (dt_day: nat) (dt_hour: nat) (dt_minute: nat) (dt_second: nat)
      (dt_microsecond: nat)

fun dt_tuple :: "utc_datetime \<Rightarrow> nat \<times> nat \<times> nat \<times> nat \<times> nat \<times> nat \<times> nat" where
  "dt_tuple (Utc y mo d h mi s us) = (y, mo, d, h, mi, s, us)"

lemma dt_tuple_inj: "dt_tuple a = dt_tuple b \<Longrightarrow> a = b"
  by (cases a; cases b) simp

instantiation utc_datetime :: linorder
begin

definition less_eq_utc_datetime :: "utc_datetime \<Rightarrow> utc_datetime \<Rightarrow> bool" where
  "less_eq_utc_datetime a b = (dt_tuple a \<le> dt_tuple b)"

definition less_utc_datetime :: "utc_datetime \<Rightarrow> utc_datetime \<Rightarrow> bool" where
  "less_utc_datetime a b = (dt_tuple a < dt_tuple b)"

instance
proof
  fix a b c :: utc_datetime
  show "(a < b) = (a \<le> b \<and> \<not> b \<le> a)"
    unfolding less_eq_utc_datetime_def less_utc_datetime_def by (rule less_le_not_le)
  show "a \<le> a" unfolding less_eq_utc_datetime_def by (rule order_refl)
  show "a \<le> b \<Longrightarrow> b \<le> c \<Longrightarrow> a \<le> c" unfolding less_eq_utc_datetime_def by (rule order_trans)
  show "a \<le> b \<Longrightarrow> b \<le> a \<Longrightarrow> a = b"
    unfolding less_eq_utc_datetime_def by (rule dt_tuple_inj) (rule order_antisym)
  show "a \<le> b \<or> b \<le> a" unfolding less_eq_utc_datetime_def by (rule linear)
qed

end

definition is_leap_year :: "nat \<Rightarrow> bool" where
  "is_leap_year y = (y mod 4 = 0 \<and> (y mod 100 \<noteq> 0 \<or> y mod 400 = 0))"

definition days_in_month :: "nat \<Rightarrow> nat \<Rightarrow> nat" where
  "days_in_month y m =
     (if m = 2 \<and> is_leap_year y then 29 else [0, 31, 28, 31, 30, 31, 30, 31, 31, 30, 31, 30, 31] ! m)"

definition valid_datetime :: "utc_datetime \<Rightarrow> bool" where
  "valid_datetime t =
     (1 \<le> dt_year t \<and> dt_year t \<le> 9999 \<and> 1 \<le> dt_month t \<and> dt_month t \<le> 12 \<and>
      1 \<le> dt_day t \<and> dt_day t \<le> days_in_month (dt_year t) (dt_month t) \<and>
      dt_hour t < 24 \<and> dt_minute t < 60 \<and> dt_second t < 60 \<and> dt_microsecond t < 1000000)"

definition without_microsecond :: "utc_datetime \<Rightarrow> utc_datetime" where
  "without_microsecond t =
     Utc (dt_year t) (dt_month t) (dt_day t) (dt_hour t) (dt_minute t) (dt_second t) 0"

text \<open>The decimal text of a number, padded with zeros on the left to a width: \<open>{n:0wd}\<close>.\<close>

definition fmt_dec :: "nat \<Rightarrow> nat \<Rightarrow> string" where
  "fmt_dec w n = replicate (w - length (dec_str n)) (CHR ''0'') @ dec_str n"

text \<open>\<open>isoformat\<close> of a UTC value, and \<open>str.replace\<close> with a pattern that is not empty.\<close>

definition isoformat :: "utc_datetime \<Rightarrow> string" where
  "isoformat t =
     fmt_dec 4 (dt_year t) @ ''-'' @ fmt_dec 2 (dt_month t) @ ''-'' @ fmt_dec 2 (dt_day t) @ ''T'' @
     fmt_dec 2 (dt_hour t) @ '':'' @ fmt_dec 2 (dt_minute t) @ '':'' @ fmt_dec 2 (dt_second t) @
     (if dt_microsecond t = 0 then '''' else ''.'' @ fmt_dec 6 (dt_microsecond t)) @ ''+00:00''"

fun py_replace :: "'a list \<Rightarrow> 'a list \<Rightarrow> 'a list \<Rightarrow> 'a list" where
  "py_replace old new [] = []"
| "py_replace old new (c # cs) =
     (if old \<noteq> [] \<and> take (length old) (c # cs) = old then new @ py_replace old new (drop (length old - 1) cs)
      else c # py_replace old new cs)"

definition format_timestamp :: "utc_datetime \<Rightarrow> ustr" where
  "format_timestamp t = u (py_replace ''+00:00'' ''Z'' (isoformat (without_microsecond t)))"

text \<open>\<open>_UTC_TIMESTAMP_RE\<close> under \<open>fullmatch\<close>; \<open>#\<close> stands for \<open>[0-9]\<close>.\<close>

definition matches_digits :: "string \<Rightarrow> ustr \<Rightarrow> bool" where
  "matches_digits template s =
     list_all2 (\<lambda>t c. if t = CHR ''#'' then is_dig c else c = char_code t) template s"

definition UTC_TIMESTAMP_RE :: "ustr \<Rightarrow> bool" where
  "UTC_TIMESTAMP_RE s = matches_digits ''####-##-##T##:##:##Z'' s"

text \<open>
  \<open>datetime.fromisoformat\<close> on a text of that shape with \<open>+00:00\<close> for the zone. Midnight may be
  written as hour 24 of the day before.
\<close>

definition midnight :: "utc_datetime \<Rightarrow> utc_datetime res" where
  "midnight t =
     (let y = dt_year t; m = dt_month t; d = dt_day t in
      if dt_hour t = 24 \<and> m \<le> 12 \<and> d \<le> days_in_month y m then
        if dt_minute t = 0 \<and> dt_second t = 0 then
          Inr (if Suc d \<le> days_in_month y m then Utc y m (Suc d) 0 0 0 0
               else if Suc m \<le> 12 then Utc y (Suc m) 1 0 0 0 0
               else Utc (Suc y) 1 1 0 0 0 0)
        else Inl (ValueError ''minute, second, and microsecond must be 0 when hour is 24'')
      else Inr t)"

definition fromisoformat :: "ustr \<Rightarrow> utc_datetime res" where
  "fromisoformat s =
     bindE (midnight (Utc (text_value (py_slice s 0 4)) (text_value (py_slice s 5 7))
        (text_value (py_slice s 8 10)) (text_value (py_slice s 11 13)) (text_value (py_slice s 14 16))
        (text_value (py_slice s 17 19)) 0)) (\<lambda>t.
     if \<not> valid_datetime t then Inl (ValueError ''{} is out of range'') else Inr t)"

definition parse_timestamp :: "json \<Rightarrow> utc_datetime res" where
  "parse_timestamp value =
     (case value of
        JStr s \<Rightarrow>
          if \<not> UTC_TIMESTAMP_RE s then
            Inl (SessionError ''invalid_journal_timestamp'' ''{} must be a canonical UTC timestamp'')
          else (case fromisoformat (butlast s @ u ''+00:00'') of
              Inl _ \<Rightarrow> Inl (SessionError ''invalid_journal_timestamp'' ''{} is not ISO-8601'')
            | Inr parsed \<Rightarrow> Inr parsed)
      | _ \<Rightarrow> Inl (SessionError ''invalid_journal_timestamp'' ''{} must be a canonical UTC timestamp''))"

section \<open>Event documents\<close>

definition EVENT_DOCUMENT :: string where "EVENT_DOCUMENT = ''cfw-physical-capture-event-v1''"
definition EVENT_SCHEMA_VERSION :: int where "EVENT_SCHEMA_VERSION = 1"
definition MAX_JOURNAL_EVENTS :: nat where "MAX_JOURNAL_EVENTS = 1024"
definition MAX_EVENT_BYTES :: nat where "MAX_EVENT_BYTES = 64 * 1024"
definition ZERO_SHA256 :: ustr where "ZERO_SHA256 = replicate 64 48"

definition EVENT_FIELDS :: "string list" where
  "EVENT_FIELDS =
     [''schema_version'', ''document'', ''sequence'', ''event'', ''from_state'', ''to_state'',
      ''recorded_at'', ''previous_event_sha256'', ''binding_sha256'']"

record session_snapshot =
  sn_state :: capture_state
  sn_sequence :: nat
  sn_last_event_sha256 :: ustr
  sn_last_binding_sha256 :: ustr
  sn_last_recorded_at :: utc_datetime
  sn_observation_manifest_sha256 :: "ustr option"

definition session_require_sha256 :: "json \<Rightarrow> ustr res" where
  "session_require_sha256 value =
     (case value of
        JStr s \<Rightarrow>
          if \<not> SHA256_RE s then Inl (SessionError ''invalid_journal_digest'' ''{} is not a canonical SHA-256'')
          else Inr s
      | _ \<Rightarrow> Inl (SessionError ''invalid_journal_digest'' ''{} is not a canonical SHA-256''))"

definition canonical_event_bytes :: "json \<Rightarrow> bytes res" where
  "canonical_event_bytes value =
     (case canonical_json value of
        Inl _ \<Rightarrow> Inl (SessionError ''journal_encoding_failed'' ''journal event cannot be canonically encoded'')
      | Inr data \<Rightarrow> Inr (data @ [10]))"

definition state_json :: "capture_state option \<Rightarrow> json" where
  "state_json s = (case s of None \<Rightarrow> JNull | Some x \<Rightarrow> JStr (u (state_value x)))"

definition previous_digest :: "session_snapshot option \<Rightarrow> ustr" where
  "previous_digest previous = (case previous of None \<Rightarrow> ZERO_SHA256 | Some p \<Rightarrow> sn_last_event_sha256 p)"

definition manifest_after :: "session_snapshot option \<Rightarrow> capture_event \<Rightarrow> ustr \<Rightarrow> ustr option" where
  "manifest_after previous event binding =
     (if event = E_RAW_COMPLETED then Some binding
      else case previous of None \<Rightarrow> None | Some p \<Rightarrow> sn_observation_manifest_sha256 p)"

text \<open>The document \<open>_append_locked\<close> writes, and the snapshot it keeps of it.\<close>

definition event_document ::
  "session_snapshot option \<Rightarrow> nat \<Rightarrow> capture_event \<Rightarrow> capture_state \<Rightarrow> utc_datetime \<Rightarrow> ustr \<Rightarrow> json" where
  "event_document current sequence event next_state recorded_at binding =
     JObj [(u ''schema_version'', JInt EVENT_SCHEMA_VERSION),
       (u ''document'', JStr (u EVENT_DOCUMENT)),
       (u ''sequence'', JInt (int sequence)),
       (u ''event'', JStr (u (event_value event))),
       (u ''from_state'', state_json (map_option sn_state current)),
       (u ''to_state'', JStr (u (state_value next_state))),
       (u ''recorded_at'', JStr (format_timestamp recorded_at)),
       (u ''previous_event_sha256'', JStr (previous_digest current)),
       (u ''binding_sha256'', JStr binding)]"

definition event_snapshot ::
  "session_snapshot option \<Rightarrow> nat \<Rightarrow> capture_event \<Rightarrow> capture_state \<Rightarrow> utc_datetime \<Rightarrow> ustr \<Rightarrow> bytes \<Rightarrow>
   session_snapshot" where
  "event_snapshot current sequence event next_state recorded_at binding data =
     \<lparr>sn_state = next_state, sn_sequence = sequence, sn_last_event_sha256 = u (sha256_hex data),
      sn_last_binding_sha256 = binding, sn_last_recorded_at = recorded_at,
      sn_observation_manifest_sha256 = manifest_after current event binding\<rparr>"

definition validate_event_bytes :: "bytes \<Rightarrow> session_snapshot option \<Rightarrow> nat \<Rightarrow> session_snapshot res" where
  "validate_event_bytes data previous expected_sequence =
     (case load_json_bytes data of
        Inl _ \<Rightarrow> Inl (SessionError ''invalid_journal_json'' ''physical capture journal event is not strict JSON'')
      | Inr value \<Rightarrow>
     bindE (case value of
        JObj ms \<Rightarrow>
          if set (map fst ms) \<noteq> set (map u EVENT_FIELDS) then
            Inl (SessionError ''invalid_journal_fields'' ''physical capture journal event has an unexpected field set'')
          else Inr ms
      | _ \<Rightarrow> Inl (SessionError ''invalid_journal_fields'' ''physical capture journal event has an unexpected field set''))
     (\<lambda>ms. bindE (canonical_event_bytes value) (\<lambda>canonical.
     if canonical \<noteq> data then Inl (SessionError ''noncanonical_journal_event'' ''journal event bytes are not canonical'')
     else if field ms ''schema_version'' \<noteq> JInt EVENT_SCHEMA_VERSION
        \<or> field ms ''document'' \<noteq> JStr (u EVENT_DOCUMENT)
        \<or> field ms ''sequence'' \<noteq> JInt (int expected_sequence) then
       Inl (SessionError ''invalid_journal_header'' ''journal event schema or sequence is invalid'')
     else case capture_event_of (field ms ''event'') of
       Inl _ \<Rightarrow> Inl (SessionError ''invalid_journal_event'' ''journal event name is unknown'')
     | Inr event \<Rightarrow>
     bindE (transition_for event (map_option sn_state previous)) (\<lambda>next_state.
     if field ms ''from_state'' \<noteq> state_json (map_option sn_state previous)
        \<or> field ms ''to_state'' \<noteq> JStr (u (state_value next_state)) then
       Inl (SessionError ''journal_transition_mismatch'' ''journal event state fields differ from the fixed transition'')
     else bindE (session_require_sha256 (field ms ''previous_event_sha256'')) (\<lambda>previous_sha.
     if previous_sha \<noteq> previous_digest previous then
       Inl (SessionError ''journal_hash_chain_mismatch'' ''journal hash chain is broken'')
     else bindE (session_require_sha256 (field ms ''binding_sha256'')) (\<lambda>binding.
     bindE (parse_timestamp (field ms ''recorded_at'')) (\<lambda>recorded_at.
     if (case previous of None \<Rightarrow> False | Some p \<Rightarrow> recorded_at < sn_last_recorded_at p) then
       Inl (SessionError ''journal_time_rollback'' ''journal timestamps move backwards'')
     else Inr (event_snapshot previous expected_sequence event next_state recorded_at binding data))))))))"

text \<open>The replay of the committed events in their order, from the first sequence number on.\<close>

primrec replay_from :: "session_snapshot option \<Rightarrow> nat \<Rightarrow> bytes list \<Rightarrow> session_snapshot option res" where
  "replay_from previous expected [] = Inr previous"
| "replay_from previous expected (data # rest) =
     bindE (validate_event_bytes data previous expected) (\<lambda>snapshot. replay_from (Some snapshot) (Suc expected) rest)"

definition replay :: "bytes list \<Rightarrow> session_snapshot option res" where
  "replay journal = replay_from None 1 journal"

section \<open>Timestamps are written and read back\<close>

lemma text_value_zeros: "text_value (replicate n 48 @ ds) = text_value ds"
  by (induction n) (simp_all add: text_value_def)

lemma text_value_fmt_dec [simp]: "text_value (u (fmt_dec w n)) = n"
proof -
  have "u (fmt_dec w n) = replicate (w - length (dec_str n)) 48 @ u (dec_str n)"
    by (simp add: fmt_dec_def u_def char_code_def)
  then show ?thesis by (simp add: text_value_zeros text_value_dec_str)
qed

lemma length_fmt_dec: "0 < w \<Longrightarrow> n < 10 ^ w \<Longrightarrow> length (fmt_dec w n) = w"
  using length_digits_base [of 10 n "w - 1"] by (auto simp: fmt_dec_def dec_str_def)

lemma fmt_dec_digits: "list_all is_digit (fmt_dec w n)"
  using dec_str_digits [of n] by (auto simp: fmt_dec_def list_all_iff is_digit_def char_code_def)

lemma is_dig_fmt_dec: "c \<in> set (u (fmt_dec w n)) \<Longrightarrow> is_dig c"
  using is_dig_u [OF fmt_dec_digits] by (auto simp: list_all_iff)

lemma py_replace_absent: "CHR ''+'' \<notin> set s \<Longrightarrow> py_replace ''+00:00'' r (s @ t) = s @ py_replace ''+00:00'' r t"
  by (induction s) auto

lemma fmt_dec_no_plus: "CHR ''+'' \<notin> set (fmt_dec w n)"
  using fmt_dec_digits [of w n] by (auto simp: list_all_iff is_digit_def char_code_def)

lemma format_timestamp_eq:
  "format_timestamp t =
     u (fmt_dec 4 (dt_year t)) @ [45] @ u (fmt_dec 2 (dt_month t)) @ [45] @ u (fmt_dec 2 (dt_day t)) @ [84] @
     u (fmt_dec 2 (dt_hour t)) @ [58] @ u (fmt_dec 2 (dt_minute t)) @ [58] @ u (fmt_dec 2 (dt_second t)) @ [90]"
proof -
  define s where "s = fmt_dec 4 (dt_year t) @ ''-'' @ fmt_dec 2 (dt_month t) @ ''-'' @ fmt_dec 2 (dt_day t) @ ''T'' @
     fmt_dec 2 (dt_hour t) @ '':'' @ fmt_dec 2 (dt_minute t) @ '':'' @ fmt_dec 2 (dt_second t)"
  have i: "isoformat (without_microsecond t) = s @ ''+00:00''"
    by (simp add: isoformat_def without_microsecond_def s_def)
  have "CHR ''+'' \<notin> set s" by (simp add: s_def fmt_dec_no_plus)
  then have "py_replace ''+00:00'' ''Z'' (isoformat (without_microsecond t)) = s @ ''Z''"
    unfolding i by (subst py_replace_absent) simp_all
  then show ?thesis by (simp add: format_timestamp_def s_def char_code_def)
qed

lemma list_all2_fmt:
  "length s = k \<Longrightarrow> (\<And>c. c \<in> set s \<Longrightarrow> is_dig c) \<Longrightarrow>
   list_all2 (\<lambda>t c. if t = CHR ''#'' then is_dig c else c = char_code t) (replicate k (CHR ''#'')) s"
  by (auto simp: list_all2_conv_all_nth)

lemma days_in_month_le: "m \<le> 12 \<Longrightarrow> days_in_month y m \<le> 31"
proof -
  have "list_all (\<lambda>m. [0, 31, 28, 31, 30, 31, 30, 31, 31, 30, 31, 30, 31] ! m \<le> (31 :: nat)) [0..<13]" by code_simp
  then show "m \<le> 12 \<Longrightarrow> ?thesis" by (auto simp: days_in_month_def list_all_iff)
qed

lemma valid_datetime_widths:
  assumes "valid_datetime t"
  shows "length (fmt_dec 4 (dt_year t)) = 4" "length (fmt_dec 2 (dt_month t)) = 2" "length (fmt_dec 2 (dt_day t)) = 2"
    "length (fmt_dec 2 (dt_hour t)) = 2" "length (fmt_dec 2 (dt_minute t)) = 2" "length (fmt_dec 2 (dt_second t)) = 2"
  using assms days_in_month_le [of "dt_month t" "dt_year t"]
  by (auto simp: valid_datetime_def intro!: length_fmt_dec)

lemma format_timestamp_length: "valid_datetime t \<Longrightarrow> length (format_timestamp t) = 20"
  by (simp add: format_timestamp_eq valid_datetime_widths)

lemma format_timestamp_matches:
  assumes "valid_datetime t"
  shows "UTC_TIMESTAMP_RE (format_timestamp t)"
proof -
  note w = valid_datetime_widths [OF assms]
  have r: "''####-##-##T##:##:##Z'' = replicate 4 (CHR ''#'') @ ''-'' @ replicate 2 (CHR ''#'') @ ''-'' @
      replicate 2 (CHR ''#'') @ ''T'' @ replicate 2 (CHR ''#'') @ '':'' @ replicate 2 (CHR ''#'') @ '':'' @
      replicate 2 (CHR ''#'') @ ''Z''" by (simp add: numeral_eq_Suc)
  show ?thesis unfolding UTC_TIMESTAMP_RE_def matches_digits_def r format_timestamp_eq
    by (intro list_all2_appendI list_all2_fmt) (simp_all add: w is_dig_fmt_dec char_code_def)
qed

lemma take_drop_append:
  "length a = n \<Longrightarrow> take n (a @ b) = a" "length a = n \<Longrightarrow> drop n (a @ b) = b"
  by auto

lemma parse_format_timestamp:
  assumes "valid_datetime t"
  shows "parse_timestamp (JStr (format_timestamp t)) = Inr (without_microsecond t)"
proof -
  note w = valid_datetime_widths [OF assms]
  have "fromisoformat (butlast (format_timestamp t) @ z) =
      bindE (midnight (without_microsecond t)) (\<lambda>t. if \<not> valid_datetime t then Inl (ValueError ''{} is out of range'') else Inr t)" for z
    unfolding fromisoformat_def format_timestamp_eq without_microsecond_def
    by (simp add: py_slice_def w butlast_append del: u_simps)
  moreover have "midnight (without_microsecond t) = Inr (without_microsecond t)" "valid_datetime (without_microsecond t)"
    using assms by (simp_all add: midnight_def valid_datetime_def without_microsecond_def Let_def)
  ultimately show ?thesis using format_timestamp_matches [OF assms] by (simp add: parse_timestamp_def)
qed

section \<open>Events are accepted as they are written\<close>

lemma map_of_sort_key: "distinct (map fst ms) \<Longrightarrow> map_of (sort_key fst ms) = map_of ms"
  by (rule map_of_inject_set [THEN iffD2])
    (simp_all add: distinct_map)

lemma field_canon:
  assumes "canon (JObj ms) = JObj ms'" "distinct (map fst ms)"
  shows "field ms' name = canon (field ms name)"
proof -
  define cs where "cs = map (\<lambda>(k, v). (k, canon v)) ms"
  have d: "distinct (map fst cs)" using assms(2) by (simp add: cs_def comp_def case_prod_unfold)
  have "map_of ms' = map_of cs" using assms(1) map_of_sort_key [OF d] by (simp add: cs_def)
  moreover have "map_of cs k = map_option canon (map_of ms k)" for k
    unfolding cs_def by (induction ms) auto
  ultimately show ?thesis by (simp add: field_def split: option.splits)
qed

lemma set_keys_canon: "canon (JObj ms) = JObj ms' \<Longrightarrow> set (map fst ms') = set (map fst ms)"
  by (force simp: case_prod_unfold image_image)

lemma sort_key_idem: "sort_key f (sort_key f xs) = sort_key f xs"
  by (rule sort_key_id_if_sorted) simp

lemma canon_canon: "canon (canon v) = canon v"
proof (induction v rule: canon.induct)
  case (2 kvs)
  define g where "g = (\<lambda>(k :: ustr, v). (k, canon v))"
  have "map g (sort_key fst (map g kvs)) = sort_key fst (map g kvs)"
  proof (rule map_idI)
    fix x assume "x \<in> set (sort_key fst (map g kvs))"
    then obtain k v where "(k, v) \<in> set kvs" "x = (k, canon v)" by (auto simp: g_def)
    then show "g x = x" using 2 by (auto simp: g_def)
  qed
  then show ?case by (simp add: g_def [symmetric] sort_key_idem)
qed auto

lemma canonical_json_canon: "canonical_json (canon v) = canonical_json v"
  by (simp add: canonical_json_def canon_canon)

lemma capture_event_of_value [simp]: "capture_event_of (JStr (u (event_value e))) = Inr e"
  by (cases e) (simp_all add: capture_event_of_def capture_events_def del: u_simps)

lemma capture_state_of_value [simp]: "capture_state_of (JStr (u (state_value s))) = Inr s"
  by (cases s) (simp_all add: capture_state_of_def capture_states_def del: u_simps)

lemma event_keys: "event_document c n e s t b = JObj ms \<Longrightarrow> map fst ms = map u EVENT_FIELDS"
  by (auto simp: event_document_def EVENT_FIELDS_def simp del: u_simps)

lemma event_fields:
  assumes "event_document c n e s t b = JObj ms"
  shows "field ms ''schema_version'' = JInt EVENT_SCHEMA_VERSION" "field ms ''document'' = JStr (u EVENT_DOCUMENT)"
    "field ms ''sequence'' = JInt (int n)" "field ms ''event'' = JStr (u (event_value e))"
    "field ms ''from_state'' = state_json (map_option sn_state c)" "field ms ''to_state'' = JStr (u (state_value s))"
    "field ms ''recorded_at'' = JStr (format_timestamp t)" "field ms ''previous_event_sha256'' = JStr (previous_digest c)"
    "field ms ''binding_sha256'' = JStr b"
  using assms by (auto simp: event_document_def field_simps simp del: u_simps)

lemma distinct_event_fields: "distinct (map u EVENT_FIELDS)"
  by code_simp

lemma scalar_hex: "list_all is_lower_hex s \<Longrightarrow> list_all scalar s"
  by (auto simp: list_all_iff is_lower_hex_def is_dig_def scalar_def is_surrogate_def)

lemma scalar_sha256: "SHA256_RE s \<Longrightarrow> list_all scalar s"
  by (simp add: SHA256_RE_def scalar_hex)

lemma scalar_format_timestamp: "list_all scalar (format_timestamp t)"
  unfolding format_timestamp_def by (rule scalar_u)

lemma short_int_less: "\<bar>i\<bar> < 10 ^ 19 \<Longrightarrow> short_int i"
  using length_digits_base [of 10 "nat \<bar>i\<bar>" 18] by (auto simp: short_int_def dec_str_def MAX_JSON_INTEGER_DIGITS_def)

lemma event_document_plain:
  assumes "SHA256_RE b" "SHA256_RE (previous_digest c)" "n \<le> MAX_JOURNAL_EVENTS"
  shows "loadable MAX_JSON_DEPTH (event_document c n e s t b)" "plain short_int (event_document c n e s t b)"
proof -
  obtain ms where ms: "event_document c n e s t b = JObj ms" by (simp add: event_document_def)
  have "loadable k (state_json x)" for k x by (auto simp: state_json_def scalar_u simp del: u_simps split: option.splits)
  then show "loadable MAX_JSON_DEPTH (event_document c n e s t b)"
    using assms by (simp add: event_document_def scalar_u scalar_sha256 scalar_format_timestamp MAX_JSON_DEPTH_def del: u_simps)
  have "plain short_int (state_json x)" for x by (auto simp: state_json_def split: option.splits)
  moreover have "distinct (map fst ms)" using event_keys [OF ms] distinct_event_fields by simp
  moreover have "short_int EVENT_SCHEMA_VERSION" "short_int (int n)"
    using assms(3) by (auto intro!: short_int_less simp: EVENT_SCHEMA_VERSION_def MAX_JOURNAL_EVENTS_def)
  ultimately show "plain short_int (event_document c n e s t b)"
    using ms by (auto simp: event_document_def simp del: u_simps)
qed

lemma event_bytes_accepted:
  assumes "SHA256_RE b" "SHA256_RE (previous_digest c)" "n \<le> MAX_JOURNAL_EVENTS"
    and "valid_datetime t" "transition_for e (map_option sn_state c) = Inr s"
    and "\<And>p. c = Some p \<Longrightarrow> sn_last_recorded_at p \<le> without_microsecond t"
  shows "\<exists>data. canonical_event_bytes (event_document c n e s t b) = Inr data \<and>
    validate_event_bytes data c n = Inr (event_snapshot c n e s (without_microsecond t) b data)"
proof -
  obtain ms where ms: "event_document c n e s t b = JObj ms" by (simp add: event_document_def)
  have d: "distinct (map fst ms)" using event_keys [OF ms] distinct_event_fields by simp
  obtain bs where bs: "canonical_json (JObj ms) = Inr bs" "load_json_bytes (bs @ [10]) = Inr (canon (JObj ms))"
    using canonical_json_loaded [OF event_document_plain [OF assms(1-3), of e s t]] ms by auto
  obtain ms' where ms': "canon (JObj ms) = JObj ms'" by simp
  note f = field_canon [OF ms' d] event_fields [OF ms]
  have k: "set (map fst ms') = set (map u EVENT_FIELDS)" using set_keys_canon [OF ms'] event_keys [OF ms] by simp
  have c: "canonical_json (JObj ms') = Inr bs" using canonical_json_canon [of "JObj ms"] bs(1) ms' by simp
  have j: "canon (state_json x) = state_json x" for x by (simp add: state_json_def split: option.splits)
  have "validate_event_bytes (bs @ [10]) c n = Inr (event_snapshot c n e s (without_microsecond t) b (bs @ [10]))"
    unfolding validate_event_bytes_def bs(2) ms'
    using assms(1,2,6) k by (auto simp: f j c canonical_event_bytes_def session_require_sha256_def assms(5)
        parse_format_timestamp [OF assms(4)] not_less split: option.splits simp del: u_simps)
  then show ?thesis using bs(1) ms by (simp add: canonical_event_bytes_def)
qed

lemma length_event_value: "length (event_value e) \<le> 40" by (cases e) simp_all
lemma length_state_value: "length (state_value s) \<le> 40" by (cases s) simp_all

lemma event_bytes_length:
  assumes "canonical_event_bytes (event_document c n e s t b) = Inr data"
    and "SHA256_RE b" "SHA256_RE (previous_digest c)" "n \<le> MAX_JOURNAL_EVENTS" "valid_datetime t"
  shows "data \<noteq> []" "length data \<le> MAX_EVENT_BYTES"
proof -
  obtain bs where bs: "canonical_json (event_document c n e s t b) = Inr bs" "data = bs @ [10]"
    using assms(1) by (auto simp: canonical_event_bytes_def split: sum.splits)
  show "data \<noteq> []" using bs(2) by simp
  have i: "length (print_json (JInt (int n))) \<le> 4"
    using assms(4) length_digits_base [of 10 n 3] by (simp add: MAX_JOURNAL_EVENTS_def print_int_def dec_str_def)
  have l: "length b = 64" "length (previous_digest c) = 64" "length (format_timestamp t) \<le> 20"
    using assms(2,3) format_timestamp_length [OF assms(5)] by (simp_all add: SHA256_RE_def)
  have j: "print_bound (state_json x) \<le> 242" for x
    using length_state_value by (cases x) (auto simp: state_json_def)
  have f: "length (print_int EVENT_SCHEMA_VERSION) = 1" "length EVENT_DOCUMENT < 60" by code_simp+
  have "print_bound (event_document c n e s t b) \<le> 3000"
    unfolding event_document_def
    using i l j [of "map_option sn_state c"] length_event_value [of e] length_state_value [of s] f
    by simp
  then show "length data \<le> MAX_EVENT_BYTES"
    using canonical_json_length [OF bs(1)] bs(2) by (simp add: print_bound_canon MAX_EVENT_BYTES_def)
qed

section \<open>What validation establishes\<close>

lemma case_sum_eq_Inr [res_simps]:
  "(case m of Inl e \<Rightarrow> Inl (f e) | Inr x \<Rightarrow> g x) = Inr y \<longleftrightarrow> (\<exists>x. m = Inr x \<and> g x = Inr y)"
  by (cases m) auto

lemma session_require_sha256_ok:
  "session_require_sha256 v = Inr s \<Longrightarrow> v = JStr s \<and> SHA256_RE s"
  by (auto simp: session_require_sha256_def split: json.splits if_splits)

lemma validate_event_elim:
  assumes "validate_event_bytes data previous n = Inr sn"
  obtains ms event next_state t b where
    "load_json_bytes data = Inr (JObj ms)" "set (map fst ms) = set (map u EVENT_FIELDS)"
    "canonical_event_bytes (JObj ms) = Inr data"
    "field ms ''sequence'' = JInt (int n)"
    "capture_event_of (field ms ''event'') = Inr event"
    "transition_for event (map_option sn_state previous) = Inr next_state"
    "field ms ''from_state'' = state_json (map_option sn_state previous)"
    "field ms ''previous_event_sha256'' = JStr (previous_digest previous)" "SHA256_RE (previous_digest previous)"
    "field ms ''binding_sha256'' = JStr b" "SHA256_RE b"
    "parse_timestamp (field ms ''recorded_at'') = Inr t"
    "\<forall>p. previous = Some p \<longrightarrow> sn_last_recorded_at p \<le> t"
    "sn = event_snapshot previous n event next_state t b data"
proof -
  obtain v ms canonical event next_state p b t where
    l: "load_json_bytes data = Inr v" and
    k: "(case v of JObj ms \<Rightarrow> if set (map fst ms) \<noteq> set (map u EVENT_FIELDS) then
            Inl (SessionError ''invalid_journal_fields'' ''physical capture journal event has an unexpected field set'')
          else Inr ms
      | _ \<Rightarrow> Inl (SessionError ''invalid_journal_fields'' ''physical capture journal event has an unexpected field set'')) = Inr ms" and
    c: "canonical_event_bytes v = Inr canonical" "\<not> canonical \<noteq> data" and
    h: "\<not> (field ms ''schema_version'' \<noteq> JInt EVENT_SCHEMA_VERSION \<or> field ms ''document'' \<noteq> JStr (u EVENT_DOCUMENT)
        \<or> field ms ''sequence'' \<noteq> JInt (int n))" and
    e: "capture_event_of (field ms ''event'') = Inr event" "transition_for event (map_option sn_state previous) = Inr next_state"
      "\<not> (field ms ''from_state'' \<noteq> state_json (map_option sn_state previous)
        \<or> field ms ''to_state'' \<noteq> JStr (u (state_value next_state)))" and
    p: "session_require_sha256 (field ms ''previous_event_sha256'') = Inr p" "\<not> p \<noteq> previous_digest previous" and
    b: "session_require_sha256 (field ms ''binding_sha256'') = Inr b" and
    t: "parse_timestamp (field ms ''recorded_at'') = Inr t"
      "\<not> (case previous of None \<Rightarrow> False | Some p \<Rightarrow> t < sn_last_recorded_at p)" and
    s: "event_snapshot previous n event next_state t b data = sn"
    using assms unfolding validate_event_bytes_def bindE_eq_Inr case_sum_eq_Inr guard_eq_Inr sum.inject
    by (elim exE conjE) (rule that; assumption)
  have v: "v = JObj ms" "set (map fst ms) = set (map u EVENT_FIELDS)" using k by (auto split: json.splits if_splits)
  have r: "\<forall>q. previous = Some q \<longrightarrow> sn_last_recorded_at q \<le> t" using t(2) by (auto simp: not_less)
  show thesis
    using session_require_sha256_ok [OF p(1)] session_require_sha256_ok [OF b] l c h e p(2) t(1) s v
    by (intro that [of ms event next_state b t, OF _ _ _ _ _ _ _ _ _ _ _ _ r]) auto
qed

lemma validate_event_facts:
  assumes "validate_event_bytes data previous n = Inr sn"
  shows "sn_sequence sn = n" "sn_last_event_sha256 sn = u (sha256_hex data)" "SHA256_RE (sn_last_event_sha256 sn)"
    "SHA256_RE (sn_last_binding_sha256 sn)"
    "\<exists>event. transition_for event (map_option sn_state previous) = Inr (sn_state sn)"
    "previous = Some p \<Longrightarrow> sn_last_recorded_at p \<le> sn_last_recorded_at sn"
  by (rule validate_event_elim [OF assms], force simp: event_snapshot_def)+

lemma validate_event_determined:
  assumes "validate_event_bytes data p n = Inr s" "validate_event_bytes data q m = Inr t"
  shows "n = m \<and> previous_digest p = previous_digest q"
  by (rule validate_event_elim [OF assms(1)], rule validate_event_elim [OF assms(2)]) simp

section \<open>Replayed journals\<close>

lemma replay_from_append:
  "replay_from p n (xs @ ys) = bindE (replay_from p n xs) (\<lambda>q. replay_from q (n + length xs) ys)"
  by (induction xs arbitrary: p n) (simp_all add: bindE_assoc)

lemma replay_snoc:
  "replay (xs @ [x]) = bindE (replay xs) (\<lambda>q. bindE (validate_event_bytes x q (Suc (length xs))) (\<lambda>s. Inr (Some s)))"
  by (simp add: replay_def replay_from_append)

lemma replay_snocE:
  assumes "replay (xs @ [x]) = Inr r"
  obtains q s where "replay xs = Inr q" "validate_event_bytes x q (Suc (length xs)) = Inr s" "r = Some s"
  using assms by (auto simp: replay_snoc res_simps)

lemma replay_tip:
  assumes "replay journal = Inr (Some sn)"
  shows "journal \<noteq> []" "sn_sequence sn = length journal" "sn_last_event_sha256 sn = u (sha256_hex (last journal))"
    "SHA256_RE (sn_last_event_sha256 sn)"
proof -
  show "journal \<noteq> []" using assms by (auto simp: replay_def)
  then obtain xs x where j: "journal = xs @ [x]" by (metis append_butlast_last_id)
  with assms obtain q where "validate_event_bytes x q (Suc (length xs)) = Inr sn"
    by (auto elim: replay_snocE)
  note f = validate_event_facts [OF this]
  show "sn_sequence sn = length journal" "sn_last_event_sha256 sn = u (sha256_hex (last journal))"
    "SHA256_RE (sn_last_event_sha256 sn)" using f j by simp_all
qed

lemma replay_empty: "replay journal = Inr None \<longleftrightarrow> journal = []"
  by (cases journal rule: rev_cases) (auto simp: replay_snoc res_simps, simp add: replay_def)

lemma previous_digest_replay:
  assumes "replay journal = Inr q" shows "SHA256_RE (previous_digest q)"
proof (cases q)
  case None
  have "SHA256_RE ZERO_SHA256" by code_simp
  with None show ?thesis by (simp add: previous_digest_def)
next
  case (Some sn)
  then show ?thesis using replay_tip [of journal sn] assms by (simp add: previous_digest_def)
qed

lemma tip_determines_journal:
  assumes "replay xs = Inr (Some s)" "replay ys = Inr (Some t)"
    and "sn_last_event_sha256 s = sn_last_event_sha256 t" "inj_on sha256_hex (set xs \<union> set ys)"
  shows "xs = ys"
  using assms
proof (induction xs arbitrary: ys s t rule: rev_induct)
  case Nil
  then show ?case using replay_tip(1) by blast
next
  case (snoc x xs)
  have "ys \<noteq> []" using replay_tip(1) [OF snoc.prems(2)] .
  then obtain zs y where ys: "ys = zs @ [y]" by (metis append_butlast_last_id)
  have "sha256_hex x = sha256_hex y"
    using snoc.prems(3) replay_tip(3) [OF snoc.prems(1)] replay_tip(3) [OF snoc.prems(2)] by (simp add: ys)
  then have "x = y" by (rule inj_onD [OF snoc.prems(4)]) (simp_all add: ys)
  obtain p where p: "replay xs = Inr p" "validate_event_bytes x p (Suc (length xs)) = Inr s"
    using snoc.prems(1) by (auto elim: replay_snocE)
  obtain q where q: "replay zs = Inr q" "validate_event_bytes y q (Suc (length zs)) = Inr t"
    using snoc.prems(2) ys by (auto elim: replay_snocE)
  have l: "length xs = length zs" "previous_digest p = previous_digest q"
    using validate_event_determined [OF p(2) q(2) [folded \<open>x = y\<close>]] by simp_all
  have "xs = zs"
  proof (cases p)
    case None
    then show ?thesis using p(1) l(1) replay_empty by simp
  next
    case (Some s1)
    then have "zs \<noteq> []" using p(1) l(1) replay_tip(1) by force
    then obtain t1 where t1: "q = Some t1" using q(1) replay_empty by (cases q) auto
    show ?thesis
      by (rule snoc.IH [of s1 zs t1])
        (use p(1) q(1) Some t1 l(2) snoc.prems(4) ys in \<open>auto simp: previous_digest_def inj_on_def\<close>)
  qed
  with \<open>x = y\<close> ys show ?case by simp
qed

section \<open>The events of a journal\<close>

definition event_of_bytes :: "bytes \<Rightarrow> capture_event option" where
  "event_of_bytes data =
     (case load_json_bytes data of
        Inr (JObj ms) \<Rightarrow> (case capture_event_of (field ms ''event'') of Inr e \<Rightarrow> Some e | Inl _ \<Rightarrow> None)
      | _ \<Rightarrow> None)"

definition journal_events :: "bytes list \<Rightarrow> capture_event list" where
  "journal_events journal = map (\<lambda>data. the (event_of_bytes data)) journal"

text \<open>The abstract machine: the runs of the fixed transitions from no state.\<close>

inductive capture_run :: "capture_event list \<Rightarrow> capture_state option \<Rightarrow> bool" where
  run_empty: "capture_run [] None"
| run_step: "capture_run es current \<Longrightarrow> transition_for e current = Inr s \<Longrightarrow> capture_run (es @ [e]) (Some s)"

inductive_cases capture_run_NoneE: "capture_run es None"

lemma validate_event_event:
  assumes "validate_event_bytes data p n = Inr s"
  shows "\<exists>e. event_of_bytes data = Some e \<and> transition_for e (map_option sn_state p) = Inr (sn_state s) \<and>
    sn_observation_manifest_sha256 s = manifest_after p e (sn_last_binding_sha256 s)"
  by (rule validate_event_elim [OF assms]) (simp add: event_of_bytes_def event_snapshot_def)

lemma replay_run: "replay journal = Inr r \<Longrightarrow> capture_run (journal_events journal) (map_option sn_state r)"
proof (induction journal arbitrary: r rule: rev_induct)
  case Nil
  then show ?case by (simp add: replay_def journal_events_def run_empty)
next
  case (snoc x xs)
  obtain q s where q: "replay xs = Inr q" "validate_event_bytes x q (Suc (length xs)) = Inr s" "r = Some s"
    using snoc.prems by (rule replay_snocE)
  obtain e where "event_of_bytes x = Some e" "transition_for e (map_option sn_state q) = Inr (sn_state s)"
    using validate_event_event [OF q(2)] by blast
  then show ?case using run_step [OF snoc.IH [OF q(1)]] q(3) by (simp add: journal_events_def)
qed

lemma replay_events_known:
  assumes "replay journal = Inr r" "data \<in> set journal" shows "event_of_bytes data \<noteq> None"
  using assms
proof (induction journal arbitrary: r rule: rev_induct)
  case (snoc x xs)
  obtain q s where "replay xs = Inr q" "validate_event_bytes x q (Suc (length xs)) = Inr s"
    using snoc.prems(1) by (rule replay_snocE)
  then show ?case using snoc.IH snoc.prems(2) validate_event_event [of x] by fastforce
qed simp

lemma transition_terminal: "s \<in> TERMINAL_STATES \<Longrightarrow> \<exists>m. transition_for e (Some s) = Inl m"
  by (cases e) (auto simp: transition_for_def TERMINAL_STATES_def ABANDONABLE_STATES_def)

text \<open>
  The events other than the attempts and their failures before sending, for each state that is
  reached without abandoning; and whether an attempt of the role is still answered for.
\<close>

definition is_milestone :: "capture_event \<Rightarrow> bool" where
  "is_milestone e = (e \<notin> {E_NONCE_ATTEMPT_STARTED, E_NONCE_PRE_SEND_FAILED, E_RECEIPT_ATTEMPT_STARTED,
     E_RECEIPT_PRE_SEND_FAILED, E_PRE_SEND_ATTEMPT_DISCARDED})"

definition milestone_order :: "capture_event list" where
  "milestone_order =
     [E_SESSION_STARTED, E_COLLECTION_STARTED, E_RAW_COMPLETED, E_NONCE_REQUEST_PREPARED,
      E_NONCE_RESPONSE_RECORDED, E_REPORTS_COMPOSED, E_BINDINGS_COMPOSED, E_RECEIPT_REQUEST_PREPARED,
      E_RECEIPT_RESPONSE_RECORDED, E_RUN_FINALIZED]"

fun milestones :: "capture_state \<Rightarrow> capture_event list" where
  "milestones S_INITIALIZED = take 1 milestone_order"
| "milestones S_COLLECTING = take 2 milestone_order"
| "milestones S_RAW_COMPLETE = take 3 milestone_order"
| "milestones S_NONCE_REQUEST_PREPARED = take 4 milestone_order"
| "milestones S_NONCE_ATTEMPTED = take 4 milestone_order"
| "milestones S_NONCE_RECEIVED = take 5 milestone_order"
| "milestones S_REPORTS_COMPOSED = take 6 milestone_order"
| "milestones S_BINDINGS_COMPOSED = take 7 milestone_order"
| "milestones S_RECEIPT_REQUEST_PREPARED = take 8 milestone_order"
| "milestones S_RECEIPT_ATTEMPTED = take 8 milestone_order"
| "milestones S_RECEIPT_RECEIVED = take 9 milestone_order"
| "milestones S_FINALIZED = milestone_order"
| "milestones S_NONCE_OUTCOME_UNKNOWN = take 4 milestone_order @ [E_NONCE_OUTCOME_UNKNOWN]"
| "milestones S_RECEIPT_OUTCOME_UNKNOWN = take 8 milestone_order @ [E_RECEIPT_OUTCOME_UNKNOWN]"
| "milestones S_ABANDONED = []"

definition run_shape :: "capture_event list \<Rightarrow> capture_state \<Rightarrow> bool" where
  "run_shape es s =
     (filter is_milestone es = milestones s \<and>
      count_list es E_NONCE_ATTEMPT_STARTED = count_list es E_NONCE_PRE_SEND_FAILED +
        (if s \<in> {S_INITIALIZED, S_COLLECTING, S_RAW_COMPLETE, S_NONCE_REQUEST_PREPARED} then 0 else 1) \<and>
      count_list es E_RECEIPT_ATTEMPT_STARTED = count_list es E_RECEIPT_PRE_SEND_FAILED +
        (if s \<in> {S_RECEIPT_ATTEMPTED, S_RECEIPT_RECEIVED, S_FINALIZED, S_RECEIPT_OUTCOME_UNKNOWN} then 1 else 0))"

lemma capture_run_shape:
  "capture_run es current \<Longrightarrow>
   (case current of
      None \<Rightarrow> es = []
    | Some s \<Rightarrow> if s = S_ABANDONED then \<exists>es' s'. es = es' @ [E_SESSION_ABANDONED] \<and> s' \<in> ABANDONABLE_STATES \<and> run_shape es' s'
                else run_shape es s)"
proof (induction rule: capture_run.induct)
  case (run_step es current e s)
  show ?case
  proof (cases current)
    case None
    then show ?thesis using run_step
      by (cases e) (auto simp: transition_for_def run_shape_def is_milestone_def milestone_order_def split: if_splits)
  next
    case (Some c)
    have c: "c \<noteq> S_ABANDONED" using run_step.hyps(2) Some transition_terminal [of S_ABANDONED e]
      by (auto simp: TERMINAL_STATES_def)
    with run_step.IH Some have r: "run_shape es c" by simp
    show ?thesis
    proof (cases "e = E_SESSION_ABANDONED")
      case True
      then show ?thesis using run_step.hyps(2) Some r by (auto simp: transition_for_def split: if_splits)
    next
      case False
      then show ?thesis using run_step.hyps(2) Some r c
        by (cases e) (auto simp: transition_for_def run_shape_def is_milestone_def milestone_order_def split: if_splits)
    qed
  qed
qed simp

section \<open>Every run of the transitions has a journal\<close>

lemma event_of_accepted:
  assumes "canonical_event_bytes (event_document c n e s t b) = Inr data" "SHA256_RE b" "SHA256_RE (previous_digest c)"
    "n \<le> MAX_JOURNAL_EVENTS"
  shows "event_of_bytes data = Some e"
proof -
  obtain ms where ms: "event_document c n e s t b = JObj ms" by (simp add: event_document_def)
  have d: "distinct (map fst ms)" using event_keys [OF ms] distinct_event_fields by simp
  obtain ms' where ms': "canon (JObj ms) = JObj ms'" by simp
  obtain bs where bs: "canonical_json (JObj ms) = Inr bs" "load_json_bytes (bs @ [10]) = Inr (canon (JObj ms))"
    using canonical_json_loaded [OF event_document_plain [OF assms(2-4), of e s t]] ms by auto
  moreover have "data = bs @ [10]" using assms(1) bs(1) ms by (simp add: canonical_event_bytes_def)
  ultimately show ?thesis using field_canon [OF ms' d, of "''event''"] event_fields(4) [OF ms] ms'
    by (simp add: event_of_bytes_def del: u_simps)
qed

lemma journal_of_run:
  assumes "capture_run es c" "length es \<le> MAX_JOURNAL_EVENTS" "valid_datetime t" "dt_microsecond t = 0" "SHA256_RE b"
  shows "\<exists>journal r. replay journal = Inr r \<and> journal_events journal = es \<and> map_option sn_state r = c \<and>
    (\<forall>sn. r = Some sn \<longrightarrow> sn_last_recorded_at sn = t)"
  using assms
proof (induction rule: capture_run.induct)
  case run_empty
  have "replay [] = Inr None" "journal_events [] = []" by (simp_all add: replay_def journal_events_def)
  then show ?case by (metis option.distinct(1) option.map_disc_iff)
next
  case (run_step es c e s)
  obtain journal r where j: "replay journal = Inr r" "journal_events journal = es" "map_option sn_state r = c"
    "\<And>sn. r = Some sn \<Longrightarrow> sn_last_recorded_at sn = t"
    using run_step.IH run_step.prems by auto
  have n: "length journal = length es" using j(2) by (auto simp: journal_events_def)
  have m: "without_microsecond t = t" using run_step.prems(3) by (cases t) (simp add: without_microsecond_def)
  have p: "SHA256_RE (previous_digest r)" "Suc (length journal) \<le> MAX_JOURNAL_EVENTS"
    using previous_digest_replay [OF j(1)] run_step.prems(1) n by simp_all
  have tr: "transition_for e (map_option sn_state r) = Inr s" using run_step.hyps(2) j(3) by simp
  obtain data where d: "canonical_event_bytes (event_document r (Suc (length journal)) e s t b) = Inr data"
    "validate_event_bytes data r (Suc (length journal)) = Inr (event_snapshot r (Suc (length journal)) e s t b data)"
    using event_bytes_accepted [OF run_step.prems(4) p run_step.prems(2) tr] j(4) m by force
  have "replay (journal @ [data]) = Inr (Some (event_snapshot r (Suc (length journal)) e s t b data))"
    by (simp add: replay_snoc j(1) d(2))
  moreover have "journal_events (journal @ [data]) = es @ [e]"
    using j(2) event_of_accepted [OF d(1) run_step.prems(4) p] by (simp add: journal_events_def)
  ultimately show ?case by (intro exI conjI) (auto simp: event_snapshot_def)
qed

definition sample_instant :: utc_datetime where "sample_instant = Utc 2026 8 2 12 30 5 0"

lemma sample_instant: "valid_datetime sample_instant" "dt_microsecond sample_instant = 0"
  by code_simp+

lemma sample_binding: "SHA256_RE (replicate 64 97)"
  by code_simp

definition sample_events :: "capture_event list" where
  "sample_events =
     [E_SESSION_STARTED, E_COLLECTION_STARTED, E_RAW_COMPLETED, E_NONCE_REQUEST_PREPARED,
      E_NONCE_ATTEMPT_STARTED, E_NONCE_PRE_SEND_FAILED, E_NONCE_ATTEMPT_STARTED,
      E_NONCE_RESPONSE_RECORDED, E_REPORTS_COMPOSED, E_BINDINGS_COMPOSED, E_RECEIPT_REQUEST_PREPARED,
      E_PRE_SEND_ATTEMPT_DISCARDED, E_RECEIPT_ATTEMPT_STARTED, E_RECEIPT_RESPONSE_RECORDED, E_RUN_FINALIZED]"

text \<open>The state a list of events leads to, and that it is the state of a run.\<close>

definition run_events :: "capture_event list \<Rightarrow> capture_state option res" where
  "run_events es = foldE (\<lambda>c e. bindE (transition_for e c) (\<lambda>s. Inr (Some s))) None es"

lemma run_events_run: "run_events es = Inr c \<Longrightarrow> capture_run es c"
proof (induction es arbitrary: c rule: rev_induct)
  case Nil
  then show ?case by (simp add: run_events_def run_empty)
next
  case (snoc e es)
  then show ?case by (auto simp: run_events_def foldE_append bindE_eq_Inr intro: run_step)
qed

lemma sample_events: "capture_run sample_events (Some S_FINALIZED)"
  by (rule run_events_run) code_simp

theorem event_written_is_accepted:
  assumes "SHA256_RE b" "SHA256_RE (previous_digest c)" "n \<le> MAX_JOURNAL_EVENTS"
    and "valid_datetime t" "transition_for e (map_option sn_state c) = Inr s"
    and "\<forall>p. c = Some p \<longrightarrow> sn_last_recorded_at p \<le> without_microsecond t"
  shows "\<exists>data. canonical_event_bytes (event_document c n e s t b) = Inr data \<and>
    validate_event_bytes data c n = Inr (event_snapshot c n e s (without_microsecond t) b data)"
  using assms by (intro event_bytes_accepted) auto

theorem event_written_is_accepted_witness:
  "\<exists>data. canonical_event_bytes (event_document None 1 E_SESSION_STARTED S_INITIALIZED sample_instant (replicate 64 97)) = Inr data \<and>
    validate_event_bytes data None 1 =
      Inr (event_snapshot None 1 E_SESSION_STARTED S_INITIALIZED (without_microsecond sample_instant) (replicate 64 97) data)"
proof -
  have "SHA256_RE (previous_digest None)" by code_simp
  moreover have "transition_for E_SESSION_STARTED (map_option sn_state None) = Inr S_INITIALIZED" by (simp add: transition_for_def)
  ultimately show ?thesis
    by (intro event_written_is_accepted) (simp_all add: sample_binding sample_instant MAX_JOURNAL_EVENTS_def)
qed

text \<open>
  C22: The hash chain commits to the whole journal: two journals that the replay accepts and
  whose last events have the same SHA-256 are the same list of event bytes, unless SHA-256
  collides on two of those events.
\<close>

theorem journal_tip_determines_journal:
  assumes "replay xs = Inr (Some s)" "replay ys = Inr (Some t)"
    and "sn_last_event_sha256 s = sn_last_event_sha256 t" "inj_on sha256_hex (set xs \<union> set ys)"
  shows "xs = ys"
  using assms by (rule tip_determines_journal)

theorem journal_tip_determines_journal_witness:
  "\<exists>xs s. replay xs = Inr (Some s) \<and> length xs = 1 \<and> (\<forall>ys t. replay ys = Inr (Some t) \<and> set ys \<subseteq> set xs \<and>
     sn_last_event_sha256 t = sn_last_event_sha256 s \<longrightarrow> ys = xs)"
proof -
  have "capture_run [E_SESSION_STARTED] (Some S_INITIALIZED)" by (rule run_events_run) code_simp
  moreover have "length [E_SESSION_STARTED] \<le> MAX_JOURNAL_EVENTS" by code_simp
  ultimately obtain xs r where r: "replay xs = Inr r" "journal_events xs = [E_SESSION_STARTED]" "map_option sn_state r = Some S_INITIALIZED"
    using journal_of_run [OF _ _ sample_instant sample_binding, of "[E_SESSION_STARTED]" "Some S_INITIALIZED"] by blast
  then obtain s where x: "replay xs = Inr (Some s)" "journal_events xs = [E_SESSION_STARTED]" by auto
  then obtain d where d: "xs = [d]" by (auto simp: journal_events_def)
  have "ys = xs" if y: "replay ys = Inr (Some t)" "set ys \<subseteq> set xs" "sn_last_event_sha256 t = sn_last_event_sha256 s" for ys t
  proof (rule journal_tip_determines_journal [OF y(1) x(1) y(3)])
    have "set ys \<union> set xs = {d}" using y(2) d by auto
    then show "inj_on sha256_hex (set ys \<union> set xs)" by simp
  qed
  moreover have "length xs = 1" using d by simp
  ultimately show ?thesis using x(1) by blast
qed

text \<open>
  C24: The journal implements the transition table: a sequence of at most 1024 events is the
  content of a journal that the replay accepts, ending in a given state, if and only if it is a
  run of the fixed transitions from no state to that state.
\<close>

theorem journal_realizes_runs:
  assumes "length es \<le> MAX_JOURNAL_EVENTS"
  shows "(\<exists>journal r. replay journal = Inr r \<and> journal_events journal = es \<and> map_option sn_state r = c) \<longleftrightarrow> capture_run es c"
  using journal_of_run [OF _ assms sample_instant sample_binding] replay_run by blast

theorem journal_realizes_runs_witness:
  "\<exists>journal sn. replay journal = Inr (Some sn) \<and> journal_events journal = sample_events \<and> sn_state sn = S_FINALIZED"
proof -
  have "length sample_events \<le> MAX_JOURNAL_EVENTS" by code_simp
  then show ?thesis using journal_realizes_runs [of sample_events "Some S_FINALIZED"] sample_events by auto
qed

text \<open>
  C25: A finalized journal went through the whole protocol in order, each of the ten steps from
  session start to finalization exactly once, and apart from attempts that failed before sending
  it has exactly one nonce attempt and exactly one receipt attempt.
\<close>

theorem finalized_journal_protocol:
  assumes "replay journal = Inr (Some sn)" "sn_state sn = S_FINALIZED"
  shows "filter is_milestone (journal_events journal) = milestone_order \<and>
    count_list (journal_events journal) E_NONCE_ATTEMPT_STARTED = count_list (journal_events journal) E_NONCE_PRE_SEND_FAILED + 1 \<and>
    count_list (journal_events journal) E_RECEIPT_ATTEMPT_STARTED = count_list (journal_events journal) E_RECEIPT_PRE_SEND_FAILED + 1"
  using capture_run_shape [OF replay_run [OF assms(1)]] assms(2) by (simp add: run_shape_def)

theorem finalized_journal_protocol_witness:
  "\<exists>journal. journal_events journal = sample_events \<and> filter is_milestone (journal_events journal) = milestone_order"
proof -
  have "length sample_events \<le> MAX_JOURNAL_EVENTS" by code_simp
  then obtain journal r where j: "replay journal = Inr r" "journal_events journal = sample_events" "map_option sn_state r = Some S_FINALIZED"
    using journal_of_run [OF sample_events _ sample_instant sample_binding] by blast
  then obtain sn where "replay journal = Inr (Some sn)" "sn_state sn = S_FINALIZED" by auto
  from finalized_journal_protocol [OF this] j(2) show ?thesis by auto
qed

end
