(* ===== verification/Capture_Observation.thy ===== *)
theory Capture_Observation
  imports Capture_Archive Capture_Journal
begin

text \<open>
  Observation manifests, \<open>scripts/physical_capture/observation.py\<close>: the parsing of manifests and
  artifact entries, the comparison of the archived bytes with them, and publishing and reopening the
  manifest in the archive. The commands of producers (\<open>ObservationCommand\<close>, \<open>run_command\<close>) start
  processes and are not modelled.
\<close>

definition OBSERVATION_MANIFEST_RELATIVE :: ustr where "OBSERVATION_MANIFEST_RELATIVE = u ''raw/observation-manifest.json''"
definition OBSERVATION_MANIFEST_DOCUMENT :: string where "OBSERVATION_MANIFEST_DOCUMENT = ''cfw-physical-observation-manifest-v1''"
definition OBSERVATION_MANIFEST_SCHEMA_VERSION :: int where "OBSERVATION_MANIFEST_SCHEMA_VERSION = 1"
definition MAX_OBSERVATIONS :: nat where "MAX_OBSERVATIONS = 512"
definition MAX_MANIFEST_BYTES :: nat where "MAX_MANIFEST_BYTES = 1024 * 1024"

definition OBSERVATION_HARNESSES :: "string list" where
  "OBSERVATION_HARNESSES = [''adversarial'', ''lifecycle'', ''packet'', ''performance'']"

definition observation_directory :: "string \<Rightarrow> ustr" where
  "observation_directory harness = u (''raw/'' @ harness @ ''/observations'')"

definition OBSERVATION_DIRECTORIES :: "ustr list" where
  "OBSERVATION_DIRECTORIES = map observation_directory OBSERVATION_HARNESSES"

definition MANIFEST_FIELDS :: "string list" where
  "MANIFEST_FIELDS = [''schema_version'', ''document'', ''observation_count'', ''observations'']"

definition ENTRY_FIELDS :: "string list" where "ENTRY_FIELDS = [''subject'', ''descriptor'']"

text \<open>\<open>^[a-z0-9][a-z0-9._:-]{0,127}$\<close> under \<open>fullmatch\<close>.\<close>

definition SUBJECT_RE :: "ustr \<Rightarrow> bool" where
  "SUBJECT_RE s =
     (case s of [] \<Rightarrow> False
      | c # cs \<Rightarrow> (is_dig c \<or> is_lower_code c) \<and> length cs \<le> 127 \<and>
          list_all (\<lambda>d. is_dig d \<or> is_lower_code d \<or> d \<in> {46, 95, 58, 45}) cs)"

record observation_artifact =
  ob_subject :: ustr
  ob_descriptor :: artifact_descriptor

record observation_manifest =
  om_record :: archived_file
  om_observations :: "observation_artifact list"

definition as_entry :: "observation_artifact \<Rightarrow> json" where
  "as_entry o' = JObj [(u ''subject'', JStr (ob_subject o')), (u ''descriptor'', descriptor_as_dict (ob_descriptor o'))]"

definition maximum_for_kind :: "ustr \<Rightarrow> nat option \<Rightarrow> nat res" where
  "maximum_for_kind kind maximum =
     (case artifact_kind kind of
        None \<Rightarrow> Inl (ObservationError ''invalid_observation_kind''
                  ''observation kind is not part of the source-pinned artifact contract'')
      | Some (_, bound) \<Rightarrow>
          let selected = (case maximum of None \<Rightarrow> bound | Some m \<Rightarrow> m) in
          if selected < 1 \<or> selected > bound then
            Inl (ObservationError ''invalid_observation_bound''
              ''observation byte bound exceeds its source-pinned artifact kind'')
          else Inr selected)"

definition observation_subject :: "json \<Rightarrow> ustr res" where
  "observation_subject value =
     (case value of
        JStr s \<Rightarrow>
          if \<not> SUBJECT_RE s then Inl (ObservationError ''invalid_observation_subject'' ''{} is not a bounded canonical subject'')
          else Inr s
      | _ \<Rightarrow> Inl (ObservationError ''invalid_observation_subject'' ''{} is not a bounded canonical subject''))"

definition validate_observation_path :: "ustr \<Rightarrow> unit res" where
  "validate_observation_path path =
     (let parts = path_parts path in
      if length parts \<noteq> 4 \<or> parts ! 0 \<noteq> u ''raw'' \<or> parts ! 1 \<notin> set (map u OBSERVATION_HARNESSES)
         \<or> parts ! 2 \<noteq> u ''observations'' then
        Inl (ObservationError ''invalid_observation_path'' ''{} is outside the fixed observation namespaces'')
      else Inr ())"

definition parse_artifact :: "json \<Rightarrow> json \<Rightarrow> observation_artifact res" where
  "parse_artifact subject descriptor =
     bindE (observation_subject subject) (\<lambda>normalized_subject.
     case parse_descriptor descriptor (map (\<lambda>k. u (fst k)) ARTIFACT_KINDS) of
       Inl _ \<Rightarrow> Inl (ObservationError ''invalid_observation_descriptor'' ''{} has an invalid typed artifact descriptor'')
     | Inr parsed \<Rightarrow>
         bindE (validate_observation_path (ad_path parsed)) (\<lambda>_.
         Inr \<lparr>ob_subject = normalized_subject, ob_descriptor = parsed\<rparr>))"

definition validate_declared_artifact :: "ustr \<Rightarrow> ustr \<Rightarrow> ustr \<Rightarrow> unit res" where
  "validate_declared_artifact subject kind relative =
     bindE (parse_artifact (JStr subject)
       (JObj [(u ''kind'', JStr kind), (u ''path'', JStr relative), (u ''size'', JInt 1), (u ''sha256'', JStr ZERO_SHA256)])) (\<lambda>_.
     Inr ())"

definition observation_key :: "observation_artifact \<Rightarrow> ustr \<times> ustr" where
  "observation_key o' = (ob_subject o', ad_path (ob_descriptor o'))"

definition require_unique_sorted :: "observation_artifact list \<Rightarrow> observation_artifact list res" where
  "require_unique_sorted observations =
     (if \<not> (1 \<le> length observations \<and> length observations \<le> MAX_OBSERVATIONS) then
        Inl (ObservationError ''invalid_observation_count'' ''observation manifest must contain 1..{} entries'')
      else if observations \<noteq> sort_key observation_key observations then
        Inl (ObservationError ''noncanonical_observation_order''
          ''observation manifest entries are not in canonical subject/path order'')
      else if \<not> distinct (map ob_subject observations)
         \<or> \<not> distinct (map (\<lambda>o'. ad_path (ob_descriptor o')) observations)
         \<or> \<not> distinct (map (\<lambda>o'. ad_sha256 (ob_descriptor o')) observations) then
        Inl (ObservationError ''duplicate_observation_binding''
          ''observation subjects, paths, and digests must each be unique'')
      else Inr observations)"

definition mapping_observations :: "members \<Rightarrow> observation_artifact list res" where
  "mapping_observations ms =
     (if \<not> (1 \<le> length ms \<and> length ms \<le> MAX_OBSERVATIONS) then
        Inl (ObservationError ''invalid_observation_count'' ''observation manifest must contain 1..{} entries'')
      else bindE (mapE (\<lambda>(subject, descriptor). parse_artifact (JStr subject) descriptor) ms) (\<lambda>parsed.
      require_unique_sorted (sort_key observation_key parsed)))"

definition manifest_document :: "observation_artifact list \<Rightarrow> json" where
  "manifest_document observations =
     JObj [(u ''schema_version'', JInt OBSERVATION_MANIFEST_SCHEMA_VERSION),
       (u ''document'', JStr (u OBSERVATION_MANIFEST_DOCUMENT)),
       (u ''observation_count'', JInt (int (length observations))),
       (u ''observations'', JArr (map as_entry observations))]"

definition parse_entry :: "json \<Rightarrow> observation_artifact res" where
  "parse_entry value_entry =
     (case exact_object value_entry ENTRY_FIELDS of
        Inl _ \<Rightarrow> Inl (ObservationError ''invalid_observation_manifest'' ''observation manifest entry has an unexpected field set'')
      | Inr entry \<Rightarrow> parse_artifact (field entry ''subject'') (field entry ''descriptor''))"

definition parse_manifest :: "json \<Rightarrow> observation_artifact list res" where
  "parse_manifest value =
     (case exact_object value MANIFEST_FIELDS of
        Inl _ \<Rightarrow> Inl (ObservationError ''invalid_observation_manifest'' ''observation manifest has an unexpected field set'')
      | Inr raw \<Rightarrow>
          if field raw ''schema_version'' \<noteq> JInt OBSERVATION_MANIFEST_SCHEMA_VERSION
             \<or> field raw ''document'' \<noteq> JStr (u OBSERVATION_MANIFEST_DOCUMENT) then
            Inl (ObservationError ''invalid_observation_manifest''
              ''observation manifest schema or document identifier is unsupported'')
          else case field raw ''observations'' of
            JArr values \<Rightarrow>
              if \<not> (1 \<le> length values \<and> length values \<le> MAX_OBSERVATIONS) then
                Inl (ObservationError ''invalid_observation_count'' ''observation manifest must contain 1..{} entries'')
              else bindE (mapE parse_entry values) (\<lambda>parsed.
              bindE (require_unique_sorted parsed) (\<lambda>observations.
              if field raw ''observation_count'' \<noteq> JInt (int (length observations)) then
                Inl (ObservationError ''invalid_observation_count''
                  ''observation manifest count differs from its exact entry set'')
              else Inr observations))
          | _ \<Rightarrow> Inl (ObservationError ''invalid_observation_manifest''
              ''observation manifest observations must be an array''))"

definition canonical_manifest_bytes :: "observation_artifact list \<Rightarrow> bytes res" where
  "canonical_manifest_bytes observations =
     (case canonical_json (manifest_document observations) of
        Inl _ \<Rightarrow> Inl (ObservationError ''observation_manifest_encoding_failed''
                  ''observation manifest cannot be canonically encoded'')
      | Inr bs \<Rightarrow>
          if length (bs @ [10]) > MAX_MANIFEST_BYTES then
            Inl (ObservationError ''observation_manifest_too_large'' ''observation manifest exceeds its fixed byte bound'')
          else Inr (bs @ [10]))"

section \<open>The archived observations\<close>

text \<open>\<open>except PhysicalCaptureArchiveError\<close>, with the code of the error.\<close>

definition except_archive :: "('w, 'a) st \<Rightarrow> (string \<Rightarrow> ('w, 'a) st) \<Rightarrow> ('w, 'a) st" where
  "except_archive m h = catchS m (\<lambda>e. case e of ArchiveError code _ \<Rightarrow> h code | _ \<Rightarrow> raiseS e)"

definition expected_names :: "observation_artifact list \<Rightarrow> string \<Rightarrow> ustr list" where
  "expected_names observations harness =
     sort (remdups (map (\<lambda>o'. path_parts (ad_path (ob_descriptor o')) ! 3)
       (filter (\<lambda>o'. path_parts (ad_path (ob_descriptor o')) ! 1 = u harness) observations)))"

definition verify_observation_file :: "observation_artifact \<Rightarrow> ('z archive_world_scheme, unit) st" where
  "verify_observation_file o' =
     (let d = ob_descriptor o' in
      bindS (describe_file (ad_path d) (nat (ad_size d))) (\<lambda>observed.
      if observed \<noteq> \<lparr>af_relative_path = ad_path d, af_size = nat (ad_size d), af_sha256 = ad_sha256 d\<rparr> then
        raiseS (ObservationError ''observation_bytes_drifted'' ''observation bytes drifted for subject {}'')
      else returnS ()))"

definition verify_namespace :: "observation_artifact list \<Rightarrow> string \<Rightarrow> ('z archive_world_scheme, unit) st" where
  "verify_namespace observations harness =
     bindS (list_names (observation_directory harness)) (\<lambda>observed_names.
     if observed_names \<noteq> expected_names observations harness then
       raiseS (ObservationError ''observation_namespace_drifted'' ''{} observation namespace differs from the manifest'')
     else returnS ())"

definition verify_observation_files :: "observation_artifact list \<Rightarrow> ('z archive_world_scheme, unit) st" where
  "verify_observation_files observations =
     except_archive
       (thenS (mapS verify_observation_file observations)
       (thenS (mapS (verify_namespace observations) OBSERVATION_HARNESSES) (returnS ())))
       (\<lambda>_. raiseS (ObservationError ''observation_archive_unreadable''
          ''manifest-bound observation bytes cannot be securely reopened''))"

definition load_observation_manifest :: "ustr option \<Rightarrow> ('z archive_world_scheme, observation_manifest) st" where
  "load_observation_manifest expected_root_sha256 =
     bindS (except_archive (read_bytes OBSERVATION_MANIFEST_RELATIVE MAX_MANIFEST_BYTES) (\<lambda>_.
       raiseS (ObservationError ''observation_manifest_unreadable'' ''observation manifest cannot be securely reopened''))) (\<lambda>data.
     let root_sha = u (sha256_hex data) in
     if (case expected_root_sha256 of None \<Rightarrow> False | Some expected \<Rightarrow> root_sha \<noteq> expected) then
       raiseS (ObservationError ''observation_manifest_root_mismatch''
         ''observation manifest digest differs from the RAW_COMPLETED binding'')
     else case load_json_bytes data of
       Inl _ \<Rightarrow> raiseS (ObservationError ''invalid_observation_manifest'' ''observation manifest is not strict JSON'')
     | Inr value \<Rightarrow>
         bindS (liftS (parse_manifest value)) (\<lambda>observations.
         bindS (liftS (canonical_manifest_bytes observations)) (\<lambda>canonical.
         if canonical \<noteq> data then
           raiseS (ObservationError ''noncanonical_observation_manifest'' ''observation manifest bytes are not canonical'')
         else thenS (verify_observation_files observations)
           (returnS \<lparr>om_record = archived OBSERVATION_MANIFEST_RELATIVE data, om_observations = observations\<rparr>))))"

definition publish_observation_manifest :: "members \<Rightarrow> ('z archive_world_scheme, observation_manifest) st" where
  "publish_observation_manifest ms =
     bindS (liftS (mapping_observations ms)) (\<lambda>normalized.
     thenS (except_archive (thenS (mapS ensure_directory OBSERVATION_DIRECTORIES) (returnS ())) (\<lambda>_.
       raiseS (ObservationError ''observation_namespace_unavailable''
         ''fixed observation namespaces cannot be securely initialized'')))
     (thenS (verify_observation_files normalized)
     (bindS (liftS (canonical_manifest_bytes normalized)) (\<lambda>data.
     bindS (except_archive (write_or_reopen_exact OBSERVATION_MANIFEST_RELATIVE data MAX_MANIFEST_BYTES) (\<lambda>_.
       raiseS (ObservationError ''observation_manifest_archive_failed''
         ''observation manifest could not be durably published or reopened''))) (\<lambda>f.
     bindS (except_archive (pending_files (u ''raw'')) (\<lambda>_.
       raiseS (ObservationError ''observation_manifest_unreadable'' ''observation manifest namespace cannot be inspected''))) (\<lambda>pending.
     if pending \<noteq> [] then
       raiseS (ObservationError ''observation_manifest_pending'' ''observation manifest publication left pending raw bytes'')
     else bindS (load_observation_manifest (Some (af_sha256 f))) (\<lambda>reopened.
     if om_record reopened \<noteq> f \<or> om_observations reopened \<noteq> normalized then
       raiseS (ObservationError ''observation_manifest_drifted'' ''reopened observation manifest differs from its published bytes'')
     else returnS reopened)))))))"

end
