(* ===== verification/Capture_Session.thy ===== *)
theory Capture_Session
  imports Capture_Observation
begin

text \<open>
  \<open>PhysicalCaptureSession\<close> of \<open>scripts/physical_capture/session.py\<close>: the locked journal in its archive,
  appending and replaying events, recovery of interrupted appends with resolution intents, and the
  quarantine of sessions that never recorded their first event. The world of the archive is extended
  by the fields of the session object and the readings of the system clock.
\<close>

section \<open>Names\<close>

definition JOURNAL_DIRECTORY :: ustr where "JOURNAL_DIRECTORY = u ''journal''"
definition LOCK_FILE :: ustr where "LOCK_FILE = u ''session.lock''"
definition RECOVERY_DIRECTORY :: ustr where "RECOVERY_DIRECTORY = u ''recovery''"
definition UNINITIALIZED_TOMBSTONE_RELATIVE :: ustr where
  "UNINITIALIZED_TOMBSTONE_RELATIVE = u ''recovery/uninitialized-session.json''"
definition UNINITIALIZED_TOMBSTONE_DOCUMENT :: string where
  "UNINITIALIZED_TOMBSTONE_DOCUMENT = ''cfw-physical-uninitialized-session-quarantine-v1''"
definition JOURNAL_RESOLUTION_DOCUMENT :: string where
  "JOURNAL_RESOLUTION_DOCUMENT = ''cfw-physical-journal-resolution-v2''"
definition JOURNAL_RESOLUTION_SCHEMA_VERSION :: int where "JOURNAL_RESOLUTION_SCHEMA_VERSION = 2"
definition MAX_RECOVERY_BYTES :: nat where "MAX_RECOVERY_BYTES = 64 * 1024"

definition event_name :: "nat \<Rightarrow> ustr" where
  "event_name n = u (fmt_dec 8 n @ ''.json'')"

definition event_relative :: "nat \<Rightarrow> ustr" where
  "event_relative n = JOURNAL_DIRECTORY @ [47] @ event_name n"

text \<open>The regular expressions for the names in the journal and recovery directories, under \<open>fullmatch\<close>.\<close>

definition EVENT_FILE_RE :: "ustr \<Rightarrow> nat option" where
  "EVENT_FILE_RE name = (if matches_digits ''########.json'' name then Some (text_value (take 8 name)) else None)"

definition PENDING_EVENT_FILE_RE :: "ustr \<Rightarrow> bool" where
  "PENDING_EVENT_FILE_RE name =
     (length name = 55 \<and> matches_digits ''.########.json.pending-'' (take 23 name) \<and> list_all is_lower_hex (drop 23 name))"

definition JOURNAL_RESOLUTION_FILE_RE :: "ustr \<Rightarrow> nat option" where
  "JOURNAL_RESOLUTION_FILE_RE name =
     (if matches_digits ''journal-########.json'' name then Some (text_value (py_slice name 8 16)) else None)"

definition resolution_intent_relative :: "nat \<Rightarrow> ustr" where
  "resolution_intent_relative sequence = RECOVERY_DIRECTORY @ u (''/journal-'' @ fmt_dec 8 sequence @ ''.json'')"

section \<open>The session object\<close>

record session_world = archive_world +
  ss_snapshot :: "session_snapshot option"
  ss_locked :: bool
  ss_clock :: "utc_datetime list"

definition now :: "('z session_world_scheme, utc_datetime) st" where
  "now = (\<lambda>w. case ss_clock w of
      [] \<Rightarrow> (Inr (Utc 1970 1 1 0 0 0 0), w)
    | t # ts \<Rightarrow> (Inr t, w\<lparr>ss_clock := ts\<rparr>))"

definition attemptS :: "('w, 'a) st \<Rightarrow> ('w, exn + 'a) st" where
  "attemptS m = catchS (bindS m (\<lambda>x. returnS (Inr x))) (\<lambda>e. returnS (Inl e))"

definition finallyS :: "('w, 'a) st \<Rightarrow> ('w, unit) st \<Rightarrow> ('w, 'a) st" where
  "finallyS m c = bindS (on_errorS m c) (\<lambda>x. thenS c (returnS x))"

definition session_error :: "string \<Rightarrow> string \<Rightarrow> ('w, 'a) st" where
  "session_error code message = raiseS (SessionError code message)"

definition acquire_lock :: "path \<Rightarrow> ('z session_world_scheme, unit) st" where
  "acquire_lock descriptor =
     except_os (syscall (\<lambda>_. returnS ())) (\<lambda>code.
       if code = ''EAGAIN'' then session_error ''session_locked'' ''physical capture session is already locked''
       else session_error ''session_lock_failed'' ''cannot acquire physical capture session lock'')"

definition new_session :: "('z session_world_scheme, unit) st" where
  "new_session = modifyS (\<lambda>w. w\<lparr>ss_snapshot := None, ss_locked := True\<rparr>)"

definition session_close :: "('z session_world_scheme, unit) st" where
  "session_close = thenS (modifyS (\<lambda>w. w\<lparr>ss_locked := False\<rparr>)) archive_close"

definition session_require_open :: "('z session_world_scheme, unit) st" where
  "session_require_open =
     bindS (getS ss_locked) (\<lambda>locked.
     if \<not> locked then session_error ''session_closed'' ''physical capture session is closed'' else returnS ())"

section \<open>Replaying the journal\<close>

definition journal_names :: "ustr list \<Rightarrow> (nat \<times> ustr) list res" where
  "journal_names names =
     foldE (\<lambda>finals name.
       case EVENT_FILE_RE name of
         Some sequence \<Rightarrow> Inr (finals @ [(sequence, name)])
       | None \<Rightarrow>
           if PENDING_EVENT_FILE_RE name then Inr finals
           else Inl (SessionError ''unexpected_journal_entry'' ''physical capture journal contains unexpected entry {}''))
       [] names"

definition replay_step :: "session_snapshot option \<Rightarrow> nat \<times> nat \<times> ustr \<Rightarrow> ('z session_world_scheme, session_snapshot option) st" where
  "replay_step snapshot item =
     (case item of (expected, sequence, name) \<Rightarrow>
      if sequence \<noteq> expected then
        session_error ''journal_sequence_gap'' ''physical capture journal sequence is not contiguous''
      else bindS (read_bytes (JOURNAL_DIRECTORY @ [47] @ name) MAX_EVENT_BYTES) (\<lambda>data.
      bindS (liftS (validate_event_bytes data snapshot expected)) (\<lambda>s. returnS (Some s))))"

definition replay_final_events :: "bool \<Rightarrow> ('z session_world_scheme, session_snapshot option) st" where
  "replay_final_events allow_empty =
     thenS session_require_open
     (bindS (list_names JOURNAL_DIRECTORY) (\<lambda>names.
     bindS (liftS (journal_names names)) (\<lambda>final_names.
     if final_names = [] then
       if allow_empty then returnS None
       else session_error ''empty_journal'' ''physical capture journal contains no committed event''
     else foldS replay_step None (zip [1..<Suc (length final_names)] (sort final_names)))))"

definition session_snapshot_of :: "('z session_world_scheme, session_snapshot) st" where
  "session_snapshot_of =
     thenS session_require_open
     (bindS (getS ss_snapshot) (\<lambda>s.
     case s of
       Some snapshot \<Rightarrow> returnS snapshot
     | None \<Rightarrow> bindS (replay_final_events False) (\<lambda>r.
         thenS (modifyS (\<lambda>w. w\<lparr>ss_snapshot := r\<rparr>))
         (case r of Some snapshot \<Rightarrow> returnS snapshot | None \<Rightarrow> raiseS (TypeError ''no snapshot'')))))"

definition activate_frozen_observations ::
  "session_snapshot option \<Rightarrow> ('z session_world_scheme, observation_manifest option) st" where
  "activate_frozen_observations snapshot =
     (case snapshot of
        None \<Rightarrow> returnS None
      | Some s \<Rightarrow>
          (case sn_observation_manifest_sha256 s of
             None \<Rightarrow> returnS None
           | Some root_sha \<Rightarrow>
               catchS
                 (bindS (load_observation_manifest (Some root_sha)) (\<lambda>manifest.
                 thenS (seal_prefixes OBSERVATION_DIRECTORIES) (returnS (Some manifest))))
                 (\<lambda>e. case e of
                    ArchiveError _ _ \<Rightarrow> session_error ''observation_manifest_invalid''
                      ''RAW_COMPLETED observation manifest or bound bytes are unavailable''
                  | ObservationError _ _ \<Rightarrow> session_error ''observation_manifest_invalid''
                      ''RAW_COMPLETED observation manifest or bound bytes are unavailable''
                  | _ \<Rightarrow> raiseS e)))"

section \<open>Appending\<close>

definition current_snapshot :: "capture_event \<Rightarrow> ('z session_world_scheme, session_snapshot option) st" where
  "current_snapshot event =
     bindS (getS ss_snapshot) (\<lambda>s.
     case s of
       Some snapshot \<Rightarrow> returnS (Some snapshot)
     | None \<Rightarrow> catchS (replay_final_events True) (\<lambda>e.
         case e of
           SessionError _ _ \<Rightarrow> if event \<noteq> E_SESSION_STARTED then raiseS e else returnS None
         | _ \<Rightarrow> raiseS e))"

definition next_sequence :: "session_snapshot option \<Rightarrow> nat" where
  "next_sequence current = (case current of None \<Rightarrow> 1 | Some s \<Rightarrow> sn_sequence s + 1)"

definition append_locked :: "capture_event \<Rightarrow> ustr \<Rightarrow> ('z session_world_scheme, session_snapshot) st" where
  "append_locked event binding_sha256 =
     bindS (current_snapshot event) (\<lambda>current.
     thenS (activate_frozen_observations current)
     (bindS (liftS (transition_for event (map_option sn_state current))) (\<lambda>next_state.
     let sequence = next_sequence current in
     if sequence > MAX_JOURNAL_EVENTS then
       session_error ''journal_capacity_exceeded'' ''physical capture journal exceeds {} events''
     else bindS now (\<lambda>t.
     let recorded_at = without_microsecond t in
     if (case current of None \<Rightarrow> False | Some s \<Rightarrow> recorded_at < sn_last_recorded_at s) then
       session_error ''clock_rollback'' ''system UTC clock moved backwards during collection''
     else bindS (liftS (canonical_event_bytes
         (event_document current sequence event next_state recorded_at binding_sha256))) (\<lambda>data.
     bindS (write_bytes (event_relative sequence) data MAX_EVENT_BYTES) (\<lambda>f.
     if af_sha256 f \<noteq> u (sha256_hex data) \<or> af_size f \<noteq> length data then
       session_error ''journal_publish_mismatch'' ''published journal event differs from memory''
     else
       let snapshot = event_snapshot current sequence event next_state recorded_at binding_sha256 data in
       thenS (modifyS (\<lambda>w. w\<lparr>ss_snapshot := Some snapshot\<rparr>))
       (thenS (activate_frozen_observations (Some snapshot))
       (returnS snapshot))))))))"

definition session_append :: "capture_event \<Rightarrow> ustr \<Rightarrow> ('z session_world_scheme, session_snapshot) st" where
  "session_append event binding_sha256 =
     thenS session_require_open
     (if event = E_RAW_COMPLETED then
        session_error ''raw_completion_requires_manifest''
          ''RAW_COMPLETED requires complete_observations with an exact manifest''
      else bindS (liftS (session_require_sha256 (JStr binding_sha256))) (\<lambda>binding. append_locked event binding))"

definition session_abandon :: "ustr \<Rightarrow> ('z session_world_scheme, session_snapshot) st" where
  "session_abandon binding_sha256 = session_append E_SESSION_ABANDONED binding_sha256"

definition RECOVERY_DOMAIN :: "string \<Rightarrow> bytes" where
  "RECOVERY_DOMAIN role = encode_ascii ''cfw-physical-capture-restart-recovery-v1'' @ [0] @ encode_ascii role"

definition resolve_interrupted_attempt :: "('z session_world_scheme, session_snapshot) st" where
  "resolve_interrupted_attempt =
     bindS session_snapshot_of (\<lambda>s.
     if sn_state s = S_NONCE_ATTEMPTED then
       session_append E_NONCE_OUTCOME_UNKNOWN (u (sha256_hex (RECOVERY_DOMAIN ''nonce'')))
     else if sn_state s = S_RECEIPT_ATTEMPTED then
       session_append E_RECEIPT_OUTCOME_UNKNOWN (u (sha256_hex (RECOVERY_DOMAIN ''receipt'')))
     else session_error ''no_interrupted_attempt''
       ''session is not awaiting resolution of an interrupted network attempt'')"

section \<open>Observations\<close>

definition require_collection_open :: "('z session_world_scheme, unit) st" where
  "require_collection_open =
     bindS session_snapshot_of (\<lambda>s.
     if sn_state s \<noteq> S_COLLECTING then
       session_error ''observation_phase_closed'' ''physical observations may run only before RAW_COMPLETED''
     else returnS ())"

definition complete_observations :: "members \<Rightarrow> ('z session_world_scheme, observation_manifest) st" where
  "complete_observations observations =
     thenS require_collection_open
     (bindS (catchS
         (bindS (publish_observation_manifest observations) (\<lambda>manifest.
         thenS (seal_prefixes OBSERVATION_DIRECTORIES) (returnS manifest)))
         (\<lambda>e. case e of
            ArchiveError _ _ \<Rightarrow> session_error ''observation_manifest_invalid''
              ''physical observations cannot be finalized into one immutable manifest''
          | ObservationError _ _ \<Rightarrow> session_error ''observation_manifest_invalid''
              ''physical observations cannot be finalized into one immutable manifest''
          | _ \<Rightarrow> raiseS e)) (\<lambda>manifest.
     bindS (append_locked E_RAW_COMPLETED (af_sha256 (om_record manifest))) (\<lambda>snapshot.
     if sn_observation_manifest_sha256 snapshot \<noteq> Some (af_sha256 (om_record manifest)) then
       session_error ''observation_manifest_binding_mismatch''
         ''RAW_COMPLETED did not retain the exact observation manifest root''
     else returnS manifest)))"

definition session_load_observation_manifest :: "('z session_world_scheme, observation_manifest) st" where
  "session_load_observation_manifest =
     bindS session_snapshot_of (\<lambda>s.
     if sn_observation_manifest_sha256 s = None then
       session_error ''observation_manifest_unavailable'' ''physical observations have not reached RAW_COMPLETED''
     else bindS (activate_frozen_observations (Some s)) (\<lambda>manifest.
     case manifest of
       None \<Rightarrow> session_error ''observation_manifest_unavailable'' ''physical observations have not reached RAW_COMPLETED''
     | Some m \<Rightarrow> returnS m))"

text \<open>\<open>ObservationCapture.write_bytes\<close>.\<close>

definition capture_write_bytes ::
  "ustr \<Rightarrow> ustr \<Rightarrow> ustr \<Rightarrow> bytes \<Rightarrow> nat option \<Rightarrow> ('z session_world_scheme, observation_artifact) st" where
  "capture_write_bytes subject kind relative data maximum =
     thenS (liftS (validate_declared_artifact subject kind relative))
     (bindS (liftS (maximum_for_kind kind maximum)) (\<lambda>bound.
     thenS require_collection_open
     (bindS (except_archive (write_bytes relative data bound) (\<lambda>_.
       raiseS (ObservationError ''observation_archive_failed''
         ''proof-free observation bytes could not be exclusively archived''))) (\<lambda>f.
     thenS require_collection_open
     (bindS (liftS (archived_descriptor f kind)) (\<lambda>descriptor.
     liftS (parse_artifact (JStr subject) descriptor)))))))"

end
