(* ===== verification/Capture_Recovery.thy ===== *)
theory Capture_Recovery
  imports Capture_Session
begin

text \<open>
  The rest of \<open>PhysicalCaptureSession\<close> (\<open>scripts/physical_capture/session.py\<close>): resolution intents, which
  make the resolution of an interrupted append idempotent, the recovery of one pending event, the
  quarantine of a session without a first event, and the class methods \<open>create\<close>, \<open>open\<close> and \<open>recover\<close>.
\<close>

section \<open>Resolution intents\<close>

definition ACTION_PRE_SEND :: string where "ACTION_PRE_SEND = ''pre-send-attempt-not-published''"
definition ACTION_AFTER_ATTEMPT :: string where "ACTION_AFTER_ATTEMPT = ''partial-event-after-attempt''"
definition ACTION_ABANDONED :: string where "ACTION_ABANDONED = ''partial-event-abandoned''"

definition resolution_intent_document ::
  "ustr \<Rightarrow> pending_file \<Rightarrow> session_snapshot \<Rightarrow> bytes \<Rightarrow> capture_event \<Rightarrow> string \<Rightarrow> json" where
  "resolution_intent_document archive_root pending snapshot observed event action =
     JObj [(u ''schema_version'', JInt JOURNAL_RESOLUTION_SCHEMA_VERSION),
       (u ''document'', JStr (u JOURNAL_RESOLUTION_DOCUMENT)),
       (u ''archive_root'', JStr archive_root),
       (u ''sequence'', JInt (int (sn_sequence snapshot + 1))),
       (u ''from_state'', JStr (u (state_value (sn_state snapshot)))),
       (u ''previous_event_sha256'', JStr (sn_last_event_sha256 snapshot)),
       (u ''pending_relative_path'', JStr (pf_relative_path pending)),
       (u ''pending_final_relative_path'', JStr (pf_final_relative_path pending)),
       (u ''pending_size'', JInt (int (length observed))),
       (u ''pending_sha256'', JStr (u (sha256_hex observed))),
       (u ''action'', JStr (u action)),
       (u ''resolution_event'', JStr (u (event_value event)))]"

definition resolution_intent_bytes ::
  "ustr \<Rightarrow> pending_file \<Rightarrow> session_snapshot \<Rightarrow> bytes \<Rightarrow> capture_event \<Rightarrow> string \<Rightarrow> bytes res" where
  "resolution_intent_bytes archive_root pending snapshot observed event action =
     (case canonical_json (resolution_intent_document archive_root pending snapshot observed event action) of
        Inl _ \<Rightarrow> Inl (SessionError ''journal_resolution_intent_invalid'' ''journal resolution intent cannot be encoded'')
      | Inr bs \<Rightarrow> Inr (bs @ [10]))"

definition RESOLUTION_FIELDS :: "string list" where
  "RESOLUTION_FIELDS =
     [''schema_version'', ''document'', ''archive_root'', ''sequence'', ''from_state'', ''previous_event_sha256'',
      ''pending_relative_path'', ''pending_final_relative_path'', ''pending_size'', ''pending_sha256'', ''action'',
      ''resolution_event'']"

definition intent_identity_error :: exn where
  "intent_identity_error =
     SessionError ''journal_resolution_intent_invalid'' ''journal resolution intent identity is invalid''"

text \<open>The pattern of the pending path of an intent for a sequence number.\<close>

definition pending_path_matches :: "nat \<Rightarrow> ustr \<Rightarrow> bool" where
  "pending_path_matches sequence path =
     (let stem = JOURNAL_DIRECTORY @ u (''/.'' @ fmt_dec 8 sequence @ ''.json.pending-'') in
      starts_with path stem \<and> length path = length stem + 32 \<and> list_all is_lower_hex (drop (length stem) path))"

text \<open>
  The long condition of \<open>_validate_resolution_intent_value\<close>, in its order: a malformed digest raises
  the error of \<open>_require_sha256\<close>, which the surrounding handler does not catch.
\<close>

definition check_intent_identity :: "ustr \<Rightarrow> members \<Rightarrow> bytes \<Rightarrow> nat res" where
  "check_intent_identity archive_root ms data =
     (case field ms ''sequence'' of
        JInt i \<Rightarrow>
          let sequence = nat i in
          if field ms ''schema_version'' \<noteq> JInt JOURNAL_RESOLUTION_SCHEMA_VERSION
             \<or> field ms ''document'' \<noteq> JStr (u JOURNAL_RESOLUTION_DOCUMENT)
             \<or> field ms ''archive_root'' \<noteq> JStr archive_root
             \<or> \<not> (1 \<le> i \<and> i \<le> int MAX_JOURNAL_EVENTS) then Inl intent_identity_error
          else case canonical_json (JObj ms) of
            Inl _ \<Rightarrow> Inl intent_identity_error
          | Inr bs \<Rightarrow>
              if bs @ [10] \<noteq> data then Inl intent_identity_error
              else bindE (session_require_sha256 (field ms ''previous_event_sha256'')) (\<lambda>_.
              if field ms ''pending_final_relative_path'' \<noteq> JStr (event_relative sequence) then Inl intent_identity_error
              else case field ms ''pending_relative_path'' of
                JStr path \<Rightarrow>
                  if \<not> pending_path_matches sequence path then Inl intent_identity_error
                  else (case field ms ''pending_size'' of
                    JInt n \<Rightarrow>
                      if \<not> (0 \<le> n \<and> n \<le> int MAX_EVENT_BYTES) then Inl intent_identity_error
                      else bindE (session_require_sha256 (field ms ''pending_sha256'')) (\<lambda>_. Inr sequence)
                  | _ \<Rightarrow> Inl intent_identity_error)
              | _ \<Rightarrow> Inl intent_identity_error)
      | _ \<Rightarrow> Inl intent_identity_error)"

definition intent_action_allowed :: "capture_event \<Rightarrow> json \<Rightarrow> capture_state \<Rightarrow> bool" where
  "intent_action_allowed event action state =
     (event = E_PRE_SEND_ATTEMPT_DISCARDED \<and> action = JStr (u ACTION_PRE_SEND) \<and>
        state \<in> {S_NONCE_REQUEST_PREPARED, S_RECEIPT_REQUEST_PREPARED} \<or>
      event = E_NONCE_OUTCOME_UNKNOWN \<and> action = JStr (u ACTION_AFTER_ATTEMPT) \<and> state = S_NONCE_ATTEMPTED \<or>
      event = E_RECEIPT_OUTCOME_UNKNOWN \<and> action = JStr (u ACTION_AFTER_ATTEMPT) \<and> state = S_RECEIPT_ATTEMPTED \<or>
      event = E_SESSION_ABANDONED \<and> action = JStr (u ACTION_ABANDONED) \<and> state \<in> ABANDONABLE_STATES)"

definition validate_resolution_intent_value ::
  "ustr \<Rightarrow> json \<Rightarrow> bytes \<Rightarrow> (nat \<times> capture_state \<times> capture_event \<times> members) res" where
  "validate_resolution_intent_value archive_root value data =
     (case value of
        JObj ms \<Rightarrow>
          if set (map fst ms) \<noteq> set (map u RESOLUTION_FIELDS) then
            Inl (SessionError ''journal_resolution_intent_invalid'' ''journal resolution intent has an unexpected field set'')
          else (case capture_state_of (field ms ''from_state'') of
            Inl _ \<Rightarrow> Inl intent_identity_error
          | Inr state \<Rightarrow> (case capture_event_of (field ms ''resolution_event'') of
              Inl _ \<Rightarrow> Inl intent_identity_error
            | Inr event \<Rightarrow>
                bindE (check_intent_identity archive_root ms data) (\<lambda>sequence.
                if \<not> intent_action_allowed event (field ms ''action'') state then
                  Inl (SessionError ''journal_resolution_intent_invalid''
                    ''journal resolution action is not source-owned for its state'')
                else bindE (transition_for event (Some state)) (\<lambda>_. Inr (sequence, state, event, ms)))))
      | _ \<Rightarrow> Inl (SessionError ''journal_resolution_intent_invalid'' ''journal resolution intent has an unexpected field set''))"

definition namespace_name_ok :: "ustr \<Rightarrow> bool" where
  "namespace_name_ok name = (name = u ''uninitialized-session.json'' \<or> JOURNAL_RESOLUTION_FILE_RE name \<noteq> None)"

definition inspect_namespace :: "ustr list \<Rightarrow> pending_file list \<Rightarrow> (ustr list \<times> pending_file list) res" where
  "inspect_namespace names pending =
     (let pending_names = map (\<lambda>item. path_name (pf_relative_path item)) pending;
          finals = filter (\<lambda>name. name \<notin> set pending_names) names in
      if \<not> distinct pending_names \<or> set names \<noteq> set finals \<union> set pending_names
         \<or> list_ex (\<lambda>name. \<not> namespace_name_ok name) finals
         \<or> list_ex (\<lambda>item. \<not> namespace_name_ok (path_name (pf_final_relative_path item))) pending then
        Inl (SessionError ''journal_resolution_namespace_invalid'' ''journal resolution namespace contains an unknown file'')
      else Inr (sort finals, pending))"

definition resolution_namespace :: "('z session_world_scheme, ustr list \<times> pending_file list) st" where
  "resolution_namespace =
     bindS (except_archive (bindS (list_names RECOVERY_DIRECTORY) (\<lambda>names. returnS (Some names))) (\<lambda>code.
       if code = ''directory_not_found'' then returnS None
       else session_error ''journal_resolution_namespace_unreadable'' ''journal resolution namespace cannot be inspected'')) (\<lambda>r.
     case r of
       None \<Rightarrow> returnS ([], [])
     | Some names \<Rightarrow>
         bindS (except_archive (pending_files RECOVERY_DIRECTORY) (\<lambda>_.
           session_error ''journal_resolution_namespace_unreadable''
             ''journal resolution pending files cannot be inspected'')) (\<lambda>pending.
         liftS (inspect_namespace names pending)))"

definition reopen_intent :: "ustr \<Rightarrow> string \<Rightarrow> ('z session_world_scheme, bytes) st" where
  "reopen_intent relative message =
     except_archive (read_bytes relative MAX_RECOVERY_BYTES) (\<lambda>_.
       session_error ''journal_resolution_intent_unreadable'' message)"

definition publish_intent :: "ustr \<Rightarrow> bytes \<Rightarrow> ustr list \<Rightarrow> pending_file list \<Rightarrow> ('z session_world_scheme, unit) st" where
  "publish_intent relative data finals target_pending =
     (if path_name relative \<in> set finals then
        if target_pending \<noteq> [] then
          session_error ''journal_resolution_namespace_invalid'' ''journal resolution has both final and pending bytes''
        else bindS (reopen_intent relative ''journal resolution intent cannot be reopened'') (\<lambda>observed.
        if observed \<noteq> data then
          session_error ''journal_resolution_intent_invalid'' ''journal resolution intent differs after publication''
        else returnS ())
      else case target_pending of
        [] \<Rightarrow> except_archive (thenS (write_bytes relative data MAX_RECOVERY_BYTES) (returnS ())) (\<lambda>_.
            session_error ''journal_resolution_intent_failed'' ''journal resolution intent could not be durably recorded'')
      | candidate # others \<Rightarrow>
          if others \<noteq> [] then
            session_error ''journal_resolution_namespace_invalid'' ''journal resolution has multiple pending publications''
          else bindS (except_archive (read_pending_fragment candidate MAX_RECOVERY_BYTES) (\<lambda>_.
            session_error ''journal_resolution_intent_unreadable'' ''pending journal resolution intent is unsafe'')) (\<lambda>observed.
          if observed = data then publish_pending candidate
          else if starts_with data observed then
            thenS (discard_pending candidate) (thenS (write_bytes relative data MAX_RECOVERY_BYTES) (returnS ()))
          else session_error ''journal_resolution_intent_invalid''
            ''pending resolution intent is not an expected write prefix''))"

definition write_or_reopen_resolution_intent ::
  "pending_file \<Rightarrow> session_snapshot \<Rightarrow> bytes \<Rightarrow> capture_event \<Rightarrow> string \<Rightarrow> ('z session_world_scheme, ustr) st" where
  "write_or_reopen_resolution_intent pending_event snapshot observed event action =
     bindS (getS ar_root_text) (\<lambda>archive_root.
     bindS (liftS (resolution_intent_bytes archive_root pending_event snapshot observed event action)) (\<lambda>data.
     let relative = resolution_intent_relative (sn_sequence snapshot + 1) in
     bindS resolution_namespace (\<lambda>(finals, recovery_pending).
     let target_pending = filter (\<lambda>item. pf_final_relative_path item = relative) recovery_pending in
     if list_ex (\<lambda>item. item \<notin> set target_pending) recovery_pending then
       session_error ''journal_resolution_namespace_invalid'' ''another journal resolution publication is pending''
     else thenS (publish_intent relative data finals target_pending)
     (bindS (reopen_intent relative ''journal resolution intent cannot be verified'') (\<lambda>reopened.
     if reopened \<noteq> data then
       session_error ''journal_resolution_intent_invalid'' ''journal resolution intent changed after publication''
     else returnS (u (sha256_hex data)))))))"

text \<open>Reading an intent and loading its document, with the error both failures become.\<close>

definition load_intent :: "ustr \<Rightarrow> nat \<Rightarrow> string \<Rightarrow> string \<Rightarrow> ('z session_world_scheme, bytes \<times> json) st" where
  "load_intent relative maximum code message =
     bindS (except_archive (read_bytes relative maximum) (\<lambda>_. session_error code message)) (\<lambda>data.
     case load_json_bytes data of
       Inl _ \<Rightarrow> session_error code message
     | Inr value \<Rightarrow> returnS (data, value))"

definition matching_resolution_intent :: "session_snapshot \<Rightarrow> ('z session_world_scheme, (capture_event \<times> ustr) option) st" where
  "matching_resolution_intent snapshot =
     (let relative = resolution_intent_relative (sn_sequence snapshot + 1) in
      bindS resolution_namespace (\<lambda>(finals, pending).
      if pending \<noteq> [] then returnS None
      else if path_name relative \<notin> set finals then returnS None
      else bindS (load_intent relative MAX_RECOVERY_BYTES ''journal_resolution_intent_unreadable''
          ''journal resolution intent cannot be reopened'') (\<lambda>(data, value).
      bindS (getS ar_root_text) (\<lambda>archive_root.
      bindS (liftS (validate_resolution_intent_value archive_root value data)) (\<lambda>(sequence, state, event, ms).
      if sequence \<noteq> sn_sequence snapshot + 1 \<or> state \<noteq> sn_state snapshot
         \<or> field ms ''previous_event_sha256'' \<noteq> JStr (sn_last_event_sha256 snapshot) then
        session_error ''journal_resolution_intent_invalid'' ''journal resolution intent differs from the current journal tip''
      else returnS (Some (event, u (sha256_hex data))))))))"

definition require_matching_resolution_intent ::
  "session_snapshot option \<Rightarrow> capture_event \<Rightarrow> ('z session_world_scheme, unit) st" where
  "require_matching_resolution_intent snapshot event =
     (case snapshot of
        None \<Rightarrow> session_error ''journal_resolution_intent_missing'' ''recovery event has no prior journal state''
      | Some s \<Rightarrow>
          bindS (matching_resolution_intent s) (\<lambda>matching.
          if (case matching of None \<Rightarrow> True | Some (e, _) \<Rightarrow> e \<noteq> event) then
            session_error ''journal_resolution_intent_missing'' ''recovery event has no matching durable resolution intent''
          else returnS ()))"

section \<open>Replaying resolution intents\<close>

type_synonym intent_record = "nat \<times> members \<times> bytes \<times> capture_event"

definition load_intent_record :: "ustr \<Rightarrow> ('z session_world_scheme, intent_record) st" where
  "load_intent_record name =
     (if name = u ''uninitialized-session.json'' then
        session_error ''journal_resolution_namespace_invalid''
          ''initialized journal cannot coexist with an uninitialized tombstone''
      else case JOURNAL_RESOLUTION_FILE_RE name of
        None \<Rightarrow> session_error ''journal_resolution_namespace_invalid'' ''journal resolution filename is malformed''
      | Some number \<Rightarrow>
          bindS (load_intent (RECOVERY_DIRECTORY @ [47] @ name) MAX_RECOVERY_BYTES ''journal_resolution_intent_unreadable''
            ''journal resolution intent cannot be reopened'') (\<lambda>(data, value).
          bindS (getS ar_root_text) (\<lambda>archive_root.
          bindS (liftS (validate_resolution_intent_value archive_root value data)) (\<lambda>(sequence, state, event, ms).
          if sequence \<noteq> number then
            session_error ''journal_resolution_intent_invalid'' ''journal resolution filename differs from its sequence''
          else returnS (sequence, ms, data, event)))))"

text \<open>\<open>journal_value.get(name)\<close>: \<open>None\<close> for a missing member, which equals JSON null.\<close>

definition scan_journal_event :: "nat set \<Rightarrow> nat \<Rightarrow> ('z session_world_scheme, unit) st" where
  "scan_journal_event record_sequences sequence =
     bindS (load_intent (event_relative sequence) MAX_EVENT_BYTES ''journal_resolution_event_unreadable''
       ''journal recovery binding scan cannot reopen an event'') (\<lambda>(data, value).
     case value of
       JObj ms \<Rightarrow>
         if field ms ''event'' = JStr (u (event_value E_PRE_SEND_ATTEMPT_DISCARDED)) \<and> sequence \<notin> record_sequences then
           session_error ''journal_resolution_intent_missing'' ''pre-send recovery event lost its durable resolution intent''
         else returnS ()
     | _ \<Rightarrow> returnS ())"

definition check_resolved_event :: "intent_record \<Rightarrow> ('z session_world_scheme, unit) st" where
  "check_resolved_event record =
     (case record of (sequence, ms, data, event) \<Rightarrow>
      bindS (load_intent (event_relative sequence) MAX_EVENT_BYTES ''journal_resolution_event_unreadable''
        ''resolved recovery journal event cannot be reopened'') (\<lambda>(event_data, journal_value).
      case journal_value of
        JObj js \<Rightarrow>
          if field js ''sequence'' \<noteq> JInt (int sequence)
             \<or> field js ''event'' \<noteq> JStr (u (event_value event))
             \<or> field js ''from_state'' \<noteq> field ms ''from_state''
             \<or> field js ''previous_event_sha256'' \<noteq> field ms ''previous_event_sha256''
             \<or> field js ''binding_sha256'' \<noteq> JStr (u (sha256_hex data)) then
            session_error ''journal_resolution_event_invalid'' ''resolved recovery event differs from its durable intent''
          else returnS ()
      | _ \<Rightarrow> session_error ''journal_resolution_event_invalid'' ''resolved recovery event differs from its durable intent''))"

definition replay_intent ::
  "bool \<Rightarrow> session_snapshot option \<Rightarrow> intent_record \<Rightarrow> ('z session_world_scheme, session_snapshot option) st" where
  "replay_intent complete_unresolved snapshot record =
     (case snapshot of
        None \<Rightarrow> raiseS (TypeError ''assert snapshot is not None'')
      | Some s \<Rightarrow> (case record of (sequence, ms, data, event) \<Rightarrow>
          if sequence \<le> sn_sequence s then thenS (check_resolved_event record) (returnS snapshot)
          else if sequence \<noteq> sn_sequence s + 1
             \<or> field ms ''from_state'' \<noteq> JStr (u (state_value (sn_state s)))
             \<or> field ms ''previous_event_sha256'' \<noteq> JStr (sn_last_event_sha256 s) then
            session_error ''journal_resolution_sequence_invalid'' ''journal resolution intent does not extend the current tip''
          else if \<not> complete_unresolved then
            session_error ''journal_resolution_recovery_required''
              ''unresolved journal resolution intent requires explicit recovery''
          else thenS (modifyS (\<lambda>w. w\<lparr>ss_snapshot := snapshot\<rparr>))
            (bindS (session_append event (u (sha256_hex data))) (\<lambda>t. returnS (Some t)))))"

definition replay_resolution_intents ::
  "session_snapshot option \<Rightarrow> bool \<Rightarrow> ('z session_world_scheme, session_snapshot option) st" where
  "replay_resolution_intents snapshot complete_unresolved =
     bindS resolution_namespace (\<lambda>(finals, pending).
     if pending \<noteq> [] then
       session_error ''journal_resolution_recovery_required'' ''journal resolution intent publication is still pending''
     else bindS (mapS load_intent_record finals) (\<lambda>records.
     if records \<noteq> [] \<and> snapshot = None then
       session_error ''journal_resolution_intent_invalid'' ''journal resolution intent has no committed predecessor''
     else thenS (case snapshot of
         None \<Rightarrow> returnS []
       | Some s \<Rightarrow> mapS (scan_journal_event (fst ` set records)) [1..<Suc (sn_sequence s)])
     (foldS (replay_intent complete_unresolved) snapshot (sort_key fst records))))"

section \<open>Quarantine of uninitialized sessions\<close>

definition tombstone_document :: "ustr \<Rightarrow> json" where
  "tombstone_document archive_root =
     JObj [(u ''schema_version'', JInt 1),
       (u ''document'', JStr (u UNINITIALIZED_TOMBSTONE_DOCUMENT)),
       (u ''archive_root'', JStr archive_root),
       (u ''pending_final_relative_path'', JStr (event_relative 1)),
       (u ''action'', JStr (u ''uninitialized-session-quarantined''))]"

definition uninitialized_tombstone_bytes :: "ustr \<Rightarrow> bytes res" where
  "uninitialized_tombstone_bytes archive_root =
     (case canonical_json (tombstone_document archive_root) of
        Inl _ \<Rightarrow> Inl (SessionError ''uninitialized_quarantine_failed'' ''uninitialized quarantine record cannot be encoded'')
      | Inr bs \<Rightarrow> Inr (bs @ [10]))"

definition validate_uninitialized_tombstone :: "bytes \<Rightarrow> ('z session_world_scheme, unit) st" where
  "validate_uninitialized_tombstone data =
     bindS (getS ar_root_text) (\<lambda>archive_root.
     bindS (liftS (uninitialized_tombstone_bytes archive_root)) (\<lambda>expected.
     if data \<noteq> expected then
       session_error ''uninitialized_quarantine_invalid''
         ''uninitialized quarantine record differs from its fixed archive root''
     else returnS ()))"

text \<open>\<open>list_names\<close> of a directory that may be missing.\<close>

definition list_names_or_missing :: "ustr \<Rightarrow> (string \<Rightarrow> ('z session_world_scheme, ustr list option) st) \<Rightarrow>
    ('z session_world_scheme, ustr list option) st" where
  "list_names_or_missing relative other =
     except_archive (bindS (list_names relative) (\<lambda>names. returnS (Some names))) (\<lambda>code.
       if code = ''directory_not_found'' then returnS None else other code)"

definition has_uninitialized_tombstone :: "('z session_world_scheme, bool) st" where
  "has_uninitialized_tombstone =
     bindS (list_names_or_missing RECOVERY_DIRECTORY (\<lambda>_.
       session_error ''uninitialized_quarantine_unreadable''
         ''uninitialized quarantine namespace cannot be inspected'')) (\<lambda>r.
     case r of
       None \<Rightarrow> returnS False
     | Some names \<Rightarrow>
         if names \<noteq> [u ''uninitialized-session.json''] then
           if names = [] then returnS False
           else session_error ''uninitialized_quarantine_invalid'' ''uninitialized quarantine namespace is not exact''
         else bindS (except_archive (read_bytes UNINITIALIZED_TOMBSTONE_RELATIVE MAX_RECOVERY_BYTES) (\<lambda>_.
           session_error ''uninitialized_quarantine_unreadable''
             ''uninitialized quarantine record cannot be reopened'')) (\<lambda>data.
         thenS (validate_uninitialized_tombstone data) (returnS True)))"

definition publish_tombstone :: "bytes \<Rightarrow> ustr list \<Rightarrow> ('z session_world_scheme, unit) st" where
  "publish_tombstone expected names =
     (if names = [] then
        thenS (write_bytes UNINITIALIZED_TOMBSTONE_RELATIVE expected MAX_RECOVERY_BYTES) (returnS ())
      else if names = [u ''uninitialized-session.json''] then
        bindS (read_bytes UNINITIALIZED_TOMBSTONE_RELATIVE MAX_RECOVERY_BYTES) validate_uninitialized_tombstone
      else bindS (pending_files RECOVERY_DIRECTORY) (\<lambda>recovery_pending.
        case recovery_pending of
          [recovery] \<Rightarrow>
            if length names \<noteq> 1 \<or> pf_final_relative_path recovery \<noteq> UNINITIALIZED_TOMBSTONE_RELATIVE then
              session_error ''uninitialized_quarantine_invalid'' ''uninitialized quarantine publication is ambiguous''
            else bindS (read_pending_fragment recovery MAX_RECOVERY_BYTES) (\<lambda>data.
            if data = expected then publish_pending recovery
            else if starts_with expected data then
              thenS (discard_pending recovery)
              (thenS (write_bytes UNINITIALIZED_TOMBSTONE_RELATIVE expected MAX_RECOVERY_BYTES) (returnS ()))
            else session_error ''uninitialized_quarantine_invalid''
              ''pending quarantine bytes are not an expected write prefix'')
        | _ \<Rightarrow> session_error ''uninitialized_quarantine_invalid'' ''uninitialized quarantine publication is ambiguous''))"

definition quarantine_uninitialized_session :: "pending_file option \<Rightarrow> ('z session_world_scheme, unit) st" where
  "quarantine_uninitialized_session pending =
     (if (case pending of None \<Rightarrow> False | Some p \<Rightarrow> pf_final_relative_path p \<noteq> event_relative 1) then
        session_error ''uninitialized_quarantine_invalid'' ''uninitialized quarantine does not target the first journal event''
      else bindS (getS ar_root_text) (\<lambda>archive_root.
      bindS (liftS (uninitialized_tombstone_bytes archive_root)) (\<lambda>expected.
      except_archive
        (bindS list_root_names (\<lambda>root_names.
        if set root_names \<noteq> {JOURNAL_DIRECTORY, LOCK_FILE} \<and> set root_names \<noteq> {JOURNAL_DIRECTORY, RECOVERY_DIRECTORY, LOCK_FILE} then
          session_error ''uninitialized_quarantine_invalid'' ''uninitialized archive contains data beyond lock and journal''
        else bindS (list_names JOURNAL_DIRECTORY) (\<lambda>journal.
        if journal \<noteq> (case pending of None \<Rightarrow> [] | Some p \<Rightarrow> [path_name (pf_relative_path p)]) then
          session_error ''uninitialized_quarantine_invalid'' ''uninitialized journal closure is not one pending first event''
        else bindS (list_names_or_missing RECOVERY_DIRECTORY (\<lambda>code.
            raiseS (ArchiveError code ''cannot inspect recovery namespace''))) (\<lambda>r.
        thenS (publish_tombstone expected (case r of None \<Rightarrow> [] | Some names \<Rightarrow> names))
        (bindS has_uninitialized_tombstone (\<lambda>present.
        if \<not> present then
          session_error ''uninitialized_quarantine_failed'' ''uninitialized quarantine record was not durably published''
        else case pending of None \<Rightarrow> returnS () | Some p \<Rightarrow> discard_pending p))))))
        (\<lambda>_. session_error ''uninitialized_quarantine_failed'' ''uninitialized session could not be durably quarantined''))))"

section \<open>Recovering a pending event\<close>

definition resolve_pending_with_intent ::
  "pending_file \<Rightarrow> session_snapshot \<Rightarrow> bytes \<Rightarrow> capture_event \<Rightarrow> string \<Rightarrow> ('z session_world_scheme, unit) st" where
  "resolve_pending_with_intent pending snapshot observed event action =
     bindS (write_or_reopen_resolution_intent pending snapshot observed event action) (\<lambda>binding.
     thenS (discard_pending pending)
     (thenS (modifyS (\<lambda>w. w\<lparr>ss_snapshot := Some snapshot\<rparr>))
     (thenS (session_append event binding) (returnS ()))))"

fun action_for :: "capture_event \<Rightarrow> string option" where
  "action_for E_PRE_SEND_ATTEMPT_DISCARDED = Some ACTION_PRE_SEND"
| "action_for E_NONCE_OUTCOME_UNKNOWN = Some ACTION_AFTER_ATTEMPT"
| "action_for E_RECEIPT_OUTCOME_UNKNOWN = Some ACTION_AFTER_ATTEMPT"
| "action_for E_SESSION_ABANDONED = Some ACTION_ABANDONED"
| "action_for _ = None"

definition recover_partial_pending ::
  "pending_file \<Rightarrow> session_snapshot option \<Rightarrow> bytes \<Rightarrow> ('z session_world_scheme, unit) st" where
  "recover_partial_pending pending snapshot observed =
     (case snapshot of
        None \<Rightarrow> thenS (quarantine_uninitialized_session (Some pending))
          (session_error ''uninitialized_session_quarantined''
            ''partial first journal event was quarantined without inventing intent'')
      | Some s \<Rightarrow>
          if sn_state s \<in> TERMINAL_STATES then
            session_error ''pending_after_terminal_state'' ''terminal physical session cannot contain a pending next event''
          else bindS (matching_resolution_intent s) (\<lambda>existing.
          case existing of
            Some (event, _) \<Rightarrow>
              (case action_for event of
                 None \<Rightarrow> raiseS KeyError
               | Some action \<Rightarrow> resolve_pending_with_intent pending s observed event action)
          | None \<Rightarrow>
              if sn_state s = S_NONCE_ATTEMPTED then
                resolve_pending_with_intent pending s observed E_NONCE_OUTCOME_UNKNOWN ACTION_AFTER_ATTEMPT
              else if sn_state s = S_RECEIPT_ATTEMPTED then
                resolve_pending_with_intent pending s observed E_RECEIPT_OUTCOME_UNKNOWN ACTION_AFTER_ATTEMPT
              else if sn_state s \<notin> ABANDONABLE_STATES then
                session_error ''pending_recovery_state_invalid''
                  ''partial pending event cannot be resolved from the current state''
              else resolve_pending_with_intent pending s observed E_SESSION_ABANDONED ACTION_ABANDONED))"

definition identify_pending :: "bytes \<Rightarrow> capture_event res" where
  "identify_pending data =
     (case bindE (load_json_bytes data) (\<lambda>value. case value of
          JObj ms \<Rightarrow> (case map_of ms (u ''event'') of None \<Rightarrow> Inl KeyError | Some v \<Rightarrow> capture_event_of v)
        | _ \<Rightarrow> Inl (RawArtifactError ''pending journal event is not an object'')) of
        Inl _ \<Rightarrow> Inl (SessionError ''pending_journal_unreadable'' ''validated pending journal event cannot be identified'')
      | Inr event \<Rightarrow> Inr event)"

text \<open>Whether the bytes of a rejected pending event are a truncated write.\<close>

definition partial_content :: "string \<Rightarrow> bytes \<Rightarrow> session_snapshot option \<Rightarrow> nat \<Rightarrow> bool" where
  "partial_content code data snapshot expected_sequence =
     (if code = ''noncanonical_journal_event'' \<and> \<not> ends_with data [10] then
        (case validate_event_bytes (data @ [10]) snapshot expected_sequence of Inl _ \<Rightarrow> False | Inr _ \<Rightarrow> True)
      else code = ''invalid_journal_json'')"

definition resolve_valid_pending :: "pending_file \<Rightarrow> session_snapshot option \<Rightarrow> bytes \<Rightarrow> ('z session_world_scheme, unit) st" where
  "resolve_valid_pending pending snapshot data =
     bindS (liftS (identify_pending data)) (\<lambda>event.
     if event \<in> {E_NONCE_ATTEMPT_STARTED, E_RECEIPT_ATTEMPT_STARTED} then
       (case snapshot of
          None \<Rightarrow> session_error ''pending_attempt_state_invalid'' ''pending pre-send attempt has no matching prepared request''
        | Some s \<Rightarrow>
            if sn_state s \<notin> {S_NONCE_REQUEST_PREPARED, S_RECEIPT_REQUEST_PREPARED} then
              session_error ''pending_attempt_state_invalid'' ''pending pre-send attempt has no matching prepared request''
            else resolve_pending_with_intent pending s data E_PRE_SEND_ATTEMPT_DISCARDED ACTION_PRE_SEND)
     else thenS (whenS (event = E_PRE_SEND_ATTEMPT_DISCARDED) (require_matching_resolution_intent snapshot event))
       (publish_pending pending))"

definition recover_one_pending :: "pending_file \<Rightarrow> session_snapshot option \<Rightarrow> bool \<Rightarrow> ('z session_world_scheme, unit) st" where
  "recover_one_pending pending snapshot discard_incomplete =
     (let expected_sequence = next_sequence snapshot in
      if pf_final_relative_path pending \<noteq> event_relative expected_sequence then
        session_error ''pending_sequence_mismatch'' ''pending journal event is not the next expected sequence''
      else bindS (attemptS (read_pending pending MAX_EVENT_BYTES)) (\<lambda>r.
      case r of
        Inl (ArchiveError code _) \<Rightarrow>
          if \<not> discard_incomplete \<or> code \<noteq> ''archive_file_size'' then
            session_error ''pending_journal_unreadable'' ''pending journal event cannot be recovered''
          else bindS (except_archive (read_pending_fragment pending MAX_EVENT_BYTES) (\<lambda>_.
            session_error ''pending_journal_unreadable'' ''oversized pending journal event cannot be recovered'')) (\<lambda>fragment.
          recover_partial_pending pending snapshot fragment)
      | Inl e \<Rightarrow> raiseS e
      | Inr data \<Rightarrow>
          bindS (attemptS (bindS (liftS (validate_event_bytes data snapshot expected_sequence)) (\<lambda>recovered.
            activate_frozen_observations (Some recovered)))) (\<lambda>c.
          case c of
            Inl (SessionError code message) \<Rightarrow>
              if \<not> discard_incomplete \<or> \<not> partial_content code data snapshot expected_sequence then
                raiseS (SessionError code message)
              else recover_partial_pending pending snapshot data
          | Inl e \<Rightarrow> raiseS e
          | Inr _ \<Rightarrow> resolve_valid_pending pending snapshot data)))"

section \<open>Opening a session\<close>

definition session_create :: "ustr \<Rightarrow> json \<Rightarrow> ('z session_world_scheme, unit) st" where
  "session_create root_relative_to_target intent_sha256 =
     bindS (liftS (session_require_sha256 intent_sha256)) (\<lambda>binding.
     thenS (archive_create root_relative_to_target)
     (on_errorS
       (bindS (create_lock_file LOCK_FILE) (\<lambda>lock.
       thenS (acquire_lock lock)
       (thenS new_session
       (thenS (ensure_directory JOURNAL_DIRECTORY)
       (thenS (append_locked E_SESSION_STARTED binding) (returnS ()))))))
       session_close))"

definition session_open :: "ustr \<Rightarrow> ('z session_world_scheme, unit) st" where
  "session_open root_relative_to_target =
     thenS (archive_open root_relative_to_target)
     (on_errorS
       (bindS (open_lock_file LOCK_FILE) (\<lambda>lock.
       thenS (acquire_lock lock)
       (thenS new_session
       (bindS (pending_files JOURNAL_DIRECTORY) (\<lambda>pending.
       if pending \<noteq> [] then
         session_error ''journal_recovery_required''
           ''physical capture journal contains an interrupted pending event; explicit recovery is required''
       else bindS (replay_final_events False) (\<lambda>replayed.
       thenS (modifyS (\<lambda>w. w\<lparr>ss_snapshot := replayed\<rparr>))
       (bindS (replay_resolution_intents replayed False) (\<lambda>snapshot.
       thenS (modifyS (\<lambda>w. w\<lparr>ss_snapshot := snapshot\<rparr>))
       (thenS (activate_frozen_observations snapshot) (returnS ()))))))))))
       session_close)"

text \<open>The first part of \<open>recover\<close>: the lock and the journal directory of an archive.\<close>

definition recover_lock :: "('z session_world_scheme, unit) st" where
  "recover_lock =
     bindS list_root_names (\<lambda>root_names.
     bindS (if LOCK_FILE \<in> set root_names then open_lock_file LOCK_FILE
            else if root_names = [] then create_lock_file LOCK_FILE
            else session_error ''uninitialized_archive_invalid'' ''pre-intent archive has no lock and contains unexpected data'') (\<lambda>lock.
     thenS (acquire_lock lock)
     new_session))"

definition recover_journal_directory :: "('z session_world_scheme, unit) st" where
  "recover_journal_directory =
     bindS list_root_names (\<lambda>root_names.
     thenS (whenS (JOURNAL_DIRECTORY \<notin> set root_names)
       (if set root_names \<noteq> {LOCK_FILE} then
          session_error ''uninitialized_archive_invalid'' ''pre-intent archive without journal contains unexpected data''
        else ensure_directory JOURNAL_DIRECTORY))
     (bindS (list_names JOURNAL_DIRECTORY) (\<lambda>journal.
     whenS (journal = [])
       (bindS list_root_names (\<lambda>names.
       whenS (set names = {JOURNAL_DIRECTORY, LOCK_FILE} \<or> set names = {JOURNAL_DIRECTORY, RECOVERY_DIRECTORY, LOCK_FILE})
         (thenS (quarantine_uninitialized_session None)
         (session_error ''uninitialized_session_quarantined'' ''pre-intent physical session was durably quarantined'')))))))"

definition recover_journal :: "bool \<Rightarrow> ('z session_world_scheme, unit) st" where
  "recover_journal discard_incomplete =
     bindS (pending_files JOURNAL_DIRECTORY) (\<lambda>pending.
     if length pending > 1 then
       session_error ''ambiguous_pending_journal'' ''physical capture journal contains multiple pending events''
     else bindS (replay_final_events (pending \<noteq> [])) (\<lambda>replayed.
     bindS (case pending of
         [] \<Rightarrow> returnS replayed
       | p # _ \<Rightarrow> thenS (recover_one_pending p replayed discard_incomplete) (replay_final_events False)) (\<lambda>snapshot.
     bindS (replay_resolution_intents snapshot True) (\<lambda>completed.
     thenS (modifyS (\<lambda>w. w\<lparr>ss_snapshot := completed\<rparr>))
     (thenS (activate_frozen_observations completed) (returnS ()))))))"

definition session_recover :: "ustr \<Rightarrow> bool \<Rightarrow> ('z session_world_scheme, unit) st" where
  "session_recover root_relative_to_target discard_incomplete =
     thenS (archive_open root_relative_to_target)
     (on_errorS
       (thenS recover_lock
       (thenS recover_journal_directory
       (recover_journal discard_incomplete)))
       session_close)"

definition uninitialized_quarantined :: "ustr \<Rightarrow> ('z session_world_scheme, bool) st" where
  "uninitialized_quarantined root_relative_to_target =
     thenS (archive_open root_relative_to_target)
     (finallyS
       (bindS (open_lock_file LOCK_FILE) (\<lambda>lock.
       thenS (acquire_lock lock)
       (thenS new_session
       (bindS list_root_names (\<lambda>root_names.
       if root_names \<noteq> [JOURNAL_DIRECTORY, RECOVERY_DIRECTORY, LOCK_FILE] then returnS False
       else bindS (list_names JOURNAL_DIRECTORY) (\<lambda>journal.
       if journal \<noteq> [] then returnS False
       else has_uninitialized_tombstone))))))
       session_close)"

section \<open>Views of the journal\<close>

record session_event_view =
  ev_sequence :: nat
  ev_event :: capture_event
  ev_from_state :: "capture_state option"
  ev_to_state :: capture_state
  ev_recorded_at :: utc_datetime
  ev_previous_event_sha256 :: ustr
  ev_binding_sha256 :: ustr
  ev_event_sha256 :: ustr

definition view_of_event :: "bytes \<Rightarrow> session_snapshot \<Rightarrow> nat \<Rightarrow> session_event_view res" where
  "view_of_event data current sequence =
     bindE (load_json_bytes data) (\<lambda>value.
     case value of
       JObj ms \<Rightarrow>
         bindE (capture_event_of (field ms ''event'')) (\<lambda>event.
         bindE (if field ms ''from_state'' = JNull then Inr None
                else bindE (capture_state_of (field ms ''from_state'')) (\<lambda>s. Inr (Some s))) (\<lambda>from_state.
         bindE (session_require_sha256 (field ms ''previous_event_sha256'')) (\<lambda>previous.
         Inr \<lparr>ev_sequence = sequence, ev_event = event, ev_from_state = from_state, ev_to_state = sn_state current,
              ev_recorded_at = sn_last_recorded_at current, ev_previous_event_sha256 = previous,
              ev_binding_sha256 = sn_last_binding_sha256 current, ev_event_sha256 = sn_last_event_sha256 current\<rparr>)))
     | _ \<Rightarrow> Inl (RawArtifactError ''journal event view is not an object''))"

fun view_error :: "exn \<Rightarrow> exn" where
  "view_error KeyError = SessionError ''journal_event_view_invalid'' ''committed journal event failed strict reopening''"
| "view_error (ArchiveError _ _) = SessionError ''journal_event_view_invalid'' ''committed journal event failed strict reopening''"
| "view_error (RawArtifactError _) = SessionError ''journal_event_view_invalid'' ''committed journal event failed strict reopening''"
| "view_error (TypeError _) = SessionError ''journal_event_view_invalid'' ''committed journal event failed strict reopening''"
| "view_error (ValueError _) = SessionError ''journal_event_view_invalid'' ''committed journal event failed strict reopening''"
| "view_error UnicodeEncodeError = SessionError ''journal_event_view_invalid'' ''committed journal event failed strict reopening''"
| "view_error UnicodeDecodeError = SessionError ''journal_event_view_invalid'' ''committed journal event failed strict reopening''"
| "view_error JSONDecodeError = SessionError ''journal_event_view_invalid'' ''committed journal event failed strict reopening''"
| "view_error e = e"

definition view_step ::
  "session_snapshot option \<times> session_event_view option \<Rightarrow> nat \<Rightarrow>
   ('z session_world_scheme, session_snapshot option \<times> session_event_view option) st" where
  "view_step acc sequence =
     catchS
       (bindS (read_bytes (event_relative sequence) MAX_EVENT_BYTES) (\<lambda>data.
       bindS (liftS (validate_event_bytes data (fst acc) sequence)) (\<lambda>current.
       bindS (liftS (view_of_event data current sequence)) (\<lambda>view. returnS (Some current, Some view)))))
       (\<lambda>e. raiseS (view_error e))"

definition event_view :: "nat \<Rightarrow> ('z session_world_scheme, session_event_view) st" where
  "event_view sequence =
     bindS session_snapshot_of (\<lambda>s.
     if \<not> (1 \<le> sequence \<and> sequence \<le> sn_sequence s) then
       session_error ''invalid_journal_sequence'' ''journal event view sequence is outside the committed range''
     else bindS (foldS view_step (None, None) [1..<Suc sequence]) (\<lambda>(previous, selected).
     case selected of
       None \<Rightarrow> session_error ''journal_event_view_invalid'' ''committed journal event view was not produced''
     | Some view \<Rightarrow> returnS view))"

definition last_event_view :: "('z session_world_scheme, session_event_view) st" where
  "last_event_view =
     bindS session_snapshot_of (\<lambda>s.
     bindS (event_view (sn_sequence s)) (\<lambda>view.
     bindS session_snapshot_of (\<lambda>snapshot.
     if ev_to_state view \<noteq> sn_state snapshot \<or> ev_recorded_at view \<noteq> sn_last_recorded_at snapshot
        \<or> ev_binding_sha256 view \<noteq> sn_last_binding_sha256 snapshot
        \<or> ev_event_sha256 view \<noteq> sn_last_event_sha256 snapshot then
       session_error ''journal_tip_invalid'' ''committed journal tip differs from the session snapshot''
     else returnS view)))"

definition resolution_binding_for_last_event :: "capture_event \<Rightarrow> ('z session_world_scheme, ustr option) st" where
  "resolution_binding_for_last_event event =
     bindS session_snapshot_of (\<lambda>snapshot.
     thenS (replay_resolution_intents (Some snapshot) False)
     (let relative = resolution_intent_relative (sn_sequence snapshot) in
      bindS resolution_namespace (\<lambda>(finals, pending).
      if pending \<noteq> [] then
        session_error ''journal_resolution_recovery_required'' ''journal resolution intent publication is still pending''
      else if path_name relative \<notin> set finals then returnS None
      else bindS (load_intent relative MAX_RECOVERY_BYTES ''journal_resolution_intent_unreadable''
          ''journal tip resolution intent cannot be reopened'') (\<lambda>(data, value).
      bindS (getS ar_root_text) (\<lambda>archive_root.
      bindS (liftS (validate_resolution_intent_value archive_root value data)) (\<lambda>(sequence, state, resolution_event, ms).
      if sequence \<noteq> sn_sequence snapshot \<or> resolution_event \<noteq> event
         \<or> u (sha256_hex data) \<noteq> sn_last_binding_sha256 snapshot then
        session_error ''journal_resolution_event_invalid'' ''journal tip is not bound to the requested resolution intent''
      else returnS (Some (u (sha256_hex data)))))))))"

definition is_terminal :: "('z session_world_scheme, bool) st" where
  "is_terminal = bindS session_snapshot_of (\<lambda>s. returnS (sn_state s \<in> TERMINAL_STATES))"

definition interrupted_attempt :: "('z session_world_scheme, bool) st" where
  "interrupted_attempt = bindS session_snapshot_of (\<lambda>s. returnS (sn_state s \<in> {S_NONCE_ATTEMPTED, S_RECEIPT_ATTEMPTED}))"

end
