(* ===== verification/Capture_Consistency.thy ===== *)
theory Capture_Consistency
  imports Capture_Recovery
begin

text \<open>
  What the sessions of \<open>Capture_Session\<close> and \<open>Capture_Recovery\<close> promise. The locales \<open>session_reads\<close> and
  \<open>session_policy\<close> extend those of the archive to every operation of a session; \<open>journal_on\<close> relates the
  journal directory to a list of event bytes, so that appending and replaying on disk refine the
  functions of \<open>Capture_Journal\<close>, under every fault.
\<close>

section \<open>What sessions read\<close>

lemma lock_file_parts: "relative_parts LOCK_FILE = Inr [LOCK_FILE]"
  by code_simp

text \<open>Relations that reading and sealing keep, whatever else they say about the world.\<close>

locale session_reads = archive_relation R D F G
  for R :: "'z session_world_scheme \<Rightarrow> 'z session_world_scheme \<Rightarrow> bool" and D F G :: "path set" +
  assumes R_sealed: "R w (w\<lparr>ar_sealed := x\<rparr>)"
begin

lemma keeps_except_archive: "keeps R m \<Longrightarrow> (\<And>code. keeps R (h code)) \<Longrightarrow> keeps R (except_archive m h)"
  unfolding except_archive_def by (rule keeps_catch) (auto intro: keeps_raise split: exn.splits)

lemma keeps_session_error: "keeps R (session_error code message)"
  unfolding session_error_def by (rule keeps_raise)

lemma keeps_case_exn:
  "(\<And>c m. keeps R (f c m)) \<Longrightarrow> (\<And>c m. keeps R (g c m)) \<Longrightarrow> (\<And>e. keeps R (h e)) \<Longrightarrow>
   keeps R (case e of ArchiveError c m \<Rightarrow> f c m | ObservationError c m \<Rightarrow> g c m | _ \<Rightarrow> h e)"
  by (cases e) simp_all

lemmas keeps_reading = keeps_basic keeps_except_archive keeps_session_error keeps_case_exn keeps_require_mutable
  keeps_read_bytes keeps_describe_file keeps_list_names keeps_list_root_names keeps_pending_files keeps_read_pending
  keeps_read_pending_fragment keeps_open_lock_file

lemma keeps_session_require_open: "keeps R session_require_open"
  unfolding session_require_open_def by (intro keeps_reading)

lemma keeps_seal_prefixes: "keeps R (seal_prefixes ns)"
  unfolding seal_prefixes_def Let_def
  by (intro keeps_reading keeps_require_open) (simp add: keeps_def R_sealed)

lemma keeps_verify_observation_files: "keeps R (verify_observation_files os)"
  unfolding verify_observation_files_def verify_observation_file_def verify_namespace_def Let_def
  by (intro keeps_reading)

lemma keeps_load_observation_manifest: "keeps R (load_observation_manifest expected)"
  unfolding load_observation_manifest_def Let_def
  by (intro keeps_reading keeps_verify_observation_files)

lemma keeps_replay_final_events: "keeps R (replay_final_events allow_empty)"
  unfolding replay_final_events_def replay_step_def by (intro keeps_reading keeps_session_require_open)

lemma keeps_activate: "keeps R (activate_frozen_observations snapshot)"
  unfolding activate_frozen_observations_def
  by (intro keeps_reading keeps_load_observation_manifest keeps_seal_prefixes)

end

section \<open>Sessions keep what is published\<close>

text \<open>Relations that appending keeps: they do not look at the snapshot, and allow the clock to go on.\<close>

locale session_appends = archive_policy R F + session_reads R UNIV F UNIV
  for R :: "'z session_world_scheme \<Rightarrow> 'z session_world_scheme \<Rightarrow> bool" and F :: "path set" +
  assumes R_snapshot: "R w (w\<lparr>ss_snapshot := s\<rparr>)"
    and R_clock: "ss_clock w = t # ts \<Longrightarrow> R w (w\<lparr>ss_clock := ts\<rparr>)"
begin

lemma keeps_snapshot: "keeps R (modifyS (\<lambda>w. w\<lparr>ss_snapshot := s\<rparr>))"
  by (simp add: keeps_def R_snapshot)

lemma keeps_now: "keeps R now"
  by (rule keepsI) (auto simp: now_def R_refl R_clock split: list.splits)

lemma keeps_attempt: "keeps R m \<Longrightarrow> keeps R (attemptS m)"
  unfolding attemptS_def by (intro keeps_catch keeps_bind keeps_return)

lemma keeps_case_json:
  "(\<And>ms. keeps R (f ms)) \<Longrightarrow> keeps R m \<Longrightarrow> keeps R (case v of JObj ms \<Rightarrow> f ms | _ \<Rightarrow> m)"
  by (cases v) simp_all

lemmas keeps_session_basic = keeps_basic keeps_now keeps_snapshot keeps_except_archive keeps_attempt keeps_session_error keeps_case_json
  keeps_case_exn keeps_require_mutable keeps_read_bytes keeps_describe_file keeps_list_names keeps_list_root_names
  keeps_pending_files keeps_read_pending keeps_read_pending_fragment keeps_write_bytes keeps_write_or_reopen_exact
  keeps_publish_pending keeps_discard_pending keeps_ensure_directory keeps_open_lock_file

lemma keeps_publish_observation_manifest: "keeps R (publish_observation_manifest ms)"
  unfolding publish_observation_manifest_def
  by (intro keeps_session_basic keeps_verify_observation_files keeps_load_observation_manifest)

lemma keeps_session_snapshot_of: "keeps R session_snapshot_of"
  unfolding session_snapshot_of_def
  by (intro keeps_session_basic keeps_session_require_open keeps_replay_final_events)

lemma keeps_current_snapshot: "keeps R (current_snapshot event)"
  unfolding current_snapshot_def
  by (intro keeps_basic keeps_replay_final_events) (auto intro: keeps_rules split: exn.splits)

lemma keeps_append_locked: "keeps R (append_locked event binding)"
  unfolding append_locked_def Let_def
  by (intro keeps_session_basic keeps_current_snapshot keeps_activate)

lemma keeps_session_append: "keeps R (session_append event binding)"
  unfolding session_append_def by (intro keeps_session_basic keeps_session_require_open keeps_append_locked)

lemma keeps_complete_observations: "keeps R (complete_observations ms)"
  unfolding complete_observations_def require_collection_open_def
  by (intro keeps_session_basic keeps_session_snapshot_of keeps_publish_observation_manifest keeps_seal_prefixes keeps_append_locked)

lemma keeps_capture_write_bytes: "keeps R (capture_write_bytes subject kind relative data maximum)"
  unfolding capture_write_bytes_def require_collection_open_def by (intro keeps_session_basic keeps_session_snapshot_of)

lemma keeps_resolution_namespace: "keeps R resolution_namespace"
  unfolding resolution_namespace_def by (intro keeps_session_basic)

lemma keeps_write_or_reopen_intent: "keeps R (write_or_reopen_resolution_intent pending snapshot observed event action)"
  unfolding write_or_reopen_resolution_intent_def publish_intent_def reopen_intent_def Let_def
  by (intro keeps_session_basic keeps_resolution_namespace)

lemma keeps_load_intent: "keeps R (load_intent relative maximum code message)"
  unfolding load_intent_def by (intro keeps_session_basic)

lemma keeps_matching_intent: "keeps R (matching_resolution_intent snapshot)"
  unfolding matching_resolution_intent_def Let_def by (intro keeps_session_basic keeps_resolution_namespace keeps_load_intent)

lemma keeps_resolve_interrupted: "keeps R resolve_interrupted_attempt"
  unfolding resolve_interrupted_attempt_def by (intro keeps_session_basic keeps_session_snapshot_of keeps_session_append)

end

text \<open>
  The relations on worlds that only look at the file system and allow hidden files, directories,
  publications and the lock file. Every operation of a session keeps them.
\<close>

locale session_policy = session_appends R F
  for R :: "'z session_world_scheme \<Rightarrow> 'z session_world_scheme \<Rightarrow> bool" and F :: "path set" +
  assumes R_fs: "w_fs w' = w_fs w \<Longrightarrow> R w w'"
    and lock_F: "last p = LOCK_FILE \<Longrightarrow> p \<in> F"
begin

lemma keeps_modify: "(\<And>w. w_fs (f w) = w_fs w) \<Longrightarrow> keeps R (modifyS f)"
  by (simp add: keeps_def R_fs)

lemma keeps_finally: "keeps R m \<Longrightarrow> keeps R c \<Longrightarrow> keeps R (finallyS m c)"
  unfolding finallyS_def by (intro keeps_bind keeps_on_error keeps_then keeps_return)

lemma keeps_acquire_lock: "keeps R (acquire_lock d)"
  unfolding acquire_lock_def by (intro keeps_session_basic keeps_syscall)

lemma keeps_new_session: "keeps R new_session"
  unfolding new_session_def by (rule keeps_modify) simp

lemma keeps_session_close: "keeps R session_close"
  unfolding session_close_def archive_close_def by (intro keeps_then keeps_modify) simp_all

lemma keeps_replay_resolution_intents: "keeps R (replay_resolution_intents snapshot c)"
  unfolding replay_resolution_intents_def load_intent_record_def scan_journal_event_def replay_intent_def check_resolved_event_def
  by (intro keeps_session_basic keeps_resolution_namespace keeps_load_intent keeps_session_append keeps_modify) simp

lemma keeps_resolve_pending: "keeps R (resolve_pending_with_intent pending snapshot observed event action)"
  unfolding resolve_pending_with_intent_def
  by (intro keeps_session_basic keeps_write_or_reopen_intent keeps_session_append keeps_modify) simp

lemma keeps_quarantine: "keeps R (quarantine_uninitialized_session pending)"
  unfolding quarantine_uninitialized_session_def publish_tombstone_def has_uninitialized_tombstone_def
    validate_uninitialized_tombstone_def list_names_or_missing_def
  by (intro keeps_session_basic)

lemma keeps_recover_partial: "keeps R (recover_partial_pending pending snapshot observed)"
  unfolding recover_partial_pending_def
  by (intro keeps_session_basic keeps_quarantine keeps_matching_intent keeps_resolve_pending)

lemma keeps_recover_one_pending: "keeps R (recover_one_pending pending snapshot discard)"
  unfolding recover_one_pending_def resolve_valid_pending_def require_matching_resolution_intent_def Let_def
  by (intro keeps_session_basic keeps_recover_partial keeps_activate keeps_resolve_pending keeps_matching_intent)
    (auto intro!: keeps_session_basic keeps_recover_partial keeps_resolve_pending keeps_matching_intent split: exn.splits)

lemma keeps_create_lock_file: "keeps R (create_lock_file LOCK_FILE)"
proof -
  have "keeps R (case x of (parent, name) \<Rightarrow> thenS (open_new_private (parent @ [name]))
      (on_errorS (thenS (os_fsync (parent @ [name])) (thenS (fsync_directory parent) (returnS (parent @ [name]))))
        (remove_unpublished (parent @ [name]))))"
    if "parent_and_name LOCK_FILE True w = (Inr x, w')" for x w w'
  proof -
    have "snd x = LOCK_FILE" using that lock_file_parts by (auto simp: parent_and_name_def bindS_Inr_iff)
    then show ?thesis
      by (cases x) (auto intro!: keeps_rules keeps_open_new_private keeps_reads keeps_fsync_directory keeps_remove_unpublished lock_F)
  qed
  then show ?thesis unfolding create_lock_file_def
    by (intro keeps_then keeps_require_mutable keeps_bind_result [OF keeps_parent_and_name])
qed

lemma keeps_archive_open: "keeps R (archive_open root_text)"
  unfolding archive_open_def open_target_def by (intro keeps_session_basic keeps_open_directory_at keeps_modify) simp

lemma keeps_archive_create: "keeps R (archive_create root_text)"
  unfolding archive_create_def open_target_def Let_def
  by (intro keeps_session_basic keeps_open_directory_at keeps_open_or_create keeps_mkdir keeps_fsync_directory keeps_modify) simp_all

lemma keeps_session_create: "keeps R (session_create root_text intent)"
  unfolding session_create_def
  by (intro keeps_session_basic keeps_archive_create keeps_create_lock_file keeps_acquire_lock keeps_new_session
      keeps_append_locked keeps_session_close)

lemma keeps_session_open: "keeps R (session_open root_text)"
  unfolding session_open_def
  by (intro keeps_session_basic keeps_archive_open keeps_acquire_lock keeps_new_session keeps_replay_final_events
      keeps_replay_resolution_intents keeps_activate keeps_session_close keeps_modify) simp_all

lemma keeps_session_recover: "keeps R (session_recover root_text discard)"
  unfolding session_recover_def recover_lock_def recover_journal_directory_def recover_journal_def
  by (intro keeps_session_basic keeps_archive_open keeps_create_lock_file keeps_acquire_lock keeps_new_session keeps_replay_final_events
      keeps_replay_resolution_intents keeps_activate keeps_session_close keeps_modify keeps_quarantine keeps_recover_one_pending) simp_all

end


interpretation session_kept: session_policy "fs_rel (published_kept {p. last p = LOCK_FILE})" "{p. hidden p \<or> last p = LOCK_FILE}"
  by unfold_locales (auto simp: fs_rel_def published_kept_def)

definition same_session :: "'z session_world_scheme \<Rightarrow> 'z session_world_scheme \<Rightarrow> bool" where
  "same_session w w' =
     (w_fs w' = w_fs w \<and> w_euid w' = w_euid w \<and> ar_root w' = ar_root w \<and> ar_root_text w' = ar_root_text w \<and>
      ss_snapshot w' = ss_snapshot w \<and> ss_locked w' = ss_locked w \<and> ss_clock w' = ss_clock w)"

interpretation quiet: session_reads same_session "{}" "{}" "{}"
  by unfold_locales (auto simp: same_session_def)

section \<open>The names of events\<close>

lemma component_plain:
  assumes "PATH_COMPONENT_RE c"
  shows "47 \<notin> set c" "92 \<notin> set c" "0 \<notin> set c" "c \<noteq> []" "c \<noteq> [46]" "c \<noteq> [46, 46]" "list_all (\<lambda>x. x < 128) c" "length c \<le> 128"
  using assms by (auto simp: PATH_COMPONENT_RE_def is_alnum_def is_dig_def list_all_iff split: list.splits)

lemma utf8_encode_ascii: "list_all (\<lambda>c. c < 128) s \<Longrightarrow> \<exists>bs. utf8_encode s = Inr bs \<and> length bs = length s"
proof (induction s)
  case (Cons c s)
  then obtain bs where "utf8_encode s = Inr bs" "length bs = length s" by auto
  then obtain ys where "mapE utf8_char s = Inr ys" "length (concat ys) = length s"
    by (auto simp: utf8_encode_def bindE_eq_Inr)
  moreover have "utf8_char c = Inr [word_of_nat c]"
    using Cons.prems by (simp add: utf8_char_def scalar_def is_surrogate_def)
  ultimately show ?case by (simp add: utf8_encode_def)
qed (simp add: utf8_encode_def)

lemma relative_parts_two:
  assumes "PATH_COMPONENT_RE a" "PATH_COMPONENT_RE b"
  shows "relative_parts (a @ [47] @ b) = Inr [a, b]"
proof -
  note a = component_plain [OF assms(1)] and b = component_plain [OF assms(2)]
  have s: "split_on 47 (a @ 47 # b) = [a, b]" using a(1) b(1) by (simp add: split_on_append split_on_no_sep)
  then have p: "path_parts (a @ [47] @ b) = [a, b]" using a b by (simp add: path_parts_def)
  obtain bs where bs: "utf8_encode (a @ [47] @ b) = Inr bs" "length bs = length a + length b + 1"
    using utf8_encode_ascii [of "a @ [47] @ b"] a(7) b(7) by auto
  obtain x y where "utf8_encode a = Inr x" "length x = length a" "utf8_encode b = Inr y" "length y = length b"
    using utf8_encode_ascii a(7) b(7) by blast
  moreover have "\<not> path_absolute (a @ [47] @ b)" using a(1,4) by (cases a) (auto simp: path_absolute_def)
  moreover have "path_str (a @ [47] @ b) = a @ [47] @ b"
    using a(1,4) p by (cases a) (auto simp: path_str_def path_absolute_def Let_def)
  ultimately show ?thesis using a b bs p assms
    by (simp add: relative_parts_def MAX_RELATIVE_PATH_BYTES_def MAX_PATH_COMPONENT_BYTES_def)
qed

lemma event_name_component:
  assumes "n < 10 ^ 8"
  shows "PATH_COMPONENT_RE (event_name n)" "length (event_name n) = 13"
proof -
  have l: "length (fmt_dec 8 n) = 8" using length_fmt_dec [of 8 n] assms by simp
  then obtain c cs where c: "fmt_dec 8 n = c # cs" by (cases "fmt_dec 8 n") auto
  have d: "is_dig x" if "x \<in> set (u (fmt_dec 8 n))" for x using that by (rule is_dig_fmt_dec)
  have "event_name n = char_code c # u cs @ u ''.json''" by (simp add: event_name_def c)
  moreover have "is_alnum (char_code c)" "list_all (\<lambda>d. is_alnum d \<or> d \<in> {46, 95, 45}) (u cs)"
    using d by (auto simp: c is_alnum_def list_all_iff)
  moreover have "list_all (\<lambda>d. is_alnum d \<or> d \<in> {46, 95, 45}) (u ''.json'')" by code_simp
  moreover have "length cs = 7" using l c by simp
  ultimately show "PATH_COMPONENT_RE (event_name n)" "length (event_name n) = 13"
    by (simp_all add: PATH_COMPONENT_RE_def del: u_simps)
qed

lemma event_name_inj: "event_name n = event_name m \<Longrightarrow> n = m"
proof -
  assume "event_name n = event_name m"
  then have "fmt_dec 8 n = fmt_dec 8 m" unfolding event_name_def u_inj append_same_eq .
  then have "text_value (u (fmt_dec 8 n)) = text_value (u (fmt_dec 8 m))" by (rule arg_cong)
  then show "n = m" unfolding text_value_fmt_dec .
qed

lemma journal_component: "PATH_COMPONENT_RE JOURNAL_DIRECTORY"
  by code_simp

lemma event_relative_parts:
  "n < 10 ^ 8 \<Longrightarrow> relative_parts (event_relative n) = Inr [JOURNAL_DIRECTORY, event_name n]"
  unfolding event_relative_def by (rule relative_parts_two [OF journal_component event_name_component(1)])

section \<open>The journal on disk\<close>

definition journal_on :: "'z archive_world_scheme \<Rightarrow> bytes list \<Rightarrow> bool" where
  "journal_on w js =
     (distinct (map fst (w_fs w)) \<and>
      (\<forall>i < length js. map_of (w_fs w) (ar_root w @ [JOURNAL_DIRECTORY, event_name (Suc i)]) =
         Some (FileNode PRIVATE_FILE_MODE 1 (w_euid w) (js ! i))) \<and>
      (\<forall>name n. map_of (w_fs w) (ar_root w @ [JOURNAL_DIRECTORY, name]) = Some n \<longrightarrow> take 1 name \<noteq> [46] \<longrightarrow>
         (\<exists>i < length js. name = event_name (Suc i))))"

definition distinct_paths :: "'z archive_world_scheme \<Rightarrow> 'z archive_world_scheme \<Rightarrow> bool" where
  "distinct_paths w w' = (distinct (map fst (w_fs w)) \<longrightarrow> distinct (map fst (w_fs w')))"

interpretation distinct: archive_policy distinct_paths UNIV
  by unfold_locales (auto simp: distinct_paths_def intro: distinct_update distinct_delete)

lemma changes_same:
  "fs_rel (changes D F) w w' \<Longrightarrow> q \<notin> F \<Longrightarrow> q \<notin> D \<Longrightarrow> map_of (w_fs w') q = map_of (w_fs w) q"
  unfolding fs_rel_def changes_def by blast

lemma journal_on_write:
  assumes "journal_on w js" "length js < 10 ^ 8 - 1"
    and "write_bytes (event_relative (Suc (length js))) data maximum w = (r, w')"
  shows "(case r of Inr f \<Rightarrow> f = archived (event_relative (Suc (length js))) data \<and> journal_on w' (js @ [data])
    | Inl _ \<Rightarrow> journal_on w' js \<or> journal_on w' (js @ [data]))"
proof -
  let ?p = "ar_root w @ [JOURNAL_DIRECTORY, event_name (Suc (length js))]"
  have parts: "relative_parts (event_relative (Suc (length js))) = Inr [JOURNAL_DIRECTORY, event_name (Suc (length js))]"
    by (rule event_relative_parts) (use assms(2) in simp)
  have e: "write_effect r (event_relative (Suc (length js))) data ?p (above (ar_root w) [JOURNAL_DIRECTORY]) w w'"
    using write_bytes_effect [OF assms(3) parts] by simp
  then have ch: "fs_rel (changes (above (ar_root w) [JOURNAL_DIRECTORY]) (insert ?p (own_hidden ?p))) w w'"
    by (simp only: write_effect_def)
  have o: "ar_root w' = ar_root w" "w_euid w' = w_euid w"
    using keepsD [OF object.keeps_write_bytes assms(3)] by (simp_all add: same_object_def)
  have d: "distinct (map fst (w_fs w'))"
    using keepsD [OF distinct.keeps_write_bytes assms(3)] assms(1) by (simp add: distinct_paths_def journal_on_def)
  have other: "map_of (w_fs w') (ar_root w @ [JOURNAL_DIRECTORY, name]) = map_of (w_fs w) (ar_root w @ [JOURNAL_DIRECTORY, name])"
    if "take 1 name \<noteq> [46]" "name \<noteq> event_name (Suc (length js))" for name
  proof -
    let ?q = "ar_root w @ [JOURNAL_DIRECTORY, name]"
    have "?q \<notin> insert ?p (own_hidden ?p)" using that by (simp add: own_hidden_def hidden_def)
    moreover have "?q \<notin> above (ar_root w) [JOURNAL_DIRECTORY]" by (auto simp: above_def dest!: arg_cong [of _ _ length])
    ultimately show ?thesis by (rule changes_same [OF ch])
  qed
  have first: "take 1 (event_name n) \<noteq> [46]" if "n < 10 ^ 8" for n
    using event_name_component(1) [OF that] by (auto simp: PATH_COMPONENT_RE_def is_alnum_def is_dig_def split: list.splits)
  have ev: "map_of (w_fs w') (ar_root w @ [JOURNAL_DIRECTORY, event_name (Suc i)]) = Some (FileNode PRIVATE_FILE_MODE 1 (w_euid w) (js ! i))"
    if "i < length js" for i
    using other [OF first, of "Suc i"] event_name_inj [of "Suc i" "Suc (length js)"] that assms(1,2) by (auto simp: journal_on_def)
  have names: "\<exists>i < length js. name = event_name (Suc i)"
    if "map_of (w_fs w') (ar_root w @ [JOURNAL_DIRECTORY, name]) = Some n" "take 1 name \<noteq> [46]" "name \<noteq> event_name (Suc (length js))" for name n
    using other [OF that(2,3)] that(1,2) assms(1) by (simp add: journal_on_def)
  have old: "journal_on w' js" if "map_of (w_fs w') ?p = map_of (w_fs w) ?p"
    unfolding journal_on_def o
  proof (intro conjI allI impI)
    fix name n assume n: "map_of (w_fs w') (ar_root w @ [JOURNAL_DIRECTORY, name]) = Some n" "take 1 name \<noteq> [46]"
    show "\<exists>i < length js. name = event_name (Suc i)"
    proof (cases "name = event_name (Suc (length js))")
      case True
      then show ?thesis using n that assms(1) by (simp add: journal_on_def)
    qed (rule names [OF n])
  qed (use d ev in auto)
  have new: "journal_on w' (js @ [data])" if "map_of (w_fs w') ?p = Some (FileNode PRIVATE_FILE_MODE 1 (w_euid w) data)"
    unfolding journal_on_def o
  proof (intro conjI allI impI)
    fix name n assume n: "map_of (w_fs w') (ar_root w @ [JOURNAL_DIRECTORY, name]) = Some n" "take 1 name \<noteq> [46]"
    show "\<exists>i < length (js @ [data]). name = event_name (Suc i)"
      using names [OF n] by (cases "name = event_name (Suc (length js))") (auto intro: less_SucI)
  qed (use d ev that in \<open>auto simp: nth_append less_Suc_eq\<close>)
  show ?thesis using e old new by (cases r) (auto simp: write_effect_def Let_def)
qed

lemma journal_on_same:
  "w_fs w' = w_fs w \<Longrightarrow> w_euid w' = w_euid w \<Longrightarrow> ar_root w' = ar_root w \<Longrightarrow> journal_on w' js = journal_on w js"
  by (simp add: journal_on_def)

lemma now_clock:
  assumes "now w = (r, w')" "list_all valid_datetime (ss_clock w)"
  obtains t where "r = Inr t" "valid_datetime t" "w_fs w' = w_fs w" "w_euid w' = w_euid w" "ar_root w' = ar_root w"
proof -
  have "valid_datetime (Utc 1970 1 1 0 0 0 0)" by code_simp
  then show thesis using assms that by (auto simp: now_def split: list.splits)
qed

text \<open>What an attempt to append leaves in the journal: nothing new, or one event that is a legal successor.\<close>

definition append_outcome ::
  "bytes list \<Rightarrow> session_snapshot \<Rightarrow> capture_event \<Rightarrow> ustr \<Rightarrow> session_snapshot res \<Rightarrow> 'z session_world_scheme \<Rightarrow> bool" where
  "append_outcome js s event binding r w' =
     ((\<exists>e. r = Inl e) \<and> journal_on w' js \<or>
      (\<exists>data t. journal_on w' (js @ [data]) \<and> replay (js @ [data]) = Inr (Some t) \<and>
         transition_for event (Some (sn_state s)) = Inr (sn_state t) \<and> sn_last_binding_sha256 t = binding \<and>
         canonical_event_bytes (event_document (Some s) (Suc (length js)) event (sn_state t) (sn_last_recorded_at t) binding) = Inr data \<and>
         event_of_bytes data = Some event \<and> (\<forall>x. r = Inr x \<longrightarrow> x = t \<and> ss_snapshot w' = Some t)))"

lemma append_publish:
  assumes j: "journal_on w js" "length js < MAX_JOURNAL_EVENTS" and sn: "replay (js @ [data]) = Inr (Some t)"
    and t: "transition_for event (Some (sn_state s)) = Inr (sn_state t)" "sn_last_binding_sha256 t = binding"
      "canonical_event_bytes (event_document (Some s) (Suc (length js)) event (sn_state t) (sn_last_recorded_at t) binding) = Inr data" "event_of_bytes data = Some event"
    and run: "bindS (write_bytes (event_relative (Suc (length js))) data maximum) (\<lambda>f.
      if af_sha256 f \<noteq> u (sha256_hex data) \<or> af_size f \<noteq> length data then session_error c m
      else thenS (modifyS (\<lambda>w. w\<lparr>ss_snapshot := Some t\<rparr>))
       (thenS (activate_frozen_observations (Some t)) (returnS t))) w = (r, w')"
  shows "append_outcome js s event binding r w'"
  using run
proof (cases rule: bindS_cases)
  case (raised e)
  have "journal_on w' js \<or> journal_on w' (js @ [data])"
    using journal_on_write [OF j(1) _ raised(1)] j(2) by (simp add: MAX_JOURNAL_EVENTS_def)
  then show ?thesis using raised(2) sn t unfolding append_outcome_def by auto
next
  case (next_step f w1)
  let ?w = "w1\<lparr>ss_snapshot := Some t\<rparr>"
  have f: "f = archived (event_relative (Suc (length js))) data" and w1: "journal_on w1 (js @ [data])"
    using journal_on_write [OF j(1) _ next_step(1)] j(2) by (simp_all add: MAX_JOURNAL_EVENTS_def)
  obtain r2 w2 where a: "activate_frozen_observations (Some t) ?w = (r2, w2)" by fastforce
  have q: "same_session ?w w2" by (rule keepsD [OF quiet.keeps_activate a])
  have "w' = w2" "r = Inr t \<or> (\<exists>e. r = Inl e)"
    using next_step(2) a f by (auto simp: thenS_def bindS_def archived_def split: sum.splits)
  moreover have "journal_on w2 (js @ [data])" using w1 q by (simp add: same_session_def journal_on_def)
  ultimately show ?thesis using sn t q unfolding append_outcome_def same_session_def by auto
qed


lemma append_now:
  assumes j: "journal_on w js" "length js < MAX_JOURNAL_EVENTS" "replay js = Inr (Some s)"
    and c: "list_all valid_datetime (ss_clock w)" and b: "SHA256_RE binding"
    and tr: "transition_for event (Some (sn_state s)) = Inr nxt"
    and run: "bindS now (\<lambda>t.
      if without_microsecond t < sn_last_recorded_at s then session_error c1 m1
      else bindS (liftS (canonical_event_bytes
          (event_document (Some s) (Suc (length js)) event nxt (without_microsecond t) binding))) (\<lambda>data.
      bindS (write_bytes (event_relative (Suc (length js))) data maximum) (\<lambda>f.
      if af_sha256 f \<noteq> u (sha256_hex data) \<or> af_size f \<noteq> length data then session_error c2 m2
      else thenS (modifyS (\<lambda>w. w\<lparr>ss_snapshot := Some (event_snapshot (Some s) (Suc (length js)) event nxt (without_microsecond t) binding data)\<rparr>))
       (thenS (activate_frozen_observations (Some (event_snapshot (Some s) (Suc (length js)) event nxt (without_microsecond t) binding data)))
         (returnS (event_snapshot (Some s) (Suc (length js)) event nxt (without_microsecond t) binding data)))))) w = (r, w')"
  shows "append_outcome js s event binding r w'"
proof -
  obtain r0 w1 where n: "now w = (r0, w1)" by fastforce
  obtain t where t: "r0 = Inr t" "valid_datetime t" "w_fs w1 = w_fs w" "w_euid w1 = w_euid w" "ar_root w1 = ar_root w"
    using n c by (rule now_clock)
  let ?t = "without_microsecond t"
  have j1: "journal_on w1 js" using j(1) t by (simp add: journal_on_def)
  note run1 = run [unfolded bindS_Inr [where m = now, OF n [unfolded t(1)]]]
  show ?thesis
  proof (cases "?t < sn_last_recorded_at s")
    case True
    then show ?thesis using run1 j1 by (auto simp: session_error_def append_outcome_def)
  next
    case False
    have v: "valid_datetime ?t" "without_microsecond ?t = ?t"
      using t(2) by (simp_all add: valid_datetime_def without_microsecond_def)
    let ?sn = "event_snapshot (Some s) (Suc (length js)) event nxt ?t binding"
    obtain data where data: "canonical_event_bytes (event_document (Some s) (Suc (length js)) event nxt ?t binding) = Inr data"
        "validate_event_bytes data (Some s) (Suc (length js)) = Inr (?sn data)"
      using event_bytes_accepted [OF b previous_digest_replay [OF j(3)] Suc_leI [OF j(2)] v(1), of event nxt] tr leI [OF False] v(2) by auto
    have ev: "event_of_bytes data = Some event"
      by (rule event_of_accepted [OF data(1) b previous_digest_replay [OF j(3)] Suc_leI [OF j(2)]])
    have "replay (js @ [data]) = Inr (Some (?sn data))" using j(3) data(2) by (simp add: replay_snoc)
    then show ?thesis
      by (rule append_publish [OF j1 j(2), where t = "?sn data"])
        (use tr data(1) ev run1 False in \<open>simp_all add: event_snapshot_def liftS_def bindS_def\<close>)
  qed
qed

lemma append_locked_outcome:
  assumes j: "journal_on w js" "replay js = Inr (Some s)" and sn: "ss_snapshot w = Some s"
    and c: "list_all valid_datetime (ss_clock w)" and b: "SHA256_RE binding"
    and run: "append_locked event binding w = (r, w')"
  shows "append_outcome js s event binding r w'"
proof -
  have len: "sn_sequence s = length js" using replay_tip [OF j(2)] by simp
  then have nx: "next_sequence (Some s) = Suc (length js)" by (simp add: next_sequence_def)
  have cur: "current_snapshot event w = (Inr (Some s), w)" by (simp add: current_snapshot_def bindS_def sn)
  obtain r1 w1 where a: "activate_frozen_observations (Some s) w = (r1, w1)" by fastforce
  have q: "same_session w w1" by (rule keepsD [OF quiet.keeps_activate a])
  then have j1: "journal_on w1 js" using j(1) by (simp add: same_session_def journal_on_def)
  have c': "list_all valid_datetime (ss_clock w1)" using q c by (simp add: same_session_def)
  have stay: "append_outcome js s event binding (Inl e) w2" if "journal_on w2 js" for e w2
    using that by (auto simp: append_outcome_def)
  note run' = run [unfolded append_locked_def bindS_Inr [where m = "current_snapshot event", OF cur]
    thenS_def [of "activate_frozen_observations (Some s)"] Let_def nx option.map option.case]
  show ?thesis
    using run'
  proof (cases rule: bindS_cases)
    case (raised e)
    then show ?thesis using a j1 stay by simp
  next
    case (next_step m w1')
    then have w1': "w1' = w1" using a by simp
    show ?thesis
      using next_step(2)
    proof (cases rule: bindS_cases)
      case (raised e)
      then show ?thesis using w1' j1 stay by (simp add: liftS_def)
    next
      case (next_step nxt w2)
      then have tr: "transition_for event (Some (sn_state s)) = Inr nxt" "w2 = w1" using w1' by (simp_all add: liftS_def)
      show ?thesis
      proof (cases "length js < MAX_JOURNAL_EVENTS")
        case False
        then show ?thesis using next_step(2) tr(2) j1 stay by (auto simp: session_error_def)
      next
        case True
        then show ?thesis using append_now [OF j1 True j(2) c' b tr(1)] next_step(2) tr(2)
          by simp
      qed
    qed
  qed
qed

section \<open>Replaying what is on disk\<close>

lemma parent_and_name_result:
  assumes "parent_and_name relative False w = (Inr x, w')" "relative_parts relative = Inr (ps @ [n])"
  shows "x = (ar_root w @ ps, n)"
  using assms by (auto simp: parent_and_name_def bindS_Inr_iff liftS_Inr dest: open_relative_result)

lemma read_opened_result:
  assumes "read_opened p n maximum w = (Inr data, w')"
  shows "\<exists>m l i. map_of (w_fs w) p = Some (FileNode m l i data)"
  using assms by (auto simp: read_opened_def os_read_all_def Let_def bindS_Inr_iff split: if_splits option.splits node.splits
      elim!: syscall_Inr)

lemma read_bytes_result:
  fixes w :: "'z session_world_scheme"
  assumes "read_bytes relative maximum w = (Inr data, w')" "relative_parts relative = Inr (ps @ [n])"
  shows "\<exists>m l i. map_of (w_fs w) (ar_root w @ ps @ [n]) = Some (FileNode m l i data)"
proof -
  obtain x w1 where x: "parent_and_name relative False w = (Inr x, w1)"
    and rest: "(case x of (parent, name) \<Rightarrow> bindS (open_existing_private_at (parent @ [name])) (\<lambda>before.
     bindS (read_opened (parent @ [name]) before maximum) (\<lambda>data.
     thenS (open_existing_private_at (parent @ [name])) (returnS data)))) w1 = (Inr data, w')"
    using assms(1) unfolding read_bytes_def bindS_Inr_iff by blast
  have xv: "x = (ar_root w @ ps, n)" by (rule parent_and_name_result [OF x assms(2)])
  obtain b w2 w3 where o: "open_existing_private_at (ar_root w @ ps @ [n]) w1 = (Inr b, w2)"
    and r: "read_opened (ar_root w @ ps @ [n]) b maximum w2 = (Inr data, w3)"
    using rest unfolding xv by (auto simp: bindS_Inr_iff thenS_Inr)
  have "w_fs w1 = w_fs w" using keepsD [OF quiet.keeps_parent_existing x] by (simp add: same_session_def)
  moreover have "w_fs w2 = w_fs w1" using keepsD [OF quiet.keeps_open_existing o] by (simp add: same_session_def)
  ultimately show ?thesis using read_opened_result [OF r] by simp
qed

lemma os_listdir_result:
  assumes "os_listdir p w = (Inr names, w')"
  shows "set names = {n. map_of (w_fs w) (p @ [n]) \<noteq> None}" "distinct (map fst (w_fs w)) \<Longrightarrow> distinct names"
proof -
  have e: "names = map (\<lambda>(q, _). last q) (filter (\<lambda>(q, _). q \<noteq> [] \<and> butlast q = p) (w_fs w))"
    using assms by (auto simp: os_listdir_def bindS_def elim!: syscall_Inr)
  have "n \<in> set names \<longleftrightarrow> p @ [n] \<in> fst ` set (w_fs w)" for n
  proof
    assume "n \<in> set names"
    then obtain q x where "(q, x) \<in> set (w_fs w)" "q \<noteq> []" "butlast q = p" "last q = n" unfolding e by auto
    then show "p @ [n] \<in> fst ` set (w_fs w)" by (metis append_butlast_last_id fst_conv image_eqI)
  next
    assume "p @ [n] \<in> fst ` set (w_fs w)"
    then show "n \<in> set names" unfolding e by force
  qed
  then show "set names = {n. map_of (w_fs w) (p @ [n]) \<noteq> None}" by (auto simp: map_of_eq_None_iff)
  have "distinct (map (\<lambda>(q, _). last q) (filter (\<lambda>(q, _). q \<noteq> [] \<and> butlast q = p) fs))"
    if "distinct (map fst fs)" for fs :: file_system
    using that
  proof (induction fs)
    case (Cons x fs)
    then show ?case by (cases x) (auto simp: image_iff, metis append_butlast_last_id fst_conv)
  qed simp
  then show "distinct (map fst (w_fs w)) \<Longrightarrow> distinct names" unfolding e .
qed

lemma list_names_result:
  fixes w :: "'z session_world_scheme"
  assumes "list_names d w = (Inr names, w')" "relative_parts d = Inr ps" "distinct (map fst (w_fs w))"
  shows "set names = {n. map_of (w_fs w) (ar_root w @ ps @ [n]) \<noteq> None}" "distinct names"
proof -
  obtain w1 ns where o: "open_relative_directory ps False w = (Inr (ar_root w @ ps), w1)"
    and l: "except_os (os_listdir (ar_root w @ ps)) (\<lambda>_.
       raiseS (ArchiveError ''directory_list_failed'' ''cannot enumerate archive directory'')) w1 = (Inr ns, w')" and n: "names = sort ns"
    using assms(1,2) unfolding list_names_def
    by (auto simp: bindS_Inr_iff liftS_Inr dest: open_relative_result split: if_splits)
  have fs: "w_fs w1 = w_fs w" using keepsD [OF quiet.keeps_open_relative_existing o] by (simp add: same_session_def)
  from l have "os_listdir (ar_root w @ ps) w1 = (Inr ns, w')" by (rule except_os_Inr) auto
  from os_listdir_result [OF this] n fs assms(3)
  show "set names = {n. map_of (w_fs w) (ar_root w @ ps @ [n]) \<noteq> None}" "distinct names" by simp_all
qed


lemma event_file_name:
  assumes "n < 10 ^ 8" shows "EVENT_FILE_RE (event_name n) = Some n"
proof -
  have l: "length (fmt_dec 8 n) = 8" using assms by (simp add: length_fmt_dec)
  have a: "event_name n = u (fmt_dec 8 n) @ u ''.json''" by (simp add: event_name_def u_def)
  have r: "''########'' = replicate 8 (CHR ''#'')" by code_simp
  have "matches_digits (''########'' @ ''.json'') (u (fmt_dec 8 n) @ u ''.json'')"
    unfolding matches_digits_def r
    by (intro list_all2_appendI list_all2_fmt) (simp_all add: l is_dig_fmt_dec char_code_def)
  moreover have "take 8 (event_name n) = u (fmt_dec 8 n)" using l by (simp add: event_name_def u_def)
  ultimately show ?thesis by (simp add: EVENT_FILE_RE_def a del: u_simps)
qed

lemma hidden_name_not_event: "take 1 name = [46] \<Longrightarrow> EVENT_FILE_RE name = None"
  by (cases name) (simp_all add: EVENT_FILE_RE_def matches_digits_def is_dig_def)

lemma journal_names_result:
  "foldE (\<lambda>finals name.
       case EVENT_FILE_RE name of
         Some sequence \<Rightarrow> Inr (finals @ [(sequence, name)])
       | None \<Rightarrow> if PENDING_EVENT_FILE_RE name then Inr finals else Inl err) acc names = Inr finals \<Longrightarrow>
   finals = acc @ [(the (EVENT_FILE_RE n), n). n \<leftarrow> names, EVENT_FILE_RE n \<noteq> None]"
  by (induction names arbitrary: acc) (fastforce simp: res_simps split: option.splits if_splits)+


lemma journal_on_name:
  "journal_on w js \<Longrightarrow> map_of (w_fs w) (ar_root w @ [JOURNAL_DIRECTORY, name]) = Some n \<Longrightarrow> take 1 name \<noteq> [46] \<Longrightarrow>
   \<exists>i < length js. name = event_name (Suc i)"
  by (simp add: journal_on_def)

lemma journal_on_event:
  "journal_on w js \<Longrightarrow> i < length js \<Longrightarrow> map_of (w_fs w) (ar_root w @ [JOURNAL_DIRECTORY, event_name (Suc i)]) =
     Some (FileNode PRIVATE_FILE_MODE 1 (w_euid w) (js ! i))"
  by (simp add: journal_on_def)

lemma journal_files_sorted:
  fixes w :: "'z session_world_scheme"
  assumes j: "journal_on w js" "length js < 10 ^ 8 - 1"
    and l: "list_names JOURNAL_DIRECTORY w = (Inr names, w')" and f: "journal_names names = Inr finals"
  shows "sort finals = map (\<lambda>i. (Suc i, event_name (Suc i))) [0..<length js]"
proof -
  have parts: "relative_parts JOURNAL_DIRECTORY = Inr [JOURNAL_DIRECTORY]" by code_simp
  have d: "distinct (map fst (w_fs w))" using j(1) by (simp add: journal_on_def)
  have n: "set names = {n. map_of (w_fs w) (ar_root w @ [JOURNAL_DIRECTORY, n]) \<noteq> None}" "distinct names"
    using list_names_result [OF l parts d] by simp_all
  let ?all = "[(the (EVENT_FILE_RE n), n). n \<leftarrow> names, EVENT_FILE_RE n \<noteq> None]"
  have fin: "finals = ?all"
    using journal_names_result [OF f [unfolded journal_names_def]] by simp
  have "distinct (map snd ?all)"
  proof -
    have "map snd ?all = filter (\<lambda>n. EVENT_FILE_RE n \<noteq> None) names" by (induction names) auto
    then show ?thesis using n(2) by simp
  qed
  then have df: "distinct finals" unfolding fin by (simp only: distinct_map)
  have "set finals = set (map (\<lambda>i. (Suc i, event_name (Suc i))) [0..<length js])"
  proof (intro equalityI subsetI)
    fix x assume "x \<in> set finals"
    then obtain name where x: "x = (the (EVENT_FILE_RE name), name)" "name \<in> set names" "EVENT_FILE_RE name \<noteq> None"
      unfolding fin by auto
    have "take 1 name \<noteq> [46]" using x(3) by (rule contrapos_nn) (rule hidden_name_not_event)
    moreover obtain node where "map_of (w_fs w) (ar_root w @ [JOURNAL_DIRECTORY, name]) = Some node" using x(2) n(1) by auto
    ultimately obtain i where "i < length js" "name = event_name (Suc i)" using journal_on_name [OF j(1)] by metis
    then show "x \<in> set (map (\<lambda>i. (Suc i, event_name (Suc i))) [0..<length js])"
      using x(1) event_file_name [of "Suc i"] j(2) by auto
  next
    fix x assume "x \<in> set (map (\<lambda>i. (Suc i, event_name (Suc i))) [0..<length js])"
    then obtain i where i: "i < length js" "x = (Suc i, event_name (Suc i))" by auto
    have "event_name (Suc i) \<in> set names" unfolding n(1) using journal_on_event [OF j(1) i(1)] by simp
    then show "x \<in> set finals" unfolding fin using i event_file_name [of "Suc i"] j(2) by (force simp: image_iff)
  qed
  moreover have "sorted (map (\<lambda>i. (Suc i, event_name (Suc i))) [0..<length js])"
    by (auto simp: sorted_iff_nth_mono less_eq_prod_def le_less)
  moreover have "distinct (map (\<lambda>i. (Suc i, event_name (Suc i))) [0..<length js])"
    by (auto simp: distinct_map inj_on_def)
  ultimately show ?thesis using df by (intro sorted_distinct_set_unique) simp_all
qed

lemma replay_fold:
  fixes w :: "'z session_world_scheme"
  assumes "journal_on w js" "length js < 10 ^ 8 - 1" "k \<le> length js"
    and "foldS replay_step c (map (\<lambda>i. (Suc i, Suc i, event_name (Suc i))) [k..<length js]) w = (Inr r, w')"
  shows "replay_from c (Suc k) (drop k js) = Inr r"
  using assms
proof (induction "length js - k" arbitrary: k c w)
  case 0
  then show ?case by simp
next
  case (Suc m)
  then have k: "k < length js" by simp
  obtain w1 data s where rd: "read_bytes (JOURNAL_DIRECTORY @ [47] @ event_name (Suc k)) MAX_EVENT_BYTES w = (Inr data, w1)"
    and v: "validate_event_bytes data c (Suc k) = Inr s"
    and rest: "foldS replay_step (Some s) (map (\<lambda>i. (Suc i, Suc i, event_name (Suc i))) [Suc k..<length js]) w1 = (Inr r, w')"
    using Suc.prems(4) k by (auto simp: upt_conv_Cons replay_step_def bindS_Inr_iff liftS_Inr)
  have parts: "relative_parts (JOURNAL_DIRECTORY @ [47] @ event_name (Suc k)) = Inr ([JOURNAL_DIRECTORY] @ [event_name (Suc k)])"
    using event_relative_parts [of "Suc k"] k Suc.prems(2) by (simp add: event_relative_def)
  have "data = js ! k" using read_bytes_result [OF rd parts] Suc.prems(1) k by (auto simp: journal_on_def)
  moreover have "journal_on w1 js" using keepsD [OF quiet.keeps_read_bytes rd] Suc.prems(1)
    by (simp add: same_session_def journal_on_def)
  then have "replay_from (Some s) (Suc (Suc k)) (drop (Suc k) js) = Inr r"
    using Suc.hyps(1) [OF _ _ Suc.prems(2) _ rest] Suc.hyps(2) k by simp
  ultimately show ?case using v k by (simp add: Cons_nth_drop_Suc [symmetric])
qed

lemma replay_final_events_sound:
  fixes w :: "'z session_world_scheme"
  assumes j: "journal_on w js" "length js < 10 ^ 8 - 1" and run: "replay_final_events allow w = (Inr r, w')"
  shows "replay js = Inr r"
proof -
  obtain w1 names w2 finals where o: "session_require_open w = (Inr (), w1)"
    and l: "list_names JOURNAL_DIRECTORY w1 = (Inr names, w2)" and f: "journal_names names = Inr finals"
    and rest: "(if finals = [] then if allow then returnS None else session_error ''empty_journal'' ''physical capture journal contains no committed event''
       else foldS replay_step None (zip [1..<Suc (length finals)] (sort finals))) w2 = (Inr r, w')"
    using run unfolding replay_final_events_def by (auto simp: bindS_Inr_iff thenS_Inr liftS_Inr simp del: u_simps)
  have "journal_on w1 js" using keepsD [OF quiet.keeps_session_require_open o] j(1) by (simp add: same_session_def journal_on_def)
  note s = journal_files_sorted [OF this j(2) l f]
  have j2: "journal_on w2 js" using keepsD [OF quiet.keeps_list_names l] \<open>journal_on w1 js\<close>
    by (simp add: same_session_def journal_on_def)
  have len: "length finals = length js" using arg_cong [OF s, of length] by simp
  have z: "zip [1..<Suc (length finals)] (sort finals) = map (\<lambda>i. (Suc i, Suc i, event_name (Suc i))) [0..<length js]"
    unfolding s len by (rule nth_equalityI) (simp_all del: upt_Suc)
  show ?thesis
  proof (cases "finals = []")
    case True
    then show ?thesis using rest len by (auto simp: session_error_def replay_def split: if_splits)
  next
    case False
    then show ?thesis using rest z replay_fold [OF j2 j(2), of 0 None] by (simp add: replay_def)
  qed
qed

text \<open>A session whose archive is intact and whose journal directory has events and pending events only.\<close>

definition journal_ready :: "'z session_world_scheme \<Rightarrow> bytes list \<Rightarrow> bool" where
  "journal_ready w js =
     (archive_ready w \<and> ss_locked w \<and> private_dir w (ar_root w @ [JOURNAL_DIRECTORY]) \<and> journal_on w js \<and>
      length js \<le> MAX_JOURNAL_EVENTS \<and> list_all (\<lambda>data. data \<noteq> [] \<and> length data \<le> MAX_EVENT_BYTES) js \<and>
      (\<forall>name n. map_of (w_fs w) (ar_root w @ [JOURNAL_DIRECTORY, name]) = Some n \<longrightarrow> take 1 name = [46] \<longrightarrow>
         PENDING_EVENT_FILE_RE name))"

lemma journal_read_ready:
  assumes "journal_ready w js" "k < length js"
  shows "read_bytes (JOURNAL_DIRECTORY @ [47] @ event_name (Suc k)) MAX_EVENT_BYTES w = (Inr (js ! k), w)"
proof -
  have k: "Suc k < 10 ^ 8" using assms by (simp add: journal_ready_def MAX_JOURNAL_EVENTS_def)
  show ?thesis
  proof (rule read_bytes_ready [OF _ event_relative_parts [OF k, unfolded event_relative_def]])
    fix i assume "0 < i" "i < length [JOURNAL_DIRECTORY, event_name (Suc k)]"
    then have "i = 1" by simp
    then show "private_dir w (ar_root w @ take i [JOURNAL_DIRECTORY, event_name (Suc k)])"
      using assms(1) by (simp add: journal_ready_def)
  next
    show "map_of (w_fs w) (ar_root w @ [JOURNAL_DIRECTORY, event_name (Suc k)]) = Some (FileNode PRIVATE_FILE_MODE 1 (w_euid w) (js ! k))"
      by (rule journal_on_event) (use assms in \<open>simp_all add: journal_ready_def\<close>)
  qed (use assms in \<open>auto simp: journal_ready_def list_all_length\<close>)
qed

lemma replay_fold_ready:
  assumes "journal_ready w js" "k \<le> length js"
  shows "foldS replay_step c (map (\<lambda>i. (Suc i, Suc i, event_name (Suc i))) [k..<length js]) w =
    (replay_from c (Suc k) (drop k js), w)"
  using assms(2)
proof (induction "length js - k" arbitrary: k c)
  case (Suc m)
  then have k: "k < length js" by simp
  have "replay_step c (Suc k, Suc k, event_name (Suc k)) w = (bindE (validate_event_bytes (js ! k) c (Suc k)) (\<lambda>s. Inr (Some s)), w)"
    using journal_read_ready [OF assms(1) k] by (simp add: replay_step_def bindS_def liftS_def split: sum.splits)
  then show ?case using Suc k
    by (cases "validate_event_bytes (js ! k) c (Suc k)") (simp_all add: upt_conv_Cons Cons_nth_drop_Suc [symmetric] bindS_def)
qed simp

lemma matches_digits_chars: "matches_digits t s \<Longrightarrow> c \<in> set s \<Longrightarrow> is_dig c \<or> c \<in> char_code ` set t"
  unfolding matches_digits_def by (induction rule: list_all2_induct) (auto split: if_splits)

lemma pending_name_safe:
  assumes "PENDING_EVENT_FILE_RE name" shows "\<not> unsafe_entry name"
proof -
  have m: "length name = 55" "matches_digits ''.########.json.pending-'' (take 23 name)" "list_all is_lower_hex (drop 23 name)"
    using assms by (simp_all add: PENDING_EVENT_FILE_RE_def)
  have "c \<noteq> 47 \<and> c \<noteq> 0" if "c \<in> set (take 23 name)" for c
    using matches_digits_chars [OF m(2) that] by (auto simp: is_dig_def char_code_def)
  moreover have "c \<noteq> 47 \<and> c \<noteq> 0" if "c \<in> set (drop 23 name)" for c
    using m(3) that by (auto simp: list_all_iff is_lower_hex_def is_dig_def)
  moreover have "set name = set (take 23 name) \<union> set (drop 23 name)" by (metis append_take_drop_id set_append)
  ultimately show ?thesis using m(1) by (auto simp: unsafe_entry_def)
qed

lemma component_safe: "PATH_COMPONENT_RE name \<Longrightarrow> \<not> unsafe_entry name"
  using component_plain [of name] by (simp add: unsafe_entry_def)

lemma list_journal_ready:
  fixes w :: "'z session_world_scheme"
  assumes "journal_ready w js"
  shows "\<exists>names finals. list_names JOURNAL_DIRECTORY w = (Inr names, w) \<and> journal_names names = Inr finals"
proof -
  have parts: "relative_parts JOURNAL_DIRECTORY = Inr [JOURNAL_DIRECTORY]" by code_simp
  have a: "archive_ready w" "w_faults w = []" "journal_on w js" "length js < 10 ^ 8 - 1"
    using assms by (simp_all add: journal_ready_def archive_ready_def MAX_JOURNAL_EVENTS_def)
  obtain ns where ns: "os_listdir (ar_root w @ [JOURNAL_DIRECTORY]) w = (Inr ns, w)"
    using a(2) by (simp add: os_listdir_def syscall_no_fault bindS_def)
  have o: "open_relative_directory [JOURNAL_DIRECTORY] False w = (Inr (ar_root w @ [JOURNAL_DIRECTORY]), w)"
  proof (rule open_relative_ready [OF a(1)])
    fix k assume "0 < k" "k \<le> length [JOURNAL_DIRECTORY]"
    then have "k = 1" by simp
    then show "private_dir w (ar_root w @ take k [JOURNAL_DIRECTORY])" using assms by (simp add: journal_ready_def)
  qed
  have n: "PENDING_EVENT_FILE_RE name \<or> (\<exists>i < length js. name = event_name (Suc i))" if nm: "name \<in> set ns" for name
  proof -
    obtain node where node: "map_of (w_fs w) (ar_root w @ [JOURNAL_DIRECTORY, name]) = Some node"
      using nm [unfolded os_listdir_result(1) [OF ns]] by auto
    show ?thesis
    proof (cases "take 1 name = [46]")
      case True
      then show ?thesis using assms node by (auto simp: journal_ready_def)
    next
      case False
      from journal_on_name [OF a(3) node False] show ?thesis ..
    qed
  qed
  have ok: "\<not> unsafe_entry name" "PENDING_EVENT_FILE_RE name \<or> EVENT_FILE_RE name \<noteq> None" if "name \<in> set ns" for name
    using n [OF that] pending_name_safe component_safe [OF event_name_component(1)] event_file_name a(4) by auto
  have "\<exists>finals. journal_names names = Inr finals" if "set names \<subseteq> set ns" for names
    unfolding journal_names_def by (rule foldE_total) (use ok(2) that in \<open>force split: option.splits\<close>)
  then obtain finals where "journal_names (sort ns) = Inr finals" by (metis order_refl set_sort)
  moreover have "list_names JOURNAL_DIRECTORY w = (Inr (sort ns), w)"
    using ok(1) by (simp add: list_names_def bindS_def parts o except_os_def catchS_def ns list_ex_iff)
  ultimately show ?thesis by blast
qed

lemma replay_final_events_ready:
  fixes w :: "'z session_world_scheme"
  assumes "journal_ready w js" "js \<noteq> []"
  shows "replay_final_events allow w = (replay js, w)"
proof -
  have a: "journal_on w js" "length js < 10 ^ 8 - 1" "ss_locked w"
    using assms(1) by (simp_all add: journal_ready_def MAX_JOURNAL_EVENTS_def)
  obtain names finals where l: "list_names JOURNAL_DIRECTORY w = (Inr names, w)" "journal_names names = Inr finals"
    using list_journal_ready [OF assms(1)] by blast
  note s = journal_files_sorted [OF a(1,2) l]
  have len: "length finals = length js" using arg_cong [OF s, of length] by simp
  have z: "zip [1..<Suc (length finals)] (sort finals) = map (\<lambda>i. (Suc i, Suc i, event_name (Suc i))) [0..<length js]"
    unfolding s len by (rule nth_equalityI) (simp_all del: upt_Suc)
  have ne: "finals \<noteq> []" using len assms(2) by auto
  show ?thesis
    using replay_fold_ready [OF assms(1), of 0 None] ne z a(3) l
    by (simp add: replay_final_events_def session_require_open_def thenS_def bindS_def replay_def)
qed

lemma append_locked_ready:
  assumes j: "journal_ready w js" "length js < MAX_JOURNAL_EVENTS" "replay js = Inr (Some s)" "ss_snapshot w = Some s"
    and tr: "transition_for event (Some (sn_state s)) = Inr nxt" "event \<noteq> E_RAW_COMPLETED"
    and m: "sn_observation_manifest_sha256 s = None" and b: "SHA256_RE binding"
    and c: "ss_clock w = t # ts" "valid_datetime t" "sn_last_recorded_at s \<le> without_microsecond t"
    and free: "writable w [JOURNAL_DIRECTORY, event_name (Suc (length js))]"
      "\<forall>p \<in> set (ar_sealed w). take (length p) [JOURNAL_DIRECTORY, event_name (Suc (length js))] \<noteq> p"
  shows "\<exists>x w'. append_locked event binding w = (Inr x, w')"
proof -
  let ?t = "without_microsecond t" and ?n = "Suc (length js)"
  let ?w = "w\<lparr>ss_clock := ts\<rparr>"
  have len: "next_sequence (Some s) = ?n" using replay_tip [OF j(3)] by (simp add: next_sequence_def)
  have v: "valid_datetime ?t" "without_microsecond ?t = ?t"
    using c(2) by (simp_all add: valid_datetime_def without_microsecond_def)
  have pd: "SHA256_RE (previous_digest (Some s))" by (rule previous_digest_replay [OF j(3)])
  obtain data where data: "canonical_event_bytes (event_document (Some s) ?n event nxt ?t binding) = Inr data"
    using event_bytes_accepted [OF b pd Suc_leI [OF j(2)] v(1), of event nxt] tr(1) c(3) v(2) by auto
  have parts: "relative_parts (event_relative ?n) = Inr [JOURNAL_DIRECTORY, event_name ?n]"
    by (rule event_relative_parts) (use j(2) in \<open>simp add: MAX_JOURNAL_EVENTS_def\<close>)
  have "archive_ready ?w" using j(1) by (simp add: journal_ready_def archive_ready_def private_dir_def)
  moreover have "writable ?w [JOURNAL_DIRECTORY, event_name ?n]" using free(1) by (simp add: writable_def private_dir_def)
  ultimately obtain w' where w': "write_bytes (event_relative ?n) data MAX_EVENT_BYTES ?w = (Inr (archived (event_relative ?n) data), w')"
    using write_bytes_ready [OF _ parts _ _ event_bytes_length [OF data b pd Suc_leI [OF j(2)] v(1)], of ?w] free(2) by auto
  have na: "activate_frozen_observations (Some x) = returnS None" if "sn_observation_manifest_sha256 x = None" for x
    using that by (simp add: activate_frozen_observations_def)
  have "sn_observation_manifest_sha256 (event_snapshot (Some s) ?n event nxt ?t binding data) = None"
    using m tr(2) by (simp add: event_snapshot_def manifest_after_def)
  note na' = na [OF this]
  have "now w = (Inr t, ?w)" using c(1) by (simp add: now_def)
  then have "append_locked event binding w =
      (Inr (event_snapshot (Some s) ?n event nxt ?t binding data),
       w'\<lparr>ss_snapshot := Some (event_snapshot (Some s) ?n event nxt ?t binding data)\<rparr>)"
    using j(2,4) tr(1) c(3) w'
    by (simp add: append_locked_def current_snapshot_def bindS_def thenS_def na [OF m] na' len data Let_def archived_def not_less [symmetric])
  then show ?thesis by blast
qed

section \<open>A sample session\<close>

definition sample_first_event :: bytes where
  "sample_first_event =
     (case canonical_event_bytes (event_document None 1 E_SESSION_STARTED S_INITIALIZED sample_instant (replicate 64 97)) of
        Inr data \<Rightarrow> data | Inl _ \<Rightarrow> [])"

definition sample_snapshot :: session_snapshot where
  "sample_snapshot =
     event_snapshot None 1 E_SESSION_STARTED S_INITIALIZED sample_instant (replicate 64 97) sample_first_event"

definition sample_session :: session_world where
  "sample_session =
     \<lparr>w_fs = [([], DirNode 493 501), ([u ''run''], DirNode 448 501), ([u ''run'', JOURNAL_DIRECTORY], DirNode 448 501),
        ([u ''run'', JOURNAL_DIRECTORY, event_name 1], FileNode 384 1 501 sample_first_event)],
      w_faults = [], w_uuids = [7], w_euid = 501, w_umask = 18, w_darwin = True,
      ar_root_text = u ''run'', ar_root = [u ''run''], ar_open = True, ar_sealed = [],
      ss_snapshot = Some sample_snapshot, ss_locked = True, ss_clock = [sample_instant]\<rparr>"

lemma sample_session_simps:
  "w_faults sample_session = []" "w_darwin sample_session" "ar_open sample_session" "w_umask sample_session = 18"
  "w_euid sample_session = 501" "ar_root sample_session = [u ''run'']" "map_of (w_fs sample_session) [] = Some (DirNode 493 501)"
  "private_dir sample_session [u ''run'']" "ss_locked sample_session" "ss_snapshot sample_session = Some sample_snapshot"
  "ss_clock sample_session = [sample_instant]"
  by (simp_all add: sample_session_def private_dir_def PRIVATE_DIRECTORY_MODE_def)

lemma sample_first_event:
  "replay [sample_first_event] = Inr (Some sample_snapshot)" "sample_first_event \<noteq> []" "length sample_first_event \<le> MAX_EVENT_BYTES"
proof -
  have z: "SHA256_RE (previous_digest None)" by code_simp
  have "transition_for E_SESSION_STARTED (map_option sn_state None) = Inr S_INITIALIZED" by (simp add: transition_for_def)
  with z obtain data where d: "canonical_event_bytes (event_document None 1 E_SESSION_STARTED S_INITIALIZED sample_instant (replicate 64 97)) = Inr data"
    "validate_event_bytes data None 1 = Inr (event_snapshot None 1 E_SESSION_STARTED S_INITIALIZED sample_instant (replicate 64 97) data)"
    using event_bytes_accepted [OF sample_binding, of None 1 sample_instant E_SESSION_STARTED S_INITIALIZED] sample_instant
    by (auto simp: MAX_JOURNAL_EVENTS_def sample_instant_def without_microsecond_def)
  then have "sample_first_event = data" by (simp add: sample_first_event_def)
  then show "replay [sample_first_event] = Inr (Some sample_snapshot)" "sample_first_event \<noteq> []"
    "length sample_first_event \<le> MAX_EVENT_BYTES"
    using d(2) event_bytes_length [OF d(1) sample_binding z _ sample_instant(1)]
    by (simp_all add: replay_def sample_snapshot_def MAX_JOURNAL_EVENTS_def)
qed


lemma sample_journal_entries:
  "map_of (w_fs sample_session) ([u ''run''] @ [JOURNAL_DIRECTORY, name]) =
    (if name = event_name 1 then Some (FileNode 384 1 501 sample_first_event) else None)"
  unfolding sample_session_def by (simp del: u_simps)

lemma sample_journal_on: "journal_on sample_session [sample_first_event]"
proof -
  have "JOURNAL_DIRECTORY \<noteq> []" by code_simp
  then have "distinct (map fst (w_fs sample_session))" unfolding sample_session_def by (simp del: u_simps)
  then show ?thesis unfolding journal_on_def sample_session_simps sample_journal_entries
    by (simp add: PRIVATE_FILE_MODE_def)
qed

lemma sample_archive_ready: "archive_ready sample_session"
proof -
  have "int PRIVATE_DIRECTORY_MODE AND NOT (int 18) = int PRIVATE_DIRECTORY_MODE" "(493 :: nat) AND 18 = 0"
    by (simp_all add: PRIVATE_DIRECTORY_MODE_def)
  moreover have "private_dir sample_session (take k [u ''run''])" if "0 < k" for k
    using that sample_session_simps(8) by (cases k) (simp_all del: u_simps)
  ultimately show ?thesis unfolding archive_ready_def sample_session_simps
    by (intro conjI exI [of _ 493] allI impI) (simp_all add: sample_session_simps del: u_simps)
qed

lemma sample_journal_ready: "journal_ready sample_session [sample_first_event]"
proof -
  have "private_dir sample_session ([u ''run''] @ [JOURNAL_DIRECTORY])"
    by (simp add: sample_session_def private_dir_def PRIVATE_DIRECTORY_MODE_def del: u_simps)
  moreover have "take 1 (event_name 1) \<noteq> [46]" by code_simp
  ultimately show ?thesis unfolding journal_ready_def sample_session_simps sample_journal_entries
    using sample_archive_ready sample_journal_on sample_first_event(2,3)
    by (simp add: MAX_JOURNAL_EVENTS_def sample_session_simps)
qed

lemma sample_next_writable: "writable sample_session [JOURNAL_DIRECTORY, event_name 2]"
proof -
  have n: "event_name 2 \<noteq> event_name 1" by code_simp
  have "private_dir sample_session ([u ''run''] @ [JOURNAL_DIRECTORY])"
    by (simp add: sample_session_def private_dir_def PRIVATE_DIRECTORY_MODE_def del: u_simps)
  moreover have "map_of (w_fs sample_session) q = None" if q: "q \<in> own_hidden ([u ''run''] @ [JOURNAL_DIRECTORY, event_name 2])" for q
  proof -
    have "hidden q" "butlast q = [u ''run'', JOURNAL_DIRECTORY]" using q by (auto simp: own_hidden_def)
    then have "q = [u ''run''] @ [JOURNAL_DIRECTORY, last q]" "take 1 (last q) = [46]"
      by (cases q rule: rev_cases; simp add: hidden_def)+
    moreover have "take 1 (event_name 1) \<noteq> [46]" by code_simp
    ultimately show ?thesis using sample_journal_entries [of "last q"] by metis
  qed
  moreover have "map_of (w_fs sample_session) ([u ''run''] @ [JOURNAL_DIRECTORY, event_name 2]) = None"
    using n by (simp only: sample_journal_entries if_False)
  ultimately show ?thesis unfolding writable_def sample_session_simps
    by (auto simp: less_Suc_eq simp del: u_simps)
qed

section \<open>Properties\<close>

text \<open>
  C20: No operation of a session (create, open, recover, append, complete_observations,
  resolve_interrupted_attempt, the writing of observations) ever changes or removes a published
  file or a directory other than the lock file, on any outcome including the death of the
  process.
\<close>

theorem session_keeps_published_files:
  "fs_rel (published_kept {p. last p = LOCK_FILE}) w (snd (session_create root_text intent w)) \<and>
   fs_rel (published_kept {p. last p = LOCK_FILE}) w (snd (session_open root_text w)) \<and>
   fs_rel (published_kept {p. last p = LOCK_FILE}) w (snd (session_recover root_text discard w)) \<and>
   fs_rel (published_kept {p. last p = LOCK_FILE}) w (snd (session_append event binding w)) \<and>
   fs_rel (published_kept {p. last p = LOCK_FILE}) w (snd (complete_observations observations w)) \<and>
   fs_rel (published_kept {p. last p = LOCK_FILE}) w (snd (capture_write_bytes subject kind relative data maximum w)) \<and>
   fs_rel (published_kept {p. last p = LOCK_FILE}) w (snd (resolve_interrupted_attempt w))"
  using session_kept.keeps_session_create session_kept.keeps_session_open session_kept.keeps_session_recover
    session_kept.keeps_session_append session_kept.keeps_complete_observations session_kept.keeps_capture_write_bytes
    session_kept.keeps_resolve_interrupted
  unfolding keeps_def by blast

text \<open>
  C8: Appending to the journal on disk is atomic under every fault: from a session whose
  snapshot is the replay of the journal, _append_locked, whatever system call fails or kills the
  process, leaves the old journal, or the journal extended by one event that is the canonical
  encoding of the requested legal transition and that the replay accepts; it returns only in the
  second case, with exactly the snapshot the replay computes.
\<close>

theorem append_is_crash_consistent:
  assumes "journal_on w js" "replay js = Inr (Some s)" "ss_snapshot w = Some s"
    and "list_all valid_datetime (ss_clock w)" "SHA256_RE binding" "append_locked event binding w = (r, w')"
  shows "append_outcome js s event binding r w'"
  using assms by (rule append_locked_outcome)

theorem append_is_crash_consistent_witness:
  "append_outcome [sample_first_event] sample_snapshot E_COLLECTION_STARTED (replicate 64 97)
     (fst (append_locked E_COLLECTION_STARTED (replicate 64 97) (sample_session\<lparr>w_faults := [Proceed, Fails ''EIO'', Dies]\<rparr>)))
     (snd (append_locked E_COLLECTION_STARTED (replicate 64 97) (sample_session\<lparr>w_faults := [Proceed, Fails ''EIO'', Dies]\<rparr>)))"
proof (rule append_is_crash_consistent)
  show "journal_on (sample_session\<lparr>w_faults := [Proceed, Fails ''EIO'', Dies]\<rparr>) [sample_first_event]"
    using sample_journal_on by (simp add: journal_on_def)
qed (simp_all add: sample_first_event(1) sample_session_simps sample_instant sample_binding)

text \<open>
  C19: In an intact archive and a run in which no system call fails, _replay_final_events on a
  journal directory that holds a non-empty list of events, with or without pending events,
  returns or raises exactly what the abstract replay of that list does.
\<close>

theorem replay_final_events_refines_replay:
  assumes "journal_ready w js" "js \<noteq> []"
  shows "replay_final_events allow_empty w = (replay js, w)"
  using assms by (rule replay_final_events_ready)

theorem replay_final_events_refines_replay_witness:
  "replay_final_events False sample_session = (Inr (Some sample_snapshot), sample_session)"
  using replay_final_events_refines_replay [OF sample_journal_ready, of False] by (simp add: sample_first_event(1))


text \<open>
  C21: In an intact session and a run in which no system call fails, appending a legal event
  before RAW_COMPLETED with a clock that does not go backwards succeeds: the event is in the
  journal on disk and the replay of that journal is the returned snapshot.
\<close>

theorem append_commits_event:
  assumes "journal_ready w js" "length js < MAX_JOURNAL_EVENTS" "replay js = Inr (Some s)" "ss_snapshot w = Some s"
    and "transition_for event (Some (sn_state s)) = Inr nxt" "event \<noteq> E_RAW_COMPLETED"
    and "sn_observation_manifest_sha256 s = None" "SHA256_RE binding"
    and "ss_clock w = t # ts" "list_all valid_datetime (t # ts)" "sn_last_recorded_at s \<le> without_microsecond t"
    and "writable w [JOURNAL_DIRECTORY, event_name (Suc (length js))]"
      "\<forall>p \<in> set (ar_sealed w). take (length p) [JOURNAL_DIRECTORY, event_name (Suc (length js))] \<noteq> p"
  shows "\<exists>x w' data. append_locked event binding w = (Inr x, w') \<and> sn_state x = nxt \<and> ss_snapshot w' = Some x \<and>
    journal_on w' (js @ [data]) \<and> replay (js @ [data]) = Inr (Some x)"
proof -
  obtain x w' where run: "append_locked event binding w = (Inr x, w')"
    using append_locked_ready [OF assms(1-9) _ assms(11-13)] assms(10) by auto
  have "append_outcome js s event binding (Inr x) w'"
    by (rule append_locked_outcome [OF _ assms(3,4) _ assms(8) run]) (use assms(1,9,10) in \<open>simp_all add: journal_ready_def\<close>)
  then show ?thesis using run assms(5) by (auto simp: append_outcome_def)
qed

theorem append_commits_event_witness:
  "\<exists>x w' data. append_locked E_COLLECTION_STARTED (replicate 64 97) sample_session = (Inr x, w') \<and> sn_state x = S_COLLECTING \<and>
    ss_snapshot w' = Some x \<and> journal_on w' ([sample_first_event] @ [data]) \<and> replay ([sample_first_event] @ [data]) = Inr (Some x)"
proof (rule append_commits_event [OF sample_journal_ready, where t = sample_instant and ts = "[]"])
  show "transition_for E_COLLECTION_STARTED (Some (sn_state sample_snapshot)) = Inr S_COLLECTING"
    by (simp add: sample_snapshot_def event_snapshot_def transition_for_def)
  show "sn_observation_manifest_sha256 sample_snapshot = None"
    by (simp add: sample_snapshot_def event_snapshot_def manifest_after_def)
  show "sn_last_recorded_at sample_snapshot \<le> without_microsecond sample_instant"
    by (simp add: sample_snapshot_def event_snapshot_def sample_instant_def without_microsecond_def)
  show "writable sample_session [JOURNAL_DIRECTORY, event_name (Suc (length [sample_first_event]))]"
    using sample_next_writable by (simp add: numeral_2_eq_2)
qed (simp_all add: sample_first_event(1) sample_session_simps sample_instant sample_binding MAX_JOURNAL_EVENTS_def sample_session_def)

end
