(* ===== verification/Cloud_Run.thy ===== *)
theory Cloud_Run
  imports Capture_Consistency Collector_Signature
begin

text \<open>
  The client of the two Cloud Run services, \<open>scripts/physical_capture/cloud_run.py\<close>: the checks made
  before a request, the one POST, and the checks of the answer. The command runner and the connection
  factory are arguments of the client in the source; here their answers are scripts in the world,
  and the world keeps the list of the POSTs that were begun. The endpoint policy is an argument:
  loading it (\<open>load_endpoint_policy\<close>, with \<open>urlsplit\<close>) and running \<open>gcloud\<close> are not modelled.
\<close>

section \<open>Constants and responses\<close>

definition GCLOUD :: string where "GCLOUD = ''/opt/homebrew/bin/gcloud''"
definition MAX_GCLOUD_DESCRIBE_BYTES :: nat where "MAX_GCLOUD_DESCRIBE_BYTES = 64 * 1024"
definition MAX_ID_TOKEN_BYTES :: nat where "MAX_ID_TOKEN_BYTES = 16 * 1024"
definition MAX_REQUEST_BYTES :: nat where "MAX_REQUEST_BYTES = 2 ^ 20"
definition MAX_RESPONSE_BYTES :: nat where "MAX_RESPONSE_BYTES = 2 ^ 20"
definition READ_CHUNK_BYTES :: nat where "READ_CHUNK_BYTES = 64 * 1024"
definition NONCE_REQUEST_FIELDS :: "string list" where
  "NONCE_REQUEST_FIELDS = [''schema_version'', ''candidate'', ''run'']"
definition RECEIPT_REQUEST_FIELDS :: "string list" where
  "RECEIPT_REQUEST_FIELDS = [''schema_version'', ''candidate'', ''run'', ''reports'', ''raw_artifacts'']"
definition NONCE_RESPONSE_FIELDS :: "string list" where
  "NONCE_RESPONSE_FIELDS = [''schema_version'', ''run_nonce'', ''expires_at'']"
definition RECEIPT_RESPONSE_FIELDS :: "string list" where
  "RECEIPT_RESPONSE_FIELDS = [''schema_version'', ''signed_at'', ''receipt_sha256'', ''signature'']"

datatype role = Nonce | Receipt

record endpoint =
  ep_role :: role
  ep_service :: ustr
  ep_revision :: ustr
  ep_origin :: ustr
  ep_audience :: ustr
  ep_route :: ustr
  ep_success_status :: int
  ep_host :: ustr

record endpoint_policy =
  po_project :: ustr
  po_region :: ustr
  po_identity_service_account :: ustr
  po_nonce_issuer :: endpoint
  po_receipt_signer :: endpoint
  po_sha256 :: ustr

definition policy_endpoint :: "endpoint_policy \<Rightarrow> role \<Rightarrow> endpoint" where
  "policy_endpoint policy r = (case r of Nonce \<Rightarrow> po_nonce_issuer policy | Receipt \<Rightarrow> po_receipt_signer policy)"

datatype collector_response =
    NonceResponse (run_nonce: ustr) (expires_at: ustr)
  | ReceiptResponse (signed_at: ustr) (receipt_sha256: ustr) (signature: ustr)

fun response_as_dict :: "collector_response \<Rightarrow> json" where
  "response_as_dict (NonceResponse nonce expires) =
     JObj [(u ''schema_version'', JInt 1), (u ''run_nonce'', JStr nonce), (u ''expires_at'', JStr expires)]"
| "response_as_dict (ReceiptResponse stamp receipt sig) =
     JObj [(u ''schema_version'', JInt 1), (u ''signed_at'', JStr stamp), (u ''receipt_sha256'', JStr receipt),
       (u ''signature'', JStr sig)]"

section \<open>The outside world\<close>

text \<open>
  What the command runner and the connection may raise: their documented errors, something else, or
  the death of the process.
\<close>

datatype outside_error = CommandFails | IoError string | BadValue string | ProtocolError | OtherError | Killed

fun outside_exn :: "outside_error \<Rightarrow> exn" where
  "outside_exn CommandFails = CommandError"
| "outside_exn (IoError code) = OSError code"
| "outside_exn (BadValue message) = ValueError message"
| "outside_exn ProtocolError = HTTPException"
| "outside_exn OtherError = ClientError"
| "outside_exn Killed = ProcessKilled"

datatype command_result = CommandOutput bytes bytes | NoCommandOutput | CommandRaises outside_error
datatype read_answer = Chunk bytes | NotBytes | ReadRaises outside_error

record http_response =
  hr_status :: "int option"
  hr_headers :: "(string \<times> ustr list) list"
  hr_reads :: "read_answer list"
  hr_close :: "outside_error option"

record http_connection =
  hc_request :: "outside_error option"
  hc_response :: "outside_error + http_response"
  hc_close :: "outside_error option"

record post =
  post_role :: role
  post_host :: ustr
  post_route :: ustr
  post_body :: bytes

record cloud_world = session_world +
  cw_commands :: "command_result list"
  cw_connections :: "(outside_error + http_connection) list"
  cw_posts :: "post list"

definition run_command :: "ustr list \<Rightarrow> nat \<Rightarrow> ('z cloud_world_scheme, (bytes \<times> bytes) option) st" where
  "run_command command maximum = (\<lambda>w.
     case cw_commands w of
       [] \<Rightarrow> (Inl CommandError, w)
     | c # cs \<Rightarrow>
         (case c of
            CommandOutput stdout stderr \<Rightarrow> Inr (Some (stdout, stderr))
          | NoCommandOutput \<Rightarrow> Inr None
          | CommandRaises e \<Rightarrow> Inl (outside_exn e), w\<lparr>cw_commands := cs\<rparr>))"

definition or_raise :: "outside_error + 'a \<Rightarrow> 'a res" where
  "or_raise r = (case r of Inl e \<Rightarrow> Inl (outside_exn e) | Inr x \<Rightarrow> Inr x)"

definition open_connection :: "ustr \<Rightarrow> ('z cloud_world_scheme, http_connection) st" where
  "open_connection host = (\<lambda>w.
     case cw_connections w of
       [] \<Rightarrow> (Inl (OSError ''ECONNREFUSED''), w)
     | c # cs \<Rightarrow> (or_raise c, w\<lparr>cw_connections := cs\<rparr>))"

definition raise_if :: "outside_error option \<Rightarrow> ('w, unit) st" where
  "raise_if e = (case e of None \<Rightarrow> returnS () | Some x \<Rightarrow> raiseS (outside_exn x))"

text \<open>\<open>connection.request("POST", \<dots>)\<close>: from here on a byte may have left.\<close>

definition send_post :: "role \<Rightarrow> endpoint \<Rightarrow> bytes \<Rightarrow> http_connection \<Rightarrow> ('z cloud_world_scheme, unit) st" where
  "send_post r e body c =
     thenS (modifyS (\<lambda>w. w\<lparr>cw_posts := cw_posts w @
       [\<lparr>post_role = r, post_host = ep_host e, post_route = ep_route e, post_body = body\<rparr>]\<rparr>))
     (raise_if (hc_request c))"

text \<open>\<open>ValueError\<close> with its subclasses; \<open>RawArtifactError\<close> is one of them.\<close>

fun is_value_error :: "exn \<Rightarrow> bool" where
  "is_value_error (ValueError _) = True"
| "is_value_error (RawArtifactError _) = True"
| "is_value_error UnicodeDecodeError = True"
| "is_value_error UnicodeEncodeError = True"
| "is_value_error JSONDecodeError = True"
| "is_value_error _ = False"

fun is_os_error :: "exn \<Rightarrow> bool" where
  "is_os_error (OSError _) = True"
| "is_os_error _ = False"

text \<open>\<open>try: \<dots> except (\<dots>): raise PreSendError(\<dots>)\<close>.\<close>

definition pre_send_on :: "(exn \<Rightarrow> bool) \<Rightarrow> ('w, 'a) st \<Rightarrow> ('w, 'a) st" where
  "pre_send_on caught m = catchS m (\<lambda>e. raiseS (if caught e then PreSendError else e))"

section \<open>Checks before a request\<close>

text \<open>Python's \<open>==\<close> of a JSON value and an integer above one.\<close>

definition json_equals_int :: "json \<Rightarrow> int \<Rightarrow> bool" where
  "json_equals_int v n = (case v of JInt i \<Rightarrow> i = n | JFloat x \<Rightarrow> x = Finite (of_int n) | _ \<Rightarrow> False)"

definition describe_command :: "endpoint_policy \<Rightarrow> endpoint \<Rightarrow> ustr list" where
  "describe_command policy e =
     [u GCLOUD, u ''run'', u ''services'', u ''describe'', ep_service e,
      u ''--project='' @ po_project policy, u ''--region='' @ po_region policy,
      u ''--format=json(metadata.name,status.url,status.latestReadyRevisionName,status.traffic)'', u ''--quiet'']"

definition check_live_revision :: "endpoint \<Rightarrow> bytes \<Rightarrow> unit res" where
  "check_live_revision e stdout =
     bindE (load_json_bytes stdout) (\<lambda>value.
     bindE (exact_object value [''metadata'', ''status'']) (\<lambda>document.
     bindE (exact_object (field document ''metadata'') [''name'']) (\<lambda>metadata.
     bindE (exact_object (field document ''status'') [''url'', ''latestReadyRevisionName'', ''traffic'']) (\<lambda>status.
     bindE (case field status ''traffic'' of
         JArr [t] \<Rightarrow> Inr t
       | _ \<Rightarrow> Inl (RawArtifactError ''gcloud service traffic is not a single target'')) (\<lambda>t.
     bindE (exact_object t [''latestRevision'', ''percent'', ''revisionName'']) (\<lambda>target.
     if field metadata ''name'' \<noteq> JStr (ep_service e)
        \<or> field status ''url'' \<noteq> JStr (ep_origin e)
        \<or> field status ''latestReadyRevisionName'' \<noteq> JStr (ep_revision e)
        \<or> field target ''latestRevision'' \<noteq> JBool True
        \<or> \<not> json_equals_int (field target ''percent'') 100
        \<or> field target ''revisionName'' \<noteq> JStr (ep_revision e) then
       Inl (RawArtifactError ''live Cloud Run service differs from endpoint policy'')
     else Inr ()))))))"

definition verify_live_revision :: "endpoint_policy \<Rightarrow> endpoint \<Rightarrow> ('z cloud_world_scheme, unit) st" where
  "verify_live_revision policy e =
     pre_send_on (\<lambda>x. is_os_error x \<or> is_value_error x \<or> x = CommandError)
       (bindS (run_command (describe_command policy e) MAX_GCLOUD_DESCRIBE_BYTES) (\<lambda>r.
       case r of
         Some (stdout, []) \<Rightarrow> liftS (check_live_revision e stdout)
       | _ \<Rightarrow> raiseS CommandError))"

definition token_command :: "endpoint_policy \<Rightarrow> endpoint \<Rightarrow> ustr list" where
  "token_command policy e =
     [u GCLOUD, u ''auth'', u ''print-identity-token'',
      u ''--impersonate-service-account='' @ po_identity_service_account policy,
      u ''--audiences='' @ ep_audience e, u ''--quiet'']"

definition expected_warning :: "endpoint_policy \<Rightarrow> bytes" where
  "expected_warning policy =
     encode_ascii ''WARNING: This command is using service account impersonation. All API calls will be executed as ['' @
     map word_of_nat (po_identity_service_account policy) @ encode_ascii (''].'' @ [CHR 0x0A])"

text \<open>Three non-empty base64url texts with dots between them.\<close>

definition JWT_RE :: "ustr \<Rightarrow> bool" where
  "JWT_RE token = (let parts = split_on 46 token in length parts = 3 \<and> list_all BASE64URL_RE parts)"

definition check_identity_token :: "endpoint \<Rightarrow> bytes \<Rightarrow> ustr res" where
  "check_identity_token e output =
     (let data = (if ends_with output [10] then butlast output else output);
          token = map unat data in
      if data = [] \<or> length data > MAX_ID_TOKEN_BYTES \<or> 10 \<in> set data \<or> 13 \<in> set data then Inl PreSendError
      else if list_ex (\<lambda>c. c \<ge> 128) token then Inl PreSendError
      else if length token < 32 \<or> \<not> JWT_RE token then Inl PreSendError
      else case octets (map b64_value (split_on 46 token ! 1)) of
        None \<Rightarrow> Inl PreSendError
      | Some payload \<Rightarrow>
          (case load_json_bytes (map word_of_nat payload) of
             Inr (JObj claims) \<Rightarrow>
               if map_of claims (u ''aud'') \<noteq> Some (JStr (ep_audience e)) then Inl PreSendError else Inr token
           | _ \<Rightarrow> Inl PreSendError))"

definition identity_token :: "endpoint_policy \<Rightarrow> endpoint \<Rightarrow> ('z cloud_world_scheme, ustr) st" where
  "identity_token policy e =
     bindS (pre_send_on (\<lambda>x. is_os_error x \<or> is_value_error x \<or> x = CommandError)
       (bindS (run_command (token_command policy e) MAX_ID_TOKEN_BYTES) (\<lambda>r.
       case r of
         None \<Rightarrow> raiseS CommandError
       | Some (stdout, stderr) \<Rightarrow>
           if stderr \<noteq> [] \<and> stderr \<noteq> expected_warning policy then raiseS CommandError
           else returnS stdout))) (\<lambda>output.
     liftS (check_identity_token e output))"

definition request_fields_of :: "role \<Rightarrow> string list" where
  "request_fields_of r = (case r of Nonce \<Rightarrow> NONCE_REQUEST_FIELDS | Receipt \<Rightarrow> RECEIPT_REQUEST_FIELDS)"

definition request_bytes :: "role \<Rightarrow> json \<Rightarrow> bytes res" where
  "request_bytes r value =
     (case bindE (exact_object value (request_fields_of r)) (\<lambda>request.
        if field request ''schema_version'' \<noteq> JInt 1 then
          Inl (RawArtifactError ''{} request schema_version is unsupported'')
        else bindE (canonical_json (JObj request)) (\<lambda>bs.
        let encoded = bs @ [10] in
        if length encoded > MAX_REQUEST_BYTES then Inl (RawArtifactError ''{} request exceeds its byte bound'')
        else Inr encoded)) of
        Inl _ \<Rightarrow> Inl PreSendError
      | Inr encoded \<Rightarrow> Inr encoded)"

section \<open>Checks of the answer\<close>

definition header_values :: "http_response \<Rightarrow> string \<Rightarrow> ustr list" where
  "header_values response name = (case map_of (hr_headers response) name of None \<Rightarrow> [] | Some vs \<Rightarrow> vs)"

definition one_header :: "http_response \<Rightarrow> string \<Rightarrow> bool \<Rightarrow> ustr option res" where
  "one_header response name required =
     (case header_values response name of
        [] \<Rightarrow> if required then Inl (ValueError ''required response header is absent'') else Inr None
      | [v] \<Rightarrow> Inr (Some v)
      | _ \<Rightarrow> Inl (ValueError ''response header is repeated''))"

definition DECIMAL_RE :: "ustr \<Rightarrow> bool" where
  "DECIMAL_RE s = (s = [48] \<or> (s \<noteq> [] \<and> list_all is_dig s \<and> hd s \<noteq> 48))"

text \<open>The reading loop; after the scripted answers the reader is at its end.\<close>

primrec read_body :: "read_answer list \<Rightarrow> bytes \<Rightarrow> bytes res" where
  "read_body [] result = Inr result"
| "read_body (a # reads) result =
     (case a of
        ReadRaises e \<Rightarrow> Inl (outside_exn e)
      | NotBytes \<Rightarrow> Inl (ValueError ''response body reader returned non-bytes'')
      | Chunk chunk \<Rightarrow>
          if chunk = [] then Inr result
          else if length (result @ chunk) > MAX_RESPONSE_BYTES then
            Inl (ValueError ''response body exceeds its byte bound'')
          else read_body reads (result @ chunk))"

definition read_bounded_response :: "http_response \<Rightarrow> bytes res" where
  "read_bounded_response response =
     bindE (one_header response ''Content-Length'' False) (\<lambda>declared.
     bindE (case declared of
         None \<Rightarrow> Inr None
       | Some d \<Rightarrow>
           if \<not> DECIMAL_RE d then Inl (ValueError ''response Content-Length is invalid'')
           else if text_value d < 1 \<or> text_value d > MAX_RESPONSE_BYTES then
             Inl (ValueError ''response Content-Length is outside its bound'')
           else Inr (Some (text_value d))) (\<lambda>expected_length.
     bindE (read_body (hr_reads response) []) (\<lambda>result.
     if result = [] \<or> (expected_length \<noteq> None \<and> expected_length \<noteq> Some (length result)) then
       Inl (ValueError ''response body length is invalid'')
     else Inr result)))"

text \<open>
  \<open>time.strptime\<close> with \<open>%Y-%m-%dT%H:%M:%SZ\<close> on a text of that shape: a date of the calendar, and
  seconds up to 61.
\<close>

definition strptime_accepts :: "ustr \<Rightarrow> bool" where
  "strptime_accepts s =
     (let y = text_value (py_slice s 0 4); m = text_value (py_slice s 5 7); d = text_value (py_slice s 8 10) in
      1 \<le> y \<and> 1 \<le> m \<and> m \<le> 12 \<and> 1 \<le> d \<and> d \<le> days_in_month y m \<and> text_value (py_slice s 11 13) \<le> 23 \<and>
      text_value (py_slice s 14 16) \<le> 59 \<and> text_value (py_slice s 17 19) \<le> 61)"

definition utc_seconds :: "json \<Rightarrow> ustr res" where
  "utc_seconds value =
     (case value of
        JStr s \<Rightarrow>
          if \<not> UTC_TIMESTAMP_RE s then Inl (RawArtifactError ''{} is not a canonical UTC timestamp'')
          else if \<not> strptime_accepts s then Inl (RawArtifactError ''{} is not a real UTC timestamp'')
          else Inr s
      | _ \<Rightarrow> Inl (RawArtifactError ''{} is not a canonical UTC timestamp''))"

definition receipt_signature :: "json \<Rightarrow> ustr res" where
  "receipt_signature value =
     (case value of
        JStr s \<Rightarrow>
          if length s \<noteq> 512 \<or> \<not> BASE64URL_RE s then
            Inl (RawArtifactError ''receipt signature is not canonical RSA-3072 base64url'')
          else (case octets (map b64_value s) of
              None \<Rightarrow> Inl (RawArtifactError ''receipt signature is not canonical base64url'')
            | Some vs \<Rightarrow>
                let decoded = map word_of_nat vs :: bytes in
                if length decoded \<noteq> 384 \<or> base64url_encode decoded \<noteq> s then
                  Inl (RawArtifactError ''receipt signature is not canonical RSA-3072 base64url'')
                else Inr s)
      | _ \<Rightarrow> Inl (RawArtifactError ''receipt signature is not canonical RSA-3072 base64url''))"

definition response_document :: "endpoint \<Rightarrow> bytes \<Rightarrow> collector_response res" where
  "response_document e data =
     bindE (load_json_bytes data) (\<lambda>value.
     case ep_role e of
       Nonce \<Rightarrow>
         bindE (exact_object value NONCE_RESPONSE_FIELDS) (\<lambda>response.
         if field response ''schema_version'' \<noteq> JInt 1 then
           Inl (RawArtifactError ''nonce response schema_version is unsupported'')
         else bindE (require_sha256 (field response ''run_nonce'')) (\<lambda>nonce.
         bindE (utc_seconds (field response ''expires_at'')) (\<lambda>expires.
         Inr (NonceResponse nonce expires))))
     | Receipt \<Rightarrow>
         bindE (exact_object value RECEIPT_RESPONSE_FIELDS) (\<lambda>response.
         if field response ''schema_version'' \<noteq> JInt 1 then
           Inl (RawArtifactError ''receipt response schema_version is unsupported'')
         else bindE (utc_seconds (field response ''signed_at'')) (\<lambda>stamp.
         bindE (require_sha256 (field response ''receipt_sha256'')) (\<lambda>receipt.
         bindE (receipt_signature (field response ''signature'')) (\<lambda>sig.
         Inr (ReceiptResponse stamp receipt sig))))))"

definition validate_response :: "endpoint \<Rightarrow> http_response \<Rightarrow> collector_response res" where
  "validate_response e response =
     (if hr_status response \<noteq> Some (ep_success_status e) then
        Inl (ValueError ''collector returned an unexpected HTTP status'')
      else bindE (one_header response ''Content-Type'' True) (\<lambda>content_type.
      if content_type \<noteq> Some (u ''application/json; charset=utf-8'') then
        Inl (ValueError ''collector response Content-Type is invalid'')
      else bindE (one_header response ''Content-Encoding'' False) (\<lambda>encoding.
      if encoding \<noteq> None then Inl (ValueError ''collector response Content-Encoding is forbidden'')
      else bindE (read_bounded_response response) (\<lambda>data.
      case response_document e data of
        Inl x \<Rightarrow> Inl (if is_value_error x then ValueError ''collector response failed strict JSON validation'' else x)
      | Inr r \<Rightarrow> Inr r))))"

section \<open>The one POST\<close>

definition close_quietly :: "outside_error option \<Rightarrow> ('w, unit) st" where
  "close_quietly e = (case e of
      None \<Rightarrow> returnS ()
    | Some x \<Rightarrow>
        if is_os_error (outside_exn x) \<or> outside_exn x = HTTPException then returnS () else raiseS (outside_exn x))"

definition exchange :: "role \<Rightarrow> endpoint \<Rightarrow> bytes \<Rightarrow> http_connection \<Rightarrow> ('z cloud_world_scheme, collector_response) st" where
  "exchange r e body c =
     thenS (send_post r e body c)
     (bindS (liftS (or_raise (hc_response c))) (\<lambda>response.
     bindS (liftS (validate_response e response)) (\<lambda>result.
     thenS (raise_if (hr_close response))
     (thenS (raise_if (hc_close c)) (returnS result)))))"

text \<open>The response that the handler of a failed exchange still has to close.\<close>

definition unclosed_response :: "endpoint \<Rightarrow> http_connection \<Rightarrow> http_response option" where
  "unclosed_response e c =
     (if hc_request c \<noteq> None then None
      else case hc_response c of
        Inl _ \<Rightarrow> None
      | Inr response \<Rightarrow>
          (case validate_response e response of
             Inl _ \<Rightarrow> Some response
           | Inr _ \<Rightarrow> if hr_close response \<noteq> None then Some response else None))"

definition post_once :: "endpoint_policy \<Rightarrow> role \<Rightarrow> json \<Rightarrow> ('z cloud_world_scheme, collector_response) st" where
  "post_once policy r request =
     (let e = policy_endpoint policy r in
      bindS (liftS (request_bytes r request)) (\<lambda>body.
      thenS (verify_live_revision policy e)
      (bindS (identity_token policy e) (\<lambda>token.
      bindS (pre_send_on (\<lambda>x. is_os_error x \<or> is_value_error x \<or> x = HTTPException) (open_connection (ep_host e))) (\<lambda>c.
      catchS (exchange r e body c) (\<lambda>x.
        if is_os_error x \<or> is_value_error x \<or> x = HTTPException then
          thenS (close_quietly (case unclosed_response e c of None \<Rightarrow> None | Some response \<Rightarrow> hr_close response))
          (thenS (close_quietly (hc_close c))
          (raiseS RemoteOutcomeUnknown))
        else raiseS x))))))"

definition issue :: "endpoint_policy \<Rightarrow> role \<Rightarrow> json \<Rightarrow> ('z cloud_world_scheme, collector_response) st" where
  "issue policy r request =
     bindS (post_once policy r request) (\<lambda>result.
     case (r, result) of
       (Nonce, NonceResponse _ _) \<Rightarrow> returnS result
     | (Receipt, ReceiptResponse _ _ _) \<Rightarrow> returnS result
     | _ \<Rightarrow> raiseS RemoteOutcomeUnknown)"

section \<open>What the client does to the world\<close>

text \<open>Before the POST only the scripts of the outside world move on.\<close>

definition outside :: "'z cloud_world_scheme \<Rightarrow> 'z cloud_world_scheme \<Rightarrow> bool" where
  "outside w w' = (\<exists>cs ns. w' = w\<lparr>cw_commands := cs, cw_connections := ns\<rparr>)"

lemma outside_posts: "outside w w' \<Longrightarrow> cw_posts w' = cw_posts w"
  by (auto simp: outside_def)

interpretation outside: state_relation outside
proof
  fix w :: "'a cloud_world_scheme"
  show "outside w w" unfolding outside_def by (intro exI [of _ "cw_commands w"] exI [of _ "cw_connections w"]) simp
next
  fix w1 w2 w3 :: "'a cloud_world_scheme"
  assume "outside w1 w2" "outside w2 w3"
  then show "outside w1 w3" unfolding outside_def by fastforce
qed

lemma outside_scripts: "outside w (w\<lparr>cw_commands := cs\<rparr>)" "outside w (w\<lparr>cw_connections := ns\<rparr>)"
proof -
  show "outside w (w\<lparr>cw_commands := cs\<rparr>)" unfolding outside_def by (intro exI [of _ cs] exI [of _ "cw_connections w"]) simp
  show "outside w (w\<lparr>cw_connections := ns\<rparr>)" unfolding outside_def by (intro exI [of _ "cw_commands w"] exI [of _ ns]) simp
qed

lemma keeps_run_command: "keeps outside (run_command c m)"
  by (rule keepsI) (auto simp: run_command_def outside_scripts outside.R_refl split: list.splits)

lemma keeps_open_connection: "keeps outside (open_connection h)"
  by (rule keepsI) (auto simp: open_connection_def outside_scripts outside.R_refl split: list.splits)

lemma keeps_pre_send_on: "keeps outside m \<Longrightarrow> keeps outside (pre_send_on caught m)"
  unfolding pre_send_on_def by (intro outside.keeps_catch outside.keeps_raise)

lemma keeps_verify_live_revision: "keeps outside (verify_live_revision policy e)"
  unfolding verify_live_revision_def
  by (intro keeps_pre_send_on outside.keeps_bind keeps_run_command)
    (auto intro: outside.keeps_lift outside.keeps_raise split: option.splits prod.splits list.splits)

lemma keeps_identity_token: "keeps outside (identity_token policy e)"
  unfolding identity_token_def
  by (intro keeps_pre_send_on outside.keeps_bind keeps_run_command outside.keeps_lift)
    (auto intro: outside.keeps_return outside.keeps_raise split: option.splits prod.splits)

definition posted :: "role \<Rightarrow> endpoint \<Rightarrow> bytes \<Rightarrow> 'z cloud_world_scheme \<Rightarrow> 'z cloud_world_scheme" where
  "posted r e body w = w\<lparr>cw_posts := cw_posts w @
     [\<lparr>post_role = r, post_host = ep_host e, post_route = ep_route e, post_body = body\<rparr>]\<rparr>"

text \<open>Once the POST has begun, only these exceptions are raised, and \<open>PreSendError\<close> is none of them.\<close>

definition after_send_error :: "exn \<Rightarrow> bool" where
  "after_send_error e = (is_value_error e \<or> e \<in> range outside_exn)"

lemma after_send_error_not_pre_send: "\<not> after_send_error PreSendError"
proof -
  have "PreSendError \<noteq> outside_exn x" for x by (cases x) simp_all
  then show ?thesis by (auto simp: after_send_error_def)
qed

lemma after_send_errors [simp]: "after_send_error (ValueError m)" "after_send_error (outside_exn x)"
  by (simp_all add: after_send_error_def)

lemma one_header_raises: "raises_only after_send_error (one_header response name required)"
  by (auto simp: one_header_def split: list.splits)

lemma read_body_raises: "raises_only after_send_error (read_body reads acc)"
  by (induction reads arbitrary: acc) (auto split: read_answer.splits)

lemma read_bounded_response_raises: "raises_only after_send_error (read_bounded_response response)"
  unfolding read_bounded_response_def
  by (intro raises_intros one_header_raises read_body_raises) (auto split: option.splits)

lemma utc_seconds_raises: "raises_only is_raw_error (utc_seconds v)"
  by (auto simp: utc_seconds_def split: json.splits)

lemma receipt_signature_raises: "raises_only is_raw_error (receipt_signature v)"
  by (auto simp: receipt_signature_def Let_def split: json.splits option.splits)

lemma response_document_raises: "raises_only is_raw_error (response_document e data)"
  unfolding response_document_def
  by (intro raises_only_bindE load_json_bytes_raises)
    (auto intro!: raises_intros exact_object_raises require_sha256_raises utc_seconds_raises receipt_signature_raises split: role.splits)

lemma validate_response_raises: "raises_only after_send_error (validate_response e response)"
proof -
  have "is_value_error x" if "response_document e data = Inl x" for data x
    using raises_only_not_Inl [OF response_document_raises that] by (cases x) simp_all
  then show ?thesis unfolding validate_response_def
    by (intro raises_intros one_header_raises read_bounded_response_raises) simp_all
qed

lemma exchange_effect:
  assumes "exchange r e body c w = (x, w')"
  shows "w' = posted r e body w" "raises_only after_send_error x"
  using assms
  by (auto simp: validate_response_raises exchange_def send_post_def thenS_def bindS_def raise_if_def posted_def or_raise_def
      split: option.splits sum.splits)


text \<open>
  One call of the client: either nothing was posted, or exactly one POST of the request's canonical
  bytes to the endpoint of the role; and \<open>PreSendError\<close> is raised only in the first case.
\<close>

definition client_effect ::
  "role \<Rightarrow> json \<Rightarrow> collector_response res \<Rightarrow> 'z cloud_world_scheme \<Rightarrow> 'z cloud_world_scheme \<Rightarrow> bool" where
  "client_effect r request x w w' =
     (outside w w' \<or>
      x \<noteq> Inl PreSendError \<and> (\<exists>w1 e body. outside w w1 \<and> request_bytes r request = Inr body \<and> w' = posted r e body w1))"

lemma close_quietly_result: "close_quietly e w = (x, w') \<Longrightarrow> w' = w \<and> raises_only after_send_error x"
  by (auto simp: close_quietly_def split: option.splits if_splits)

lemma post_once_effect:
  assumes "post_once policy r request w = (x, w')"
  shows "client_effect r request x w w'"
proof -
  have pre: "client_effect r request y w w2" if "outside w w2" for y w2 using that by (simp add: client_effect_def)
  let ?e = "policy_endpoint policy r"
  note o = keepsD [OF keeps_verify_live_revision] keepsD [OF keeps_identity_token]
    keepsD [OF keeps_pre_send_on [OF keeps_open_connection]] outside.R_trans
  from assms have "bindS (liftS (request_bytes r request)) (\<lambda>body.
      thenS (verify_live_revision policy ?e)
      (bindS (identity_token policy ?e) (\<lambda>token.
      bindS (pre_send_on (\<lambda>x. is_os_error x \<or> is_value_error x \<or> x = HTTPException) (open_connection (ep_host ?e))) (\<lambda>c.
      catchS (exchange r ?e body c) (\<lambda>x.
        if is_os_error x \<or> is_value_error x \<or> x = HTTPException then
          thenS (close_quietly (case unclosed_response ?e c of None \<Rightarrow> None | Some response \<Rightarrow> hr_close response))
          (thenS (close_quietly (hc_close c))
          (raiseS RemoteOutcomeUnknown))
        else raiseS x))))) w = (x, w')"
    unfolding post_once_def Let_def .
  then show ?thesis
  proof (cases rule: bindS_cases)
    case (raised e)
    then show ?thesis using pre outside.R_refl by auto
  next
    case (next_step body w0)
    then have b: "request_bytes r request = Inr body" "w0 = w" by auto
    show ?thesis
      using next_step(2) unfolding thenS_def [of "verify_live_revision policy ?e"]
    proof (cases rule: bindS_cases)
      case (raised e)
      then show ?thesis using o(1) [OF raised(1)] pre b(2) by simp
    next
      case (next_step y w1)
      have 1: "outside w w1" using o(1) [OF next_step(1)] b(2) by simp
      show ?thesis
        using next_step(2)
      proof (cases rule: bindS_cases)
        case (raised e)
        then show ?thesis using 1 o(2,4) pre by blast
      next
        case (next_step token w2)
        have 2: "outside w w2" using o(2) [OF next_step(1)] 1 o(4) by blast
        show ?thesis
          using next_step(2)
        proof (cases rule: bindS_cases)
          case (raised e)
          then show ?thesis using 2 o(3,4) pre by blast
        next
          case (next_step c w3)
          have 3: "outside w w3" using o(3) [OF next_step(1)] 2 o(4) by blast
          obtain y w4 where e: "exchange r ?e body c w3 = (y, w4)" by fastforce
          note ef = exchange_effect [OF e]
          have "w' = w4 \<and> x \<noteq> Inl PreSendError"
            using next_step(2) e ef(2) after_send_error_not_pre_send close_quietly_result
            by (auto simp: catchS_def thenS_def bindS_def split: sum.splits if_splits prod.splits dest!: close_quietly_result)
          then show ?thesis using 3 ef(1) b(1) unfolding client_effect_def by blast
        qed
      qed
    qed
  qed
qed

lemma issue_effect:
  assumes "issue policy r request w = (x, w')"
  shows "client_effect r request x w w'"
proof -
  obtain y w1 where p: "post_once policy r request w = (y, w1)" by fastforce
  have "w' = w1" "x = Inl PreSendError \<Longrightarrow> y = Inl PreSendError"
    using assms p by (auto simp: issue_def bindS_def split: sum.splits role.splits collector_response.splits)
  then show ?thesis using post_once_effect [OF p] by (auto simp: client_effect_def)
qed

end
