(* ===== verification/Capture_Transaction.thy ===== *)
theory Capture_Transaction
  imports Cloud_Run
begin

text \<open>
  The transactions around the two POSTs, \<open>scripts/physical_capture/transaction.py\<close>. The client is an
  argument, as it is of \<open>PhysicalCaptureTransaction\<close>; the locale \<open>cloud_client\<close> has the law the
  transactions rely on.
\<close>

section \<open>Specifications and documents\<close>

record transaction_spec =
  ts_role :: role
  ts_initial_state :: capture_state
  ts_prepared_state :: capture_state
  ts_attempted_state :: capture_state
  ts_received_state :: capture_state
  ts_prepared_event :: capture_event
  ts_attempted_event :: capture_event
  ts_pre_send_failed_event :: capture_event
  ts_response_event :: capture_event
  ts_outcome_unknown_event :: capture_event
  ts_request_path :: ustr
  ts_response_path :: ustr
  ts_request_fields :: "string list"

definition NONCE_SPEC :: transaction_spec where
  "NONCE_SPEC =
     \<lparr>ts_role = Nonce, ts_initial_state = S_RAW_COMPLETE, ts_prepared_state = S_NONCE_REQUEST_PREPARED,
      ts_attempted_state = S_NONCE_ATTEMPTED, ts_received_state = S_NONCE_RECEIVED,
      ts_prepared_event = E_NONCE_REQUEST_PREPARED, ts_attempted_event = E_NONCE_ATTEMPT_STARTED,
      ts_pre_send_failed_event = E_NONCE_PRE_SEND_FAILED, ts_response_event = E_NONCE_RESPONSE_RECORDED,
      ts_outcome_unknown_event = E_NONCE_OUTCOME_UNKNOWN,
      ts_request_path = u ''cloud/nonce-request.json'', ts_response_path = u ''cloud/nonce-response.json'',
      ts_request_fields = NONCE_REQUEST_FIELDS\<rparr>"

definition RECEIPT_SPEC :: transaction_spec where
  "RECEIPT_SPEC =
     \<lparr>ts_role = Receipt, ts_initial_state = S_BINDINGS_COMPOSED, ts_prepared_state = S_RECEIPT_REQUEST_PREPARED,
      ts_attempted_state = S_RECEIPT_ATTEMPTED, ts_received_state = S_RECEIPT_RECEIVED,
      ts_prepared_event = E_RECEIPT_REQUEST_PREPARED, ts_attempted_event = E_RECEIPT_ATTEMPT_STARTED,
      ts_pre_send_failed_event = E_RECEIPT_PRE_SEND_FAILED, ts_response_event = E_RECEIPT_RESPONSE_RECORDED,
      ts_outcome_unknown_event = E_RECEIPT_OUTCOME_UNKNOWN,
      ts_request_path = u ''cloud/receipt-request.json'', ts_response_path = u ''cloud/receipt-response.json'',
      ts_request_fields = RECEIPT_REQUEST_FIELDS\<rparr>"

definition spec_of :: "role \<Rightarrow> transaction_spec" where
  "spec_of r = (case r of Nonce \<Rightarrow> NONCE_SPEC | Receipt \<Rightarrow> RECEIPT_SPEC)"

definition canonical_request :: "transaction_spec \<Rightarrow> json \<Rightarrow> (json \<times> bytes \<times> ustr) res" where
  "canonical_request spec value =
     (case bindE (exact_object value (ts_request_fields spec)) (\<lambda>request.
        if field request ''schema_version'' \<noteq> JInt 1 then
          Inl (RawArtifactError ''physical {} request schema_version is unsupported'')
        else bindE (canonical_json (JObj request)) (\<lambda>bs.
        if length (bs @ [10]) > MAX_REQUEST_BYTES then
          Inl (RawArtifactError ''physical {} request exceeds its fixed byte bound'')
        else bindE (load_json_bytes (bs @ [10])) (\<lambda>normalized.
        case normalized of
          JObj _ \<Rightarrow> Inr (normalized, bs @ [10])
        | _ \<Rightarrow> Inl (RawArtifactError ''physical {} request is not an object'')))) of
        Inl _ \<Rightarrow> Inl (TransactionError ''invalid_request'' ''physical {} request failed strict local validation'')
      | Inr (normalized, data) \<Rightarrow> Inr (normalized, data, u (sha256_hex data)))"

definition response_of_role :: "role \<Rightarrow> collector_response \<Rightarrow> bool" where
  "response_of_role r value = (case value of NonceResponse _ _ \<Rightarrow> r = Nonce | ReceiptResponse _ _ _ \<Rightarrow> r = Receipt)"

definition canonical_response :: "transaction_spec \<Rightarrow> collector_response \<Rightarrow> (bytes \<times> ustr) res" where
  "canonical_response spec value =
     (if \<not> response_of_role (ts_role spec) value then
        Inl (TransactionError ''invalid_response_type'' ''physical {} client returned the wrong response type'')
      else case canonical_json (response_as_dict value) of
        Inl _ \<Rightarrow> Inl (TransactionError ''invalid_response'' ''physical {} response cannot be canonically archived'')
      | Inr bs \<Rightarrow>
          if length (bs @ [10]) > MAX_RESPONSE_BYTES then
            Inl (TransactionError ''invalid_response'' ''physical {} response exceeds its fixed byte bound'')
          else Inr (bs @ [10], u (sha256_hex (bs @ [10]))))"

section \<open>Steps\<close>

text \<open>\<open>except (PhysicalCaptureArchiveError, PhysicalCaptureSessionError)\<close>.\<close>

definition except_local :: "('w, 'a) st \<Rightarrow> exn \<Rightarrow> ('w, 'a) st" where
  "except_local m e = catchS m (\<lambda>x. case x of ArchiveError _ _ \<Rightarrow> raiseS e | SessionError _ _ \<Rightarrow> raiseS e | _ \<Rightarrow> raiseS x)"

definition read_exact_request :: "transaction_spec \<Rightarrow> bytes \<Rightarrow> ('z cloud_world_scheme, archived_file) st" where
  "read_exact_request spec expected =
     bindS (except_archive (read_bytes (ts_request_path spec) MAX_REQUEST_BYTES) (\<lambda>_.
       raiseS (TransactionError ''request_archive_unavailable'' ''archived physical {} request is unavailable''))) (\<lambda>observed.
     if observed \<noteq> expected then
       raiseS (TransactionError ''request_archive_mismatch'' ''archived physical {} request differs from the requested POST'')
     else returnS (archived (ts_request_path spec) observed))"

definition archive_request_once :: "transaction_spec \<Rightarrow> bytes \<Rightarrow> ('z cloud_world_scheme, archived_file) st" where
  "archive_request_once spec data =
     except_archive (write_or_reopen_exact (ts_request_path spec) data MAX_REQUEST_BYTES) (\<lambda>_.
       raiseS (TransactionError ''request_archive_failed'' ''physical {} request could not be durably archived''))"

text \<open>Append an event and require the state it must lead to.\<close>

definition append_checked ::
  "capture_event \<Rightarrow> ustr \<Rightarrow> (session_snapshot \<Rightarrow> bool) \<Rightarrow> exn \<Rightarrow> exn \<Rightarrow> ('z cloud_world_scheme, unit) st" where
  "append_checked event binding ok failed mismatch =
     bindS (except_local (session_append event binding) failed) (\<lambda>snapshot.
     if \<not> ok snapshot then raiseS mismatch else returnS ())"

definition prepare :: "transaction_spec \<Rightarrow> bytes \<Rightarrow> ustr \<Rightarrow> ('z cloud_world_scheme, unit) st" where
  "prepare spec data request_sha256 =
     bindS session_snapshot_of (\<lambda>s.
     if sn_state s = ts_initial_state spec then
       bindS (archive_request_once spec data) (\<lambda>f.
       if af_sha256 f \<noteq> request_sha256 \<or> af_size f \<noteq> length data then
         raiseS (TransactionError ''request_archive_mismatch'' ''archived physical {} request digest differs'')
       else append_checked (ts_prepared_event spec) request_sha256 (\<lambda>snapshot. sn_state snapshot = ts_prepared_state spec)
         (TransactionError ''request_prepare_record_failed'' ''physical {} request preparation was not recorded'')
         (TransactionError ''request_prepare_state_mismatch'' ''physical {} request entered an unexpected state''))
     else if sn_state s = ts_prepared_state spec then
       bindS (read_exact_request spec data) (\<lambda>f.
       bindS session_snapshot_of (\<lambda>snapshot.
       if af_sha256 f \<noteq> request_sha256 \<or> sn_last_binding_sha256 snapshot \<noteq> request_sha256 then
         raiseS (TransactionError ''prepared_request_binding_mismatch'' ''prepared physical {} request binding differs'')
       else returnS ()))
     else raiseS (TransactionError ''transaction_not_preparable'' ''physical {} POST is forbidden from state {}''))"

definition append_attempt :: "transaction_spec \<Rightarrow> ustr \<Rightarrow> ('z cloud_world_scheme, unit) st" where
  "append_attempt spec request_sha256 =
     append_checked (ts_attempted_event spec) request_sha256 (\<lambda>snapshot. sn_state snapshot = ts_attempted_state spec)
       (TransactionError ''attempt_record_failed'' ''physical {} POST attempt was not durably recorded'')
       (TransactionError ''attempt_state_mismatch'' ''physical {} POST entered an unexpected attempted state'')"

definition record_pre_send_failure :: "transaction_spec \<Rightarrow> ustr \<Rightarrow> ('z cloud_world_scheme, unit) st" where
  "record_pre_send_failure spec request_sha256 =
     append_checked (ts_pre_send_failed_event spec) request_sha256 (\<lambda>snapshot. sn_state snapshot = ts_prepared_state spec)
       (TransactionError ''pre_send_failure_record_failed''
         ''physical {} pre-send failure requires restart recovery; do not retry'')
       (TransactionError ''pre_send_failure_state_mismatch'' ''physical {} pre-send failure entered an unsafe state'')"

definition outcome_unknown_state :: "transaction_spec \<Rightarrow> capture_state" where
  "outcome_unknown_state spec = (case ts_role spec of Nonce \<Rightarrow> S_NONCE_OUTCOME_UNKNOWN | Receipt \<Rightarrow> S_RECEIPT_OUTCOME_UNKNOWN)"

definition record_outcome_unknown :: "transaction_spec \<Rightarrow> ustr \<Rightarrow> ('z cloud_world_scheme, unit) st" where
  "record_outcome_unknown spec request_sha256 =
     append_checked (ts_outcome_unknown_event spec) request_sha256 (\<lambda>snapshot. sn_state snapshot = outcome_unknown_state spec)
       (TransactionError ''outcome_unknown_record_failed'' ''physical {} outcome requires restart recovery; do not retry'')
       (TransactionError ''outcome_unknown_state_mismatch'' ''physical {} outcome entered an unsafe state'')"

definition raise_outcome_unknown :: "transaction_spec \<Rightarrow> ustr \<Rightarrow> ('z cloud_world_scheme, 'a) st" where
  "raise_outcome_unknown spec request_sha256 =
     thenS (record_outcome_unknown spec request_sha256)
     (raiseS (OutcomeUnknownError ''{}_outcome_unknown'' ''physical {} POST outcome is unknown and must not be retried''))"

definition archive_response :: "transaction_spec \<Rightarrow> collector_response \<Rightarrow> ('z cloud_world_scheme, ustr) st" where
  "archive_response spec response =
     bindS (liftS (canonical_response spec response)) (\<lambda>(response_bytes, response_sha256).
     bindS (write_bytes (ts_response_path spec) response_bytes MAX_RESPONSE_BYTES) (\<lambda>f.
     if af_sha256 f \<noteq> response_sha256 \<or> af_size f \<noteq> length response_bytes then
       raiseS (TransactionError ''response_archive_mismatch'' ''archived physical {} response digest differs'')
     else returnS response_sha256))"

text \<open>What \<open>_execute\<close> does with the answer of the client.\<close>

definition settle ::
  "transaction_spec \<Rightarrow> ustr \<Rightarrow> exn + collector_response \<Rightarrow> ('z cloud_world_scheme, collector_response) st" where
  "settle spec request_sha256 answer =
     (case answer of
        Inl PreSendError \<Rightarrow> thenS (record_pre_send_failure spec request_sha256) (raiseS PreSendError)
      | Inl _ \<Rightarrow> raise_outcome_unknown spec request_sha256
      | Inr response \<Rightarrow>
          bindS (attemptS (archive_response spec response)) (\<lambda>stored.
          case stored of
            Inl _ \<Rightarrow> raise_outcome_unknown spec request_sha256
          | Inr response_sha256 \<Rightarrow>
              thenS (append_checked (ts_response_event spec) response_sha256
                (\<lambda>snapshot. sn_state snapshot = ts_received_state spec \<and> sn_last_binding_sha256 snapshot = response_sha256)
                (TransactionError ''response_record_failed'' ''physical {} response requires restart recovery; do not retry'')
                (TransactionError ''response_state_mismatch'' ''physical {} response entered an unsafe state''))
              (returnS response)))"

definition execute_transaction ::
  "(role \<Rightarrow> json \<Rightarrow> ('z cloud_world_scheme, collector_response) st) \<Rightarrow> transaction_spec \<Rightarrow> json \<Rightarrow>
   ('z cloud_world_scheme, collector_response) st" where
  "execute_transaction client spec request =
     bindS (liftS (canonical_request spec request)) (\<lambda>(normalized, request_bytes, request_sha256).
     thenS (prepare spec request_bytes request_sha256)
     (thenS (append_attempt spec request_sha256)
     (bindS (attemptS (client (ts_role spec) normalized)) (settle spec request_sha256))))"

text \<open>\<open>issue_nonce\<close> and \<open>issue_receipt\<close>.\<close>

definition transaction_issue ::
  "(role \<Rightarrow> json \<Rightarrow> ('z cloud_world_scheme, collector_response) st) \<Rightarrow> role \<Rightarrow> json \<Rightarrow>
   ('z cloud_world_scheme, collector_response) st" where
  "transaction_issue client r request =
     bindS (execute_transaction client (spec_of r) request) (\<lambda>response.
     if \<not> response_of_role r response then
       raiseS (OutcomeUnknownError ''{}_outcome_unknown'' ''{} POST outcome is unknown and must not be retried'')
     else returnS response)"

section \<open>The journal is left alone\<close>

context archive_relation
begin

lemma keeps_discard_hidden:
  "(\<And>p. hidden p \<Longrightarrow> p \<in> F) \<Longrightarrow> keeps R (discard_pending pending)"
  unfolding discard_pending_def
  by (intro keeps_then keeps_require_mutable keeps_bind_result [OF keeps_open_pending] keeps_open_existing
      keeps_unlink keeps_fsync_directory) (auto intro: open_pending_hidden)

lemma keeps_reopen_published_hidden:
  "(\<And>p. hidden p \<Longrightarrow> p \<in> F) \<Longrightarrow> keeps R (reopen_published relative data maximum target)"
  unfolding reopen_published_def
  by (intro keeps_basic keeps_read_bytes keeps_read_pending_fragment keeps_discard_hidden keeps_verify_exact)

lemma keeps_publish_hidden:
  assumes "\<And>p. hidden p \<Longrightarrow> p \<in> F" "\<And>r. r @ butlast (path_parts (pf_final_relative_path pending)) @ [path_name (pf_final_relative_path pending)] \<in> G"
  shows "keeps R (publish_pending pending)"
proof -
  have "keeps R (bindS (open_relative_directory (butlast (path_parts (pf_relative_path pending))) False) (\<lambda>parent.
      thenS (open_existing_private_at (parent @ [path_name (pf_relative_path pending)]))
      (thenS (exclusive_rename_at (parent @ [path_name (pf_relative_path pending)])
                (parent @ [path_name (pf_final_relative_path pending)]))
      (fsync_directory parent))))"
    if "butlast (path_parts (pf_relative_path pending)) = butlast (path_parts (pf_final_relative_path pending))"
      "PENDING_RE (path_name (pf_relative_path pending)) \<noteq> None"
    using that assms(2)
    by (intro keeps_bind_result [OF keeps_open_relative_existing] keeps_then keeps_open_existing keeps_exclusive_rename
        keeps_fsync_directory) (auto intro!: assms(1) simp: hidden_def dest!: open_relative_result dest: PENDING_RE_hidden)
  then show ?thesis unfolding publish_pending_def Let_def by (intro keeps_then keeps_if keeps_require_mutable keeps_raise) auto
qed

end

definition journal_entry :: "path \<Rightarrow> path \<Rightarrow> bool" where
  "journal_entry base p = (\<exists>name. p = base @ [JOURNAL_DIRECTORY, name] \<and> take 1 name \<noteq> [46])"

lemma not_journal_entry: "hidden p \<Longrightarrow> \<not> journal_entry base p"
  by (auto simp: journal_entry_def hidden_def)

lemma other_directory: "d \<noteq> JOURNAL_DIRECTORY \<Longrightarrow> \<not> journal_entry base (r @ [d, n])"
  by (auto simp: journal_entry_def)

definition entries_kept :: "path \<Rightarrow> 'z archive_world_scheme \<Rightarrow> 'z archive_world_scheme \<Rightarrow> bool" where
  "entries_kept base w w' = (\<forall>p. journal_entry base p \<longrightarrow> map_of (w_fs w') p = map_of (w_fs w) p)"

interpretation entries: archive_relation "entries_kept base" "{p. \<not> journal_entry base p}" "{p. \<not> journal_entry base p}"
    "{p. \<not> journal_entry base p}" for base
  by unfold_locales (auto simp: entries_kept_def)

lemma entries_kept_changes:
  "fs_rel (changes D F) w w' \<Longrightarrow> (\<And>p. journal_entry base p \<Longrightarrow> p \<notin> F \<and> p \<notin> D) \<Longrightarrow> entries_kept base w w'"
  unfolding entries_kept_def by (meson changes_same)

lemma above_not_entry: "length parts < 2 \<Longrightarrow> journal_entry base p \<Longrightarrow> p \<notin> above base parts"
  by (auto simp: journal_entry_def above_def dest!: arg_cong [of _ _ length])

lemma entries_write_bytes:
  assumes "write_bytes relative data maximum w = (x, w')" "relative_parts relative = Inr [d, n]" "d \<noteq> JOURNAL_DIRECTORY"
  shows "entries_kept (ar_root w) w w'"
proof -
  let ?p = "ar_root w @ [d, n]"
  have "fs_rel (changes (above (ar_root w) [d]) (insert ?p (own_hidden ?p))) w w'"
    using write_bytes_effect [OF assms(1,2)] by (simp add: write_effect_def)
  then show ?thesis
    by (rule entries_kept_changes)
      (use assms(3) other_directory not_journal_entry above_not_entry [of "[d]"] in \<open>fastforce simp: own_hidden_def\<close>)
qed


text \<open>The same for a fixed archive root, which the operations keep.\<close>

definition rooted :: "path \<Rightarrow> 'z archive_world_scheme \<Rightarrow> 'z archive_world_scheme \<Rightarrow> bool" where
  "rooted base w w' = (ar_root w = base \<longrightarrow> ar_root w' = base \<and> entries_kept base w w')"

interpretation rooted: state_relation "rooted base" for base
  by unfold_locales (auto simp: rooted_def entries_kept_def)

lemma rooted_keeps: "keeps (entries_kept base) m \<Longrightarrow> keeps same_object m \<Longrightarrow> keeps (rooted base) m"
  by (auto simp: keeps_def rooted_def same_object_def)

lemma rooted_create_parent: "keeps (rooted base) (open_relative_directory [d] True)"
proof (rule keepsI)
  fix w x w' assume o: "open_relative_directory [d] True w = (x, w')"
  have "entries_kept (ar_root w) w w'"
    by (rule entries_kept_changes [OF open_relative_adds [OF o]]) (use above_not_entry [of "[d]"] in auto)
  moreover have "ar_root w' = ar_root w" using keepsD [OF object.keeps_open_relative o] by (simp add: same_object_def)
  ultimately show "rooted base w w'" by (auto simp: rooted_def)
qed

lemma rooted_write_bytes:
  assumes "relative_parts relative = Inr [d, n]" "d \<noteq> JOURNAL_DIRECTORY"
  shows "keeps (rooted base) (write_bytes relative data maximum)"
proof (rule keepsI)
  fix w x w' assume o: "write_bytes relative data maximum w = (x, w')"
  have "ar_root w' = ar_root w" using keepsD [OF object.keeps_write_bytes o] by (simp add: same_object_def)
  then show "rooted base w w'" using entries_write_bytes [OF o assms] by (auto simp: rooted_def)
qed

lemma hidden_not_entry: "hidden p \<Longrightarrow> p \<in> {p. \<not> journal_entry base p}"
  by (simp add: not_journal_entry)

lemmas rooted_reads =
  rooted_keeps [OF entries.keeps_require_mutable object.keeps_require_mutable]
  rooted_keeps [OF entries.keeps_reads(4) object.keeps_reads(4)]
  rooted_keeps [OF entries.keeps_read_bytes object.keeps_read_bytes]
  rooted_keeps [OF entries.keeps_read_pending_fragment object.keeps_read_pending_fragment]
  rooted_keeps [OF entries.keeps_verify_exact object.keeps_verify_exact]
  rooted_keeps [OF entries.keeps_discard_hidden [OF hidden_not_entry] object.keeps_discard_pending]
  rooted_keeps [OF entries.keeps_reopen_published_hidden [OF hidden_not_entry] object.keeps_reopen_published]

lemma rooted_write_exact:
  assumes "relative_parts relative = Inr [d, n]" "d \<noteq> JOURNAL_DIRECTORY"
  shows "keeps (rooted base) (write_exact relative data maximum)"
  unfolding write_exact_def by (intro rooted.keeps_rules rooted_write_bytes [OF assms])

lemma rooted_publish:
  assumes "path_parts (pf_final_relative_path candidate) = [d, n]" "d \<noteq> JOURNAL_DIRECTORY"
  shows "keeps (rooted base) (publish_pending candidate)"
  by (rule rooted_keeps [OF entries.keeps_publish_hidden [OF hidden_not_entry] object.keeps_publish_pending])
    (simp_all add: assms(1) path_name_def Let_def other_directory [OF assms(2)])

lemma rooted_write_or_reopen_exact:
  assumes parts: "relative_parts relative = Inr [d, n]" "path_parts relative = [d, n]" and d: "d \<noteq> JOURNAL_DIRECTORY"
  shows "keeps (rooted base) (write_or_reopen_exact relative data maximum)"
proof -
  have l: "keeps (rooted base) (except_os (os_listdir p) (\<lambda>_. raiseS e))" for p e
    unfolding except_os_def by (intro rooted.keeps_catch rooted_reads) (auto intro: rooted.keeps_raise split: exn.splits)
  have c: "keeps (rooted base) (case filter (\<lambda>item. pf_final_relative_path item = relative) pending of
         [] \<Rightarrow> write_exact relative data maximum
       | candidate # _ \<Rightarrow>
           bindS (read_pending_fragment candidate maximum) (\<lambda>interrupted.
           if interrupted = data then
             thenS (publish_pending candidate) (verify_exact_descriptor relative (archived relative data) maximum)
           else if \<not> starts_with data interrupted then
             raiseS (ArchiveError ''pending_archive_mismatch'' ''pending exact archive bytes are not a source prefix'')
           else thenS (discard_pending candidate) (write_exact relative data maximum)))" for pending
  proof (cases "filter (\<lambda>item. pf_final_relative_path item = relative) pending")
    case Nil
    then show ?thesis using rooted_write_exact [OF parts(1) d] by simp
  next
    case (Cons candidate rest)
    then have "pf_final_relative_path candidate = relative" by (auto simp: filter_eq_Cons_iff)
    then have "path_parts (pf_final_relative_path candidate) = [d, n]" using parts(2) by simp
    then show ?thesis unfolding Cons list.case
      by (intro rooted.keeps_rules rooted_reads rooted_publish [OF _ d] rooted_write_exact [OF parts(1) d])
  qed
  show ?thesis unfolding write_or_reopen_exact_def Let_def parts(1)
    by (intro rooted.keeps_then rooted_reads rooted.keeps_bind_result [where m = "liftS _"] rooted.keeps_lift)
      (auto simp: liftS_Inr intro!: rooted.keeps_bind rooted.keeps_if rooted.keeps_raise rooted.keeps_lift rooted_create_parent l c rooted_reads)
qed

section \<open>Durable state\<close>

lemma event_name_visible: "take 1 (event_name n) \<noteq> [46]"
proof -
  have "fmt_dec 8 n \<noteq> []" using text_value_fmt_dec [of 8 n] by (cases "fmt_dec 8 n = []") (auto simp: fmt_dec_def dec_str_def)
  then obtain c cs where c: "u (fmt_dec 8 n) = c # cs" by (cases "fmt_dec 8 n") (auto simp: u_def)
  then have "is_dig c" using is_dig_fmt_dec [of c 8 n] by simp
  moreover have "event_name n = c # cs @ u ''.json''" using c by (simp add: event_name_def u_def)
  ultimately show ?thesis by (auto simp: is_dig_def)
qed

lemma journal_on_entries:
  assumes "journal_on w js" "entries_kept (ar_root w) w w'" "ar_root w' = ar_root w" "w_euid w' = w_euid w"
    and "distinct (map fst (w_fs w'))"
  shows "journal_on w' js"
proof -
  have k: "map_of (w_fs w') (ar_root w @ [JOURNAL_DIRECTORY, name]) = map_of (w_fs w) (ar_root w @ [JOURNAL_DIRECTORY, name])"
    if "take 1 name \<noteq> [46]" for name
    using assms(2) that unfolding entries_kept_def journal_entry_def by blast
  show ?thesis unfolding journal_on_def assms(3,4)
  proof (intro conjI allI impI)
    fix i assume "i < length js"
    then show "map_of (w_fs w') (ar_root w @ [JOURNAL_DIRECTORY, event_name (Suc i)]) = Some (FileNode PRIVATE_FILE_MODE 1 (w_euid w) (js ! i))"
      using k [OF event_name_visible] journal_on_event [OF assms(1)] by simp
  next
    fix name n assume "map_of (w_fs w') (ar_root w @ [JOURNAL_DIRECTORY, name]) = Some n" and v: "take 1 name \<noteq> [46]"
    then show "\<exists>i < length js. name = event_name (Suc i)" using k [OF v] journal_on_name [OF assms(1) _ v] by simp
  qed (rule assms(5))
qed

definition stored :: "'z session_world_scheme \<Rightarrow> bytes list \<Rightarrow> session_snapshot \<Rightarrow> bool" where
  "stored w js s = (journal_on w js \<and> replay js = Inr (Some s) \<and> list_all valid_datetime (ss_clock w))"

text \<open>Archive operations away from the journal.\<close>

definition still :: "'z cloud_world_scheme \<Rightarrow> 'z cloud_world_scheme \<Rightarrow> bool" where
  "still w w' =
     (entries_kept (ar_root w) w w' \<and> same_object w w' \<and>
      (distinct (map fst (w_fs w)) \<longrightarrow> distinct (map fst (w_fs w'))))"

lemma more_fields:
  assumes "archive_world.more (w' :: 'z cloud_world_scheme) = archive_world.more (w :: 'z cloud_world_scheme)"
  shows "ss_snapshot w' = ss_snapshot w" "ss_clock w' = ss_clock w" "ss_locked w' = ss_locked w" "cw_posts w' = cw_posts w"
  using assms by (cases w; cases w'; simp)+

lemma still_stored:
  assumes "still w w'"
  shows "stored w js s \<Longrightarrow> stored w' js s" "ss_snapshot w' = ss_snapshot w" "cw_posts w' = cw_posts w"
proof -
  have o: "same_object w w'" using assms by (simp add: still_def)
  then have m: "archive_world.more w' = archive_world.more w" "ar_root w' = ar_root w" "w_euid w' = w_euid w"
    by (simp_all add: same_object_def)
  note f = more_fields [OF m(1)]
  show "ss_snapshot w' = ss_snapshot w" "cw_posts w' = cw_posts w" using f by simp_all
  show "stored w' js s" if "stored w js s"
    using that journal_on_entries [of w js w'] assms m f unfolding stored_def still_def
    by (simp add: journal_on_def [of w])
qed

interpretation still: state_relation still
  by unfold_locales (auto simp: still_def entries_kept_def same_object_def)

lemma still_keeps:
  assumes "\<And>base. keeps (rooted base) m" "keeps same_object m" "keeps distinct_paths m"
  shows "keeps still m"
  using assms unfolding keeps_def still_def rooted_def distinct_paths_def by blast

interpretation session_more: session_appends "\<lambda>w w'. session_world.more w' = session_world.more w" UNIV
  by unfold_locales auto

definition clock_kept :: "'z session_world_scheme \<Rightarrow> 'z session_world_scheme \<Rightarrow> bool" where
  "clock_kept w w' = (list_all valid_datetime (ss_clock w) \<longrightarrow> list_all valid_datetime (ss_clock w'))"

interpretation session_clock: session_appends clock_kept UNIV
  by unfold_locales (auto simp: clock_kept_def)

text \<open>The journal after some events were appended to it, each a transition from the state before.\<close>

fun steps :: "capture_state \<Rightarrow> capture_event list \<Rightarrow> capture_state \<Rightarrow> bool" where
  "steps s [] t = (s = t)"
| "steps s (e # es) t = (case transition_for e (Some s) of Inl _ \<Rightarrow> False | Inr s1 \<Rightarrow> steps s1 es t)"

lemma steps_append: "steps s (xs @ ys) t \<longleftrightarrow> (\<exists>m. steps s xs m \<and> steps m ys t)"
  by (induction xs arbitrary: s) (auto split: sum.splits)

definition grown :: "bytes list \<Rightarrow> session_snapshot \<Rightarrow> capture_event list \<Rightarrow> 'z session_world_scheme \<Rightarrow> session_snapshot \<Rightarrow> bool" where
  "grown js s es w s' =
     (\<exists>ds. map event_of_bytes ds = map Some es \<and> stored w (js @ ds) s' \<and> steps (sn_state s) es (sn_state s'))"

lemma grown_Nil: "stored w js s \<Longrightarrow> grown js s [] w s"
  by (simp add: grown_def)

lemma grown_append:
  assumes "grown js s es w s1" "\<And>ks. stored w ks s1 \<Longrightarrow> grown ks s1 es' w' s2"
  shows "grown js s (es @ es') w' s2"
proof -
  obtain ds where d: "map event_of_bytes ds = map Some es" "stored w (js @ ds) s1" "steps (sn_state s) es (sn_state s1)"
    using assms(1) by (auto simp: grown_def)
  from assms(2) [OF d(2)] obtain ds' where "map event_of_bytes ds' = map Some es'" "stored w' ((js @ ds) @ ds') s2"
    "steps (sn_state s1) es' (sn_state s2)" by (auto simp: grown_def)
  then show ?thesis unfolding grown_def using d(1,3) by (intro exI [of _ "ds @ ds'"]) (auto simp: steps_append)
qed

lemma grown_stored: "grown js s es w s' \<Longrightarrow> (\<And>ks. stored w ks s' \<Longrightarrow> stored w' ks s') \<Longrightarrow> grown js s es w' s'"
  by (auto simp: grown_def)

lemma session_append_outcome:
  assumes j: "stored w js s" "ss_snapshot w = Some s" and run: "session_append event binding w = (x, w')"
  shows "append_outcome js s event binding x w'"
proof -
  have stay: "append_outcome js s event binding (Inl e) w" for e
    using j(1) by (auto simp: append_outcome_def stored_def)
  show ?thesis
  proof (cases "ss_locked w \<and> event \<noteq> E_RAW_COMPLETED \<and> SHA256_RE binding")
    case True
    then have "append_locked event binding w = (x, w')"
      using run by (simp add: session_append_def session_require_open_def thenS_def bindS_def session_require_sha256_def)
    then show ?thesis using append_locked_outcome [OF _ _ j(2)] j(1) True unfolding stored_def by blast
  next
    case False
    then have "w' = w \<and> (\<exists>e. x = Inl e)"
      using run by (auto simp: session_append_def session_require_open_def thenS_def bindS_def session_require_sha256_def
          session_error_def split: if_splits)
    then show ?thesis using stay by auto
  qed
qed

lemma outcome_grown:
  fixes w :: "'z cloud_world_scheme"
  assumes o: "append_outcome js s event binding x w'" and r: "replay js = Inr (Some s)"
    and clock: "list_all valid_datetime (ss_clock w')" and m: "session_world.more w' = session_world.more w"
  shows "cw_posts w' = cw_posts w \<and>
    ((\<exists>e. x = Inl e) \<and> stored w' js s \<or>
     (\<exists>s'. grown js s [event] w' s' \<and> (\<forall>y. x = Inr y \<longrightarrow> y = s' \<and> ss_snapshot w' = Some s')))"
proof -
  have posts: "cw_posts w' = cw_posts w" using m by (cases w; cases w') simp
  from o show ?thesis
  proof (unfold append_outcome_def, elim disjE exE conjE)
    fix e assume "x = Inl e" "journal_on w' js"
    then show ?thesis using posts clock r by (auto simp: stored_def)
  next
    fix data t
    assume t: "journal_on w' (js @ [data])" "replay (js @ [data]) = Inr (Some t)" "event_of_bytes data = Some event"
      "transition_for event (Some (sn_state s)) = Inr (sn_state t)" "sn_last_binding_sha256 t = binding"
      "\<forall>y. x = Inr y \<longrightarrow> y = t \<and> ss_snapshot w' = Some t"
    have "grown js s [event] w' t" unfolding grown_def using t(1-4) clock by (intro exI [of _ "[data]"]) (simp add: stored_def)
    then show ?thesis using posts t(6) by blast
  qed
qed

lemma append_grown:
  fixes w :: "'z cloud_world_scheme"
  assumes j: "stored w js s" "ss_snapshot w = Some s" and run: "session_append event binding w = (x, w')"
  shows "cw_posts w' = cw_posts w \<and>
    ((\<exists>e. x = Inl e) \<and> stored w' js s \<or>
     (\<exists>s'. grown js s [event] w' s' \<and> (\<forall>y. x = Inr y \<longrightarrow> y = s' \<and> ss_snapshot w' = Some s')))"
  by (rule outcome_grown [OF session_append_outcome [OF j run] _ _ keepsD [OF session_more.keeps_session_append run]])
    (use keepsD [OF session_clock.keeps_session_append run] j(1) in \<open>simp_all add: clock_kept_def stored_def\<close>)

lemma append_locked_grown:
  fixes w :: "'z cloud_world_scheme"
  assumes j: "stored w js s" "ss_snapshot w = Some s" and b: "SHA256_RE binding" and run: "append_locked event binding w = (x, w')"
  shows "cw_posts w' = cw_posts w \<and>
    ((\<exists>e. x = Inl e) \<and> stored w' js s \<or>
     (\<exists>s'. grown js s [event] w' s' \<and> (\<forall>y. x = Inr y \<longrightarrow> y = s' \<and> ss_snapshot w' = Some s')))"
  by (rule outcome_grown [OF append_locked_outcome [OF _ _ j(2) _ b run] _ _ keepsD [OF session_more.keeps_append_locked run]])
    (use keepsD [OF session_clock.keeps_append_locked run] j(1) in \<open>simp_all add: clock_kept_def stored_def\<close>)

section \<open>The steps of a transaction\<close>

text \<open>A session in memory that agrees with its journal.\<close>

definition live :: "bytes list \<Rightarrow> session_snapshot \<Rightarrow> capture_event list \<Rightarrow> 'z session_world_scheme \<Rightarrow> session_snapshot \<Rightarrow> bool" where
  "live js s es w s' = (grown js s es w s' \<and> ss_snapshot w = Some s')"

text \<open>What a step leaves behind: on success \<open>ok\<close> events in memory and on disk, otherwise any of \<open>any\<close> on disk.\<close>

definition step_effect ::
  "bytes list \<Rightarrow> session_snapshot \<Rightarrow> capture_event list \<Rightarrow> capture_event list set \<Rightarrow> capture_event list set \<Rightarrow>
   (exn + 'a) \<Rightarrow> 'z cloud_world_scheme \<Rightarrow> 'z cloud_world_scheme \<Rightarrow> bool" where
  "step_effect js s es ok any x w w' =
     (cw_posts w' = cw_posts w \<and>
      (case x of
         Inr _ \<Rightarrow> \<exists>fs \<in> ok. \<exists>s'. live js s (es @ fs) w' s'
       | Inl _ \<Rightarrow> \<exists>fs \<in> any. \<exists>s'. grown js s (es @ fs) w' s'))"

lemma append_checked_effect:
  assumes l: "live js s es w s1" and run: "append_checked event binding good failed mismatch w = (x, w')"
  shows "step_effect js s es {[event]} {[], [event]} x w w'"
proof -
  have l': "grown js s es w s1" "ss_snapshot w = Some s1" using l by (simp_all add: live_def)
  obtain y w1 where a: "session_append event binding w = (y, w1)" by fastforce
  have x: "w' = w1" "\<And>z. x = Inr z \<Longrightarrow> \<exists>t. y = Inr t"
    using run a by (auto simp: append_checked_def except_local_def bindS_def catchS_def split: sum.splits if_splits exn.splits)
  obtain ds where ds: "map event_of_bytes ds = map Some es" "stored w (js @ ds) s1" "steps (sn_state s) es (sn_state s1)"
    using l'(1) by (auto simp: grown_def)
  note g = append_grown [OF ds(2) l'(2) a]
  have up: "grown js s (es @ fs) w1 s2" if "grown (js @ ds) s1 fs w1 s2" for fs s2
  proof -
    from that obtain ds' where "map event_of_bytes ds' = map Some fs" "stored w1 ((js @ ds) @ ds') s2" "steps (sn_state s1) fs (sn_state s2)"
      by (auto simp: grown_def)
    then show ?thesis unfolding grown_def using ds(1,3) by (intro exI [of _ "ds @ ds'"]) (auto simp: steps_append)
  qed
  show ?thesis
  proof (cases x)
    case (Inl e)
    then show ?thesis using g up grown_Nil x(1) unfolding step_effect_def by fastforce
  next
    case (Inr z)
    then obtain t where t: "y = Inr t" using x(2) by blast
    then obtain s2 where "grown (js @ ds) s1 [event] w1 s2" "ss_snapshot w1 = Some s2" using g by auto
    then show ?thesis using g up x(1) Inr unfolding step_effect_def live_def by auto
  qed
qed

lemma still_effect:
  assumes "live js s es w s1" "still w w'"
  shows "live js s es w' s1" "cw_posts w' = cw_posts w"
proof -
  show "live js s es w' s1" using assms(1) still_stored(2) [OF assms(2)] grown_stored [OF _ still_stored(1) [OF assms(2)]]
    unfolding live_def by metis
qed (rule still_stored(3) [OF assms(2)])

lemma cloud_paths:
  "relative_parts (u ''cloud/nonce-request.json'') = Inr [u ''cloud'', u ''nonce-request.json'']"
  "relative_parts (u ''cloud/receipt-request.json'') = Inr [u ''cloud'', u ''receipt-request.json'']"
  "relative_parts (u ''cloud/nonce-response.json'') = Inr [u ''cloud'', u ''nonce-response.json'']"
  "relative_parts (u ''cloud/receipt-response.json'') = Inr [u ''cloud'', u ''receipt-response.json'']"
  "path_parts (u ''cloud/nonce-request.json'') = [u ''cloud'', u ''nonce-request.json'']"
  "path_parts (u ''cloud/receipt-request.json'') = [u ''cloud'', u ''receipt-request.json'']"
  by code_simp+

lemma cloud_not_journal: "u ''cloud'' \<noteq> JOURNAL_DIRECTORY"
  by code_simp

lemma request_path_of_spec:
  obtains n where "relative_parts (ts_request_path (spec_of r)) = Inr [u ''cloud'', n]"
    "path_parts (ts_request_path (spec_of r)) = [u ''cloud'', n]"
  using cloud_paths by (cases r) (auto simp: spec_of_def NONCE_SPEC_def RECEIPT_SPEC_def simp del: u_simps)

lemma response_path_of_spec:
  obtains n where "relative_parts (ts_response_path (spec_of r)) = Inr [u ''cloud'', n]"
  using cloud_paths by (cases r) (auto simp: spec_of_def NONCE_SPEC_def RECEIPT_SPEC_def simp del: u_simps)

lemma keeps_archive_request: "keeps still (archive_request_once (spec_of r) data)"
proof -
  obtain n where n: "relative_parts (ts_request_path (spec_of r)) = Inr [u ''cloud'', n]"
    "path_parts (ts_request_path (spec_of r)) = [u ''cloud'', n]" by (rule request_path_of_spec)
  have "keeps still (write_or_reopen_exact (ts_request_path (spec_of r)) data MAX_REQUEST_BYTES)"
    by (rule still_keeps [OF rooted_write_or_reopen_exact [OF n cloud_not_journal]
          object.keeps_write_or_reopen_exact distinct.keeps_write_or_reopen_exact])
  then show ?thesis unfolding archive_request_once_def except_archive_def
    by (intro still.keeps_catch) (auto intro: still.keeps_raise split: exn.splits)
qed

lemma keeps_read_request: "keeps still (read_exact_request (spec_of r) data)"
proof -
  have "keeps still (read_bytes (ts_request_path (spec_of r)) MAX_REQUEST_BYTES)"
    by (rule still_keeps [OF rooted_reads(3) object.keeps_read_bytes distinct.keeps_read_bytes])
  then show ?thesis unfolding read_exact_request_def except_archive_def
    by (intro still.keeps_bind still.keeps_catch still.keeps_if still.keeps_return still.keeps_raise)
      (auto intro: still.keeps_raise split: exn.splits)
qed

lemma keeps_archive_response: "keeps still (archive_response (spec_of r) response)"
proof -
  obtain n where n: "relative_parts (ts_response_path (spec_of r)) = Inr [u ''cloud'', n]" by (rule response_path_of_spec)
  have "keeps still (write_bytes (ts_response_path (spec_of r)) data MAX_RESPONSE_BYTES)" for data
    by (rule still_keeps [OF rooted_write_bytes [OF n cloud_not_journal] object.keeps_write_bytes distinct.keeps_write_bytes])
  then show ?thesis unfolding archive_response_def by (intro still.keeps_rules)
qed

lemma session_snapshot_live:
  assumes "ss_snapshot w = Some s" "session_snapshot_of w = (x, w')"
  shows "w' = w" "x = Inr s \<or> (\<exists>e. x = Inl e)"
  using assms by (auto simp: session_snapshot_of_def session_require_open_def session_error_def thenS_def bindS_def split: if_splits)

lemma step_effect_failed:
  assumes "live js s es w s1" "cw_posts w' = cw_posts w0" "grown js s es w s1 \<Longrightarrow> grown js s es w' s1" "[] \<in> any"
  shows "step_effect js s es ok any (Inl e) w0 w'"
  using assms unfolding step_effect_def live_def by force

lemma step_effect_still:
  assumes "live js s es w s1" "still w w1" "[] \<in> any"
  shows "step_effect js s es ok any (Inl e) w w1"
  using still_effect [OF assms(1,2)] assms(3) unfolding step_effect_def live_def by force

lemma step_effect_after:
  assumes "step_effect js s es ok any x w1 w'" "cw_posts w1 = cw_posts w" "ok \<subseteq> ok'" "any \<subseteq> any'"
  shows "step_effect js s es ok' any' x w w'"
  using assms unfolding step_effect_def by (auto split: sum.splits; blast)

lemma prepare_effect:
  assumes l: "live js s [] w s" and run: "prepare (spec_of r) data sha w = (x, w')"
  shows "step_effect js s [] {[], [ts_prepared_event (spec_of r)]} {[], [ts_prepared_event (spec_of r)]} x w w' \<and>
    (x = Inr () \<longrightarrow> sn_state s \<in> {ts_initial_state (spec_of r), ts_prepared_state (spec_of r)})"
proof -
  let ?spec = "spec_of r"
  note sn = session_snapshot_live [of w s, OF l [unfolded live_def, THEN conjunct2]]
  show ?thesis
    using run unfolding prepare_def
  proof (cases rule: bindS_cases)
    case (raised e)
    then show ?thesis using sn(1) by (simp add: step_effect_still [OF l still.R_refl])
  next
    case (next_step t w0)
    then have t: "t = s" "w0 = w" using sn by auto
    consider (init) "sn_state s = ts_initial_state ?spec" | (prepared) "sn_state s \<noteq> ts_initial_state ?spec" "sn_state s = ts_prepared_state ?spec"
      | (other) "sn_state s \<notin> {ts_initial_state ?spec, ts_prepared_state ?spec}" by blast
    then show ?thesis
    proof cases
      case init
      have run1: "bindS (archive_request_once ?spec data) (\<lambda>f.
         if af_sha256 f \<noteq> sha \<or> af_size f \<noteq> length data then
           raiseS (TransactionError ''request_archive_mismatch'' ''archived physical {} request digest differs'')
         else append_checked (ts_prepared_event ?spec) sha (\<lambda>snapshot. sn_state snapshot = ts_prepared_state ?spec)
           (TransactionError ''request_prepare_record_failed'' ''physical {} request preparation was not recorded'')
           (TransactionError ''request_prepare_state_mismatch'' ''physical {} request entered an unexpected state'')) w = (x, w')"
        using next_step(2) t init by simp
      then show ?thesis
      proof (cases rule: bindS_cases)
        case (raised e)
        then show ?thesis by (simp add: step_effect_still [OF l keepsD [OF keeps_archive_request raised(1)]])
      next
        case (next_step f w1)
        have st: "still w w1" by (rule keepsD [OF keeps_archive_request next_step(1)])
        note l1 = still_effect [OF l st]
        show ?thesis
        proof (cases "af_sha256 f \<noteq> sha \<or> af_size f \<noteq> length data")
          case True
          then have "w' = w1" "x = Inl (TransactionError ''request_archive_mismatch'' ''archived physical {} request digest differs'')"
            using next_step(2) by auto
          then show ?thesis by (simp add: step_effect_still [OF l st])
        next
          case False
          then have "append_checked (ts_prepared_event ?spec) sha (\<lambda>snapshot. sn_state snapshot = ts_prepared_state ?spec)
           (TransactionError ''request_prepare_record_failed'' ''physical {} request preparation was not recorded'')
           (TransactionError ''request_prepare_state_mismatch'' ''physical {} request entered an unexpected state'') w1 = (x, w')"
            using next_step(2) by simp
          from step_effect_after [OF append_checked_effect [OF l1(1) this] l1(2)] show ?thesis using init by simp
        qed
      qed
    next
      case prepared
      have run1: "bindS (read_exact_request ?spec data) (\<lambda>f.
         bindS session_snapshot_of (\<lambda>snapshot.
         if af_sha256 f \<noteq> sha \<or> sn_last_binding_sha256 snapshot \<noteq> sha then
           raiseS (TransactionError ''prepared_request_binding_mismatch'' ''prepared physical {} request binding differs'')
         else returnS ())) w = (x, w')"
        using next_step(2) t prepared by simp
      then show ?thesis
      proof (cases rule: bindS_cases)
        case (raised e)
        then show ?thesis by (simp add: step_effect_still [OF l keepsD [OF keeps_read_request raised(1)]])
      next
        case (next_step f w1)
        have st: "still w w1" by (rule keepsD [OF keeps_read_request next_step(1)])
        note l1 = still_effect [OF l st]
        have "w' = w1 \<and> (x = Inr () \<or> (\<exists>e. x = Inl e))"
          using next_step(2) session_snapshot_live(1) [of w1 s] l1(1) unfolding live_def
          by (auto elim!: bindS_cases split: if_splits)
        then have w': "w' = w1" and x: "x = Inr () \<or> (\<exists>e. x = Inl e)" by simp_all
        have "step_effect js s [] {[], [ts_prepared_event ?spec]} {[], [ts_prepared_event ?spec]} (Inr ()) w w1"
          unfolding step_effect_def using l1 by auto
        then show ?thesis using prepared(2) x unfolding w' by (auto intro: step_effect_still [OF l st])
      qed
    next
      case other
      then have "w' = w \<and> (\<exists>e. x = Inl e)" using next_step(2) t by auto
      then show ?thesis by (auto intro: step_effect_still [OF l still.R_refl])
    qed
  qed
qed


lemma attemptS_cases:
  assumes "attemptS m w = (y, w1)"
  obtains (killed) "m w = (Inl ProcessKilled, w1)" "y = Inl ProcessKilled"
    | (answered) q where "m w = (q, w1)" "y = Inr q"
  using assms by (auto simp: attemptS_def catchS_def bindS_def split: prod.splits sum.splits if_splits)

lemma outcome_unknown_effect:
  assumes "live js s es w s1" "raise_outcome_unknown spec sha w = (x, w')"
  shows "cw_posts w' = cw_posts w \<and> (\<exists>fs \<in> {[], [ts_outcome_unknown_event spec]}. \<exists>s'. grown js s (es @ fs) w' s')"
proof -
  obtain y w1 where y: "record_outcome_unknown spec sha w = (y, w1)" by fastforce
  have "w' = w1" using assms(2) y by (auto simp: raise_outcome_unknown_def thenS_def bindS_def split: sum.splits)
  then show ?thesis using append_checked_effect [OF assms(1) y [unfolded record_outcome_unknown_def]]
    by (auto simp: step_effect_def live_def split: sum.splits)
qed

lemma settle_effect:
  assumes l: "live js s es w s1" and run: "settle (spec_of r) sha answer w = (x, w')"
  shows "cw_posts w' = cw_posts w \<and>
    (\<exists>fs \<in> (if answer = Inl PreSendError then {[], [ts_pre_send_failed_event (spec_of r)]}
         else {[], [ts_outcome_unknown_event (spec_of r)], [ts_response_event (spec_of r)]}). \<exists>s'. grown js s (es @ fs) w' s')"
proof (cases answer)
  case (Inl e)
  show ?thesis
  proof (cases "e = PreSendError")
    case True
    obtain y w1 where y: "record_pre_send_failure (spec_of r) sha w = (y, w1)" by fastforce
    have "w' = w1" using run y Inl True by (auto simp: settle_def thenS_def bindS_def split: sum.splits)
    then show ?thesis using append_checked_effect [OF l y [unfolded record_pre_send_failure_def]] Inl True
      by (auto simp: step_effect_def live_def split: sum.splits)
  next
    case False
    then have "raise_outcome_unknown (spec_of r) sha w = (x, w')" using run Inl by (cases e) (simp_all add: settle_def)
    then show ?thesis using outcome_unknown_effect [OF l] Inl False by fastforce
  qed
next
  case (Inr response)
  have run1: "bindS (attemptS (archive_response (spec_of r) response)) (\<lambda>stored.
          case stored of
            Inl _ \<Rightarrow> raise_outcome_unknown (spec_of r) sha
          | Inr response_sha256 \<Rightarrow>
              thenS (append_checked (ts_response_event (spec_of r)) response_sha256
                (\<lambda>snapshot. sn_state snapshot = ts_received_state (spec_of r) \<and> sn_last_binding_sha256 snapshot = response_sha256)
                (TransactionError ''response_record_failed'' ''physical {} response requires restart recovery; do not retry'')
                (TransactionError ''response_state_mismatch'' ''physical {} response entered an unsafe state''))
              (returnS response)) w = (x, w')"
    using run Inr by (simp add: settle_def)
  have still: "live js s es w1 s1 \<and> cw_posts w1 = cw_posts w" if a: "attemptS (archive_response (spec_of r) response) w = (y, w1)" for y w1
  proof -
    obtain q where "archive_response (spec_of r) response w = (q, w1)" using a by (rule attemptS_cases) auto
    from still_effect [OF l keepsD [OF keeps_archive_response this]] show ?thesis by simp
  qed
  show ?thesis
    using run1
  proof (cases rule: bindS_cases)
    case (raised e)
    then show ?thesis using still [OF raised(1)] Inr by (force simp: live_def)
  next
    case (next_step y w1)
    note l1 = still [OF next_step(1)]
    show ?thesis
    proof (cases y)
      case (Inl e)
      then have "raise_outcome_unknown (spec_of r) sha w1 = (x, w')" using next_step(2) by simp
      then show ?thesis using outcome_unknown_effect [of js s es w1 s1] l1 Inr by fastforce
    next
      case (Inr response_sha256)
      obtain z w2 where z: "append_checked (ts_response_event (spec_of r)) response_sha256
                (\<lambda>snapshot. sn_state snapshot = ts_received_state (spec_of r) \<and> sn_last_binding_sha256 snapshot = response_sha256)
                (TransactionError ''response_record_failed'' ''physical {} response requires restart recovery; do not retry'')
                (TransactionError ''response_state_mismatch'' ''physical {} response entered an unsafe state'') w1 = (z, w2)" by fastforce
      have "w' = w2" using next_step(2) z Inr by (auto simp: thenS_def bindS_def split: sum.splits)
      then show ?thesis using append_checked_effect [OF conjunct1 [OF l1] z] l1 \<open>answer = Inr response\<close>
        by (auto simp: step_effect_def live_def split: sum.splits)
    qed
  qed
qed

lemma live_grown: "live js s es w s1 \<Longrightarrow> grown js s es w s1"
  by (simp add: live_def)

lemma stored_same:
  "w_fs w' = w_fs w \<Longrightarrow> w_euid w' = w_euid w \<Longrightarrow> ar_root w' = ar_root w \<Longrightarrow> ss_clock w' = ss_clock w \<Longrightarrow> stored w' js s = stored w js s"
  by (simp add: stored_def journal_on_def)

lemma live_outside: "outside w w' \<Longrightarrow> live js s es w s1 \<Longrightarrow> live js s es w' s1"
proof -
  assume o: "outside w w'" and l: "live js s es w s1"
  have "stored w' ks s1 = stored w ks s1" for ks by (rule stored_same) (use o in \<open>auto simp: outside_def\<close>)
  moreover have "ss_snapshot w' = ss_snapshot w" using o by (auto simp: outside_def)
  ultimately show ?thesis using l by (simp add: live_def grown_def)
qed

lemma live_posted: "live js s es (posted r e body w) s1 = live js s es w s1"
proof -
  have "stored (posted r e body w) ks s1 = stored w ks s1" for ks by (rule stored_same) (simp_all add: posted_def)
  moreover have "ss_snapshot (posted r e body w) = ss_snapshot w" by (simp add: posted_def)
  ultimately show ?thesis by (simp add: live_def grown_def)
qed

lemma posted_posts: "cw_posts (posted r e body w) = cw_posts w @
  [\<lparr>post_role = r, post_host = ep_host e, post_route = ep_route e, post_body = body\<rparr>]"
  by (simp add: posted_def)

text \<open>
  What one call leaves behind: the role's \<open>PRE_SEND_FAILED\<close> event only from a state in which the POST was
  open, and a POST only with its attempt on disk and no \<open>PRE_SEND_FAILED\<close> after it.
\<close>

definition open_state :: "role \<Rightarrow> capture_state \<Rightarrow> bool" where
  "open_state r s = (s = ts_initial_state (spec_of r) \<or> s = ts_prepared_state (spec_of r))"

definition call_effect ::
  "role \<Rightarrow> bytes list \<Rightarrow> session_snapshot \<Rightarrow> 'z cloud_world_scheme \<Rightarrow> 'z cloud_world_scheme \<Rightarrow> bool" where
  "call_effect r js s w w' =
     (\<exists>es s'. grown js s es w' s' \<and>
        (\<forall>q. ts_pre_send_failed_event (spec_of q) \<in> set es \<longrightarrow> q = r \<and> open_state r (sn_state s)) \<and>
        (cw_posts w' = cw_posts w \<or>
         (\<exists>p. cw_posts w' = cw_posts w @ [p] \<and> post_role p = r \<and> open_state r (sn_state s) \<and>
            ts_attempted_event (spec_of r) \<in> set es \<and> ts_pre_send_failed_event (spec_of r) \<notin> set es)))"

lemma pre_send_failed_event_of:
  "ts_pre_send_failed_event (spec_of q) = ts_pre_send_failed_event (spec_of r) \<longleftrightarrow> q = r"
  "ts_pre_send_failed_event (spec_of q) \<noteq> ts_prepared_event (spec_of r)"
  "ts_pre_send_failed_event (spec_of q) \<noteq> ts_attempted_event (spec_of r)"
  "ts_pre_send_failed_event (spec_of q) \<noteq> ts_response_event (spec_of r)"
  "ts_pre_send_failed_event (spec_of q) \<noteq> ts_outcome_unknown_event (spec_of r)"
  by (cases q; cases r; simp add: spec_of_def NONCE_SPEC_def RECEIPT_SPEC_def)+

locale cloud_client =
  fixes client :: "role \<Rightarrow> json \<Rightarrow> ('z cloud_world_scheme, collector_response) st"
  assumes client_law: "client r request w = (x, w') \<Longrightarrow> client_effect r request x w w'"
begin

lemma client_step:
  assumes l: "live js s es w s1" and run: "attemptS (client r request) w = (y, w1)"
  shows "live js s es w1 s1 \<and>
    (cw_posts w1 = cw_posts w \<or> (\<exists>p. cw_posts w1 = cw_posts w @ [p] \<and> post_role p = r \<and> y \<noteq> Inr (Inl PreSendError)))"
proof -
  obtain q where q: "client r request w = (q, w1)" "y = Inr q \<or> y = Inl ProcessKilled"
    using run by (rule attemptS_cases) auto
  from client_law [OF q(1)] show ?thesis unfolding client_effect_def
  proof (elim disjE conjE exE)
    assume "outside w w1"
    then show ?thesis using live_outside [OF _ l] outside_posts by blast
  next
    fix w2 e body
    assume "q \<noteq> Inl PreSendError" "outside w w2" "w1 = posted r e body w2"
    then have "live js s es w1 s1" "y \<noteq> Inr (Inl PreSendError)" "cw_posts w1 = cw_posts w @
      [\<lparr>post_role = r, post_host = ep_host e, post_route = ep_route e, post_body = body\<rparr>]"
      using live_outside [OF _ l] outside_posts [of w w2] q(2) by (auto simp: live_posted posted_posts)
    then show ?thesis by simp
  qed
qed

lemma after_attempt:
  assumes l: "live js s es w s1" and o: "open_state r (sn_state s)"
    and es: "es = [ts_attempted_event (spec_of r)] \<or> es = [ts_prepared_event (spec_of r), ts_attempted_event (spec_of r)]"
    and run: "bindS (attemptS (client r request)) (settle (spec_of r) sha) w = (x, w')"
  shows "call_effect r js s w w'"
  using run
proof (cases rule: bindS_cases)
  case (raised e)
  then show ?thesis using client_step [OF l raised(1)] o es unfolding call_effect_def live_def
    by (intro exI [of _ es] exI [of _ s1]) (auto simp: pre_send_failed_event_of)
next
  case (next_step answer w1)
  note c = client_step [OF l next_step(1)]
  obtain fs s' where f: "cw_posts w' = cw_posts w1" "grown js s (es @ fs) w' s'"
    "fs \<in> (if answer = Inl PreSendError then {[], [ts_pre_send_failed_event (spec_of r)]}
         else {[], [ts_outcome_unknown_event (spec_of r)], [ts_response_event (spec_of r)]})"
    using settle_effect [OF conjunct1 [OF c] next_step(2)] by blast
  then show ?thesis using c o es unfolding call_effect_def
    by (intro exI [of _ "es @ fs"] exI [of _ s']) (auto simp: pre_send_failed_event_of split: if_splits)
qed

lemma call_effect_quiet:
  assumes "grown js s es w' s'" "cw_posts w' = cw_posts w" "set es \<subseteq> {ts_prepared_event (spec_of r), ts_attempted_event (spec_of r)}"
  shows "call_effect r js s w w'"
  unfolding call_effect_def by (rule exI [of _ es], rule exI [of _ s']) (use assms in \<open>auto simp: pre_send_failed_event_of\<close>)

lemma call_effect_posts: "cw_posts w1 = cw_posts w \<Longrightarrow> call_effect r js s w1 w' = call_effect r js s w w'"
  by (simp add: call_effect_def)

lemma execute_effect:
  assumes j: "stored w js s" "ss_snapshot w = Some s" and run: "execute_transaction client (spec_of r) request w = (x, w')"
  shows "call_effect r js s w w'"
proof -
  have l: "live js s [] w s" using j by (simp add: live_def grown_Nil)
  have role: "ts_role (spec_of r) = r" by (cases r) (simp_all add: spec_of_def NONCE_SPEC_def RECEIPT_SPEC_def)
  show ?thesis
  proof (cases "canonical_request (spec_of r) request")
    case (Inl e)
    then have "w' = w" using run by (simp add: execute_transaction_def bindS_def liftS_def)
    then show ?thesis using call_effect_quiet [OF live_grown [OF l]] by simp
  next
    case (Inr t)
    then obtain normalized data sha where c: "canonical_request (spec_of r) request = Inr (normalized, data, sha)" by (cases t) simp
    have "thenS (prepare (spec_of r) data sha) (thenS (append_attempt (spec_of r) sha)
      (bindS (attemptS (client r normalized)) (settle (spec_of r) sha))) w = (x, w')"
      using run c role by (simp add: execute_transaction_def bindS_def liftS_def)
    then show ?thesis unfolding thenS_def
    proof (cases rule: bindS_cases)
      case (raised e)
      from prepare_effect [OF l raised(1)] obtain fs s' where "cw_posts w' = cw_posts w" "grown js s fs w' s'"
        "fs \<in> {[], [ts_prepared_event (spec_of r)]}" by (auto simp: step_effect_def)
      then show ?thesis by (intro call_effect_quiet [of js s fs w' s']) auto
    next
      case (next_step y w1)
      from prepare_effect [OF l next_step(1)] obtain fs s1 where p: "cw_posts w1 = cw_posts w" "live js s fs w1 s1"
        "fs \<in> {[], [ts_prepared_event (spec_of r)]}" "open_state r (sn_state s)" by (auto simp: step_effect_def open_state_def)
      show ?thesis using next_step(2)
      proof (cases rule: bindS_cases)
        case (raised e)
        from append_checked_effect [OF p(2) raised(1) [unfolded append_attempt_def]] obtain gs s' where
          "cw_posts w' = cw_posts w1" "grown js s (fs @ gs) w' s'" "gs \<in> {[], [ts_attempted_event (spec_of r)]}"
          unfolding step_effect_def by auto (metis append_Nil2)
        then show ?thesis using p(1,3) by (intro call_effect_quiet [of js s "fs @ gs" w' s']) auto
      next
        case (next_step z w2)
        from append_checked_effect [OF p(2) next_step(1) [unfolded append_attempt_def]] obtain s2 where
          a: "cw_posts w2 = cw_posts w1" "live js s (fs @ [ts_attempted_event (spec_of r)]) w2 s2"
          by (auto simp: step_effect_def)
        from after_attempt [OF a(2) p(4) _ next_step(2)] p(3) have "call_effect r js s w2 w'" by auto
        then show ?thesis using call_effect_posts a(1) p(1) by metis
      qed
    qed
  qed
qed

lemma transaction_effect:
  assumes "stored w js s" "ss_snapshot w = Some s" and run: "transaction_issue client r request w = (x, w')"
  shows "call_effect r js s w w'"
proof -
  obtain y w1 where y: "execute_transaction client (spec_of r) request w = (y, w1)" by fastforce
  have "w' = w1" using run y by (auto simp: transaction_issue_def bindS_def split: sum.splits if_splits)
  then show ?thesis using execute_effect [OF assms(1,2) y] by simp
qed

end

interpretation cloud_run: cloud_client "issue policy" for policy
  by unfold_locales (rule issue_effect)

section \<open>Histories\<close>

text \<open>Whether the last attempt of a role in a journal has no recorded failure before sending after it.\<close>

definition attempt_open :: "role \<Rightarrow> capture_event list \<Rightarrow> bool" where
  "attempt_open r es =
     (\<exists>xs ys. es = xs @ ts_attempted_event (spec_of r) # ys \<and> ts_pre_send_failed_event (spec_of r) \<notin> set ys)"

lemma attempt_open_append:
  assumes "attempt_open r es" "ts_pre_send_failed_event (spec_of r) \<notin> set fs"
  shows "attempt_open r (es @ fs)"
  using assms by (force simp: attempt_open_def)

lemma attempt_open_new:
  assumes "ts_attempted_event (spec_of r) \<in> set fs" "ts_pre_send_failed_event (spec_of r) \<notin> set fs"
  shows "attempt_open r (es @ fs)"
proof -
  obtain xs ys where "fs = xs @ ts_attempted_event (spec_of r) # ys" using assms(1) by (auto simp: in_set_conv_decomp)
  then show ?thesis using assms(2) unfolding attempt_open_def by (intro exI [of _ "es @ xs"] exI [of _ ys]) auto
qed

lemma attempt_open_snoc:
  "attempt_open r (es @ [e]) \<longleftrightarrow>
     e = ts_attempted_event (spec_of r) \<or> attempt_open r es \<and> e \<noteq> ts_pre_send_failed_event (spec_of r)"
proof
  assume "attempt_open r (es @ [e])"
  then obtain xs ys where x: "es @ [e] = xs @ ts_attempted_event (spec_of r) # ys" "ts_pre_send_failed_event (spec_of r) \<notin> set ys"
    by (auto simp: attempt_open_def)
  then show "e = ts_attempted_event (spec_of r) \<or> attempt_open r es \<and> e \<noteq> ts_pre_send_failed_event (spec_of r)"
    by (cases ys rule: rev_cases) (auto simp: attempt_open_def)
next
  assume "e = ts_attempted_event (spec_of r) \<or> attempt_open r es \<and> e \<noteq> ts_pre_send_failed_event (spec_of r)"
  then show "attempt_open r (es @ [e])"
    using attempt_open_append [of r es "[e]"] attempt_open_new [of r "[e]" es] pre_send_failed_event_of(3) [of r r] by auto
qed

definition before_attempt :: "role \<Rightarrow> capture_state set" where
  "before_attempt r =
     (case r of
        Nonce \<Rightarrow> {S_INITIALIZED, S_COLLECTING, S_RAW_COMPLETE, S_NONCE_REQUEST_PREPARED}
      | Receipt \<Rightarrow> {S_INITIALIZED, S_COLLECTING, S_RAW_COMPLETE, S_NONCE_REQUEST_PREPARED, S_NONCE_ATTEMPTED, S_NONCE_RECEIVED,
          S_NONCE_OUTCOME_UNKNOWN, S_REPORTS_COMPOSED, S_BINDINGS_COMPOSED, S_RECEIPT_REQUEST_PREPARED})"

lemma attempt_transition:
  assumes "transition_for e c = Inr s"
    and "e = ts_attempted_event (spec_of r) \<or> (\<exists>t. c = Some t \<and> t \<notin> before_attempt r) \<and> e \<noteq> ts_pre_send_failed_event (spec_of r)"
  shows "s \<notin> before_attempt r"
  using assms by (cases e; cases r)
    (auto simp: transition_for_def before_attempt_def spec_of_def NONCE_SPEC_def RECEIPT_SPEC_def split: if_splits)

lemma attempt_open_state: "capture_run es c \<Longrightarrow> attempt_open r es \<Longrightarrow> \<exists>s. c = Some s \<and> s \<notin> before_attempt r"
proof (induction rule: capture_run.induct)
  case run_empty
  then show ?case by (simp add: attempt_open_def)
next
  case (run_step es current e s)
  then show ?case using attempt_transition [OF run_step.hyps(2)] by (auto simp: attempt_open_snoc)
qed

lemma attempt_open_closed:
  assumes "stored w js s" "attempt_open r (journal_events js)" shows "\<not> open_state r (sn_state s)"
proof -
  have "capture_run (journal_events js) (Some (sn_state s))" using assms(1) replay_run [of js "Some s"] by (simp add: stored_def)
  from attempt_open_state [OF this assms(2)] show ?thesis
    by (cases r) (auto simp: open_state_def before_attempt_def spec_of_def NONCE_SPEC_def RECEIPT_SPEC_def)
qed

lemma grown_journal:
  assumes "grown js s es w s'"
  obtains ks where "stored w ks s'" "journal_events ks = journal_events js @ es"
proof -
  obtain ds where d: "map event_of_bytes ds = map Some es" "stored w (js @ ds) s'" using assms by (auto simp: grown_def)
  have "map (\<lambda>data. the (event_of_bytes data)) ds = map the (map event_of_bytes ds)" by simp
  then have "journal_events (js @ ds) = journal_events js @ es" unfolding journal_events_def d(1) by (simp add: comp_def)
  then show thesis using that d(2) by blast
qed

lemma journal_on_unique:
  assumes "journal_on w js" "journal_on w ks" shows "js = ks"
proof -
  have le: "length a \<le> length b" if a: "journal_on w a" and b: "journal_on w b" for a b
  proof (rule ccontr)
    assume "\<not> length a \<le> length b"
    then have i: "length b < length a" by simp
    from journal_on_name [OF b journal_on_event [OF a i] event_name_visible] obtain k where
      "k < length b" "event_name (Suc (length b)) = event_name (Suc k)" by blast
    then show False using event_name_inj by fastforce
  qed
  have len: "length js = length ks" using le [OF assms] le [OF assms(2,1)] by simp
  show ?thesis
  proof (rule nth_equalityI [OF len])
    fix i assume "i < length js"
    then show "js ! i = ks ! i" using journal_on_event [OF assms(1), of i] journal_on_event [OF assms(2), of i] len by simp
  qed
qed

text \<open>
  What an operator does with a session that agrees with its journal: calls of the two transactions, appends of
  other events than the \<open>PRE_SEND_FAILED\<close> ones, and anything that leaves the published journal and the list of
  POSTs alone, as reopening the session, restarting the process or archiving other files does.
\<close>

inductive operated :: "endpoint_policy \<Rightarrow> 'z cloud_world_scheme \<Rightarrow> 'z cloud_world_scheme \<Rightarrow> bool"
  for policy :: endpoint_policy and w0 :: "'z cloud_world_scheme" where
  op_start: "operated policy w0 w0"
| op_issue: "operated policy w0 w \<Longrightarrow> stored w js s \<Longrightarrow> ss_snapshot w = Some s \<Longrightarrow>
    transaction_issue (issue policy) r request w = (x, w') \<Longrightarrow> operated policy w0 w'"
| op_append: "operated policy w0 w \<Longrightarrow> stored w js s \<Longrightarrow> ss_snapshot w = Some s \<Longrightarrow>
    \<forall>q. event \<noteq> ts_pre_send_failed_event (spec_of q) \<Longrightarrow> SHA256_RE binding \<Longrightarrow>
    append_locked event binding w = (y, w') \<Longrightarrow> operated policy w0 w'"
| op_other: "operated policy w0 w \<Longrightarrow> entries_kept (ar_root w) w w' \<Longrightarrow> ar_root w' = ar_root w \<Longrightarrow> w_euid w' = w_euid w \<Longrightarrow>
    distinct (map fst (w_fs w')) \<Longrightarrow> list_all valid_datetime (ss_clock w') \<Longrightarrow> cw_posts w' = cw_posts w \<Longrightarrow> operated policy w0 w'"

definition posts_of :: "role \<Rightarrow> 'z cloud_world_scheme \<Rightarrow> post list" where
  "posts_of r w = filter (\<lambda>p. post_role p = r) (cw_posts w)"

definition one_post :: "role \<Rightarrow> 'z cloud_world_scheme \<Rightarrow> bytes list \<Rightarrow> bool" where
  "one_post r w js = (posts_of r w = [] \<or> length (posts_of r w) = 1 \<and> attempt_open r (journal_events js))"

lemma one_post_call:
  assumes i: "\<forall>q. one_post q w js" "stored w js s" and c: "call_effect r js s w w'"
  shows "\<exists>ks t. stored w' ks t \<and> (\<forall>q. one_post q w' ks)"
proof -
  obtain es t where e: "grown js s es w' t"
    and f: "\<And>q. ts_pre_send_failed_event (spec_of q) \<in> set es \<Longrightarrow> q = r \<and> open_state r (sn_state s)"
    and p: "cw_posts w' = cw_posts w \<or> (\<exists>p. cw_posts w' = cw_posts w @ [p] \<and> post_role p = r \<and> open_state r (sn_state s) \<and>
      ts_attempted_event (spec_of r) \<in> set es \<and> ts_pre_send_failed_event (spec_of r) \<notin> set es)"
    using c unfolding call_effect_def by blast
  obtain ks where k: "stored w' ks t" "journal_events ks = journal_events js @ es" using e by (rule grown_journal)
  have "one_post q w' ks" for q
  proof (cases "attempt_open q (journal_events js)")
    case True
    then have c: "\<not> open_state q (sn_state s)" using attempt_open_closed [OF i(2)] by blast
    then have "ts_pre_send_failed_event (spec_of q) \<notin> set es" using f by blast
    then have "attempt_open q (journal_events ks)" using attempt_open_append [OF True] k(2) by simp
    moreover have "posts_of q w' = posts_of q w" using p c by (auto simp: posts_of_def)
    ultimately show ?thesis using i(1) by (auto simp: one_post_def)
  next
    case False
    then have n: "posts_of q w = []" using i(1) by (auto simp: one_post_def)
    show ?thesis using p
    proof (elim disjE exE conjE)
      assume "cw_posts w' = cw_posts w"
      then show ?thesis using n by (simp add: one_post_def posts_of_def)
    next
      fix p assume "cw_posts w' = cw_posts w @ [p]" "post_role p = r" "ts_attempted_event (spec_of r) \<in> set es"
        "ts_pre_send_failed_event (spec_of r) \<notin> set es"
      then show ?thesis using n attempt_open_new [of r es "journal_events js"] k(2)
        by (cases "q = r") (auto simp: one_post_def posts_of_def)
    qed
  qed
  then show ?thesis using k(1) by blast
qed

lemma operated_one_post:
  assumes "operated policy w0 w" "stored w0 js0 s0" "cw_posts w0 = []"
  shows "\<exists>ks t. stored w ks t \<and> (\<forall>q. one_post q w ks)"
  using assms
proof (induction rule: operated.induct)
  case op_start
  then show ?case by (auto simp: one_post_def posts_of_def)
next
  case (op_issue w js s r request x w')
  then obtain ks t where k: "stored w ks t" "\<forall>q. one_post q w ks" by blast
  then have "ks = js" using op_issue.hyps(2) journal_on_unique by (auto simp: stored_def)
  then show ?case using one_post_call [OF _ op_issue.hyps(2) cloud_run.transaction_effect [OF op_issue.hyps(2-4)]] k(2) by simp
next
  case (op_append w js s event binding y w')
  then obtain ks t where k: "stored w ks t" "\<forall>q. one_post q w ks" by blast
  then have "ks = js" using op_append.hyps(2) journal_on_unique by (auto simp: stored_def)
  note g = append_locked_grown [OF op_append.hyps(2,3,5,6)]
  have "call_effect r js s w w'" for r
    using g op_append.hyps(4) grown_Nil [of w' js s] unfolding call_effect_def by fastforce
  then show ?case using one_post_call [OF _ op_append.hyps(2)] k(2) \<open>ks = js\<close> by blast
next
  case (op_other w w')
  then obtain ks t where k: "stored w ks t" "\<forall>q. one_post q w ks" by blast
  have "stored w' ks t" using k(1) op_other.hyps journal_on_entries [of w ks w'] by (simp add: stored_def)
  moreover have "one_post q w' ks" for q using k(2) op_other.hyps(7) by (simp add: one_post_def posts_of_def)
  ultimately show ?case by blast
qed

definition sample_endpoint_policy :: endpoint_policy where
  "sample_endpoint_policy =
     \<lparr>po_project = u ''p'', po_region = u ''r'', po_identity_service_account = u ''id@p.iam.gserviceaccount.com'',
      po_nonce_issuer = \<lparr>ep_role = Nonce, ep_service = u ''nonce'', ep_revision = u ''nonce-00001'', ep_origin = u ''https://n.a.run.app'',
        ep_audience = u ''https://n.a.run.app'', ep_route = u ''/v1/nonce'', ep_success_status = 201, ep_host = u ''n.a.run.app''\<rparr>,
      po_receipt_signer = \<lparr>ep_role = Receipt, ep_service = u ''signer'', ep_revision = u ''signer-00001'', ep_origin = u ''https://s.a.run.app'',
        ep_audience = u ''https://s.a.run.app'', ep_route = u ''/v1/receipt'', ep_success_status = 201, ep_host = u ''s.a.run.app''\<rparr>,
      po_sha256 = replicate 64 97\<rparr>"

definition sample_cloud :: cloud_world where
  "sample_cloud = session_world.extend sample_session (cloud_world.fields [] [] [])"

lemma sample_cloud_stored: "stored sample_cloud [sample_first_event] sample_snapshot"
proof -
  have "journal_on sample_cloud [sample_first_event] = journal_on sample_session [sample_first_event]"
    by (simp add: journal_on_def sample_cloud_def session_world.defs cloud_world.defs)
  then show ?thesis using sample_journal_on sample_first_event(1) sample_instant(1)
    by (simp add: stored_def sample_cloud_def sample_session_simps session_world.defs)
qed

lemma sample_cloud_simps: "ss_snapshot sample_cloud = Some sample_snapshot" "cw_posts sample_cloud = []"
  by (simp_all add: sample_cloud_def sample_session_simps session_world.defs cloud_world.defs)





end
