(* ===== verification/Capture_Resolution.thy ===== *)
theory Capture_Resolution
  imports Capture_Consistency
begin

text \<open>
  Resolution intents and the recovery of a partial pending event. An intent is published once per sequence
  number and names the pending file it resolves; a recovery that meets another pending file for the same
  number can therefore never finish.
\<close>

context session_appends
begin

lemma keeps_publish_intent: "keeps R (publish_intent relative data finals target_pending)"
  unfolding publish_intent_def reopen_intent_def by (intro keeps_session_basic)

end

text \<open>The archive object keeps its root.\<close>

interpretation rooted_object: session_appends "\<lambda>w w'. ar_root w' = ar_root w \<and> ar_root_text w' = ar_root_text w" UNIV
  by unfold_locales auto

definition intent_name :: "nat \<Rightarrow> ustr" where
  "intent_name n = u (''journal-'' @ fmt_dec 8 n @ ''.json'')"

lemma intent_relative: "resolution_intent_relative n = RECOVERY_DIRECTORY @ [47] @ intent_name n"
proof -
  have "u (''/journal-'' @ fmt_dec 8 n @ ''.json'') = [47] @ u (''journal-'' @ fmt_dec 8 n @ ''.json'')"
    by (simp add: u_def char_code_def)
  then show ?thesis by (simp add: resolution_intent_relative_def intent_name_def del: u_simps)
qed

lemma intent_name_component:
  assumes "n < 10 ^ 8" shows "PATH_COMPONENT_RE (intent_name n)"
proof -
  have l: "length (fmt_dec 8 n) = 8" using length_fmt_dec [of 8 n] assms by simp
  have d: "is_dig x" if "x \<in> set (u (fmt_dec 8 n))" for x using that by (rule is_dig_fmt_dec)
  have "intent_name n = 106 # u ''ournal-'' @ u (fmt_dec 8 n) @ u ''.json''" by (simp add: intent_name_def char_code_def)
  moreover have "list_all (\<lambda>d. is_alnum d \<or> d \<in> {46, 95, 45}) (u ''ournal-'')" "list_all (\<lambda>d. is_alnum d \<or> d \<in> {46, 95, 45}) (u ''.json'')"
    "is_alnum 106" by code_simp+
  moreover have "list_all (\<lambda>d. is_alnum d \<or> d \<in> {46, 95, 45}) (u (fmt_dec 8 n))" using d by (auto simp: is_alnum_def list_all_iff)
  ultimately show ?thesis using l by (simp add: PATH_COMPONENT_RE_def del: u_simps)
qed

lemma intent_relative_parts:
  "n < 10 ^ 8 \<Longrightarrow> relative_parts (resolution_intent_relative n) = Inr ([RECOVERY_DIRECTORY] @ [intent_name n])"
proof -
  have "PATH_COMPONENT_RE RECOVERY_DIRECTORY" by code_simp
  then show "n < 10 ^ 8 \<Longrightarrow> ?thesis" unfolding intent_relative using relative_parts_two intent_name_component by simp
qed

lemma intent_name_published: "\<not> hidden (base @ [RECOVERY_DIRECTORY, intent_name n])" "last (base @ [RECOVERY_DIRECTORY, intent_name n]) \<noteq> LOCK_FILE"
proof -
  have n: "intent_name n = 106 # u (''ournal-'' @ fmt_dec 8 n @ ''.json'')" by (simp add: intent_name_def char_code_def)
  then show "\<not> hidden (base @ [RECOVERY_DIRECTORY, intent_name n])" by (simp add: hidden_def)
  have "hd LOCK_FILE \<noteq> 106" by code_simp
  then show "last (base @ [RECOVERY_DIRECTORY, intent_name n]) \<noteq> LOCK_FILE" using n by (metis last_appendR last_ConsL last_ConsR list.discI list.sel(1))
qed

text \<open>A pending event whose resolution intent can be written down.\<close>

definition intent_writable :: "ustr \<Rightarrow> session_snapshot \<Rightarrow> pending_file \<Rightarrow> bytes \<Rightarrow> bool" where
  "intent_writable root_text s p observed =
     (list_all scalar root_text \<and> list_all scalar (sn_last_event_sha256 s) \<and> list_all scalar (pf_relative_path p) \<and>
      list_all scalar (pf_final_relative_path p) \<and> length observed < 10 ^ 19 \<and> sn_sequence s < 10 ^ 18)"

lemma intent_document_plain:
  assumes "intent_writable root_text s p observed"
  shows "loadable MAX_JSON_DEPTH (resolution_intent_document root_text p s observed event action)"
    "plain short_int (resolution_intent_document root_text p s observed event action)"
proof -
  show "loadable MAX_JSON_DEPTH (resolution_intent_document root_text p s observed event action)"
    using assms by (simp add: resolution_intent_document_def intent_writable_def scalar_u MAX_JSON_DEPTH_def del: u_simps)
  have "short_int JOURNAL_RESOLUTION_SCHEMA_VERSION" "short_int (int (length observed))" "short_int (int (sn_sequence s + 1))"
    using assms by (auto intro!: short_int_less simp: JOURNAL_RESOLUTION_SCHEMA_VERSION_def intent_writable_def)
  then show "plain short_int (resolution_intent_document root_text p s observed event action)"
    by (auto simp: resolution_intent_document_def simp del: u_simps)
qed

lemma intent_bytes_path:
  assumes "intent_writable root_text s p observed" "intent_writable root_text s q old"
    and "resolution_intent_bytes root_text p s observed event action = Inr data"
    and "resolution_intent_bytes root_text q s old event' action' = Inr data"
  shows "pf_relative_path p = pf_relative_path q"
proof -
  let ?d = "resolution_intent_document root_text p s observed event action"
  let ?e = "resolution_intent_document root_text q s old event' action'"
  have c: "canonical_json ?d = canonical_json ?e"
    using assms(3,4) by (auto simp: resolution_intent_bytes_def split: sum.splits)
  then have "canon ?d = canon ?e"
    using canonical_json_loaded [OF intent_document_plain [OF assms(1)], of event action]
      canonical_json_loaded [OF intent_document_plain [OF assms(2)], of event' action'] by auto
  moreover obtain ms es where m: "?d = JObj ms" "?e = JObj es" by (simp add: resolution_intent_document_def)
  moreover obtain ms' where m': "canon (JObj ms) = JObj ms'" by simp
  moreover have d: "distinct (map fst ms)" "distinct (map fst es)"
    using m by (auto simp: resolution_intent_document_def simp del: u_simps)
  ultimately have "canon (field ms ''pending_relative_path'') = canon (field es ''pending_relative_path'')"
    using field_canon [OF m' d(1), of "''pending_relative_path''"] field_canon [of es ms' "''pending_relative_path''"] by simp
  moreover have "field ms ''pending_relative_path'' = JStr (pf_relative_path p)" "field es ''pending_relative_path'' = JStr (pf_relative_path q)"
    using m by (auto simp: resolution_intent_document_def field_def simp del: u_simps)
  ultimately show ?thesis by simp
qed

lemma reopen_intent_result:
  assumes "reopen_intent relative message w = (Inr data, w')"
  shows "\<exists>w1. read_bytes relative MAX_RECOVERY_BYTES w = (Inr data, w1)"
  using assms by (auto simp: reopen_intent_def except_archive_def catchS_def session_error_def split: sum.splits exn.splits prod.splits if_splits)

lemma intent_mismatch:
  assumes f: "map_of (w_fs w) (ar_root w @ [RECOVERY_DIRECTORY, intent_name (sn_sequence s + 1)]) = Some (FileNode m l i data)"
    and n: "sn_sequence s + 1 < 10 ^ 8"
    and d: "resolution_intent_bytes (ar_root_text w) p s observed event action \<noteq> Inr data"
    and run: "write_or_reopen_resolution_intent p s observed event action w = (Inr digest, w')"
  shows False
proof -
  let ?rel = "resolution_intent_relative (sn_sequence s + 1)" and ?p = "ar_root w @ [RECOVERY_DIRECTORY, intent_name (sn_sequence s + 1)]"
  obtain data' finals pending w1 w2 w3 where b: "resolution_intent_bytes (ar_root_text w) p s observed event action = Inr data'"
    and ns: "resolution_namespace w = (Inr (finals, pending), w1)"
    and pub: "publish_intent ?rel data' finals (filter (\<lambda>item. pf_final_relative_path item = ?rel) pending) w1 = (Inr (), w2)"
    and re: "reopen_intent ?rel ''journal resolution intent cannot be verified'' w2 = (Inr data', w3)"
    using run unfolding write_or_reopen_resolution_intent_def
    by (auto simp: bindS_Inr_iff thenS_Inr liftS_Inr Let_def session_error_def simp del: u_simps split: if_splits prod.splits)
  have root: "ar_root w2 = ar_root w"
    using keepsD [OF rooted_object.keeps_resolution_namespace ns] keepsD [OF rooted_object.keeps_publish_intent pub] by simp
  have "map_of (w_fs w1) ?p = Some (FileNode m l i data)"
    using keepsD [OF session_kept.keeps_resolution_namespace ns] f intent_name_published by (simp add: fs_rel_def published_kept_def)
  then have k: "map_of (w_fs w2) ?p = Some (FileNode m l i data)"
    using keepsD [OF session_kept.keeps_publish_intent pub] intent_name_published by (simp add: fs_rel_def published_kept_def)
  obtain w4 where "read_bytes ?rel MAX_RECOVERY_BYTES w2 = (Inr data', w4)" using reopen_intent_result [OF re] by blast
  from read_bytes_result [OF this intent_relative_parts [OF n]] k root have "data' = data" by auto
  then show False using b d by simp
qed

lemma resolve_foreign:
  assumes "map_of (w_fs w) (ar_root w @ [RECOVERY_DIRECTORY, intent_name (sn_sequence s + 1)]) = Some (FileNode m l i data)"
    and "sn_sequence s + 1 < 10 ^ 8" "resolution_intent_bytes (ar_root_text w) p s observed event action \<noteq> Inr data"
    and run: "resolve_pending_with_intent p s observed event action w = (x, w')"
  shows "x \<noteq> Inr ()"
proof
  assume "x = Inr ()"
  then obtain digest w1 where "write_or_reopen_resolution_intent p s observed event action w = (Inr digest, w1)"
    using run by (auto simp: resolve_pending_with_intent_def bindS_Inr_iff)
  then show False by (rule intent_mismatch [OF assms(1-3)])
qed

lemma recover_partial_foreign:
  assumes f: "map_of (w_fs w) (ar_root w @ [RECOVERY_DIRECTORY, intent_name (sn_sequence s + 1)]) = Some (FileNode m l i data)"
    and n: "sn_sequence s + 1 < 10 ^ 8"
    and d: "\<And>event action. resolution_intent_bytes (ar_root_text w) p s observed event action \<noteq> Inr data"
    and run: "recover_partial_pending p (Some s) observed w = (x, w')"
  shows "x \<noteq> Inr ()"
proof
  assume x: "x = Inr ()"
  then obtain existing w1 where mi: "matching_resolution_intent s w = (Inr existing, w1)"
    and e: "(case existing of
            Some (event, _) \<Rightarrow>
              (case action_for event of
                 None \<Rightarrow> raiseS KeyError
               | Some action \<Rightarrow> resolve_pending_with_intent p s observed event action)
          | None \<Rightarrow>
              if sn_state s = S_NONCE_ATTEMPTED then
                resolve_pending_with_intent p s observed E_NONCE_OUTCOME_UNKNOWN ACTION_AFTER_ATTEMPT
              else if sn_state s = S_RECEIPT_ATTEMPTED then
                resolve_pending_with_intent p s observed E_RECEIPT_OUTCOME_UNKNOWN ACTION_AFTER_ATTEMPT
              else if sn_state s \<notin> ABANDONABLE_STATES then
                session_error ''pending_recovery_state_invalid''
                  ''partial pending event cannot be resolved from the current state''
              else resolve_pending_with_intent p s observed E_SESSION_ABANDONED ACTION_ABANDONED) w1 = (Inr (), w')"
    using run by (auto simp: recover_partial_pending_def bindS_Inr_iff session_error_def split: if_splits)
  have r: "ar_root w1 = ar_root w" "ar_root_text w1 = ar_root_text w" using keepsD [OF rooted_object.keeps_matching_intent mi] by simp_all
  have f1: "map_of (w_fs w1) (ar_root w1 @ [RECOVERY_DIRECTORY, intent_name (sn_sequence s + 1)]) = Some (FileNode m l i data)"
    using keepsD [OF session_kept.keeps_matching_intent mi] f intent_name_published r by (simp add: fs_rel_def published_kept_def)
  have "y \<noteq> Inr ()" if "resolve_pending_with_intent p s observed event action w1 = (y, w2)" for event action y w2
    by (rule resolve_foreign [OF f1 n _ that]) (use d r in simp)
  then show False using e by (auto simp: session_error_def split: option.splits prod.splits if_splits)
qed

text \<open>
  C23: Recovery with a foreign intent: once an intent for the next sequence number is published
  for one pending file, the recovery of a partial event in another pending file of that number
  (the resolution event itself, cut off while a first recovery appended it) does not succeed,
  whatever the system calls do, because the published intent is never replaced and never equals
  the new one.
\<close>

theorem foreign_intent_blocks_recovery:
  assumes "map_of (w_fs w) (ar_root w @ [RECOVERY_DIRECTORY, intent_name (sn_sequence s + 1)]) = Some (FileNode m l i data)"
    and "resolution_intent_bytes (ar_root_text w) q s old event action = Inr data" "pf_relative_path q \<noteq> pf_relative_path p"
    and "intent_writable (ar_root_text w) s q old" "intent_writable (ar_root_text w) s p observed" "sn_sequence s < MAX_JOURNAL_EVENTS"
    and "recover_partial_pending p (Some s) observed w = (x, w')"
  shows "x \<noteq> Inr ()"
proof (rule recover_partial_foreign [OF assms(1) _ _ assms(7)])
  show "sn_sequence s + 1 < 10 ^ 8" using assms(6) by (simp add: MAX_JOURNAL_EVENTS_def)
  fix e a show "resolution_intent_bytes (ar_root_text w) p s observed e a \<noteq> Inr data"
    using intent_bytes_path [OF assms(5,4) _ assms(2)] assms(3) by metis
qed

definition sample_pending :: "string \<Rightarrow> pending_file" where
  "sample_pending name = \<lparr>pf_relative_path = u name, pf_final_relative_path = event_relative 2\<rparr>"

definition sample_intent :: bytes where
  "sample_intent =
     (case resolution_intent_bytes (u ''run'') (sample_pending ''journal/.a'') sample_snapshot [] E_SESSION_ABANDONED ACTION_ABANDONED of
        Inr data \<Rightarrow> data | Inl _ \<Rightarrow> [])"

definition sample_blocked :: session_world where
  "sample_blocked = sample_session\<lparr>w_fs := w_fs sample_session @
     [([u ''run'', RECOVERY_DIRECTORY], DirNode 448 501), ([u ''run'', RECOVERY_DIRECTORY, intent_name 2], FileNode 384 1 501 sample_intent)]\<rparr>"

lemma sample_blocked_simps:
  "ar_root sample_blocked = [u ''run'']" "ar_root_text sample_blocked = u ''run''" "sn_sequence sample_snapshot = 1"
  "map_of (w_fs sample_blocked) [u ''run'', RECOVERY_DIRECTORY, intent_name (sn_sequence sample_snapshot + 1)] = Some (FileNode 384 1 501 sample_intent)"
proof -
  show s: "sn_sequence sample_snapshot = 1" by (simp add: sample_snapshot_def event_snapshot_def)
  have "RECOVERY_DIRECTORY \<noteq> JOURNAL_DIRECTORY" by code_simp
  moreover have "sn_sequence sample_snapshot + 1 = 2" using s by simp
  ultimately show "map_of (w_fs sample_blocked) [u ''run'', RECOVERY_DIRECTORY, intent_name (sn_sequence sample_snapshot + 1)] = Some (FileNode 384 1 501 sample_intent)"
    unfolding sample_blocked_def sample_session_def by (simp add: numeral_2_eq_2 del: u_simps)
qed (simp_all add: sample_blocked_def sample_session_def)

lemma sample_intent_writable: "intent_writable (u ''run'') sample_snapshot (sample_pending name) []"
  by (simp add: intent_writable_def sample_pending_def sample_snapshot_def event_snapshot_def scalar_u event_relative_def event_name_def
      JOURNAL_DIRECTORY_def scalar_def is_surrogate_def del: u_simps)

lemma sample_intent_bytes:
  "resolution_intent_bytes (u ''run'') (sample_pending ''journal/.a'') sample_snapshot [] E_SESSION_ABANDONED ACTION_ABANDONED = Inr sample_intent"
  using canonical_json_loaded [OF intent_document_plain [OF sample_intent_writable], of "''journal/.a''" E_SESSION_ABANDONED ACTION_ABANDONED]
  by (auto simp: sample_intent_def resolution_intent_bytes_def simp del: u_simps)

theorem foreign_intent_blocks_recovery_witness:
  "map_of (w_fs sample_blocked) (ar_root sample_blocked @ [RECOVERY_DIRECTORY, intent_name (sn_sequence sample_snapshot + 1)]) =
     Some (FileNode 384 1 501 sample_intent) \<and>
   fst (recover_partial_pending (sample_pending ''journal/.b'') (Some sample_snapshot) [] sample_blocked) \<noteq> Inr ()"
proof -
  have "map_of (w_fs sample_blocked) (ar_root sample_blocked @ [RECOVERY_DIRECTORY, intent_name (sn_sequence sample_snapshot + 1)]) =
     Some (FileNode 384 1 501 sample_intent)" using sample_blocked_simps(1,4) by simp
  moreover have "pf_relative_path (sample_pending ''journal/.a'') \<noteq> pf_relative_path (sample_pending ''journal/.b'')"
    by (simp add: sample_pending_def del: u_simps)
  moreover have "sn_sequence sample_snapshot < MAX_JOURNAL_EVENTS" using sample_blocked_simps(3) by (simp add: MAX_JOURNAL_EVENTS_def)
  ultimately show ?thesis
    using foreign_intent_blocks_recovery [of sample_blocked sample_snapshot 384 1 501 sample_intent "sample_pending ''journal/.a''" "[]"
        E_SESSION_ABANDONED ACTION_ABANDONED "sample_pending ''journal/.b''" "[]", OF _ _ _ _ _ _ prod.collapse [symmetric]]
      sample_intent_bytes sample_intent_writable sample_blocked_simps(2) by simp
qed

end
