(* ===== verification/Updater_Archive.thy ===== *)
theory Updater_Archive
  imports Raw_Artifacts Sha256
begin

text \<open>
  The updater archive contract, \<open>scripts/validate_updater_archive.py\<close>. The first part is the framing of
  the decompressed tar stream (\<open>validate_strict_tar_gzip_stream\<close>), with \<open>TarInfo.frombuf\<close> of the standard
  library; the gzip reader below it is not modelled, and the stream is its output. The second part is
  \<open>_inspect_members\<close> on the members that \<open>tarfile\<close> hands out, an argument here, with the resolution of
  symbolic links. The third part relates that resolution to a lookup in the extracted tree.
\<close>

unbundle bit_operations_syntax

section \<open>Constants\<close>

definition MAX_ENTRY_COUNT :: nat where "MAX_ENTRY_COUNT = 50000"
definition MAX_SINGLE_FILE_BYTES :: int where "MAX_SINGLE_FILE_BYTES = 512 * 1024 * 1024"
definition MAX_EXPANDED_BYTES :: int where "MAX_EXPANDED_BYTES = 1024 * 1024 * 1024"
definition MAX_PATH_BYTES :: nat where "MAX_PATH_BYTES = 1024"
definition MAX_SYMLINK_DEPTH :: nat where "MAX_SYMLINK_DEPTH = 32"
definition MAX_EXTENSION_ENTRY_BYTES :: int where "MAX_EXTENSION_ENTRY_BYTES = 64 * 1024"
definition MAX_TOTAL_EXTENSION_BYTES :: int where "MAX_TOTAL_EXTENSION_BYTES = 32 * 1024 * 1024"
definition TAR_BLOCK_BYTES :: nat where "TAR_BLOCK_BYTES = 512"

section \<open>Members\<close>

datatype member_type = DirType | RegType | SymType | OtherType

text \<open>What the source uses of a \<open>TarInfo\<close>: the names of its pax headers, and what \<open>extractfile\<close> reads.\<close>

record tar_member =
  tm_name :: ustr
  tm_type :: member_type
  tm_mode :: int
  tm_size :: int
  tm_linkname :: ustr
  tm_pax_headers :: "ustr list"
  tm_data :: bytes

datatype entry_kind = Directory | File | Symlink

fun kind_value :: "entry_kind \<Rightarrow> string" where
  "kind_value Directory = ''directory''"
| "kind_value File = ''file''"
| "kind_value Symlink = ''symlink''"

section \<open>Names and links\<close>

definition contract :: "string \<Rightarrow> 'a res" where "contract message = Inl (ArchiveContractError message)"

definition slash :: nat where "slash = 47"
definition dotdot :: ustr where "dotdot = u ''..''"
definition join_path :: "ustr list \<Rightarrow> ustr" where "join_path parts = join_with [slash] parts"
definition split_path :: "ustr \<Rightarrow> ustr list" where "split_path p = split_on slash p"

definition canonical_name :: "tar_member \<Rightarrow> ustr \<Rightarrow> ustr res" where
  "canonical_name member expected_root =
     (let name = tm_name member in
      case utf8_encode name of
        Inl _ \<Rightarrow> contract ''entry path is not UTF-8''
      | Inr encoded \<Rightarrow>
        if encoded = [] \<or> length encoded > MAX_PATH_BYTES then
          contract ''entry path length is outside the accepted range''
        else if take 1 name = [slash] \<or> 92 \<in> set name \<or> contains name [slash, slash] then
          contract ''entry path is not canonical''
        else
          let parts = split_path (if tm_type member = DirType \<and> last name = slash then butlast name else name) in
          if list_ex (\<lambda>part. part \<in> {[], u ''.'', dotdot}) parts then
            contract ''entry path contains a forbidden component''
          else if list_ex (\<lambda>part. take 2 part = u ''._'' \<or> part = u ''.DS_Store'') parts then
            contract ''entry path contains AppleDouble or Finder metadata''
          else if hd parts \<noteq> expected_root then
            contract ''entry is outside the fixed application root''
          else Inr (join_path (tl parts)))"

text \<open>The parts of \<open>PurePosixPath(relative).parent\<close>, for a relative path without empty or dot components.\<close>

definition parent_parts :: "ustr \<Rightarrow> ustr list" where
  "parent_parts relative = (if relative = [] then [] else butlast (split_path relative))"

definition lexical_step :: "ustr list \<Rightarrow> ustr \<Rightarrow> ustr list res" where
  "lexical_step resolved component =
     (if component = [] \<or> component = u ''.'' then contract ''symlink target is not canonical''
      else if component = dotdot then
        if resolved = [] then contract ''symlink target escapes the app root'' else Inr (butlast resolved)
      else Inr (resolved @ [component]))"

definition validate_symlink :: "ustr \<Rightarrow> ustr \<Rightarrow> unit res" where
  "validate_symlink relative target =
     (case utf8_encode target of
        Inl _ \<Rightarrow> contract ''symlink target is not UTF-8''
      | Inr encoded \<Rightarrow>
        if encoded = [] \<or> length encoded > MAX_PATH_BYTES \<or> take 1 target = [slash] \<or> 92 \<in> set target \<or>
           contains target [slash, slash] then
          contract ''symlink target is not canonical''
        else bindE (foldE lexical_step (parent_parts relative) (split_path target)) (\<lambda>_. Inr ()))"

type_synonym path_map = "(ustr \<times> entry_kind) list"
type_synonym link_map = "(ustr \<times> ustr) list"

text \<open>
  \<open>_resolve_through_links\<close>: the loop over the components of a target, which calls itself one level deeper
  for a component that is a link.
\<close>

function resolve_components :: "path_map \<Rightarrow> link_map \<Rightarrow> nat \<Rightarrow> ustr list \<Rightarrow> ustr list \<Rightarrow> ustr list res" where
  "resolve_components paths links depth resolved [] = Inr resolved"
| "resolve_components paths links depth resolved (component # components) =
     (if component = dotdot then
        if resolved = [] then contract ''symlink target escapes the app root''
        else resolve_components paths links depth (butlast resolved) components
      else
        let current = join_path (resolved @ [component]) in
        case map_of links current of
          Some target \<Rightarrow>
            bindE (if depth + 1 > MAX_SYMLINK_DEPTH then contract ''symlink chain is too deep''
                   else resolve_components paths links (depth + 1) resolved (split_path target)) (\<lambda>reached.
            resolve_components paths links depth reached components)
        | None \<Rightarrow>
            if map_of paths current = None then contract ''symlink target does not exist in the archive''
            else resolve_components paths links depth (resolved @ [component]) components)"
  by pat_completeness auto

termination
  by (relation "measures [\<lambda>(_, _, depth, _, _). MAX_SYMLINK_DEPTH - depth, \<lambda>(_, _, _, _, components). length components]") auto

definition resolve_through_links :: "ustr list \<Rightarrow> ustr \<Rightarrow> path_map \<Rightarrow> link_map \<Rightarrow> nat \<Rightarrow> ustr list res" where
  "resolve_through_links base target paths links depth =
     (if depth > MAX_SYMLINK_DEPTH then contract ''symlink chain is too deep''
      else resolve_components paths links depth base (split_path target))"

definition require_symlinks_resolve :: "path_map \<Rightarrow> link_map \<Rightarrow> unit res" where
  "require_symlinks_resolve paths links =
     foldE (\<lambda>_ (link, target).
       bindE (resolve_through_links (parent_parts link) target paths links 0) (\<lambda>_. Inr ())) () links"

section \<open>The manifest of an archive\<close>

text \<open>\<open>json.dumps\<close> with \<open>ensure_ascii=True\<close>.\<close>

definition hex_four :: "nat \<Rightarrow> ustr" where
  "hex_four c = [hex_code (c div 4096 mod 16), hex_code (c div 256 mod 16), hex_code (c div 16 mod 16), hex_code (c mod 16)]"

definition esc_ascii :: "nat \<Rightarrow> ustr" where
  "esc_ascii c =
     (if c < 32 \<or> c = 34 \<or> c = 92 then esc_char c
      else if c \<le> 126 then [c]
      else if c < 0x10000 then [92, 117] @ hex_four c
      else [92, 117] @ hex_four (0xD800 + (c - 0x10000) div 1024) @ [92, 117] @ hex_four (0xDC00 + (c - 0x10000) mod 1024))"

definition print_ascii_str :: "ustr \<Rightarrow> ustr" where
  "print_ascii_str s = [34] @ concat (map esc_ascii s) @ [34]"

datatype entry_content = DirectoryContent | FileContent (content_sha256: ustr) (content_size: int) | LinkContent (content_target: ustr)

record manifest_entry =
  me_mode :: ustr
  me_path :: ustr
  me_content :: entry_content

fun content_kind :: "entry_content \<Rightarrow> entry_kind" where
  "content_kind DirectoryContent = Directory"
| "content_kind (FileContent _ _) = File"
| "content_kind (LinkContent _) = Symlink"

text \<open>The members of an entry, in the order of their keys: an entry is dumped with \<open>sort_keys=True\<close>.\<close>

definition entry_members :: "manifest_entry \<Rightarrow> (ustr \<times> ustr) list" where
  "entry_members e =
     [(u ''mode'', print_ascii_str (me_mode e)), (u ''path'', print_ascii_str (me_path e))] @
     (case me_content e of
        DirectoryContent \<Rightarrow> []
      | FileContent digest bytes_count \<Rightarrow> [(u ''sha256'', print_ascii_str digest), (u ''size'', print_int bytes_count)]
      | LinkContent target \<Rightarrow> [(u ''target'', print_ascii_str target)]) @
     [(u ''type'', print_ascii_str (u (kind_value (content_kind (me_content e)))))]"

definition entry_line :: "manifest_entry \<Rightarrow> ustr" where
  "entry_line e = [123] @ join_with [44] (map (\<lambda>(k, v). print_ascii_str k @ [58] @ v) (entry_members e)) @ [125]"

definition tree_text :: "ustr \<Rightarrow> manifest_entry list \<Rightarrow> ustr" where
  "tree_text root_mode entries =
     concat (map (\<lambda>e. entry_line e @ [10]) (\<lparr>me_mode = root_mode, me_path = u ''.'', me_content = DirectoryContent\<rparr> # entries))"

definition tree_bytes :: "ustr \<Rightarrow> manifest_entry list \<Rightarrow> bytes" where
  "tree_bytes root_mode entries = map word_of_nat (tree_text root_mode entries)"

definition tree_sha256 :: "ustr \<Rightarrow> manifest_entry list \<Rightarrow> ustr" where
  "tree_sha256 root_mode entries = u (sha256_hex (tree_bytes root_mode entries))"

record archive_manifest =
  am_entries :: "manifest_entry list"
  am_root :: ustr
  am_root_mode :: ustr
  am_sha256 :: ustr

section \<open>Inspecting the members\<close>

record inspection =
  in_count :: nat
  in_expanded :: int
  in_paths :: path_map
  in_links :: link_map
  in_required :: "ustr list"
  in_root_mode :: "ustr option"
  in_entries :: "manifest_entry list"

definition start_inspection :: inspection where
  "start_inspection =
     \<lparr>in_count = 0, in_expanded = 0, in_paths = [], in_links = [], in_required = [], in_root_mode = None, in_entries = []\<rparr>"

definition member_kind :: "tar_member \<Rightarrow> entry_kind res" where
  "member_kind member =
     (case tm_type member of
        DirType \<Rightarrow> Inr Directory | RegType \<Rightarrow> Inr File | SymType \<Rightarrow> Inr Symlink
      | OtherType \<Rightarrow> contract ''archive contains a forbidden entry type'')"

definition check_mode :: "ustr \<Rightarrow> entry_kind \<Rightarrow> int \<Rightarrow> unit res" where
  "check_mode relative kind mode =
     (if mode AND NOT 511 \<noteq> 0 \<or> kind \<noteq> Symlink \<and> mode AND 18 \<noteq> 0 then
        contract ''archive entry permissions are unsafe''
      else if kind = Directory \<and> mode AND 448 \<noteq> 448 then
        contract ''archive directory does not give its owner full access''
      else if relative = u ''Contents/Info.plist'' \<and> mode AND 256 = 0 then
        contract ''Info.plist is not owner-readable''
      else if relative = u ''Contents/MacOS/clash-for-mac'' \<and> mode AND 320 \<noteq> 320 then
        contract ''main executable is not owner-readable and executable''
      else Inr ())"

text \<open>The successive values of \<open>posixpath.dirname\<close> below a relative path, the nearest first.\<close>

definition ancestors :: "ustr \<Rightarrow> ustr list" where
  "ancestors relative = (let parts = split_path relative in map (\<lambda>k. join_path (take k parts)) (rev [1..<length parts]))"

text \<open>\<open>f"{mode:04o}"\<close>.\<close>

definition octal4 :: "int \<Rightarrow> ustr" where
  "octal4 mode = (let digits = u (digits_base 8 (nat mode)) in replicate (4 - length digits) 48 @ digits)"

text \<open>The payload of a file member, read in chunks up to the size in its header.\<close>

definition read_member :: "tar_member \<Rightarrow> ustr res" where
  "read_member member =
     (if tm_size member < - 1 then Inl (ValueError ''read length must be non-negative or -1'')
      else if tm_size member < 0 \<or> int (length (tm_data member)) < tm_size member then
        contract ''archive file entry is truncated''
      else if int (length (tm_data member)) > tm_size member then
        contract ''archive file entry exceeds its header size''
      else Inr (u (sha256_hex (tm_data member))))"

definition content_of :: "tar_member \<Rightarrow> entry_kind \<Rightarrow> entry_content res" where
  "content_of member kind =
     (case kind of
        Directory \<Rightarrow> Inr DirectoryContent
      | File \<Rightarrow> bindE (read_member member) (\<lambda>digest. Inr (FileContent digest (tm_size member)))
      | Symlink \<Rightarrow> Inr (LinkContent (tm_linkname member)))"

definition check_payload :: "entry_kind \<Rightarrow> tar_member \<Rightarrow> int \<Rightarrow> int res" where
  "check_payload kind member expanded =
     (if kind \<noteq> File then
        if tm_size member \<noteq> 0 then contract ''non-file archive entry has payload bytes'' else Inr expanded
      else if tm_size member > MAX_SINGLE_FILE_BYTES then contract ''archive entry exceeds the single-file limit''
      else if expanded + tm_size member > MAX_EXPANDED_BYTES then contract ''archive exceeds the expanded-size limit''
      else Inr (expanded + tm_size member))"

definition check_parents :: "inspection \<Rightarrow> ustr \<Rightarrow> entry_kind \<Rightarrow> ustr list res" where
  "check_parents st relative kind =
     (if list_ex (\<lambda>parent. map_of (in_paths st) parent \<notin> {None, Some Directory}) (ancestors relative) then
        contract ''archive path descends through a non-directory''
      else
        let required = in_required st @ ancestors relative in
        if kind \<noteq> Directory \<and> relative \<in> set required then
          contract ''archive path conflicts with an existing descendant''
        else Inr required)"

definition inspect_member :: "ustr \<Rightarrow> inspection \<Rightarrow> tar_member \<Rightarrow> inspection res" where
  "inspect_member expected_root st member =
     (if in_count st + 1 > MAX_ENTRY_COUNT then contract ''archive contains too many entries''
      else if \<not> set (tm_pax_headers member) \<subseteq> {u ''path'', u ''linkpath''} then
        contract ''archive contains unbound extended metadata''
      else bindE (canonical_name member expected_root) (\<lambda>relative.
      if map_of (in_paths st) relative \<noteq> None then contract ''archive contains a duplicate path''
      else bindE (member_kind member) (\<lambda>kind.
      bindE (check_mode relative kind (tm_mode member)) (\<lambda>_.
      bindE (check_payload kind member (in_expanded st)) (\<lambda>expanded.
      bindE (if kind = Symlink then validate_symlink relative (tm_linkname member) else Inr ()) (\<lambda>_.
      bindE (check_parents st relative kind) (\<lambda>required.
      let st1 = st\<lparr>in_count := in_count st + 1, in_expanded := expanded,
            in_paths := in_paths st @ [(relative, kind)],
            in_links := in_links st @ (if kind = Symlink then [(relative, tm_linkname member)] else []),
            in_required := required\<rparr> in
      if relative = [] then
        if kind \<noteq> Directory then contract ''application root is not a directory''
        else Inr (st1\<lparr>in_root_mode := Some (octal4 (tm_mode member))\<rparr>)
      else bindE (content_of member kind) (\<lambda>content.
        Inr (st1\<lparr>in_entries := in_entries st @ [\<lparr>me_mode = octal4 (tm_mode member), me_path = relative, me_content = content\<rparr>]\<rparr>)))))))))"

definition required_layout :: "(ustr \<times> entry_kind) list" where
  "required_layout =
     [(u '''', Directory), (u ''Contents'', Directory), (u ''Contents/MacOS'', Directory),
      (u ''Contents/Info.plist'', File), (u ''Contents/MacOS/clash-for-mac'', File)]"

definition check_layout :: "inspection \<Rightarrow> ustr res" where
  "check_layout st =
     (if in_count st = 0 then contract ''archive is empty''
      else if list_ex (\<lambda>(name, kind). map_of (in_paths st) name \<noteq> Some kind) required_layout then
        contract ''archive omits the canonical app bundle layout''
      else if list_ex (\<lambda>name. map_of (in_paths st) name \<noteq> Some Directory) (in_required st) then
        contract ''archive omits an explicit parent directory''
      else case in_root_mode st of
        None \<Rightarrow> contract ''archive omits the explicit application root''
      | Some root_mode \<Rightarrow>
          bindE (require_symlinks_resolve (in_paths st) (in_links st)) (\<lambda>_. Inr root_mode))"

definition inspect_members :: "tar_member list \<Rightarrow> ustr \<Rightarrow> (nat \<times> int \<times> archive_manifest) res" where
  "inspect_members members expected_root =
     bindE (foldE (inspect_member expected_root) start_inspection members) (\<lambda>st.
     bindE (check_layout st) (\<lambda>root_mode.
     let entries = sort_key me_path (in_entries st) in
     Inr (in_count st, in_expanded st,
       \<lparr>am_entries = entries, am_root = expected_root, am_root_mode = root_mode, am_sha256 = tree_sha256 root_mode entries\<rparr>)))"

section \<open>Framing of the tar stream\<close>

text \<open>\<open>int(text, 8)\<close> on stripped ASCII text: a sign, the prefix \<open>0o\<close>, and single underscores between digits.\<close>

definition is_octal :: "char \<Rightarrow> bool" where
  "is_octal c = (48 \<le> char_code c \<and> char_code c \<le> 55)"

definition octal_digits :: "string \<Rightarrow> nat option" where
  "octal_digits s =
     (if list_all (\<lambda>part. part \<noteq> [] \<and> list_all is_octal part) (split_on (CHR ''_'') s)
      then Some (digits_val 8 (filter is_octal s)) else None)"

definition unsigned_octal :: "string \<Rightarrow> nat option" where
  "unsigned_octal s =
     (if take 2 s \<in> {''0o'', ''0O''} then octal_digits (if take 1 (drop 2 s) = ''_'' then drop 3 s else drop 2 s)
      else octal_digits s)"

definition int_octal :: "string \<Rightarrow> int option" where
  "int_octal s =
     (case s of
        c # r \<Rightarrow> if c = CHR ''-'' then map_option (\<lambda>n. - int n) (unsigned_octal r)
                 else if c = CHR ''+'' then map_option int (unsigned_octal r)
                 else map_option int (unsigned_octal s)
      | [] \<Rightarrow> None)"

text \<open>\<open>tarfile.nti\<close>, on a non-empty field.\<close>

definition nti :: "bytes \<Rightarrow> int res" where
  "nti s =
     (if unat (hd s) = 128 then Inr (int (be_nat (tl s)))
      else if unat (hd s) = 255 then Inr (int (be_nat (tl s)) - 256 ^ length (tl s))
      else case decode_ascii (takeWhile (\<lambda>b. b \<noteq> 0) s) of
        Inl _ \<Rightarrow> Inl HeaderError
      | Inr text \<Rightarrow>
          let stripped = py_strip text in
          (case int_octal (if stripped = [] then ''0'' else stripped) of None \<Rightarrow> Inl HeaderError | Some n \<Rightarrow> Inr n))"

definition calc_chksums :: "bytes \<Rightarrow> int \<times> int" where
  "calc_chksums buf =
     (let summed = py_slice buf 0 148 @ py_slice buf 156 512 in
      (256 + sum_list (map (\<lambda>b. int (unat b)) summed), 256 + sum_list (map sint summed)))"

definition type_flag :: "bytes \<Rightarrow> nat" where "type_flag buf = unat (buf ! 156)"

definition GNUTYPE_SPARSE :: nat where "GNUTYPE_SPARSE = 83"

definition EXTENSION_TYPES :: "nat list" where "EXTENSION_TYPES = [120, 103, 76, 75]"

text \<open>The number fields of the old GNU sparse format.\<close>

definition sparse_fields :: "bytes \<Rightarrow> unit res" where
  "sparse_fields buf =
     bindE (mapE (\<lambda>i. nti (py_slice buf (386 + 12 * i) (398 + 12 * i))) [0..<8]) (\<lambda>_.
     bindE (nti (py_slice buf 483 495)) (\<lambda>_. Inr ()))"

text \<open>
  \<open>TarInfo.frombuf\<close> on a full block that is not zero, as far as it decides the size, the type and the
  errors: the remaining number fields are read and thrown away.
\<close>

definition frombuf :: "bytes \<Rightarrow> (nat \<times> int) res" where
  "frombuf buf =
     bindE (nti (py_slice buf 148 156)) (\<lambda>chksum.
     if chksum \<notin> {fst (calc_chksums buf), snd (calc_chksums buf)} then Inl HeaderError
     else bindE (mapE (\<lambda>(a, b). nti (py_slice buf a b)) [(100, 108), (108, 116), (116, 124)]) (\<lambda>_.
     bindE (nti (py_slice buf 124 136)) (\<lambda>member_size.
     bindE (mapE (\<lambda>(a, b). nti (py_slice buf a b)) [(136, 148), (329, 337), (337, 345)]) (\<lambda>_.
     bindE (if type_flag buf = GNUTYPE_SPARSE then sparse_fields buf else Inr ()) (\<lambda>_.
     Inr (type_flag buf, member_size))))))"

definition padded_size :: "int \<Rightarrow> int" where
  "padded_size member_size = (member_size + int TAR_BLOCK_BYTES - 1) div int TAR_BLOCK_BYTES * int TAR_BLOCK_BYTES"

text \<open>\<open>_discard_exact\<close>: a negative size reaches \<open>read\<close>, which refuses it.\<close>

definition discard_exact :: "int \<Rightarrow> bytes \<Rightarrow> bytes res" where
  "discard_exact n source =
     (if n < 0 then Inl (ValueError ''read length must be non-negative or -1'')
      else if length source < nat n then contract ''decompressed tar entry is truncated''
      else Inr (drop (nat n) source))"

record framing_limits =
  fl_entries :: nat
  fl_extension_entry :: int
  fl_total_extension :: int

definition check_trailing :: "bytes \<Rightarrow> unit res" where
  "check_trailing source =
     (if list_ex (\<lambda>b. b \<noteq> 0) source then contract ''tar archive contains non-zero data after its termination blocks''
      else Inr ())"

definition read_entry :: "framing_limits \<Rightarrow> nat \<Rightarrow> int \<Rightarrow> bytes \<Rightarrow> bytes \<Rightarrow> (int \<times> bytes) res" where
  "read_entry limits entry_count extension_bytes header rest =
     (if entry_count > fl_entries limits then contract ''archive contains too many raw entries''
      else bindE (frombuf header) (\<lambda>(flag, member_size).
      bindE (if flag \<in> set EXTENSION_TYPES then
               if member_size > fl_extension_entry limits then
                 contract ''archive extension metadata entry exceeds its fixed limit''
               else if extension_bytes + member_size > fl_total_extension limits then
                 contract ''archive extension metadata exceeds its aggregate limit''
               else Inr (extension_bytes + member_size)
             else Inr extension_bytes) (\<lambda>extension_bytes'.
      bindE (discard_exact (padded_size member_size) rest) (\<lambda>rest'. Inr (extension_bytes', rest')))))"

lemma read_entry_shorter: "read_entry limits n x header rest = Inr (x', rest') \<Longrightarrow> length rest' \<le> length rest"
  by (auto simp: read_entry_def discard_exact_def contract_def res_simps split: if_splits)

function read_entries :: "framing_limits \<Rightarrow> nat \<Rightarrow> int \<Rightarrow> nat \<Rightarrow> bytes \<Rightarrow> unit res" where
  "read_entries limits entry_count extension_bytes zero_blocks source =
     (if source = [] then contract ''tar archive omits its two zero termination blocks''
      else if length source < TAR_BLOCK_BYTES then contract ''decompressed tar stream is truncated''
      else
        let header = take TAR_BLOCK_BYTES source; rest = drop TAR_BLOCK_BYTES source in
        if header = replicate TAR_BLOCK_BYTES 0 then
          if zero_blocks + 1 = 2 then check_trailing rest
          else read_entries limits entry_count extension_bytes (zero_blocks + 1) rest
        else
          bindE (read_entry limits (entry_count + 1) extension_bytes header rest) (\<lambda>(extension_bytes', rest').
          read_entries limits (entry_count + 1) extension_bytes' 0 rest'))"
  by pat_completeness auto

termination
  by (relation "measure (\<lambda>(_, _, _, _, source). length source)")
    (auto simp: TAR_BLOCK_BYTES_def dest: read_entry_shorter)

declare read_entries.simps [simp del]

definition validate_strict_tar_stream :: "framing_limits \<Rightarrow> bytes \<Rightarrow> unit res" where
  "validate_strict_tar_stream limits source =
     (if fl_entries limits \<le> 0 then contract ''raw archive entry limit must be positive''
      else read_entries limits 0 0 0 source)"

definition RAW_ENTRY_MULTIPLIER :: nat where "RAW_ENTRY_MULTIPLIER = 4"

definition validate_raw_metadata :: "bytes \<Rightarrow> unit res" where
  "validate_raw_metadata source =
     validate_strict_tar_stream
       \<lparr>fl_entries = MAX_ENTRY_COUNT * RAW_ENTRY_MULTIPLIER, fl_extension_entry = MAX_EXTENSION_ENTRY_BYTES,
        fl_total_extension = MAX_TOTAL_EXTENSION_BYTES\<rparr> source"

section \<open>The whole check\<close>

text \<open>\<open>tar_members\<close> stands for the iteration over \<open>tarfile.open\<close> on the decompressed stream.\<close>

definition inspect_archive ::
  "(bytes \<Rightarrow> tar_member list res) \<Rightarrow> bytes \<Rightarrow> ustr \<Rightarrow> (nat \<times> int \<times> archive_manifest) res" where
  "inspect_archive tar_members source expected_root =
     bindE (validate_raw_metadata source) (\<lambda>_.
     bindE (tar_members source) (\<lambda>members. inspect_members members expected_root))"

definition validate_archive :: "(bytes \<Rightarrow> tar_member list res) \<Rightarrow> bytes \<Rightarrow> ustr \<Rightarrow> (nat \<times> int) res" where
  "validate_archive tar_members source expected_root =
     bindE (inspect_archive tar_members source expected_root) (\<lambda>(number, expanded, _). Inr (number, expanded))"

definition build_archive_app_manifest :: "(bytes \<Rightarrow> tar_member list res) \<Rightarrow> bytes \<Rightarrow> ustr \<Rightarrow> archive_manifest res" where
  "build_archive_app_manifest tar_members source expected_root =
     bindE (inspect_archive tar_members source expected_root) (\<lambda>(_, _, manifest). Inr manifest)"

section \<open>Accepted streams\<close>

text \<open>
  A stream as a list of frames, each a header block and its padded payload, with at most one zero block before
  it, closed by two zero blocks and zeros.
\<close>

record frame =
  fr_gap :: bool
  fr_header :: bytes
  fr_payload :: bytes

definition zero_block :: bytes where "zero_block = replicate TAR_BLOCK_BYTES 0"

definition frame_bytes :: "frame \<Rightarrow> bytes" where
  "frame_bytes f = (if fr_gap f then zero_block else []) @ fr_header f @ fr_payload f"

fun frames_ok :: "framing_limits \<Rightarrow> nat \<Rightarrow> int \<Rightarrow> frame list \<Rightarrow> bool" where
  "frames_ok limits n x [] = True"
| "frames_ok limits n x (f # fs) =
     (length (fr_header f) = TAR_BLOCK_BYTES \<and> fr_header f \<noteq> zero_block \<and> n < fl_entries limits \<and>
      (case frombuf (fr_header f) of
         Inl _ \<Rightarrow> False
       | Inr (flag, member_size) \<Rightarrow>
           int (length (fr_payload f)) = padded_size member_size \<and>
           (if flag \<in> set EXTENSION_TYPES then
              member_size \<le> fl_extension_entry limits \<and> x + member_size \<le> fl_total_extension limits \<and>
              frames_ok limits (n + 1) (x + member_size) fs
            else frames_ok limits (n + 1) x fs)))"

lemma read_entry_iff:
  "read_entry limits n x header rest = Inr (x', rest') \<longleftrightarrow>
     n \<le> fl_entries limits \<and> (\<exists>flag member_size payload. frombuf header = Inr (flag, member_size) \<and>
       int (length payload) = padded_size member_size \<and> rest = payload @ rest' \<and>
       (if flag \<in> set EXTENSION_TYPES then
          member_size \<le> fl_extension_entry limits \<and> x + member_size \<le> fl_total_extension limits \<and> x' = x + member_size
        else x' = x))" (is "?l \<longleftrightarrow> ?r")
proof
  assume ?l
  then obtain flag member_size where h: "n \<le> fl_entries limits" "frombuf header = Inr (flag, member_size)"
    and e: "if flag \<in> set EXTENSION_TYPES then
          member_size \<le> fl_extension_entry limits \<and> x + member_size \<le> fl_total_extension limits \<and> x' = x + member_size
        else x' = x" and d: "discard_exact (padded_size member_size) rest = Inr rest'"
    by (auto simp: read_entry_def contract_def res_simps split: if_splits)
  from d have p: "0 \<le> padded_size member_size" "nat (padded_size member_size) \<le> length rest" "rest' = drop (nat (padded_size member_size)) rest"
    by (auto simp: discard_exact_def contract_def split: if_splits)
  have "int (length (take (nat (padded_size member_size)) rest)) = padded_size member_size" using p by simp
  moreover have "rest = take (nat (padded_size member_size)) rest @ rest'" using p(3) by simp
  ultimately show ?r using h e by blast
next
  assume ?r
  then show ?l by (auto simp: read_entry_def discard_exact_def contract_def split: if_splits)
qed

lemma length_zero_block: "length zero_block = TAR_BLOCK_BYTES" "0 < TAR_BLOCK_BYTES" "zero_block \<noteq> []"
  by (simp_all add: zero_block_def TAR_BLOCK_BYTES_def)

lemma read_entries_zero:
  "read_entries limits n x z (zero_block @ s) = (if z + 1 = 2 then check_trailing s else read_entries limits n x (z + 1) s)"
  using length_zero_block by (subst read_entries.simps) (simp add: zero_block_def [symmetric] Let_def)

lemma read_entries_header:
  assumes "length h = TAR_BLOCK_BYTES" "h \<noteq> zero_block"
  shows "read_entries limits n x z (h @ s) =
    bindE (read_entry limits (n + 1) x h s) (\<lambda>(x', s'). read_entries limits (n + 1) x' 0 s')"
proof -
  have "h \<noteq> []" using assms(1) by (auto simp: TAR_BLOCK_BYTES_def)
  then show ?thesis using assms by (subst read_entries.simps) (simp add: zero_block_def Let_def)
qed

lemma frames_accepted:
  assumes "frames_ok limits n x fs" "list_all (\<lambda>b. b = 0) zs"
  shows "read_entries limits n x 0 (concat (map frame_bytes fs) @ zero_block @ zero_block @ zs) = Inr ()"
  using assms(1)
proof (induction fs arbitrary: n x)
  case Nil
  then show ?case using assms(2) by (auto simp: read_entries_zero check_trailing_def list_all_iff list_ex_iff)
next
  case (Cons f fs)
  let ?rest = "concat (map frame_bytes fs) @ zero_block @ zero_block @ zs"
  have h: "length (fr_header f) = TAR_BLOCK_BYTES" "fr_header f \<noteq> zero_block" using Cons.prems by simp_all
  obtain flag member_size where m: "frombuf (fr_header f) = Inr (flag, member_size)" using Cons.prems by (auto split: sum.splits)
  define x' where "x' = (if flag \<in> set EXTENSION_TYPES then x + member_size else x)"
  have ok: "read_entry limits (n + 1) x (fr_header f) (fr_payload f @ ?rest) = Inr (x', ?rest)" "frames_ok limits (n + 1) x' fs"
    using Cons.prems m unfolding read_entry_iff x'_def by auto
  have gap: "read_entries limits n x z (fr_header f @ fr_payload f @ ?rest) = Inr ()" for z
    unfolding read_entries_header [OF h] using ok Cons.IH [OF ok(2)] by simp
  show ?case using gap by (cases "fr_gap f") (simp_all add: frame_bytes_def [of f] read_entries_zero)
qed

lemma accepted_frames:
  "read_entries limits n x z source = Inr () \<Longrightarrow> z \<le> 1 \<Longrightarrow>
   (\<exists>fs zs. (if z = 1 then zero_block @ source else source) = concat (map frame_bytes fs) @ zero_block @ zero_block @ zs \<and>
      frames_ok limits n x fs \<and> list_all (\<lambda>b. b = 0) zs)"
proof (induction limits n x z source rule: read_entries.induct)
  case (1 limits n x z source)
  let ?h = "take TAR_BLOCK_BYTES source" and ?s = "drop TAR_BLOCK_BYTES source"
  have ne: "source \<noteq> []" "\<not> length source < TAR_BLOCK_BYTES"
    using "1.prems"(1) by (auto simp: contract_def read_entries.simps [of limits n x z source] split: if_splits)
  then have h: "length ?h = TAR_BLOCK_BYTES" and src: "source = ?h @ ?s" by simp_all
  show ?case
  proof (cases "?h = zero_block")
    case True
    then have src0: "source = zero_block @ ?s" using src by simp
    have run: "(if z + 1 = 2 then check_trailing ?s else read_entries limits n x (z + 1) ?s) = Inr ()"
      using "1.prems"(1) read_entries_zero [of limits n x z ?s] src0 by metis
    show ?thesis
    proof (cases "z = 1")
      case True
      then have "list_all (\<lambda>b. b = 0) ?s" using run by (auto simp: check_trailing_def contract_def list_ex_iff list_all_iff split: if_splits)
      then show ?thesis using True src0 by (intro exI [of _ "[]"] exI [of _ ?s]) (simp add: contract_def)
    next
      case False
      then have z: "z = 0" using "1.prems"(2) by simp
      have "\<exists>fs zs. zero_block @ ?s = concat (map frame_bytes fs) @ zero_block @ zero_block @ zs \<and> frames_ok limits n x fs \<and> list_all (\<lambda>b. b = 0) zs"
        using "1.IH"(1) [OF ne refl refl] True [unfolded zero_block_def] run z by simp
      then show ?thesis using src0 z by auto
    qed
  next
    case False
    have "bindE (read_entry limits (n + 1) x ?h ?s) (\<lambda>(x', s'). read_entries limits (n + 1) x' 0 s') = Inr ()"
      using "1.prems"(1) read_entries_header [OF h False, of limits n x z ?s] by simp
    then obtain x' s' where e: "read_entry limits (n + 1) x ?h ?s = Inr (x', s')" and r: "read_entries limits (n + 1) x' 0 s' = Inr ()"
      by (auto simp: res_simps)
    obtain fs zs where f: "s' = concat (map frame_bytes fs) @ zero_block @ zero_block @ zs" "frames_ok limits (n + 1) x' fs" "list_all (\<lambda>b. b = 0) zs"
      using "1.IH"(2) [OF ne refl refl _ e refl] False [unfolded zero_block_def] r by auto
    obtain flag member_size payload where p: "n + 1 \<le> fl_entries limits" "frombuf ?h = Inr (flag, member_size)" "int (length payload) = padded_size member_size"
      "?s = payload @ s'" "if flag \<in> set EXTENSION_TYPES then
          member_size \<le> fl_extension_entry limits \<and> x + member_size \<le> fl_total_extension limits \<and> x' = x + member_size else x' = x"
      using e unfolding read_entry_iff by blast
    let ?f = "\<lparr>fr_gap = (z = 1), fr_header = ?h, fr_payload = payload\<rparr>"
    have "frames_ok limits n x (?f # fs)" using h False p f(2) by (auto split: if_splits)
    moreover have "(if z = 1 then zero_block @ source else source) = frame_bytes ?f @ s'"
    proof -
      have "source = ?h @ payload @ s'" using src p(4) by simp
      then show ?thesis by (simp add: frame_bytes_def)
    qed
    ultimately show ?thesis using f by (intro exI [of _ "?f # fs"] exI [of _ zs]) simp
  qed
qed

section \<open>The tree of an archive\<close>

text \<open>What an extraction of the members creates below the application root.\<close>

datatype tree_node = TreeDir | TreeFile | TreeLink "ustr list"

definition stripped_name :: "tar_member \<Rightarrow> ustr" where
  "stripped_name m = (if tm_type m = DirType \<and> last (tm_name m) = slash then butlast (tm_name m) else tm_name m)"

definition member_parts :: "tar_member \<Rightarrow> ustr list" where
  "member_parts m = tl (split_path (stripped_name m))"

definition member_node :: "tar_member \<Rightarrow> tree_node" where
  "member_node m = (case tm_type m of DirType \<Rightarrow> TreeDir | SymType \<Rightarrow> TreeLink (split_path (tm_linkname m)) | _ \<Rightarrow> TreeFile)"

definition extracted :: "tar_member list \<Rightarrow> ustr list \<Rightarrow> tree_node option" where
  "extracted members = map_of (map (\<lambda>m. (member_parts m, member_node m)) members)"

text \<open>
  The lookup of a path as a kernel does it in that tree: it needs a directory to stand in, follows a link by
  putting its target in front, and can leave the tree only through \<open>..\<close> at its root.
\<close>

datatype position = Inside "ustr list" | Outside

inductive lookup_step :: "(ustr list \<Rightarrow> tree_node option) \<Rightarrow> position \<times> ustr list \<Rightarrow> position \<times> ustr list \<Rightarrow> bool"
  for T :: "ustr list \<Rightarrow> tree_node option" where
  go_up: "T cur = Some TreeDir \<Longrightarrow> cur \<noteq> [] \<Longrightarrow> lookup_step T (Inside cur, dotdot # cs) (Inside (butlast cur), cs)"
| go_out: "T [] = Some TreeDir \<Longrightarrow> lookup_step T (Inside [], dotdot # cs) (Outside, cs)"
| go_down: "T cur = Some TreeDir \<Longrightarrow> c \<noteq> dotdot \<Longrightarrow> T (cur @ [c]) \<in> {Some TreeDir, Some TreeFile} \<Longrightarrow>
    lookup_step T (Inside cur, c # cs) (Inside (cur @ [c]), cs)"
| go_link: "T cur = Some TreeDir \<Longrightarrow> c \<noteq> dotdot \<Longrightarrow> T (cur @ [c]) = Some (TreeLink t) \<Longrightarrow>
    lookup_step T (Inside cur, c # cs) (Inside cur, t @ cs)"

inductive_cases lookup_upE: "lookup_step T (Inside cur, dotdot # cs) s"
inductive_cases lookup_downE: "lookup_step T (Inside cur, c # cs) s"
inductive_cases lookup_endE: "lookup_step T (pos, []) s"

text \<open>A state in the tree whose next name, if it stands in a directory, exists.\<close>

definition in_tree :: "(ustr list \<Rightarrow> tree_node option) \<Rightarrow> position \<times> ustr list \<Rightarrow> bool" where
  "in_tree T s =
     (case s of
        (Outside, _) \<Rightarrow> False
      | (Inside cur, todo) \<Rightarrow> T cur \<in> {Some TreeDir, Some TreeFile} \<and>
          (case todo of [] \<Rightarrow> True | c # _ \<Rightarrow> c = dotdot \<or> T cur \<noteq> Some TreeDir \<or> T (cur @ [c]) \<noteq> None))"

text \<open>Every run from the state ends, and stays in the tree.\<close>

inductive confined :: "(ustr list \<Rightarrow> tree_node option) \<Rightarrow> position \<times> ustr list \<Rightarrow> bool"
  for T :: "ustr list \<Rightarrow> tree_node option" where
  confinedI: "in_tree T s \<Longrightarrow> (\<And>s'. lookup_step T s s' \<Longrightarrow> confined T s') \<Longrightarrow> confined T s"

lemma confined_reach:
  assumes "(lookup_step T)\<^sup>*\<^sup>* s s'" "confined T s" shows "in_tree T s'"
proof -
  have "confined T s'" using assms by (induction rule: rtranclp_induct) (auto elim: confined.cases)
  then show ?thesis by (auto elim: confined.cases)
qed

lemma confined_ends: "confined T s \<Longrightarrow> f 0 = s \<Longrightarrow> \<exists>i. \<not> lookup_step T (f i) (f (Suc i))"
proof (induction arbitrary: f rule: confined.induct)
  case (confinedI s)
  show ?case
  proof (rule ccontr)
    assume "\<not> ?thesis"
    then have r: "\<And>i. lookup_step T (f i) (f (Suc i))" by blast
    then have "\<exists>i. \<not> lookup_step T (f (Suc i)) (f (Suc (Suc i)))"
      using confinedI.IH [of "f (Suc 0)" "\<lambda>i. f (Suc i)"] r [of 0] unfolding confinedI.prems by blast
    then show False using r by blast
  qed
qed

section \<open>Resolution agrees with lookup\<close>

definition plain_part :: "ustr \<Rightarrow> bool" where
  "plain_part c = (c \<noteq> [] \<and> slash \<notin> set c)"

definition agrees :: "(ustr list \<Rightarrow> tree_node option) \<Rightarrow> path_map \<Rightarrow> link_map \<Rightarrow> bool" where
  "agrees T paths links =
     (T [] = Some TreeDir \<and>
      (\<forall>p c. T (p @ [c]) \<noteq> None \<longrightarrow> T p = Some TreeDir \<and> plain_part c) \<and>
      (\<forall>p. p \<noteq> [] \<longrightarrow> list_all plain_part p \<longrightarrow>
         T p = (case map_of paths (join_path p) of
                  None \<Rightarrow> None | Some Directory \<Rightarrow> Some TreeDir | Some File \<Rightarrow> Some TreeFile
                | Some Symlink \<Rightarrow> map_option (\<lambda>t. TreeLink (split_path t)) (map_of links (join_path p)))) \<and>
      (\<forall>link t. map_of links link = Some t \<longrightarrow> map_of paths link = Some Symlink \<and> list_all plain_part (split_path t)) \<and>
      (\<forall>link. map_of paths link = Some Symlink \<longrightarrow> map_of links link \<noteq> None))"

lemma agrees_plain: "agrees T paths links \<Longrightarrow> T p \<noteq> None \<Longrightarrow> list_all plain_part p"
proof (induction p rule: rev_induct)
  case (snoc c p)
  then have "T p = Some TreeDir" "plain_part c" unfolding agrees_def by blast+
  then show ?case using snoc by simp
qed simp

lemma agrees_lookup:
  assumes "agrees T paths links" "T cur \<noteq> None" "plain_part c"
  shows "T (cur @ [c]) = (case map_of paths (join_path (cur @ [c])) of
                  None \<Rightarrow> None | Some Directory \<Rightarrow> Some TreeDir | Some File \<Rightarrow> Some TreeFile
                | Some Symlink \<Rightarrow> map_option (\<lambda>t. TreeLink (split_path t)) (map_of links (join_path (cur @ [c]))))"
proof -
  have "list_all plain_part (cur @ [c])" using agrees_plain [OF assms(1,2)] assms(3) by simp
  then show ?thesis using assms(1) unfolding agrees_def by blast
qed

lemma agrees_link:
  assumes "agrees T paths links" "T cur \<noteq> None" "plain_part c" "map_of links (join_path (cur @ [c])) = Some t"
  shows "T (cur @ [c]) = Some (TreeLink (split_path t))" "list_all plain_part (split_path t)"
proof -
  have l: "map_of paths (join_path (cur @ [c])) = Some Symlink" "list_all plain_part (split_path t)"
    using assms(1,4) unfolding agrees_def by blast+
  then show "T (cur @ [c]) = Some (TreeLink (split_path t))" "list_all plain_part (split_path t)"
    using agrees_lookup [OF assms(1-3)] assms(4) by simp_all
qed

lemma agrees_entry:
  assumes "agrees T paths links" "T cur \<noteq> None" "plain_part c" "map_of links (join_path (cur @ [c])) = None"
    and "map_of paths (join_path (cur @ [c])) \<noteq> None"
  shows "T (cur @ [c]) \<in> {Some TreeDir, Some TreeFile}"
proof -
  have "map_of paths (join_path (cur @ [c])) \<noteq> Some Symlink" using assms(1,4) unfolding agrees_def by blast
  then show ?thesis using agrees_lookup [OF assms(1-3)] assms(5) by (auto split: entry_kind.splits)
qed

lemma agrees_parent:
  assumes "agrees T paths links" "T cur \<noteq> None" "cur \<noteq> []" shows "T (butlast cur) = Some TreeDir"
proof -
  have "T (butlast cur @ [last cur]) \<noteq> None" using assms(2,3) by simp
  then show ?thesis using assms(1) unfolding agrees_def by blast
qed

lemma confined_up:
  assumes "T cur \<in> {Some TreeDir, Some TreeFile}" "cur \<noteq> []" "confined T (Inside (butlast cur), cs)"
  shows "confined T (Inside cur, dotdot # cs)"
proof (rule confinedI)
  show "in_tree T (Inside cur, dotdot # cs)" using assms(1) by (simp add: in_tree_def)
  fix s' assume "lookup_step T (Inside cur, dotdot # cs) s'"
  then show "confined T s'" using assms(2,3) by (auto elim: lookup_downE)
qed

lemma confined_down:
  assumes "T cur \<in> {Some TreeDir, Some TreeFile}" "c \<noteq> dotdot" "T (cur @ [c]) \<in> {Some TreeDir, Some TreeFile}"
    and "confined T (Inside (cur @ [c]), cs)"
  shows "confined T (Inside cur, c # cs)"
proof (rule confinedI)
  show "in_tree T (Inside cur, c # cs)" using assms(1,3) by (auto simp: in_tree_def)
  fix s' assume "lookup_step T (Inside cur, c # cs) s'"
  then show "confined T s'" using assms(2-4) by (auto elim: lookup_downE)
qed

lemma confined_link:
  assumes "T cur \<in> {Some TreeDir, Some TreeFile}" "c \<noteq> dotdot" "T (cur @ [c]) = Some (TreeLink t)"
    and "confined T (Inside cur, t @ cs)"
  shows "confined T (Inside cur, c # cs)"
proof (rule confinedI)
  show "in_tree T (Inside cur, c # cs)" using assms(1,3) by (auto simp: in_tree_def)
  fix s' assume "lookup_step T (Inside cur, c # cs) s'"
  then show "confined T s'" using assms(2-4) by (auto elim: lookup_downE)
qed

lemma resolve_confined:
  "agrees T paths links \<Longrightarrow> resolve_components paths links depth cur comps = Inr r \<Longrightarrow> T cur \<in> {Some TreeDir, Some TreeFile} \<Longrightarrow>
    list_all plain_part comps \<Longrightarrow>
    T r \<in> {Some TreeDir, Some TreeFile} \<and> (\<forall>cs. confined T (Inside r, cs) \<longrightarrow> confined T (Inside cur, comps @ cs))"
proof (induction paths links depth cur comps arbitrary: r rule: resolve_components.induct)
  case (1 paths links depth resolved)
  then show ?case by simp
next
  case (2 paths links depth cur c comps)
  note a = 2(5) and run = 2(6) and cur = 2(7)
  have c: "plain_part c" "list_all plain_part comps" using 2(8) by simp_all
  have cur': "T cur \<noteq> None" using cur by auto
  consider (up) "c = dotdot" | (link) t where "c \<noteq> dotdot" "map_of links (join_path (cur @ [c])) = Some t"
    | (entry) "c \<noteq> dotdot" "map_of links (join_path (cur @ [c])) = None" by fastforce
  then show ?case
  proof cases
    case up
    then have ne: "cur \<noteq> []" and r: "resolve_components paths links depth (butlast cur) comps = Inr r"
      using run by (auto simp: contract_def split: if_splits)
    have b: "T (butlast cur) \<in> {Some TreeDir, Some TreeFile}" using agrees_parent [OF a cur' ne] by simp
    show ?thesis using 2(1) [OF up ne a r b c(2)] confined_up [of T cur, OF cur ne] up by auto
  next
    case link
    note t = agrees_link [OF a cur' c(1) link(2)]
    obtain m where d: "\<not> MAX_SYMLINK_DEPTH < depth + 1" "resolve_components paths links (depth + 1) cur (split_path t) = Inr m"
      and r: "resolve_components paths links depth m comps = Inr r"
      using run link by (auto simp: contract_def Let_def res_simps split: if_splits)
    note m = 2(3) [OF link(1) refl link(2) d(1) a d(2) cur t(2)]
    have d': "(if MAX_SYMLINK_DEPTH < depth + 1 then contract ''symlink chain is too deep''
        else resolve_components paths links (depth + 1) cur (split_path t)) = Inr m" using d by simp
    note rest = 2(4) [OF link(1) refl link(2) d' a r conjunct1 [OF m] c(2)]
    show ?thesis using m rest confined_link [of T cur, OF cur link(1) t(1)] by auto
  next
    case entry
    then have p: "map_of paths (join_path (cur @ [c])) \<noteq> None" and r: "resolve_components paths links depth (cur @ [c]) comps = Inr r"
      using run by (auto simp: contract_def Let_def split: if_splits)
    note e = agrees_entry [OF a cur' c(1) entry(2) p]
    show ?thesis using 2(2) [OF entry(1) refl entry(2) p a r e c(2)] confined_down [of T cur, OF cur entry(1) e] by auto
  qed
qed

section \<open>What inspection establishes\<close>

lemma split_plain: "[] \<notin> set (split_path p) \<Longrightarrow> list_all plain_part (split_path p)"
  unfolding list_all_iff plain_part_def split_path_def using split_on_parts_no_sep by fastforce

lemma split_join_path: "list_all plain_part p \<Longrightarrow> p \<noteq> [] \<Longrightarrow> split_path (join_path p) = p"
  unfolding split_path_def join_path_def by (rule split_join) (auto simp: list_all_iff plain_part_def)

lemma join_path_Nil: "list_all plain_part p \<Longrightarrow> join_path p = [] \<longleftrightarrow> p = []"
  using split_join_path [of p] by (cases "p = []") (auto simp: join_path_def split_path_def plain_part_def)

lemma join_path_inj: "list_all plain_part p \<Longrightarrow> list_all plain_part q \<Longrightarrow> join_path p = join_path q \<longleftrightarrow> p = q"
  using split_join_path join_path_Nil by metis

lemma parent_parts_join: "list_all plain_part p \<Longrightarrow> parent_parts (join_path p) = butlast p"
proof (cases "p = []")
  case True
  then show ?thesis by (simp add: parent_parts_def join_path_def)
next
  case False
  assume "list_all plain_part p"
  then show ?thesis using False by (simp add: parent_parts_def join_path_Nil split_join_path)
qed

lemma ancestors_join:
  assumes "list_all plain_part p" "p \<noteq> []"
  shows "set (ancestors (join_path p)) = {join_path (take k p) | k. 1 \<le> k \<and> k < length p}"
  unfolding ancestors_def split_join_path [OF assms] by (auto simp: Let_def)

definition member_path :: "tar_member \<Rightarrow> ustr" where "member_path m = join_path (member_parts m)"

definition kind_of :: "tar_member \<Rightarrow> entry_kind" where
  "kind_of m = (case tm_type m of DirType \<Rightarrow> Directory | SymType \<Rightarrow> Symlink | _ \<Rightarrow> File)"

definition good_part :: "ustr \<Rightarrow> bool" where
  "good_part c = (plain_part c \<and> c \<noteq> u ''.'' \<and> c \<noteq> dotdot)"

lemma good_plain: "list_all good_part p \<Longrightarrow> list_all plain_part p"
  by (auto simp: list_all_iff good_part_def)

lemma canonical_name_ok:
  assumes "canonical_name m base = Inr relative"
  shows "relative = member_path m" "list_all good_part (member_parts m)" "split_path (stripped_name m) = base # member_parts m"
    "list_all scalar (tm_name m)"
proof -
  let ?parts = "split_path (stripped_name m)"
  obtain encoded where enc: "utf8_encode (tm_name m) = Inr encoded"
    using assms by (cases "utf8_encode (tm_name m)") (simp_all add: canonical_name_def contract_def)
  have r: "\<not> list_ex (\<lambda>part. part \<in> {[], u ''.'', dotdot}) ?parts" "hd ?parts = base" "relative = join_path (tl ?parts)"
    using assms enc unfolding canonical_name_def Let_def stripped_name_def [symmetric]
    by (simp_all add: contract_def del: u_simps split: if_splits)
  then show "relative = member_path m" by (simp add: member_path_def member_parts_def)
  have ne: "?parts \<noteq> []" by (simp add: split_path_def)
  then show "split_path (stripped_name m) = base # member_parts m"
    using r(2) by (cases ?parts) (simp_all add: member_parts_def)
  have good: "c \<noteq> []" "c \<noteq> u ''.''" "c \<noteq> dotdot" if "c \<in> set ?parts" for c
    using r(1) that by (auto simp: list_ex_iff simp del: u_simps)
  then have "list_all good_part ?parts" using split_plain [of "stripped_name m"] by (auto simp: list_all_iff good_part_def simp del: u_simps)
  then show "list_all good_part (member_parts m)" using ne by (cases ?parts) (simp_all add: member_parts_def)
  show "list_all scalar (tm_name m)"
  proof -
    obtain bs where "mapE utf8_char (tm_name m) = Inr bs" using enc by (auto simp: utf8_encode_def res_simps)
    then have "list_all2 (\<lambda>c b. utf8_char c = Inr b) (tm_name m) bs" by (simp add: mapE_eq_Inr_iff)
    then show ?thesis by (induction rule: list_all2_induct) (auto simp: utf8_char_def split: if_splits)
  qed
qed

lemma lexical_fold_plain: "foldE lexical_step r cs = Inr r' \<Longrightarrow> [] \<notin> set cs"
  by (induction cs arbitrary: r) (auto simp: lexical_step_def contract_def res_simps split: if_splits)

lemma validate_symlink_ok:
  assumes "validate_symlink relative target = Inr ()"
  shows "list_all plain_part (split_path target)"
proof -
  obtain r where "foldE lexical_step (parent_parts relative) (split_path target) = Inr r"
    using assms by (auto simp: validate_symlink_def contract_def res_simps split: sum.splits if_splits)
  then show ?thesis using lexical_fold_plain split_plain by blast
qed

text \<open>A member that passes every check made on it alone.\<close>

definition member_content :: "tar_member \<Rightarrow> entry_content" where
  "member_content m =
     (case tm_type m of DirType \<Rightarrow> DirectoryContent | SymType \<Rightarrow> LinkContent (tm_linkname m)
      | _ \<Rightarrow> FileContent (u (sha256_hex (tm_data m))) (tm_size m))"

definition member_entry :: "tar_member \<Rightarrow> manifest_entry" where
  "member_entry m = \<lparr>me_mode = octal4 (tm_mode m), me_path = member_path m, me_content = member_content m\<rparr>"

definition member_ok :: "ustr \<Rightarrow> tar_member \<Rightarrow> bool" where
  "member_ok base m =
     (canonical_name m base = Inr (member_path m) \<and> set (tm_pax_headers m) \<subseteq> {u ''path'', u ''linkpath''} \<and>
      tm_type m \<noteq> OtherType \<and> check_mode (member_path m) (kind_of m) (tm_mode m) = Inr () \<and>
      (member_parts m = [] \<longrightarrow> tm_type m = DirType) \<and>
      (tm_type m = SymType \<longrightarrow> validate_symlink (member_path m) (tm_linkname m) = Inr ()) \<and>
      (if tm_type m = RegType then tm_size m = int (length (tm_data m)) \<and> tm_size m \<le> MAX_SINGLE_FILE_BYTES else tm_size m = 0))"

lemma member_ok_parts:
  assumes "member_ok base m"
  shows "list_all good_part (member_parts m)" "split_path (stripped_name m) = base # member_parts m" "list_all scalar (tm_name m)"
  using assms canonical_name_ok unfolding member_ok_def by blast+

lemma member_kind_ok: "member_kind m = Inr k \<longleftrightarrow> tm_type m \<noteq> OtherType \<and> k = kind_of m"
  by (cases "tm_type m") (auto simp: member_kind_def kind_of_def contract_def)

lemma content_of_ok:
  "tm_type m \<noteq> OtherType \<Longrightarrow> content_of m (kind_of m) = Inr content \<Longrightarrow>
   content = member_content m \<and> (tm_type m = RegType \<longrightarrow> tm_size m = int (length (tm_data m)))"
  by (cases "tm_type m") (auto simp: content_of_def kind_of_def member_content_def read_member_def contract_def res_simps split: if_splits)

lemma inspect_member_ok:
  assumes "inspect_member base st m = Inr st'"
  shows "member_ok base m" "map_of (in_paths st) (member_path m) = None" "in_count st' = Suc (in_count st)" "in_count st' \<le> MAX_ENTRY_COUNT"
    "in_paths st' = in_paths st @ [(member_path m, kind_of m)]"
    "in_links st' = in_links st @ (if tm_type m = SymType then [(member_path m, tm_linkname m)] else [])"
    "in_required st' = in_required st @ ancestors (member_path m)"
    "check_payload (kind_of m) m (in_expanded st) = Inr (in_expanded st')"
    "in_root_mode st' = (if member_parts m = [] then Some (octal4 (tm_mode m)) else in_root_mode st)"
    "in_entries st' = in_entries st @ (if member_parts m = [] then [] else [member_entry m])"
proof -
  note run = assms [unfolded inspect_member_def]
  obtain relative where rel: "canonical_name m base = Inr relative"
    using run by (auto simp: contract_def res_simps split: if_splits)
  note n = canonical_name_ok [OF rel]
  have ty: "tm_type m \<noteq> OtherType" and mk: "member_kind m = Inr (kind_of m)"
    using run rel by (auto simp: contract_def res_simps member_kind_ok simp del: u_simps split: if_splits)
  have pax: "set (tm_pax_headers m) \<subseteq> {u ''path'', u ''linkpath''}"
    using run by (auto simp: contract_def simp del: u_simps split: if_splits)
  obtain expanded required where f: "in_count st + 1 \<le> MAX_ENTRY_COUNT" "map_of (in_paths st) relative = None"
    "check_mode relative (kind_of m) (tm_mode m) = Inr ()" "check_payload (kind_of m) m (in_expanded st) = Inr expanded"
    "kind_of m = Symlink \<Longrightarrow> validate_symlink relative (tm_linkname m) = Inr ()"
    "check_parents st relative (kind_of m) = Inr required"
    using run rel mk by (auto simp: contract_def res_simps Let_def simp del: u_simps split: if_splits)
  let ?st = "st\<lparr>in_count := Suc (in_count st), in_expanded := expanded, in_paths := in_paths st @ [(relative, kind_of m)],
            in_links := in_links st @ (if kind_of m = Symlink then [(relative, tm_linkname m)] else []), in_required := required\<rparr>"
  have last: "(if relative = [] then if kind_of m \<noteq> Directory then contract ''application root is not a directory''
        else Inr (?st\<lparr>in_root_mode := Some (octal4 (tm_mode m))\<rparr>)
      else bindE (content_of m (kind_of m)) (\<lambda>content.
        Inr (?st\<lparr>in_entries := in_entries st @ [\<lparr>me_mode = octal4 (tm_mode m), me_path = relative, me_content = content\<rparr>]\<rparr>))) = Inr st'"
  proof -
    have "(if kind_of m = Symlink then validate_symlink relative (tm_linkname m) else Inr ()) = Inr ()" using f(5) by simp
    then show ?thesis using run rel mk f(1-4,6) pax by (simp add: Let_def not_less del: u_simps split del: if_split)
  qed
  have req: "required = in_required st @ ancestors relative"
    using f(6) by (auto simp: check_parents_def contract_def Let_def split: if_splits)
  have sym: "kind_of m = Symlink \<longleftrightarrow> tm_type m = SymType" "kind_of m = Directory \<longleftrightarrow> tm_type m = DirType"
    using ty by (cases "tm_type m"; simp add: kind_of_def)+
  have nil: "relative = [] \<longleftrightarrow> member_parts m = []" using join_path_Nil [OF good_plain [OF n(2)]] n(1) by (simp add: member_path_def)
  have fin: "in_count st' = Suc (in_count st)" "in_paths st' = in_paths st @ [(relative, kind_of m)]"
    "in_links st' = in_links st @ (if kind_of m = Symlink then [(relative, tm_linkname m)] else [])"
    "in_required st' = required" "in_expanded st' = expanded"
    using last by (auto simp: contract_def res_simps split: if_splits)
  have reg: "member_parts m \<noteq> [] \<Longrightarrow> tm_type m = RegType \<Longrightarrow> tm_size m = int (length (tm_data m))"
    "in_root_mode st' = (if member_parts m = [] then Some (octal4 (tm_mode m)) else in_root_mode st)"
    "in_entries st' = in_entries st @ (if member_parts m = [] then [] else [member_entry m])"
    "member_parts m = [] \<Longrightarrow> tm_type m = DirType"
    using last nil sym n(1) content_of_ok [OF ty] by (auto simp: contract_def res_simps member_entry_def split: if_splits)
  have size: "if tm_type m = RegType then tm_size m \<le> MAX_SINGLE_FILE_BYTES else tm_size m = 0"
    using f(4) ty by (cases "tm_type m") (auto simp: check_payload_def kind_of_def contract_def split: if_splits)
  show "member_ok base m" unfolding member_ok_def using n rel pax f(3,5) ty sym reg(1,4) size by (auto simp del: u_simps)
  show "map_of (in_paths st) (member_path m) = None" "in_count st' = Suc (in_count st)" "in_count st' \<le> MAX_ENTRY_COUNT"
    "in_paths st' = in_paths st @ [(member_path m, kind_of m)]"
    "in_links st' = in_links st @ (if tm_type m = SymType then [(member_path m, tm_linkname m)] else [])"
    "in_required st' = in_required st @ ancestors (member_path m)"
    "check_payload (kind_of m) m (in_expanded st) = Inr (in_expanded st')"
    using fin f(1,2,4) req n(1) sym by simp_all
  show "in_root_mode st' = (if member_parts m = [] then Some (octal4 (tm_mode m)) else in_root_mode st)"
    "in_entries st' = in_entries st @ (if member_parts m = [] then [] else [member_entry m])" by (rule reg)+
qed

definition is_link :: "tar_member \<Rightarrow> bool" where "is_link m = (tm_type m = SymType)"

definition inspected :: "ustr \<Rightarrow> tar_member list \<Rightarrow> inspection \<Rightarrow> bool" where
  "inspected base ms st =
     (in_count st = length ms \<and> length ms \<le> MAX_ENTRY_COUNT \<and> list_all (member_ok base) ms \<and> distinct (map member_path ms) \<and>
      in_paths st = map (\<lambda>m. (member_path m, kind_of m)) ms \<and>
      in_links st = map (\<lambda>m. (member_path m, tm_linkname m)) (filter is_link ms) \<and>
      in_required st = concat (map (\<lambda>m. ancestors (member_path m)) ms) \<and>
      in_expanded st = sum_list (map tm_size ms) \<and> in_expanded st \<le> MAX_EXPANDED_BYTES \<and>
      in_entries st = map member_entry (filter (\<lambda>m. member_parts m \<noteq> []) ms) \<and>
      in_root_mode st = map_option (\<lambda>m. octal4 (tm_mode m)) (find (\<lambda>m. member_parts m = []) ms))"

lemma find_append: "find P (xs @ ys) = (case find P xs of None \<Rightarrow> find P ys | Some x \<Rightarrow> Some x)"
  by (induction xs) auto

lemma member_path_inj: "member_ok a m \<Longrightarrow> member_ok b n \<Longrightarrow> member_path m = member_path n \<longleftrightarrow> member_parts m = member_parts n"
  unfolding member_path_def using join_path_inj good_plain member_ok_parts(1) by blast

lemma inspected_step:
  assumes i: "inspected base ms st" and run: "inspect_member base st m = Inr st'"
  shows "inspected base (ms @ [m]) st'"
proof -
  note s = inspect_member_ok [OF run]
  have i': "in_count st = length ms" "list_all (member_ok base) ms" "distinct (map member_path ms)"
    "in_paths st = map (\<lambda>m. (member_path m, kind_of m)) ms" "in_links st = map (\<lambda>m. (member_path m, tm_linkname m)) (filter is_link ms)"
    "in_required st = concat (map (\<lambda>m. ancestors (member_path m)) ms)" "in_expanded st = sum_list (map tm_size ms)"
    "in_expanded st \<le> MAX_EXPANDED_BYTES" "in_entries st = map member_entry (filter (\<lambda>m. member_parts m \<noteq> []) ms)"
    "in_root_mode st = map_option (\<lambda>m. octal4 (tm_mode m)) (find (\<lambda>m. member_parts m = []) ms)"
    using i by (simp_all add: inspected_def)
  have new: "member_path m \<notin> set (map member_path ms)" using s(2) i'(4) by (force simp: map_of_eq_None_iff)
  have e: "in_expanded st' = in_expanded st + tm_size m \<and> in_expanded st' \<le> MAX_EXPANDED_BYTES"
    using s(1,8) i'(8) by (auto simp: check_payload_def contract_def member_ok_def kind_of_def split: if_splits member_type.splits)
  have root: "find (\<lambda>m. member_parts m = []) ms = None" if "member_parts m = []"
  proof -
    have "member_parts n \<noteq> []" if n: "n \<in> set ms" for n
    proof
      assume "member_parts n = []"
      then have "member_path n = member_path m" using \<open>member_parts m = []\<close> by (simp add: member_path_def)
      then have "member_path m \<in> set (map member_path ms)" using n by (metis imageI list.set_map)
      then show False using new by blast
    qed
    then show ?thesis by (simp add: find_None_iff)
  qed
  show ?thesis unfolding inspected_def
    using s(1,3-7,9,10) i' new e root by (auto simp: is_link_def find_append split: option.splits)
qed

lemma inspect_fold: "foldE (inspect_member base) start_inspection ms = Inr st \<Longrightarrow> inspected base ms st"
proof (induction ms arbitrary: st rule: rev_induct)
  case Nil
  then have "st = start_inspection" by simp
  then show ?case by (simp add: inspected_def start_inspection_def MAX_EXPANDED_BYTES_def)
next
  case (snoc m ms)
  then show ?case using inspected_step by (auto simp: foldE_append res_simps)
qed

text \<open>An accepted archive.\<close>

lemma inspect_membersE:
  assumes "inspect_members ms base = Inr (number, expanded, manifest)"
  obtains st root_mode where "inspected base ms st" "check_layout st = Inr root_mode" "number = in_count st" "expanded = in_expanded st"
    "am_entries manifest = sort_key me_path (in_entries st)" "am_root_mode manifest = root_mode" "am_root manifest = base"
    "am_sha256 manifest = tree_sha256 root_mode (am_entries manifest)"
proof -
  obtain st root_mode where "foldE (inspect_member base) start_inspection ms = Inr st" "check_layout st = Inr root_mode"
    "number = in_count st" "expanded = in_expanded st"
    "manifest = \<lparr>am_entries = sort_key me_path (in_entries st), am_root = base, am_root_mode = root_mode,
      am_sha256 = tree_sha256 root_mode (sort_key me_path (in_entries st))\<rparr>"
    using assms by (auto simp: inspect_members_def res_simps Let_def)
  then show thesis using that [of st root_mode] inspect_fold [of base ms st] by simp
qed

lemma check_layoutE:
  assumes "check_layout st = Inr root_mode"
  shows "\<And>name k. (name, k) \<in> set required_layout \<Longrightarrow> map_of (in_paths st) name = Some k"
    "\<And>name. name \<in> set (in_required st) \<Longrightarrow> map_of (in_paths st) name = Some Directory"
    "in_root_mode st = Some root_mode" "require_symlinks_resolve (in_paths st) (in_links st) = Inr ()"
  using assms by (auto simp: check_layout_def contract_def res_simps list_ex_iff split: if_splits option.splits)

lemma map_of_find: "map_of (map (\<lambda>m. (g m, v m)) ms) x = map_option v (find (\<lambda>m. g m = x) ms)"
  by (induction ms) auto

lemma find_filter: "find P (filter Q xs) = find (\<lambda>x. Q x \<and> P x) xs"
  by (induction xs) auto

lemma find_unique_filter: "distinct (map g ms) \<Longrightarrow> m \<in> set ms \<Longrightarrow> find (\<lambda>n. Q n \<and> g n = g m) ms = (if Q m then Some m else None)"
proof (induction ms)
  case (Cons a ms)
  then show ?case
  proof (cases "a = m")
    case True
    have "find (\<lambda>n. Q n \<and> g n = g m) ms = None" using Cons.prems(1) True by (auto simp: find_None_iff image_iff)
    then show ?thesis using True by simp
  next
    case False
    then have "m \<in> set ms" "g a \<noteq> g m" using Cons.prems by (auto simp: image_iff)
    then show ?thesis using Cons by simp
  qed
qed simp

lemma find_unique: "distinct (map g ms) \<Longrightarrow> m \<in> set ms \<Longrightarrow> find (\<lambda>n. g n = g m) ms = Some m"
  using find_unique_filter [of g ms m "\<lambda>_. True"] by simp

lemma find_cong_set: "(\<And>x. x \<in> set xs \<Longrightarrow> P x = Q x) \<Longrightarrow> find P xs = find Q xs"
  by (induction xs) auto

lemma inspected_lookup:
  assumes "inspected base ms st" "m \<in> set ms"
  shows "map_of (in_paths st) (member_path m) = Some (kind_of m)"
    "map_of (in_links st) (member_path m) = (if is_link m then Some (tm_linkname m) else None)"
  using assms by (auto simp: inspected_def map_of_find find_unique find_filter find_unique_filter)

lemma inspected_member:
  assumes "inspected base ms st"
  shows "map_of (in_paths st) p = Some k \<Longrightarrow> \<exists>m \<in> set ms. member_path m = p \<and> kind_of m = k"
    "map_of (in_links st) p = Some t \<Longrightarrow> \<exists>m \<in> set ms. member_path m = p \<and> is_link m \<and> tm_linkname m = t"
  using assms by (auto simp: inspected_def dest!: map_of_SomeD)

lemma inspected_agrees:
  assumes i: "inspected base ms st" and l: "check_layout st = Inr root_mode"
  shows "agrees (extracted ms) (in_paths st) (in_links st)"
proof -
  have ok: "member_ok base m" if "m \<in> set ms" for m using i that by (simp add: inspected_def list_all_iff)
  then have plain: "list_all plain_part (member_parts m)" if "m \<in> set ms" for m using that good_plain member_ok_parts(1) by blast
  have T: "extracted ms p = map_option member_node (find (\<lambda>m. member_parts m = p) ms)" for p
    by (simp add: extracted_def map_of_find)
  have parts: "find (\<lambda>m. member_parts m = p) ms = find (\<lambda>m. member_path m = join_path p) ms" if p: "list_all plain_part p" for p
    by (rule find_cong_set) (use join_path_inj [OF plain p] in \<open>simp add: member_path_def\<close>)
  have node: "kind_of m = Directory \<longleftrightarrow> member_node m = TreeDir" "kind_of m = Symlink \<longleftrightarrow> is_link m"
    "is_link m \<Longrightarrow> member_node m = TreeLink (split_path (tm_linkname m))" "kind_of m = File \<Longrightarrow> member_node m = TreeFile" for m
    by (cases "tm_type m"; simp add: kind_of_def member_node_def is_link_def)+
  have look: "extracted ms p = (case map_of (in_paths st) (join_path p) of
                  None \<Rightarrow> None | Some Directory \<Rightarrow> Some TreeDir | Some File \<Rightarrow> Some TreeFile
                | Some Symlink \<Rightarrow> map_option (\<lambda>t. TreeLink (split_path t)) (map_of (in_links st) (join_path p)))"
    if p: "list_all plain_part p" for p
  proof (cases "find (\<lambda>m. member_path m = join_path p) ms")
    case None
    then show ?thesis using T [of p] parts [OF p] i by (simp add: inspected_def map_of_find)
  next
    case (Some m)
    then have m: "m \<in> set ms" "member_path m = join_path p" by (auto simp: find_Some_iff)
    then show ?thesis using T [of p] parts [OF p] Some inspected_lookup [OF i m(1)] node [of m]
      by (cases "kind_of m") simp_all
  qed
  have dir: "extracted ms p = Some TreeDir" if "list_all plain_part p" "map_of (in_paths st) (join_path p) = Some Directory" for p
    using look [OF that(1)] that(2) by simp
  show ?thesis unfolding agrees_def
  proof (intro conjI allI impI)
    show rt: "extracted ms [] = Some TreeDir"
      using check_layoutE(1) [OF l, of "[]" Directory] by (intro dir) (simp_all add: required_layout_def join_path_def)
    fix p c assume "extracted ms (p @ [c]) \<noteq> None"
    then obtain m where m: "m \<in> set ms" "member_parts m = p @ [c]" unfolding T by (auto simp: find_None_iff)
    then have pl: "list_all plain_part p" "plain_part c" using plain [of m] by simp_all
    then show "plain_part c" by simp
    show "extracted ms p = Some TreeDir"
    proof (cases "p = []")
      case False
      then have "join_path p \<in> set (ancestors (member_path m))" unfolding member_path_def
        using ancestors_join [OF plain [OF m(1)]] m(2) by (auto intro!: exI [of _ "length p"] simp: Suc_le_eq)
      then have "join_path p \<in> set (in_required st)" using i m(1) by (auto simp: inspected_def)
      then show ?thesis using dir [OF pl(1)] check_layoutE(2) [OF l] by blast
    qed (use rt in simp)
  next
    fix link t assume "map_of (in_links st) link = Some t"
    then obtain m where m: "m \<in> set ms" "member_path m = link" "is_link m" "tm_linkname m = t" using inspected_member(2) [OF i] by blast
    then show "map_of (in_paths st) link = Some Symlink" using inspected_lookup(1) [OF i m(1)] node(2) by metis
    show "list_all plain_part (split_path t)" using ok [OF m(1)] m(3,4) validate_symlink_ok by (auto simp: member_ok_def is_link_def)
  next
    fix link assume "map_of (in_paths st) link = Some Symlink"
    then obtain m where m: "m \<in> set ms" "member_path m = link" "kind_of m = Symlink" using inspected_member(1) [OF i] by blast
    then show "map_of (in_links st) link \<noteq> None" using inspected_lookup(2) [OF i m(1)] node(2) [of m] by simp
  qed (rule look)
qed

lemma symlinks_resolved:
  assumes "require_symlinks_resolve paths links = Inr ()" "(link, target) \<in> set links"
  shows "\<exists>r. resolve_through_links (parent_parts link) target paths links 0 = Inr r"
proof -
  have "\<exists>r. resolve_through_links (parent_parts l) t paths links 0 = Inr r"
    if "foldE (\<lambda>_ (link, target). bindE (resolve_through_links (parent_parts link) target paths links 0) (\<lambda>_. Inr ())) () ls = Inr ()"
      "(l, t) \<in> set ls" for ls l t
    using that by (induction ls) (auto simp: res_simps)
  then show ?thesis using assms unfolding require_symlinks_resolve_def by blast
qed

lemma archive_link_confined:
  assumes acc: "inspect_members ms base = Inr (number, expanded, manifest)" and m: "m \<in> set ms" "tm_type m = SymType"
  shows "confined (extracted ms) (Inside (butlast (member_parts m)), split_path (tm_linkname m))"
proof -
  obtain st root_mode where i: "inspected base ms st" and l: "check_layout st = Inr root_mode" using acc by (rule inspect_membersE)
  note a = inspected_agrees [OF i l]
  have ok: "member_ok base m" using i m(1) by (simp add: inspected_def list_all_iff)
  then have p: "list_all plain_part (member_parts m)" "list_all plain_part (split_path (tm_linkname m))" "member_parts m \<noteq> []"
    using good_plain [OF member_ok_parts(1) [OF ok]] m(2) validate_symlink_ok by (auto simp: member_ok_def)
  have "(member_path m, tm_linkname m) \<in> set (in_links st)" using i m by (auto simp: inspected_def is_link_def)
  then obtain r where "resolve_through_links (parent_parts (member_path m)) (tm_linkname m) (in_paths st) (in_links st) 0 = Inr r"
    using symlinks_resolved [OF check_layoutE(4) [OF l]] by blast
  then have r: "resolve_components (in_paths st) (in_links st) 0 (butlast (member_parts m)) (split_path (tm_linkname m)) = Inr r"
    using parent_parts_join [OF p(1)] by (simp add: resolve_through_links_def contract_def member_path_def)
  have "extracted ms (member_parts m) \<noteq> None" unfolding extracted_def map_of_eq_None_iff using m(1) by force
  then have "extracted ms (butlast (member_parts m)) = Some TreeDir" using agrees_parent [OF a _ p(3)] by blast
  then have res: "extracted ms r \<in> {Some TreeDir, Some TreeFile}"
    "\<forall>cs. confined (extracted ms) (Inside r, cs) \<longrightarrow> confined (extracted ms) (Inside (butlast (member_parts m)), split_path (tm_linkname m) @ cs)"
    using resolve_confined [OF a r _ p(2)] by auto
  have "confined (extracted ms) (Inside r, [])"
    by (rule confinedI) (use res(1) in \<open>auto simp: in_tree_def elim: lookup_endE\<close>)
  then show ?thesis using res(2) [rule_format, of "[]"] by simp
qed

section \<open>Acceptance does not depend on the order of the members\<close>

definition path_table :: "tar_member list \<Rightarrow> path_map" where
  "path_table ms = map (\<lambda>m. (member_path m, kind_of m)) ms"

definition link_table :: "tar_member list \<Rightarrow> link_map" where
  "link_table ms = map (\<lambda>m. (member_path m, tm_linkname m)) (filter is_link ms)"

definition well_formed_archive :: "ustr \<Rightarrow> tar_member list \<Rightarrow> bool" where
  "well_formed_archive base ms =
     (length ms \<le> MAX_ENTRY_COUNT \<and> list_all (member_ok base) ms \<and> distinct (map member_path ms) \<and>
      sum_list (map tm_size ms) \<le> MAX_EXPANDED_BYTES \<and>
      list_all (\<lambda>(name, kind). map_of (path_table ms) name = Some kind) required_layout \<and>
      list_all (\<lambda>m. list_all (\<lambda>parent. map_of (path_table ms) parent = Some Directory) (ancestors (member_path m))) ms \<and>
      list_all (\<lambda>(link, target). case resolve_through_links (parent_parts link) target (path_table ms) (link_table ms) 0 of
         Inl _ \<Rightarrow> False | Inr _ \<Rightarrow> True) (link_table ms))"

lemma inspect_accepts_wf:
  assumes "inspect_members ms base = Inr r" shows "well_formed_archive base ms"
proof -
  obtain number expanded manifest where "r = (number, expanded, manifest)" by (cases r)
  then obtain st root_mode where i: "inspected base ms st" and l: "check_layout st = Inr root_mode"
    using assms inspect_membersE by metis
  have t: "in_paths st = path_table ms" "in_links st = link_table ms" using i by (simp_all add: inspected_def path_table_def link_table_def)
  have "list_all (\<lambda>(name, kind). map_of (path_table ms) name = Some kind) required_layout"
    using check_layoutE(1) [OF l] t by (auto simp: list_all_iff)
  moreover have "list_all (\<lambda>m. list_all (\<lambda>parent. map_of (path_table ms) parent = Some Directory) (ancestors (member_path m))) ms"
    using check_layoutE(2) [OF l] t i by (auto simp: list_all_iff inspected_def)
  moreover have "list_all (\<lambda>(link, target). case resolve_through_links (parent_parts link) target (path_table ms) (link_table ms) 0 of
         Inl _ \<Rightarrow> False | Inr _ \<Rightarrow> True) (link_table ms)"
    using symlinks_resolved [OF check_layoutE(4) [OF l]] t by (fastforce simp: list_all_iff)
  ultimately show ?thesis using i by (simp add: well_formed_archive_def inspected_def)
qed

lemma member_size_nonneg: "member_ok base m \<Longrightarrow> 0 \<le> tm_size m"
  by (auto simp: member_ok_def split: if_splits)

lemma inspect_member_accepts:
  assumes i: "inspected base xs st" and ok: "member_ok base m" and new: "member_path m \<notin> set (map member_path xs)"
    and n: "length xs < MAX_ENTRY_COUNT" and e: "sum_list (map tm_size xs) + tm_size m \<le> MAX_EXPANDED_BYTES"
    and p: "\<And>parent. parent \<in> set (ancestors (member_path m)) \<Longrightarrow> map_of (in_paths st) parent \<in> {None, Some Directory}"
    and r: "kind_of m = Directory \<or> member_path m \<notin> set (in_required st) \<union> set (ancestors (member_path m))"
  shows "\<exists>st'. inspect_member base st m = Inr st'"
proof -
  have f: "canonical_name m base = Inr (member_path m)" "set (tm_pax_headers m) \<subseteq> {u ''path'', u ''linkpath''}"
    "tm_type m \<noteq> OtherType" "check_mode (member_path m) (kind_of m) (tm_mode m) = Inr ()"
    "member_parts m = [] \<longrightarrow> tm_type m = DirType"
    "(if kind_of m = Symlink then validate_symlink (member_path m) (tm_linkname m) else Inr ()) = Inr ()"
    using ok by (auto simp: member_ok_def kind_of_def simp del: u_simps split: member_type.splits)
  have k: "member_kind m = Inr (kind_of m)" using f(3) by (simp add: member_kind_ok)
  have c: "in_count st + 1 \<le> MAX_ENTRY_COUNT" "map_of (in_paths st) (member_path m) = None"
    using i n new by (auto simp: inspected_def map_of_eq_None_iff)
  have pay: "check_payload (kind_of m) m (in_expanded st) = Inr (in_expanded st + tm_size m)"
    using ok i e by (cases "tm_type m") (auto simp: member_ok_def kind_of_def check_payload_def inspected_def contract_def)
  have par: "check_parents st (member_path m) (kind_of m) = Inr (in_required st @ ancestors (member_path m))"
    using p r by (auto simp: check_parents_def contract_def Let_def list_ex_iff)
  have root: "member_path m = [] \<Longrightarrow> kind_of m = Directory"
    using f(5) join_path_Nil [OF good_plain [OF member_ok_parts(1) [OF ok]]] by (simp add: member_path_def kind_of_def)
  have con: "content_of m (kind_of m) = Inr (member_content m)"
    using ok by (cases "tm_type m") (auto simp: member_ok_def content_of_def kind_of_def member_content_def read_member_def contract_def)
  show ?thesis unfolding inspect_member_def
    using c f(1,2,4,6) k pay par con root by (simp add: Let_def not_less del: u_simps split del: if_split) (auto simp: contract_def)
qed

lemma wf_fold:
  assumes wf: "well_formed_archive base ms" and pre: "ms = xs @ ys"
  shows "\<exists>st. foldE (inspect_member base) start_inspection xs = Inr st"
  using pre
proof (induction xs arbitrary: ys rule: rev_induct)
  case (snoc m xs)
  then obtain st where st: "foldE (inspect_member base) start_inspection xs = Inr st" by fastforce
  have i: "inspected base xs st" by (rule inspect_fold [OF st])
  have w: "length ms \<le> MAX_ENTRY_COUNT" "list_all (member_ok base) ms" "distinct (map member_path ms)"
    "sum_list (map tm_size ms) \<le> MAX_EXPANDED_BYTES"
    "\<And>n parent. n \<in> set ms \<Longrightarrow> parent \<in> set (ancestors (member_path n)) \<Longrightarrow> map_of (path_table ms) parent = Some Directory"
    using wf by (auto simp: well_formed_archive_def list_all_iff)
  have ms: "ms = xs @ m # ys" using snoc.prems by simp
  have dir: "kind_of n = Directory" if "n \<in> set ms" "\<exists>n' \<in> set ms. member_path n \<in> set (ancestors (member_path n'))" for n
  proof -
    have "map_of (path_table ms) (member_path n) = Some (kind_of n)" unfolding path_table_def
      using w(3) that(1) by (simp add: map_of_find find_unique)
    then show ?thesis using w(5) that by fastforce
  qed
  have "0 \<le> sum_list (map tm_size ys)" using w(2) ms member_size_nonneg by (intro sum_list_nonneg) (auto simp: list_all_iff)
  then have e: "sum_list (map tm_size xs) + tm_size m \<le> MAX_EXPANDED_BYTES" using w(4) ms by simp
  have p: "map_of (in_paths st) parent \<in> {None, Some Directory}" if "parent \<in> set (ancestors (member_path m))" for parent
  proof (cases "map_of (in_paths st) parent")
    case (Some k)
    then obtain n where "n \<in> set xs" "member_path n = parent" "kind_of n = k" using inspected_member(1) [OF i] by blast
    then show ?thesis using dir [of n] that Some ms by auto
  qed simp
  have r: "kind_of m = Directory \<or> member_path m \<notin> set (in_required st) \<union> set (ancestors (member_path m))"
    using dir [of m] i ms by (auto simp: inspected_def)
  have "\<exists>st'. inspect_member base st m = Inr st'"
    by (rule inspect_member_accepts [OF i _ _ _ e p r]) (use w(1-3) ms in \<open>auto simp: list_all_iff\<close>)
  then show ?case using st by (auto simp: foldE_append)
qed simp

lemma wf_accepted:
  assumes wf: "well_formed_archive base ms" shows "\<exists>r. inspect_members ms base = Inr r"
proof -
  obtain st where st: "foldE (inspect_member base) start_inspection ms = Inr st" using wf_fold [OF wf, of ms "[]"] by auto
  have i: "inspected base ms st" by (rule inspect_fold [OF st])
  have t: "in_paths st = path_table ms" "in_links st = link_table ms" using i by (simp_all add: inspected_def path_table_def link_table_def)
  have lay: "map_of (in_paths st) name = Some k" if "(name, k) \<in> set required_layout" for name k
    using wf that t by (auto simp: well_formed_archive_def list_all_iff)
  have "map_of (in_paths st) [] = Some Directory" by (rule lay) (simp add: required_layout_def)
  then obtain m where m: "m \<in> set ms" "member_path m = []" using inspected_member(1) [OF i] by blast
  then have "member_parts m = []" using i join_path_Nil [OF good_plain [OF member_ok_parts(1)]]
    by (auto simp: inspected_def list_all_iff member_path_def)
  then have "find (\<lambda>m. member_parts m = []) ms \<noteq> None" using m(1) by (auto simp: find_None_iff)
  then obtain root_mode where rm: "in_root_mode st = Some root_mode" using i by (auto simp: inspected_def)
  have req: "map_of (in_paths st) name = Some Directory" if "name \<in> set (in_required st)" for name
    using that wf i t by (auto simp: well_formed_archive_def list_all_iff inspected_def)
  have res: "\<exists>r. resolve_through_links (parent_parts l) t (in_paths st) (in_links st) 0 = Inr r" if "(l, t) \<in> set (in_links st)" for l t
  proof -
    have "case resolve_through_links (parent_parts l) t (in_paths st) (in_links st) 0 of Inl _ \<Rightarrow> False | Inr _ \<Rightarrow> True"
      using wf that unfolding well_formed_archive_def list_all_iff t [symmetric] by blast
    then show ?thesis by (cases "resolve_through_links (parent_parts l) t (in_paths st) (in_links st) 0") simp_all
  qed
  have "foldE (\<lambda>_ (link, target). bindE (resolve_through_links (parent_parts link) target (in_paths st) (in_links st) 0) (\<lambda>_. Inr ())) () ls = Inr ()"
    if "set ls \<subseteq> set (in_links st)" for ls
    using that
  proof (induction ls)
    case (Cons a ls)
    obtain l t where "a = (l, t)" by (cases a)
    then show ?case using Cons res [of l t] by auto
  qed simp
  then have "require_symlinks_resolve (in_paths st) (in_links st) = Inr ()" by (simp add: require_symlinks_resolve_def)
  moreover have "in_count st \<noteq> 0" using i m(1) by (auto simp: inspected_def)
  ultimately have "check_layout st = Inr root_mode" unfolding check_layout_def using lay req rm by (auto simp: list_ex_iff)
  then show ?thesis using st by (simp add: inspect_members_def Let_def)
qed

end
