(* ===== verification/Updater_Contract.thy ===== *)
theory Updater_Contract
  imports Updater_Archive
begin

text \<open>
  What acceptance of an updater archive means: the digest of the manifest determines the tree, every
  symbolic link stays inside it, and a sample archive at which the theorems apply. The sample also shows
  where the resolution of \<open>Updater_Archive\<close> is more generous than a kernel.
\<close>

section \<open>The digest of the tree\<close>

lemma hex_code_inj: "a < 16 \<Longrightarrow> b < 16 \<Longrightarrow> hex_code a = hex_code b \<longleftrightarrow> a = b"
  unfolding hex_code_def using digit_val_digit_char by (metis char_code_inj option.inject)

lemma hex_four_inj:
  assumes "c < 65536" "d < 65536" "hex_four c = hex_four d" shows "c = d"
proof -
  have e: "c div 4096 mod 16 = d div 4096 mod 16" "c div 256 mod 16 = d div 256 mod 16" "c div 16 mod 16 = d div 16 mod 16" "c mod 16 = d mod 16"
    using assms(3) by (simp_all add: hex_four_def hex_code_inj)
  have "x = x div 4096 mod 16 * 4096 + x div 256 mod 16 * 256 + x div 16 mod 16 * 16 + x mod 16" if "x < 65536" for x :: nat
  proof -
    have d: "x div 256 = x div 16 div 16" "x div 4096 = x div 16 div 16 div 16" by (simp_all flip: div_mult2_eq)
    have m: "x div 16 div 16 div 16 mod 16 = x div 16 div 16 div 16" using that by simp
    have "x div 16 * 16 + x mod 16 = x" "x div 16 div 16 * 16 + x div 16 mod 16 = x div 16"
      "x div 16 div 16 div 16 * 16 + x div 16 div 16 mod 16 = x div 16 div 16" by (rule div_mult_mod_eq)+
    then show ?thesis unfolding d m by linarith
  qed
  then show ?thesis using assms(1,2) e by metis
qed

lemma length_hex_four [simp]: "length (hex_four c) = 4" by (simp add: hex_four_def)

text \<open>The three shapes of an escaped character.\<close>

definition short_escape :: "nat \<Rightarrow> nat option" where
  "short_escape c = map_of [(34, 34), (92, 92), (10, 110), (13, 114), (9, 116), (12, 102), (8, 98)] c"

lemma esc_ascii_cases:
  assumes "scalar c"
  obtains (short) e where "short_escape c = Some e" "esc_ascii c = [92, e]" "e \<noteq> 117"
    | (raw) "esc_ascii c = [c]" "c \<noteq> 34" "c \<noteq> 92" "32 \<le> c" "c \<le> 126"
    | (long) "esc_ascii c = [92, 117] @ hex_four c" "c < 65536"
    | (pair) "esc_ascii c = [92, 117] @ hex_four (0xD800 + (c - 0x10000) div 1024) @ [92, 117] @ hex_four (0xDC00 + (c - 0x10000) mod 1024)"
        "65536 \<le> c"
proof -
  have h: "hex_four c = [48, 48, hex_code (c div 16), hex_code (c mod 16)]" if "c < 32"
  proof -
    have "c div 4096 = 0" "c div 256 = 0" "c div 16 mod 16 = c div 16" using that by simp_all
    then show ?thesis by (simp add: hex_four_def) (simp add: hex_code_def digit_char_def char_code_def)
  qed
  consider (a) "short_escape c \<noteq> None" | (b) "short_escape c = None" "c < 32" | (c) "short_escape c = None" "32 \<le> c" "c \<le> 126"
    | (d) "short_escape c = None" "126 < c" "c < 65536" | (e) "65536 \<le> c" by linarith
  then show thesis
  proof cases
    case a
    then obtain e where "short_escape c = Some e" by blast
    then show thesis using short by (auto simp: short_escape_def esc_ascii_def esc_char_def split: if_splits)
  next
    case b
    then have "esc_ascii c = [92, 117] @ hex_four c" using h by (auto simp: short_escape_def esc_ascii_def esc_char_def split: if_splits)
    then show thesis using long b by simp
  next
    case c
    then have "esc_ascii c = [c]" "c \<noteq> 34" "c \<noteq> 92" by (auto simp: short_escape_def esc_ascii_def split: if_splits)
    then show thesis using raw c by simp
  next
    case d
    then have "esc_ascii c = [92, 117] @ hex_four c" by (simp add: esc_ascii_def)
    then show thesis using long d by simp
  next
    case e
    then have "esc_ascii c = [92, 117] @ hex_four (0xD800 + (c - 0x10000) div 1024) @ [92, 117] @ hex_four (0xDC00 + (c - 0x10000) mod 1024)"
      by (simp add: esc_ascii_def)
    then show thesis using pair e by simp
  qed
qed

lemma short_escape_inj: "short_escape c = Some e \<Longrightarrow> short_escape d = Some e \<Longrightarrow> c = d"
  by (auto simp: short_escape_def split: if_splits)

lemma pair_bounds:
  assumes "scalar c" "65536 \<le> c"
  shows "(0xD800 + (c - 0x10000) div 1024) < 65536" "is_surrogate (0xD800 + (c - 0x10000) div 1024)"
    "(0xDC00 + (c - 0x10000) mod 1024) < 65536"
proof -
  have "(c - 0x10000) div 1024 < 1024" by (rule less_mult_imp_div_less) (use assms in \<open>unfold scalar_def, linarith\<close>)
  moreover have "(c - 0x10000) mod 1024 < 1024" by simp
  ultimately show "(0xD800 + (c - 0x10000) div 1024) < 65536" "is_surrogate (0xD800 + (c - 0x10000) div 1024)"
    "(0xDC00 + (c - 0x10000) mod 1024) < 65536" by (simp_all add: is_surrogate_def)
qed

lemma esc_ascii_append:
  assumes "scalar c" "scalar d" "esc_ascii c @ x = esc_ascii d @ y" shows "c = d \<and> x = y"
proof (cases rule: esc_ascii_cases [OF assms(1), case_names short raw long pair])
  case (short e)
  then show ?thesis using assms(3) by (cases rule: esc_ascii_cases [OF assms(2)]) (auto dest: short_escape_inj)
next
  case raw
  then show ?thesis using assms(3) by (cases rule: esc_ascii_cases [OF assms(2)]) auto
next
  case long
  show ?thesis
  proof (cases rule: esc_ascii_cases [OF assms(2), case_names short raw long2 pair])
    case pair
    then have "hex_four c = hex_four (0xD800 + (d - 0x10000) div 1024)" using assms(3) long by simp
    then have "c = 0xD800 + (d - 0x10000) div 1024" by (rule hex_four_inj [OF long(2) pair_bounds(1) [OF assms(2) pair(2)]])
    then show ?thesis using pair_bounds(2) [OF assms(2) pair(2)] assms(1) by (simp add: scalar_def)
  qed (use assms(3) long hex_four_inj in auto)
next
  case pair
  show ?thesis
  proof (cases rule: esc_ascii_cases [OF assms(2), case_names short raw long pair2])
    case long
    then have "hex_four d = hex_four (0xD800 + (c - 0x10000) div 1024)" using assms(3) pair by simp
    then have "d = 0xD800 + (c - 0x10000) div 1024" by (rule hex_four_inj [OF long(2) pair_bounds(1) [OF assms(1) pair(2)]])
    then show ?thesis using pair_bounds(2) [OF assms(1) pair(2)] assms(2) by (simp add: scalar_def)
  next
    case pair2
    have h: "hex_four (0xD800 + (c - 0x10000) div 1024) = hex_four (0xD800 + (d - 0x10000) div 1024)"
      "hex_four (0xDC00 + (c - 0x10000) mod 1024) = hex_four (0xDC00 + (d - 0x10000) mod 1024)" "x = y"
      using assms(3) pair pair2 by simp_all
    have q: "(c - 0x10000) div 1024 = (d - 0x10000) div 1024" "(c - 0x10000) mod 1024 = (d - 0x10000) mod 1024" "x = y"
      using hex_four_inj [OF pair_bounds(1) [OF assms(1) pair(2)] pair_bounds(1) [OF assms(2) pair2(2)] h(1)]
        hex_four_inj [OF pair_bounds(3) [OF assms(1) pair(2)] pair_bounds(3) [OF assms(2) pair2(2)] h(2)] h(3) by simp_all
    then have "c - 0x10000 = d - 0x10000" by (metis div_mod_decomp)
    then show ?thesis using pair(2) pair2(2) q(3) by simp
  qed (use assms(3) pair in auto)
qed

lemma print_ascii_str_append:
  assumes "list_all scalar s" "list_all scalar t" "print_ascii_str s @ x = print_ascii_str t @ y" shows "s = t \<and> x = y"
proof -
  have start: "\<exists>h r. esc_ascii c = h # r \<and> h \<noteq> 34" if "scalar c" for c
    using that by (cases rule: esc_ascii_cases [OF that]) auto
  have "concat (map esc_ascii s) @ 34 # x = concat (map esc_ascii t) @ 34 # y" using assms(3) by (simp add: print_ascii_str_def)
  then show ?thesis using assms(1,2)
  proof (induction s arbitrary: t)
    case Nil
    then show ?case using start by (cases t) fastforce+
  next
    case (Cons c s)
    obtain d t' where t: "t = d # t'" using Cons.prems start [of c] by (cases t) fastforce+
    have "esc_ascii c @ (concat (map esc_ascii s) @ 34 # x) = esc_ascii d @ (concat (map esc_ascii t') @ 34 # y)" using Cons.prems(1) t by simp
    then show ?case using esc_ascii_append [of c d] Cons.IH [of t'] Cons.prems(2,3) t by simp
  qed
qed

lemma print_int_chars: "c \<in> set (print_int i) \<Longrightarrow> c = 45 \<or> 48 \<le> c \<and> c \<le> 57"
  using dec_str_digits [of "nat \<bar>i\<bar>"]
  by (auto simp: print_int_def u_def list_all_iff is_digit_def char_code_def split: if_splits)

lemma print_int_inj: assumes "print_int i = print_int j" shows "i = j"
proof -
  have d: "m = n" if "u (dec_str m) = u (dec_str n)" for m n
    using that text_value_dec_str by metis
  have h: "hd (u (dec_str n)) \<noteq> 45" "u (dec_str n) \<noteq> []" for n
  proof -
    show "u (dec_str n) \<noteq> []" by (simp add: u_def dec_str_def)
    then have "hd (u (dec_str n)) \<in> set (u (dec_str n))" by (rule hd_in_set)
    then show "hd (u (dec_str n)) \<noteq> 45"
      using dec_str_digits [of n] by (auto simp: u_def list_all_iff is_digit_def char_code_def)
  qed
  show ?thesis
  proof (cases "i < 0 \<longleftrightarrow> j < 0")
    case True
    then show ?thesis using assms d [of "nat \<bar>i\<bar>" "nat \<bar>j\<bar>"] by (auto simp: print_int_def split: if_splits)
  next
    case False
    then show ?thesis using assms h [of "nat \<bar>i\<bar>"] h [of "nat \<bar>j\<bar>"]
      by (auto simp: print_int_def hd_append split: if_splits) (metis list.sel(1))+
  qed
qed

lemma print_int_append: assumes "print_int i @ 44 # x = print_int j @ 44 # y" shows "i = j \<and> x = y"
proof -
  have t: "takeWhile (\<lambda>c. c \<noteq> 44) (print_int k @ 44 # z) = print_int k" for k z
  proof -
    have "c \<noteq> 44" if "c \<in> set (print_int k)" for c using print_int_chars [OF that] by auto
    then show ?thesis by (subst takeWhile_append2) auto
  qed
  have "print_int i = print_int j" using t [of i x] t [of j y] assms by simp
  then show ?thesis using print_int_inj assms by simp
qed

definition entry_tail :: "entry_content \<Rightarrow> ustr" where
  "entry_tail c =
     (case c of
        DirectoryContent \<Rightarrow> []
      | FileContent digest n \<Rightarrow> [44] @ print_ascii_str (u ''sha256'') @ [58] @ print_ascii_str digest @ [44] @ print_ascii_str (u ''size'') @ [58] @ print_int n
      | LinkContent target \<Rightarrow> [44] @ print_ascii_str (u ''target'') @ [58] @ print_ascii_str target) @
     [44] @ print_ascii_str (u ''type'') @ [58] @ print_ascii_str (u (kind_value (content_kind c))) @ [125]"

lemma entry_line_eq:
  "entry_line e = [123] @ print_ascii_str (u ''mode'') @ [58] @ print_ascii_str (me_mode e) @ [44] @ print_ascii_str (u ''path'') @ [58] @
     print_ascii_str (me_path e) @ entry_tail (me_content e)"
  by (cases "me_content e") (simp_all add: entry_line_def entry_members_def entry_tail_def del: u_simps kind_value.simps)

lemma entry_keys_printed:
  "print_ascii_str (u ''sha256'') = [34, 115, 104, 97, 50, 53, 54, 34]" "print_ascii_str (u ''size'') = [34, 115, 105, 122, 101, 34]"
  "print_ascii_str (u ''target'') = [34, 116, 97, 114, 103, 101, 116, 34]" "print_ascii_str (u ''type'') = [34, 116, 121, 112, 101, 34]"
  by code_simp+

definition clean_content :: "entry_content \<Rightarrow> bool" where
  "clean_content c = (case c of DirectoryContent \<Rightarrow> True | FileContent digest _ \<Rightarrow> list_all scalar digest | LinkContent target \<Rightarrow> list_all scalar target)"

definition clean_entry :: "manifest_entry \<Rightarrow> bool" where
  "clean_entry e = (list_all scalar (me_mode e) \<and> list_all scalar (me_path e) \<and> clean_content (me_content e))"

lemma entry_tail_append:
  assumes "clean_content c" "clean_content d" "entry_tail c @ x = entry_tail d @ y" shows "c = d \<and> x = y"
proof (cases c)
  case DirectoryContent
  then show ?thesis using assms(3) by (cases d) (auto simp: entry_tail_def entry_keys_printed simp del: u_simps kind_value.simps)
next
  case (FileContent digest n)
  then obtain digest' n' where d: "d = FileContent digest' n'"
    using assms(3) by (cases d) (auto simp: entry_tail_def entry_keys_printed simp del: u_simps kind_value.simps)
  let ?rest = "\<lambda>n x. print_int n @ [44] @ print_ascii_str (u ''type'') @ [58] @ print_ascii_str (u (kind_value File)) @ [125] @ x"
  have "print_ascii_str digest @ ([44] @ print_ascii_str (u ''size'') @ [58] @ ?rest n x) =
      print_ascii_str digest' @ ([44] @ print_ascii_str (u ''size'') @ [58] @ ?rest n' y)"
    using assms(3) FileContent d by (simp add: entry_tail_def del: u_simps kind_value.simps)
  then have "digest = digest' \<and> [44] @ print_ascii_str (u ''size'') @ [58] @ ?rest n x = [44] @ print_ascii_str (u ''size'') @ [58] @ ?rest n' y"
    by (rule print_ascii_str_append [rotated 2]) (use assms(1,2) FileContent d in \<open>simp_all add: clean_content_def\<close>)
  then have "digest = digest'" "?rest n x = ?rest n' y" by simp_all
  then show ?thesis using print_int_append [of n _ n'] FileContent d by (auto simp del: u_simps kind_value.simps)
next
  case (LinkContent target)
  then obtain target' where d: "d = LinkContent target'"
    using assms(3) by (cases d) (auto simp: entry_tail_def entry_keys_printed simp del: u_simps kind_value.simps)
  let ?rest = "\<lambda>x. [44] @ print_ascii_str (u ''type'') @ [58] @ print_ascii_str (u (kind_value Symlink)) @ [125] @ x"
  have "print_ascii_str target @ ?rest x = print_ascii_str target' @ ?rest y"
    using assms(3) LinkContent d by (simp add: entry_tail_def del: u_simps kind_value.simps)
  then have "target = target' \<and> ?rest x = ?rest y"
    by (rule print_ascii_str_append [rotated 2]) (use assms(1,2) LinkContent d in \<open>simp_all add: clean_content_def\<close>)
  then show ?thesis using LinkContent d by simp
qed

lemma entry_line_append:
  assumes "clean_entry e" "clean_entry f" "entry_line e @ x = entry_line f @ y" shows "e = f \<and> x = y"
proof -
  let ?rest = "\<lambda>e x. [44] @ print_ascii_str (u ''path'') @ [58] @ print_ascii_str (me_path e) @ entry_tail (me_content e) @ x"
  have "print_ascii_str (me_mode e) @ ?rest e x = print_ascii_str (me_mode f) @ ?rest f y"
    using assms(3) by (simp add: entry_line_eq del: u_simps)
  then have m: "me_mode e = me_mode f \<and> ?rest e x = ?rest f y"
    by (rule print_ascii_str_append [rotated 2]) (use assms(1,2) in \<open>simp_all add: clean_entry_def\<close>)
  then have "print_ascii_str (me_path e) @ entry_tail (me_content e) @ x = print_ascii_str (me_path f) @ entry_tail (me_content f) @ y" by simp
  then have p: "me_path e = me_path f \<and> entry_tail (me_content e) @ x = entry_tail (me_content f) @ y"
    by (rule print_ascii_str_append [rotated 2]) (use assms(1,2) in \<open>simp_all add: clean_entry_def\<close>)
  then have "me_content e = me_content f \<and> x = y"
    using entry_tail_append [of "me_content e" "me_content f" x y] assms(1,2) by (simp add: clean_entry_def)
  then show ?thesis using m p by simp
qed

lemma entry_line_not_Nil: "entry_line e \<noteq> []"
  by (simp add: entry_line_def)

lemma tree_text_inj:
  assumes "list_all clean_entry es" "list_all clean_entry fs" "list_all scalar a" "list_all scalar b" "tree_text a es = tree_text b fs"
  shows "a = b \<and> es = fs"
proof -
  have lines: "xs = ys" if "list_all clean_entry xs" "list_all clean_entry ys"
    "concat (map (\<lambda>e. entry_line e @ [10]) xs) = concat (map (\<lambda>e. entry_line e @ [10]) ys)" for xs ys
    using that
  proof (induction xs arbitrary: ys)
    case Nil
    then show ?case by (cases ys) (simp_all add: entry_line_not_Nil)
  next
    case (Cons e xs)
    obtain f ys' where ys: "ys = f # ys'" using Cons.prems(3) by (cases ys) (simp_all add: entry_line_not_Nil)
    have "entry_line e @ (10 # concat (map (\<lambda>e. entry_line e @ [10]) xs)) = entry_line f @ (10 # concat (map (\<lambda>e. entry_line e @ [10]) ys'))"
      using Cons.prems(3) ys by simp
    then have "e = f \<and> 10 # concat (map (\<lambda>e. entry_line e @ [10]) xs) = 10 # concat (map (\<lambda>e. entry_line e @ [10]) ys')"
      by (rule entry_line_append [rotated 2]) (use Cons.prems(1,2) ys in simp_all)
    then show ?case using Cons.IH [of ys'] Cons.prems(1,2) ys by simp
  qed
  have dot: "list_all scalar (u ''.'')" by code_simp
  have "\<lparr>me_mode = a, me_path = u ''.'', me_content = DirectoryContent\<rparr> # es = \<lparr>me_mode = b, me_path = u ''.'', me_content = DirectoryContent\<rparr> # fs"
    by (rule lines) (use assms dot in \<open>simp_all add: tree_text_def clean_entry_def clean_content_def del: u_simps\<close>)
  then show ?thesis by simp
qed

lemma hex_code_ascii: "hex_code d < 256"
  by (simp add: hex_code_def)

lemma esc_ascii_byte: "x \<in> set (esc_ascii c) \<Longrightarrow> x < 256"
  by (auto simp: esc_ascii_def esc_char_def hex_four_def hex_code_ascii split: if_splits)

lemma print_ascii_str_byte: "x \<in> set (print_ascii_str s) \<Longrightarrow> x < 256"
  using esc_ascii_byte by (auto simp: print_ascii_str_def)

lemma print_int_byte: "x \<in> set (print_int i) \<Longrightarrow> x < 256"
  using print_int_chars [of x i] by auto

lemma entry_line_byte: "x \<in> set (entry_line e) \<Longrightarrow> x < 256"
  unfolding entry_line_eq entry_tail_def
  by (cases "me_content e") (auto dest: print_ascii_str_byte print_int_byte simp del: u_simps kind_value.simps)

lemma tree_text_byte: "x \<in> set (tree_text a es) \<Longrightarrow> x < 256"
  unfolding tree_text_def by (auto dest: entry_line_byte simp del: u_simps split: if_splits)

lemma tree_bytes_inj: assumes "tree_bytes a es = tree_bytes b fs" shows "tree_text a es = tree_text b fs"
proof (rule map_inj_on [OF assms [unfolded tree_bytes_def]])
  have "unat (word_of_nat x :: byte) = x" if "x < 256" for x using that by (simp add: unat_of_nat)
  then show "inj_on (word_of_nat :: nat \<Rightarrow> byte) (set (tree_text a es) \<union> set (tree_text b fs))"
    by (intro inj_on_inverseI [of _ unat]) (auto dest: tree_text_byte)
qed

lemma scalar_byte: "c < 256 \<Longrightarrow> scalar c"
  by (simp add: scalar_def is_surrogate_def)

lemma scalar_octal4: "list_all scalar (octal4 mode)"
  using scalar_u [of "digits_base 8 (nat mode)"] by (auto simp: octal4_def Let_def list_all_iff intro: scalar_byte)

lemma utf8_scalar: "utf8_encode s = Inr bs \<Longrightarrow> list_all scalar s"
proof -
  assume "utf8_encode s = Inr bs"
  then obtain xs where "mapE utf8_char s = Inr xs" by (auto simp: utf8_encode_def res_simps)
  then have "list_all2 (\<lambda>c b. utf8_char c = Inr b) s xs" by (simp add: mapE_eq_Inr_iff)
  then show ?thesis by (induction rule: list_all2_induct) (auto simp: utf8_char_def split: if_splits)
qed

lemma scalar_join: "list_all (list_all scalar) ps \<Longrightarrow> list_all scalar (join_path ps)"
  unfolding join_path_def by (induction "[slash]" ps rule: join_with.induct) (auto simp: slash_def intro: scalar_byte)

lemma scalar_member_path: assumes "member_ok base m" shows "list_all scalar (member_path m)"
proof -
  have "set (stripped_name m) \<subseteq> set (tm_name m)" by (auto simp: stripped_name_def dest: in_set_butlastD)
  then have s: "list_all scalar (stripped_name m)" using member_ok_parts(3) [OF assms] by (auto simp: list_all_iff)
  have "set c \<subseteq> set (stripped_name m)" if "c \<in> set (split_path (stripped_name m))" for c
    using that split_on_sub unfolding split_path_def by fast
  then have "list_all (list_all scalar) (split_path (stripped_name m))" using s unfolding list_all_iff by blast
  then show ?thesis unfolding member_path_def member_parts_def by (intro scalar_join) (cases "split_path (stripped_name m)"; simp)
qed

lemma member_entry_clean: assumes "member_ok base m" shows "clean_entry (member_entry m)"
proof -
  have "list_all scalar (tm_linkname m)" if "tm_type m = SymType"
  proof -
    have "validate_symlink (member_path m) (tm_linkname m) = Inr ()" using assms that by (simp add: member_ok_def)
    then obtain bs where "utf8_encode (tm_linkname m) = Inr bs" by (auto simp: validate_symlink_def contract_def split: sum.splits)
    then show ?thesis by (rule utf8_scalar)
  qed
  then have "clean_content (member_content m)"
    by (cases "tm_type m") (auto simp: clean_content_def member_content_def scalar_u)
  then show ?thesis using scalar_member_path [OF assms] by (simp add: clean_entry_def member_entry_def scalar_octal4)
qed

lemma archive_entries:
  assumes "inspect_members ms base = Inr (number, expanded, manifest)"
  shows "mset (am_entries manifest) = image_mset member_entry (mset (filter (\<lambda>m. member_parts m \<noteq> []) ms))"
    "sorted (map me_path (am_entries manifest))" "list_all clean_entry (am_entries manifest)" "list_all scalar (am_root_mode manifest)"
    "am_sha256 manifest = tree_sha256 (am_root_mode manifest) (am_entries manifest)"
proof -
  obtain st root_mode where s: "inspected base ms st" "check_layout st = Inr root_mode"
    "am_entries manifest = sort_key me_path (in_entries st)" "am_root_mode manifest = root_mode"
    "am_sha256 manifest = tree_sha256 root_mode (am_entries manifest)" using assms by (rule inspect_membersE)
  have e: "in_entries st = map member_entry (filter (\<lambda>m. member_parts m \<noteq> []) ms)" and ok: "list_all (member_ok base) ms"
    using s(1) by (simp_all add: inspected_def)
  show "mset (am_entries manifest) = image_mset member_entry (mset (filter (\<lambda>m. member_parts m \<noteq> []) ms))"
    "sorted (map me_path (am_entries manifest))" using s(3) e by simp_all
  show "list_all clean_entry (am_entries manifest)" using s(3) e ok member_entry_clean by (auto simp: list_all_iff)
  have "in_root_mode st = Some root_mode" by (rule check_layoutE(3) [OF s(2)])
  then have "map_option (\<lambda>m. octal4 (tm_mode m)) (find (\<lambda>m. member_parts m = []) ms) = Some root_mode"
    using s(1) by (simp add: inspected_def)
  then obtain n :: tar_member where "octal4 (tm_mode n) = root_mode" unfolding map_option_eq_Some by blast
  then show "list_all scalar (am_root_mode manifest)" using s(4) scalar_octal4 by metis
  show "am_sha256 manifest = tree_sha256 (am_root_mode manifest) (am_entries manifest)" using s(4,5) by simp
qed

lemma expanded_bytes:
  assumes "list_all (member_ok base) ms"
  shows "sum_list (map tm_size ms) = int (sum_list (map (\<lambda>m. length (tm_data m)) (filter (\<lambda>m. tm_type m = RegType) ms)))"
  using assms by (induction ms) (auto simp: member_ok_def split: if_splits)

section \<open>A sample archive\<close>

definition sample_member :: "string \<Rightarrow> member_type \<Rightarrow> int \<Rightarrow> bytes \<Rightarrow> ustr \<Rightarrow> tar_member" where
  "sample_member name ty mode data link =
     \<lparr>tm_name = u name, tm_type = ty, tm_mode = mode, tm_size = int (length data), tm_linkname = link, tm_pax_headers = [], tm_data = data\<rparr>"

definition sample_root :: ustr where "sample_root = u ''A.app''"

definition long_target :: ustr where
  "long_target = concat (replicate 32 (u ''lib/../'')) @ u ''lib''"

definition sample_members :: "tar_member list" where
  "sample_members =
     [sample_member ''A.app/'' DirType 493 [] [], sample_member ''A.app/Contents'' DirType 493 [] [],
      sample_member ''A.app/Contents/MacOS'' DirType 493 [] [], sample_member ''A.app/Contents/Info.plist'' RegType 420 [60, 63] [],
      sample_member ''A.app/Contents/MacOS/clash-for-mac'' RegType 493 [207, 250] [],
      sample_member ''A.app/Contents/lib'' SymType 511 [] (u ''MacOS''),
      sample_member ''A.app/Contents/far'' SymType 511 [] long_target,
      sample_member ''A.app/Contents/odd'' SymType 511 [] (u ''Info.plist/../MacOS'')]"

lemma sample_well_formed: "well_formed_archive sample_root sample_members"
  by code_simp

section \<open>Theorems\<close>

text \<open>
  C15: validate_strict_tar_gzip_stream accepts a decompressed stream exactly when it is a
  sequence of frames, each a header TarInfo.frombuf accepts with its padded payload and at most
  one zero block before it, within the limits on entries and extension metadata, closed by two
  zero blocks and nothing but zeros: no second archive can hide behind the first.
\<close>

theorem raw_stream_accepted_iff:
  "validate_strict_tar_stream limits source = Inr () \<longleftrightarrow>
     0 < fl_entries limits \<and> (\<exists>fs zs. source = concat (map frame_bytes fs) @ zero_block @ zero_block @ zs \<and>
       frames_ok limits 0 0 fs \<and> list_all (\<lambda>b. b = 0) zs)"
  unfolding validate_strict_tar_stream_def
  using accepted_frames [of limits 0 0 0 source] frames_accepted [of limits 0 0] by (auto simp: contract_def)

text \<open>The same lookup with the kernel's budget of links.\<close>

datatype lookup_result = Found "ustr list" | Escaped | Missing | NotDirectory | TooManyLinks

function kernel_lookup :: "(ustr list \<Rightarrow> tree_node option) \<Rightarrow> nat \<Rightarrow> ustr list \<Rightarrow> ustr list \<Rightarrow> lookup_result" where
  "kernel_lookup T budget cur [] = Found cur"
| "kernel_lookup T budget cur (c # cs) =
     (if T cur \<noteq> Some TreeDir then NotDirectory
      else if c = dotdot then if cur = [] then Escaped else kernel_lookup T budget (butlast cur) cs
      else case T (cur @ [c]) of
        None \<Rightarrow> Missing
      | Some (TreeLink t) \<Rightarrow> if budget = 0 then TooManyLinks else kernel_lookup T (budget - 1) cur (t @ cs)
      | Some _ \<Rightarrow> kernel_lookup T budget (cur @ [c]) cs)"
  by pat_completeness auto

termination
  by (relation "measures [\<lambda>(_, budget, _, _). budget, \<lambda>(_, _, _, cs). length cs]") auto

lemma sample_archive_accepted: "\<exists>r. inspect_members sample_members sample_root = Inr r"
  by (rule wf_accepted [OF sample_well_formed])

definition sample_link :: tar_member where "sample_link = sample_member ''A.app/Contents/far'' SymType 511 [] long_target"

lemma sample_link: "sample_link \<in> set sample_members" "tm_type sample_link = SymType"
  by (simp_all add: sample_members_def sample_link_def, simp add: sample_member_def)

text \<open>
  C12: The verdict on an archive does not depend on the order of its members: _inspect_archive
  accepts a list of members exactly when each is acceptable alone, the paths are distinct, the
  sizes and the number are within bounds, the fixed bundle layout is there, every proper
  ancestor of an entry is an explicit directory and every link resolves.
\<close>

theorem archive_accepted_iff:
  "(\<exists>r. inspect_members ms base = Inr r) \<longleftrightarrow> well_formed_archive base ms"
  using inspect_accepts_wf wf_accepted by blast

text \<open>
  C11: No symbolic link of an accepted updater archive leads out of the application: in the tree
  that extracting the members creates, every position a kernel's lookup of the link's target
  passes through, following further links and .. physically, is a directory or file of the
  archive, and every name it asks a directory for exists.
\<close>

theorem symlink_lookup_confined:
  assumes "inspect_members ms base = Inr (number, expanded, manifest)" "m \<in> set ms" "tm_type m = SymType"
    and "(lookup_step (extracted ms))\<^sup>*\<^sup>* (Inside (butlast (member_parts m)), split_path (tm_linkname m)) (pos, todo)"
  shows "\<exists>cur. pos = Inside cur \<and> extracted ms cur \<in> {Some TreeDir, Some TreeFile} \<and>
    (\<forall>c cs. todo = c # cs \<and> c \<noteq> dotdot \<and> extracted ms cur = Some TreeDir \<longrightarrow> extracted ms (cur @ [c]) \<noteq> None)"
  using confined_reach [OF assms(4) archive_link_confined [OF assms(1-3)]]
  by (auto simp: in_tree_def split: position.splits list.splits)

theorem symlink_lookup_confined_witness:
  "\<exists>number expanded manifest. inspect_members sample_members sample_root = Inr (number, expanded, manifest) \<and>
   sample_link \<in> set sample_members \<and> tm_type sample_link = SymType \<and>
   (let start = (Inside (butlast (member_parts sample_link)), split_path (tm_linkname sample_link)) in
    (lookup_step (extracted sample_members))\<^sup>*\<^sup>* start start \<and>
    (\<exists>cur. fst start = Inside cur \<and> extracted sample_members cur \<in> {Some TreeDir, Some TreeFile} \<and>
      (\<forall>c cs. snd start = c # cs \<and> c \<noteq> dotdot \<and> extracted sample_members cur = Some TreeDir \<longrightarrow>
        extracted sample_members (cur @ [c]) \<noteq> None)))"
proof -
  obtain number expanded manifest where r: "inspect_members sample_members sample_root = Inr (number, expanded, manifest)"
    using sample_archive_accepted by (metis prod_cases3)
  show ?thesis unfolding Let_def fst_conv snd_conv
    using r sample_link symlink_lookup_confined [OF r sample_link rtranclp.rtrancl_refl] by blast
qed

text \<open>
  C13: Accepted links are not circular: no infinite sequence of lookup steps starts at the
  target of a symbolic link of an accepted archive.
\<close>

theorem symlink_lookup_terminates:
  assumes "inspect_members ms base = Inr (number, expanded, manifest)" "m \<in> set ms" "tm_type m = SymType"
    and "run 0 = (Inside (butlast (member_parts m)), split_path (tm_linkname m))"
  shows "\<exists>i. \<not> lookup_step (extracted ms) (run i) (run (Suc i))"
  by (rule confined_ends [where f = run, OF archive_link_confined [OF assms(1-3)] assms(4)])

theorem symlink_lookup_terminates_witness:
  "\<exists>number expanded manifest. inspect_members sample_members sample_root = Inr (number, expanded, manifest) \<and>
   sample_link \<in> set sample_members \<and> tm_type sample_link = SymType \<and>
   (let run = (\<lambda>i :: nat. (Inside (butlast (member_parts sample_link)), split_path (tm_linkname sample_link))) in
    run 0 = (Inside (butlast (member_parts sample_link)), split_path (tm_linkname sample_link)) \<and>
    (\<exists>i. \<not> lookup_step (extracted sample_members) (run i) (run (Suc i))))"
proof -
  obtain number expanded manifest where r: "inspect_members sample_members sample_root = Inr (number, expanded, manifest)"
    using sample_archive_accepted by (metis prod_cases3)
  show ?thesis unfolding Let_def
    using r sample_link symlink_lookup_terminates [OF r sample_link, where run = "\<lambda>i. (Inside (butlast (member_parts sample_link)), split_path (tm_linkname sample_link))"]
    by blast
qed

text \<open>
  C16: The members of an accepted archive form a tree: every proper prefix of a member's path is
  a directory member, and no path component is empty, . or .., so extraction never goes through
  a link or out of the root.
\<close>

theorem archive_members_form_tree:
  assumes "inspect_members ms base = Inr (number, expanded, manifest)" "m \<in> set ms" "k < length (member_parts m)"
  shows "extracted ms (take k (member_parts m)) = Some TreeDir \<and> good_part (member_parts m ! k)"
proof -
  obtain st root_mode where i: "inspected base ms st" and l: "check_layout st = Inr root_mode" using assms(1) by (rule inspect_membersE)
  note a = inspected_agrees [OF i l]
  have ok: "member_ok base m" using i assms(2) by (simp add: inspected_def list_all_iff)
  have e: "extracted ms (member_parts m) \<noteq> None" unfolding extracted_def map_of_eq_None_iff using assms(2) by force
  have "k \<le> length (member_parts m) \<Longrightarrow> extracted ms (take k (member_parts m)) \<noteq> None \<and>
      (k < length (member_parts m) \<longrightarrow> extracted ms (take k (member_parts m)) = Some TreeDir)" for k
  proof (induction "length (member_parts m) - k" arbitrary: k)
    case 0
    then show ?case using e by simp
  next
    case (Suc d)
    then have k: "k < length (member_parts m)" by simp
    then have "extracted ms (take (Suc k) (member_parts m)) \<noteq> None" using Suc.hyps(1) [of "Suc k"] Suc.hyps(2) by simp
    then have "extracted ms (take k (member_parts m)) = Some TreeDir"
      using agrees_parent [OF a, of "take (Suc k) (member_parts m)"] k by (cases "member_parts m = []") (simp_all add: butlast_take)
    then show ?case by simp
  qed
  then show ?thesis using assms(3) member_ok_parts(1) [OF ok] by (simp add: list_all_length)
qed

theorem archive_members_form_tree_witness:
  "\<exists>number expanded manifest. inspect_members sample_members sample_root = Inr (number, expanded, manifest) \<and>
   sample_link \<in> set sample_members \<and> 1 < length (member_parts sample_link) \<and>
   extracted sample_members (take 1 (member_parts sample_link)) = Some TreeDir \<and> good_part (member_parts sample_link ! 1)"
proof -
  obtain number expanded manifest where r: "inspect_members sample_members sample_root = Inr (number, expanded, manifest)"
    using sample_archive_accepted by (metis prod_cases3)
  have "1 < length (member_parts sample_link)" by code_simp
  then show ?thesis using r sample_link archive_members_form_tree [OF r sample_link(1)] by blast
qed


text \<open>
  C14: The tree digest identifies the application: two accepted archives with the same
  sha256-tree-v2 digest have the same root mode and the same entries (paths, modes, kinds,
  sizes, content digests, link targets), unless the two encodings of their trees are a SHA-256
  collision.
\<close>

theorem archive_digest_commits:
  assumes "inspect_members ms base = Inr (number, expanded, manifest)" "inspect_members ms' base' = Inr (number', expanded', manifest')"
    and "am_sha256 manifest = am_sha256 manifest'"
    and "tree_bytes (am_root_mode manifest) (am_entries manifest) \<noteq> tree_bytes (am_root_mode manifest') (am_entries manifest') \<Longrightarrow>
      sha256_hex (tree_bytes (am_root_mode manifest) (am_entries manifest)) \<noteq>
      sha256_hex (tree_bytes (am_root_mode manifest') (am_entries manifest'))"
  shows "am_root_mode manifest = am_root_mode manifest' \<and> am_entries manifest = am_entries manifest'"
proof -
  note a = archive_entries [OF assms(1)] and b = archive_entries [OF assms(2)]
  have "sha256_hex (tree_bytes (am_root_mode manifest) (am_entries manifest)) = sha256_hex (tree_bytes (am_root_mode manifest') (am_entries manifest'))"
    using assms(3) a(5) b(5) by (simp add: tree_sha256_def)
  then have "tree_bytes (am_root_mode manifest) (am_entries manifest) = tree_bytes (am_root_mode manifest') (am_entries manifest')"
    using assms(4) by blast
  then show ?thesis using tree_text_inj [OF a(3) b(3) a(4) b(4) tree_bytes_inj] by blast
qed

text \<open>
  C17: The numbers reported for an accepted archive are the number of its members, at most
  50000, and the total of the bytes of its file payloads, at most 1 GiB; the manifest has one
  entry per member but the root.
\<close>

theorem archive_bounds:
  assumes "inspect_members ms base = Inr (number, expanded, manifest)"
  shows "number = length ms \<and> number \<le> 50000 \<and> expanded \<le> 2 ^ 30 \<and> length (am_entries manifest) = number - 1 \<and>
    expanded = int (sum_list (map (\<lambda>m. length (tm_data m)) (filter (\<lambda>m. tm_type m = RegType) ms)))"
proof -
  obtain st root_mode where s: "inspected base ms st" "check_layout st = Inr root_mode" "number = in_count st" "expanded = in_expanded st"
    "am_entries manifest = sort_key me_path (in_entries st)" using assms by (rule inspect_membersE)
  obtain m where m: "m \<in> set ms" "member_path m = []"
    using inspected_member(1) [OF s(1) check_layoutE(1) [OF s(2), of "[]" Directory]] by (auto simp: required_layout_def)
  have i: "length ms \<le> MAX_ENTRY_COUNT" "list_all (member_ok base) ms" "distinct (map member_path ms)"
    "in_entries st = map member_entry (filter (\<lambda>m. member_parts m \<noteq> []) ms)" "in_count st = length ms"
    "in_expanded st = sum_list (map tm_size ms)" "in_expanded st \<le> MAX_EXPANDED_BYTES"
    using s(1) by (simp_all add: inspected_def)
  have nil: "member_parts n = [] \<longleftrightarrow> member_path n = member_path m" if "n \<in> set ms" for n
    using that i(2) m(2) join_path_Nil [OF good_plain [OF member_ok_parts(1)]] by (auto simp: list_all_iff member_path_def)
  have "filter (\<lambda>n. member_parts n \<noteq> []) ms = filter (\<lambda>n. member_path n \<noteq> member_path m) ms" by (rule filter_cong) (use nil in auto)
  moreover have "length (filter (\<lambda>n. g n \<noteq> g m) xs) = length xs - 1" if "distinct (map g xs)" "m \<in> set xs" for g :: "tar_member \<Rightarrow> ustr" and xs
    using that
  proof (induction xs)
    case (Cons a xs)
    show ?case
    proof (cases "a = m")
      case True
      then have "filter (\<lambda>n. g n \<noteq> g m) xs = xs" using Cons.prems(1) by (auto simp: filter_id_conv image_iff)
      then show ?thesis using True by simp
    next
      case False
      then have "m \<in> set xs" "g a \<noteq> g m" using Cons.prems by (auto simp: image_iff)
      then show ?thesis using Cons by (cases xs) auto
    qed
  qed simp
  ultimately have "length (am_entries manifest) = length ms - 1" using s(5) i(3,4) m(1) by simp
  then show ?thesis using s(3,4) i(1,5,6,7) expanded_bytes [OF i(2)] by (simp add: MAX_ENTRY_COUNT_def MAX_EXPANDED_BYTES_def)
qed


theorem archive_digest_commits_witness:
  "\<exists>number expanded manifest. inspect_members sample_members sample_root = Inr (number, expanded, manifest) \<and>
   am_root_mode manifest = am_root_mode manifest \<and> am_entries manifest = am_entries manifest"
proof -
  obtain number expanded manifest where r: "inspect_members sample_members sample_root = Inr (number, expanded, manifest)"
    using wf_accepted [OF sample_well_formed] by (metis prod_cases3)
  show ?thesis using r archive_digest_commits [OF r r refl] by blast
qed

theorem archive_bounds_witness:
  "\<exists>number expanded manifest. inspect_members sample_members sample_root = Inr (number, expanded, manifest) \<and>
   number = length sample_members \<and> number \<le> 50000 \<and> expanded \<le> 2 ^ 30 \<and> length (am_entries manifest) = number - 1 \<and>
    expanded = int (sum_list (map (\<lambda>m. length (tm_data m)) (filter (\<lambda>m. tm_type m = RegType) sample_members)))"
proof -
  obtain number expanded manifest where r: "inspect_members sample_members sample_root = Inr (number, expanded, manifest)"
    using wf_accepted [OF sample_well_formed] by (metis prod_cases3)
  show ?thesis using r archive_bounds [OF r] by blast
qed

end
