(* ===== verification/Spec2Isabelle.thy ===== *)
theory Spec2Isabelle
  imports Packet_Samples Artifact_Samples Capture_Transaction Capture_Resolution Updater_Contract
begin

text \<open>
  A verification development for the release-evidence tooling of cfw-rs, the Python programs under
  \<open>src/scripts\<close> that judge whether a physical capture proves what a release claims.

  \<^bold>\<open>Parts.\<close> A packet capture is a pcap or pcapng file taken beside the machine under test.
  \<open>scripts/harness/packet_capture.py\<close> parses it, decodes every record down to its transport payload,
  finds the start marker, the token and the end marker of a test case in the decoded application data
  (UDP payloads, reassembled TCP streams, DNS transactions, QUIC connection ids) and returns a proof
  record, or raises \<open>PacketCaptureError\<close>. \<open>scripts/harness/raw_artifacts.py\<close> is the layer below the
  evidence documents: strict and canonical JSON, typed artifact descriptors, a reader that accounts
  for every artifact below an evidence root, the collector's PS256 signatures and the pinned trust
  policy. \<open>scripts/physical_capture\<close> runs a collection: \<open>archive.py\<close> is a private directory tree with
  exclusive durable writes, \<open>session.py\<close> an append-only hash-chained journal of a fixed state machine
  in that archive, \<open>observation.py\<close> the manifest that freezes the observations, and \<open>transaction.py\<close>
  sends the two one-shot requests to the collector services through the client of \<open>cloud_run.py\<close>.
  \<open>validate_updater_archive.py\<close> is the release gate on the archive that the updater will install.

  \<^bold>\<open>Theories.\<close>
  \<^item> \<open>Prelude\<close>: exceptions as values (\<open>exn\<close>, \<open>'a res\<close>), sequencing (\<open>bindE\<close>, \<open>mapE\<close>, \<open>foldE\<close>), the
    predicate \<open>raises_only\<close> with its rule collections, Python slices, and the locale \<open>stream_loop\<close> of
    a loop that consumes a byte string step by step.
  \<^item> \<open>Py_Data\<close>, \<open>Py_Text\<close>: \<open>struct\<close>, \<open>int.from_bytes\<close>, indexing, ASCII text, \<open>find\<close>, \<open>split\<close>, \<open>join\<close>.
  \<^item> \<open>Ip_Address\<close>: the part of Python's \<open>ipaddress\<close> the source uses. \<open>Sha256\<close>: \<open>hashlib.sha256\<close>.
  \<^item> \<open>Packet_Capture\<close>: \<open>_parse_options\<close>, \<open>_capture_pcap\<close>, \<open>_capture_pcapng\<close>, \<open>parse_packet_capture\<close>;
    the three loops interpret \<open>stream_loop\<close>. The lemmas show that parsing is total up to
    \<open>PacketCaptureError\<close>, that accepted captures are well formed, and that the accepted classic
    captures are exactly the encodings of well-formed packet lists.
  \<^item> \<open>Packet_Decode\<close>: \<open>_network_payload\<close> to \<open>_decode_transport\<close>, \<open>_dns_name\<close>, \<open>_dns_message\<close>,
    \<open>_quic_connection_ids\<close>; round trips with reference encoders, bounds of DNS names.
  \<^item> \<open>Packet_Evidence\<close>: token search, TCP reassembly, DNS transactions and exchanges, TCP stages;
    soundness and completeness of reassembly, causality of DNS transactions, accounting of records.
  \<^item> \<open>Packet_Validate\<close>: \<open>validate_capture_tokens\<close>, \<open>validate_staged_capture_tokens\<close> and the producers'
    \<open>dns_stage_endpoints\<close>, \<open>dns_resolver_leg_stage_endpoints\<close>, \<open>staged_marker_window\<close>; what an accepted
    proof says about the capture.
  \<^item> \<open>Packet_Samples\<close>: concrete captures at which the theorems apply.
  \<^item> \<open>Py_Json\<close>: Python's \<open>json\<close> (printer, scanner, hooks), UTF-8 and the repr of floats; the locale
    \<open>plain_hooks\<close> of loaders that read back what the printer writes.
  \<^item> \<open>Raw_Artifacts\<close>: \<open>exact_object\<close>, the scalar checks, \<open>canonical_json\<close>, \<open>load_json_bytes\<close>,
    \<open>parse_descriptor\<close>, \<open>parse_proof_binding\<close>; the JSON round trip and the errors that can escape.
  \<^item> \<open>Collector_Signature\<close>: \<open>base64url_decode\<close>, \<open>mgf1_sha256\<close>, \<open>verify_ps256\<close>, the DER encoding of RSA keys
    and \<open>parse_trust_policy_bytes\<close>; verification is PSS, the pinned digest determines the key.
  \<^item> \<open>Artifact_Reader\<close>: \<open>ArtifactReader\<close> with the answers of the operating system as arguments;
    accounting of what was read, over any sequence of reads. \<open>Artifact_Samples\<close>: samples.
  \<^item> \<open>Capture_Journal\<close>: \<open>CaptureState\<close>, \<open>CaptureEvent\<close>, \<open>_transition_for\<close>, timestamps, event documents and
    \<open>_validate_event_bytes\<close>; accepted journals are exactly the runs of the transitions, their last
    digest determines them, and a finalized one followed the whole protocol.
  \<^item> \<open>Py_State\<close>, \<open>Py_Os\<close>: stateful code with exceptions and the death of the process; system calls on
    an explicit file system, each of which may fail, write short or never return.
  \<^item> \<open>Capture_Archive\<close>: \<open>SecureArchive\<close> as sequences of these calls. The locale \<open>archive_relation\<close> states
    what a relation between worlds must allow for every operation to keep it; its interpretations
    give the frame, the preservation of published files and the exact extent of a write.
  \<^item> \<open>Capture_Observation\<close>: the manifest that freezes the observations, \<open>observation.py\<close>.
  \<^item> \<open>Capture_Session\<close>, \<open>Capture_Recovery\<close>: \<open>PhysicalCaptureSession\<close>, its journal files, appending,
    replaying, opening, recovery with resolution intents and the quarantine of sessions without a first
    event. \<open>Capture_Consistency\<close>: the locale \<open>session_policy\<close> carries the archive's contracts to every
    session operation; appending and replaying on disk refine the journal of \<open>Capture_Journal\<close>.
    \<open>Capture_Resolution\<close>: the limits of recovery with resolution intents.
  \<^item> \<open>Cloud_Run\<close>: \<open>cloud_run.py\<close>, the client of the two collector services, with the answers of \<open>gcloud\<close> and
    of the HTTPS connection as scripts of the world; what its one POST can leave behind.
    \<open>Capture_Transaction\<close>: \<open>transaction.py\<close>, which records each POST in the journal before it is sent; the
    locale \<open>cloud_client\<close> is the law it needs of its client, and over all histories of calls, restarts and
    faults each role is POSTed at most once.
  \<^item> \<open>Updater_Archive\<close>, \<open>Updater_Contract\<close>: \<open>validate_updater_archive.py\<close>, the contract of the updater's tar
    archive: the framing of the stream with \<open>TarInfo.frombuf\<close>, the checks of each member, the manifest with
    its tree digest and the resolution of symbolic links. An inductive lookup in the extracted tree is the
    specification of the links; acceptance has an order-free characterization.

  \<^bold>\<open>Conventions.\<close> Bytes are 8-bit words, Python integers \<open>nat\<close> or \<open>int\<close>, fractions \<open>rat\<close>, ASCII text
  \<open>string\<close>. A raised exception is the value \<open>Inl e\<close>; the text of a message keeps \<open>{}\<close> where the source
  interpolates a value. Loops are recursive functions with a termination proof, so no fuel is needed:
  each consumes input, and the DNS name decoder is bounded by its pointer depth (8) and label count.
  A run of the archive carries the list of the faults its system calls meet, so that a theorem about
  every world is a theorem about every failure and every moment of death; reads and comparisons of
  file identities assume that nobody else changes the private tree during a call, and a killed process
  keeps what its completed calls did (a loss of power after them is not modelled).

  \<^bold>\<open>Not modelled.\<close> \<open>timestamp_fraction\<close> (ISO-8601 text through \<open>datetime\<close>); copying files from outside
  into the archive, the checks of the repository directory above it and the commands of producers; loading the endpoint
  policy, running \<open>gcloud\<close> and TLS; gzip and the iteration of \<open>tarfile\<close> over members; the capture producers, and the release, signing, notarization and publication programs, whose effects are processes, devices,
  network services and the file system.
\<close>

end
